(* ===== verification/Prelude.thy ===== *)
theory Prelude
  imports Complex_Main "HOL-Library.Word" "HOL-Library.AList"
begin

text \<open>
  Shared vocabulary of the development: bytes, time, Python exceptions as values, Python
  dictionaries as insertion-ordered association lists, big-endian integer fields and the
  \<open>struct\<close> module as the sources use it, and generic lemmas on lists and maps.

  Python integers are \<open>int\<close>; a Python \<open>float\<close> used as a time or a duration is a
  \<open>real\<close> (IEEE rounding is not modelled); \<open>bytes\<close> is a list of \<open>8 word\<close>.
  A call that may raise returns \<open>Inl e\<close> for the exception \<open>e\<close> and \<open>Inr v\<close> for its
  value; a method that also mutates its object returns the object's new state beside the
  result, so that the state left behind by a raise is visible.
\<close>

section \<open>Types\<close>

type_synonym byte = "8 word"
type_synonym bytes = "byte list"
type_synonym time = real

datatype py_error =
    StructError
  | MalformedPacketError
  | ChecksumError
  | ValueError
  | KeyError
  | TypeError
  | RuntimeError
  | QRCapacityError
  | Cv2Error
  | SessionCancelled

text \<open>The exceptions that \<open>except PacketError\<close> catches.\<close>

definition is_packet_error :: "py_error \<Rightarrow> bool" where
  "is_packet_error e \<longleftrightarrow> e = MalformedPacketError \<or> e = ChecksumError"

type_synonym 'a result = "py_error + 'a"

named_theorems field_simps_pt "field access of updated records"
named_theorems step_defs "definitions of the operations of a component"

section \<open>Python dictionaries\<close>

text \<open>
  A dictionary keeps its keys in insertion order; storing to a present key keeps the
  position, storing to an absent one appends. That is \<open>AList.update\<close> on an association
  list; \<open>AList.delete\<close> removes a key, \<open>map_of\<close> looks it up.
\<close>

type_synonym ('k, 'v) dict = "('k \<times> 'v) list"

abbreviation dict_keys :: "('k, 'v) dict \<Rightarrow> 'k list" where
  "dict_keys d \<equiv> map fst d"

definition dict_mem :: "'k \<Rightarrow> ('k, 'v) dict \<Rightarrow> bool" where
  "dict_mem k d \<longleftrightarrow> map_of d k \<noteq> None"

lemma dict_mem_keys: "dict_mem k d \<longleftrightarrow> k \<in> set (dict_keys d)"
  by (auto simp: dict_mem_def map_of_eq_None_iff)

lemma dict_mem_Nil [simp]: "\<not> dict_mem k []"
  by (simp add: dict_mem_def)

lemma length_delete_mem:
  "dict_mem k d \<Longrightarrow> length (AList.delete k d) < length d"
proof (induction d)
  case Nil
  then show ?case by simp
next
  case (Cons x d)
  obtain j v where x: "x = (j, v)" by force
  have "length (AList.delete k d) \<le> length d" by (rule length_delete_le)
  with Cons x show ?case by (auto simp: dict_mem_def split: if_splits)
qed

lemma update_append:
  "\<not> dict_mem k d \<Longrightarrow> AList.update k v d = d @ [(k, v)]"
  by (induction d) (auto simp: dict_mem_def split: if_splits)

lemma distinct_keys_update:
  "distinct (dict_keys d) \<Longrightarrow> distinct (dict_keys (AList.update k v d))"
  by (rule distinct_update)

lemma distinct_keys_delete:
  "distinct (dict_keys d) \<Longrightarrow> distinct (dict_keys (AList.delete k d))"
  by (simp add: delete_keys distinct_removeAll)

lemma keys_delete: "set (dict_keys (AList.delete k d)) = set (dict_keys d) - {k}"
  by (simp add: delete_keys)

lemma keys_update: "set (dict_keys (AList.update k v d)) = insert k (set (dict_keys d))"
  using dom_update [of k v d] by simp

lemma set_delete: "distinct (dict_keys d) \<Longrightarrow> set (AList.delete k d) = {(j, v) \<in> set d. j \<noteq> k}"
  by (auto simp: AList.delete_eq)

lemma set_update_distinct:
  "distinct (dict_keys d) \<Longrightarrow>
   set (AList.update k v d) = insert (k, v) {(j, w) \<in> set d. j \<noteq> k}"
proof (induction d)
  case Nil
  then show ?case by simp
next
  case (Cons x d)
  obtain j w where x: "x = (j, w)" by force
  have "k \<noteq> j" if "j \<noteq> k" using that by simp
  from Cons x show ?case by (auto simp: image_iff)
qed

lemma set_update_subset: "set (AList.update k v d) \<subseteq> insert (k, v) (set d)"
  by (induction d) auto

lemma length_update:
  "length (AList.update k v d) = (if dict_mem k d then length d else Suc (length d))"
  by (induction d) (auto simp: dict_mem_def split: if_splits)

lemma length_delete_distinct:
  "distinct (dict_keys d) \<Longrightarrow>
   length (AList.delete k d) = (if dict_mem k d then length d - 1 else length d)"
proof (induction d)
  case Nil
  then show ?case by simp
next
  case (Cons x d)
  obtain j v where x: "x = (j, v)" by force
  show ?case
  proof (cases "j = k")
    case True
    with Cons.prems x have "k \<notin> fst ` set d" by (simp add: image_iff)
    with True x show ?thesis by (simp add: dict_mem_def)
  next
    case False
    moreover from Cons have "length (AList.delete k d) = (if dict_mem k d then length d - 1 else length d)"
      by simp
    moreover have "length d \<noteq> 0" if "dict_mem k d" using that by (cases d) auto
    ultimately show ?thesis using x by (auto simp: dict_mem_def)
  qed
qed

lemma map_of_in_set: "map_of d k = Some v \<Longrightarrow> (k, v) \<in> set d"
  by (rule map_of_SomeD)

lemma set_in_map_of: "distinct (dict_keys d) \<Longrightarrow> (k, v) \<in> set d \<Longrightarrow> map_of d k = Some v"
  by (rule map_of_is_SomeI)

section \<open>Slices\<close>

text \<open>
  \<open>[data[i:i+n] for i in range(0, len(data), n)]\<close>: \<open>range\<close> with step \<open>n\<close> has
  \<open>ceil(len / n)\<close> elements \<open>0, n, 2n, \<dots>\<close>.
\<close>

definition py_slices :: "nat \<Rightarrow> 'a list \<Rightarrow> 'a list list" where
  "py_slices n xs = map (\<lambda>k. take n (drop (k * n) xs)) [0..<(length xs + n - 1) div n]"

lemma py_slices_Nil [simp]: "0 < n \<Longrightarrow> py_slices n [] = []"
  by (simp add: py_slices_def)

lemma ceil_step:
  assumes "0 < n" and "0 < (m::nat)"
  shows "(m + n - 1) div n = Suc ((m - n + n - 1) div n)"
proof (cases "m \<le> n")
  case True
  with assms have e: "m + n - 1 = (m - 1) + n" and l: "m - 1 < n" by auto
  have "(m + n - 1) div n = (m - 1) div n + 1"
    unfolding e by (rule div_add_self2) (use assms in simp)
  moreover have "(m - 1) div n = 0" using l by simp
  moreover from True assms have "(m - n + n - 1) div n = 0" by simp
  ultimately show ?thesis by simp
next
  case False
  with assms have e: "m + n - 1 = (m - n + n - 1) + n" by auto
  have "(m + n - 1) div n = (m - n + n - 1) div n + 1"
    unfolding e by (rule div_add_self2) (use assms in simp)
  then show ?thesis by simp
qed

lemma py_slices_step:
  assumes "0 < n" and "xs \<noteq> []"
  shows "py_slices n xs = take n xs # py_slices n (drop n xs)"
proof -
  let ?c = "(length xs - n + n - 1) div n"
  have c: "(length xs + n - 1) div n = Suc ?c"
    using assms by (intro ceil_step) auto
  have "py_slices n xs = map (\<lambda>k. take n (drop (k * n) xs)) (0 # map Suc [0..<?c])"
    unfolding py_slices_def c using upt_conv_Cons [of 0 "Suc ?c"] map_Suc_upt [of 0 ?c] by simp
  also have "\<dots> = take n xs # map (\<lambda>k. take n (drop (n + k * n) xs)) [0..<?c]"
    by (simp add: comp_def)
  also have "map (\<lambda>k. take n (drop (n + k * n) xs)) [0..<?c] = py_slices n (drop n xs)"
    by (simp add: py_slices_def add.commute)
  finally show ?thesis .
qed

lemma py_slices_induct [consumes 1, case_names Nil step]:
  assumes "0 < n" and "P []"
    and "\<And>xs. xs \<noteq> [] \<Longrightarrow> P (drop n xs) \<Longrightarrow> P xs"
  shows "P xs"
proof (induction xs rule: length_induct)
  case (1 xs)
  show ?case
  proof (cases "xs = []")
    case True
    with assms show ?thesis by simp
  next
    case False
    then have "length (drop n xs) < length xs" using assms(1) by (cases xs) auto
    with 1 False assms(3) show ?thesis by blast
  qed
qed

lemma concat_py_slices: "0 < n \<Longrightarrow> concat (py_slices n xs) = xs"
proof (induction xs rule: py_slices_induct)
  case Nil
  then show ?case by (simp add: py_slices_def)
next
  case (step xs)
  then show ?case by (cases "n = 0") (simp_all add: py_slices_step)
qed

lemma py_slices_bounds:
  assumes "0 < n"
  shows "\<forall>c \<in> set (py_slices n xs). c \<noteq> [] \<and> length c \<le> n"
  using assms
proof (induction xs rule: py_slices_induct)
  case Nil
  show ?case using assms by simp
next
  case (step xs)
  from assms step(1) have e: "py_slices n xs = take n xs # py_slices n (drop n xs)"
    by (rule py_slices_step)
  from step assms show ?case unfolding e by simp
qed

section \<open>Optional values\<close>

text \<open>The loop \<open>if x is not None: out.append(x)\<close>.\<close>

fun opt_list :: "'a option \<Rightarrow> 'a list" where
  "opt_list None = []"
| "opt_list (Some x) = [x]"

lemma set_opt_list: "set (opt_list o') = set_option o'"
  by (cases o') simp_all

end
