(* ===== verification/Py_Struct.thy ===== *)
theory Py_Struct
  imports Prelude
begin

text \<open>
  The part of Python's \<open>struct\<close> module the sources use: big-endian unsigned fields
  \<open>B\<close>, \<open>H\<close> and \<open>I\<close>. Packing a value outside its field raises \<open>struct.error\<close>
  (here \<open>StructError\<close>); unpacking a buffer of the wrong size does too.
\<close>

section \<open>Big-endian integers\<close>

fun be_encode :: "nat \<Rightarrow> int \<Rightarrow> bytes" where
  "be_encode 0 v = []"
| "be_encode (Suc n) v = be_encode n (v div 256) @ [word_of_int v]"

definition be_decode :: "bytes \<Rightarrow> int" where
  "be_decode bs = foldl (\<lambda>a b. a * 256 + uint b) 0 bs"

definition fits :: "nat \<Rightarrow> int \<Rightarrow> bool" where
  "fits n v \<longleftrightarrow> 0 \<le> v \<and> v < 256 ^ n"

lemma length_be_encode [simp]: "length (be_encode n v) = n"
  by (induction n arbitrary: v) auto

lemma be_decode_Nil [simp]: "be_decode [] = 0"
  by (simp add: be_decode_def)

lemma be_decode_snoc [simp]: "be_decode (bs @ [b]) = be_decode bs * 256 + uint b"
  by (simp add: be_decode_def)

lemma uint_byte_range: "0 \<le> uint (b :: byte) \<and> uint b < 256"
  using uint_lt2p [of b] by simp

lemma be_decode_fits: "fits (length bs) (be_decode bs)"
proof (induction bs rule: rev_induct)
  case Nil
  then show ?case by (simp add: fits_def)
next
  case (snoc b bs)
  have "uint b < 256" and "0 \<le> uint b" using uint_byte_range by auto
  with snoc show ?case by (auto simp: fits_def)
qed

lemma be_decode_encode: "fits n v \<Longrightarrow> be_decode (be_encode n v) = v"
proof (induction n arbitrary: v)
  case 0
  then show ?case by (simp add: fits_def)
next
  case (Suc n)
  then have "fits n (v div 256)" by (auto simp: fits_def)
  then have "be_decode (be_encode n (v div 256)) = v div 256" by (rule Suc.IH)
  then show ?case by (simp add: uint_word_of_int)
qed

lemma be_encode_decode: "be_encode (length bs) (be_decode bs) = bs"
proof (induction bs rule: rev_induct)
  case Nil
  then show ?case by simp
next
  case (snoc b bs)
  have r: "0 \<le> uint b" "uint b < 256" using uint_byte_range by auto
  then have "(be_decode bs * 256 + uint b) div 256 = be_decode bs" by simp
  moreover have "word_of_int (be_decode bs * 256 + uint b) = b"
  proof -
    have "(256 :: byte) = 0" by simp
    then show ?thesis by (simp only: of_int_add of_int_mult of_int_numeral) simp
  qed
  ultimately show ?case using snoc by simp
qed

lemma be_decode_inj: "length xs = length ys \<Longrightarrow> be_decode xs = be_decode ys \<Longrightarrow> xs = ys"
  by (metis be_encode_decode)

lemma be_decode_zeros: "be_decode (replicate n 0) = 0"
  by (induction n) (simp_all add: replicate_append_same [symmetric])

section \<open>Formats\<close>

text \<open>The width in bytes of each format character; \<open>>\<close> selects big-endian, no padding.\<close>

fun struct_widths :: "string \<Rightarrow> nat list" where
  "struct_widths [] = []"
| "struct_widths (c # cs) =
     (if c = CHR ''B'' then 1 # struct_widths cs
      else if c = CHR ''H'' then 2 # struct_widths cs
      else if c = CHR ''I'' then 4 # struct_widths cs
      else struct_widths cs)"

definition calcsize :: "string \<Rightarrow> nat" where
  "calcsize fmt = sum_list (struct_widths fmt)"

fun pack_fields :: "nat list \<Rightarrow> int list \<Rightarrow> bytes result" where
  "pack_fields [] [] = Inr []"
| "pack_fields (w # ws) (v # vs) =
     (if fits w v then
        (case pack_fields ws vs of Inl e \<Rightarrow> Inl e | Inr bs \<Rightarrow> Inr (be_encode w v @ bs))
      else Inl StructError)"
| "pack_fields ws vs = Inl StructError"

definition struct_pack :: "string \<Rightarrow> int list \<Rightarrow> bytes result" where
  "struct_pack fmt vs = pack_fields (struct_widths fmt) vs"

fun unpack_fields :: "nat list \<Rightarrow> bytes \<Rightarrow> int list" where
  "unpack_fields [] bs = []"
| "unpack_fields (w # ws) bs = be_decode (take w bs) # unpack_fields ws (drop w bs)"

definition struct_unpack :: "string \<Rightarrow> bytes \<Rightarrow> (int list) result" where
  "struct_unpack fmt bs =
     (if length bs = calcsize fmt then Inr (unpack_fields (struct_widths fmt) bs)
      else Inl StructError)"

lemma pack_fields_length:
  "pack_fields ws vs = Inr bs \<Longrightarrow> length bs = sum_list ws"
  by (induction ws vs arbitrary: bs rule: pack_fields.induct)
    (auto split: if_splits sum.splits)

lemma unpack_pack_fields:
  "pack_fields ws vs = Inr bs \<Longrightarrow> unpack_fields ws bs = vs"
  by (induction ws vs arbitrary: bs rule: pack_fields.induct)
    (auto split: if_splits sum.splits simp: be_decode_encode)

lemma pack_unpack_fields:
  "length bs = sum_list ws \<Longrightarrow> pack_fields ws (unpack_fields ws bs) = Inr bs"
proof (induction ws arbitrary: bs)
  case Nil
  then show ?case by simp
next
  case (Cons w ws)
  have l: "length (take w bs) = w" using Cons.prems by simp
  then have "fits w (be_decode (take w bs))" using be_decode_fits [of "take w bs"] by simp
  moreover have "pack_fields ws (unpack_fields ws (drop w bs)) = Inr (drop w bs)"
    using Cons.prems by (intro Cons.IH) simp
  moreover have "be_encode w (be_decode (take w bs)) = take w bs"
    using be_encode_decode [of "take w bs"] l by simp
  ultimately show ?case by simp
qed

lemma struct_unpack_pack:
  "struct_pack fmt vs = Inr bs \<Longrightarrow> struct_unpack fmt bs = Inr vs"
  by (auto simp: struct_pack_def struct_unpack_def calcsize_def pack_fields_length unpack_pack_fields)

lemma struct_pack_unpack:
  "struct_unpack fmt bs = Inr vs \<Longrightarrow> struct_pack fmt vs = Inr bs"
  by (auto simp: struct_pack_def struct_unpack_def calcsize_def pack_unpack_fields split: if_splits)

lemma pack_fields_error: "pack_fields ws vs = Inl e \<Longrightarrow> e = StructError"
  by (induction ws vs rule: pack_fields.induct) (auto split: if_splits sum.splits)

end
