(* ===== verification/Crc.thy ===== *)
theory Crc
  imports Prelude
begin

text \<open>
  \<open>photontcp/packet/crc.py\<close> over a bit-level model of \<open>zlib.crc32\<close>: the reflected
  CRC-32 with polynomial \<open>0xEDB88320\<close>, initial value and final complement all ones.
  The lemmas show that the checksum tells apart any two frames that differ in one byte.
\<close>

unbundle bit_operations_syntax

section \<open>The checksum\<close>

definition crc_poly :: "32 word" where
  "crc_poly = 0xEDB88320"

definition crc_bit :: "32 word \<Rightarrow> 32 word" where
  "crc_bit c = (if bit c 0 then drop_bit 1 c XOR crc_poly else drop_bit 1 c)"

fun crc_bits :: "nat \<Rightarrow> 32 word \<Rightarrow> 32 word" where
  "crc_bits 0 c = c"
| "crc_bits (Suc n) c = crc_bits n (crc_bit c)"

definition crc_update :: "32 word \<Rightarrow> byte \<Rightarrow> 32 word" where
  "crc_update c b = crc_bits 8 (c XOR ucast b)"

definition zlib_crc32 :: "bytes \<Rightarrow> 32 word" where
  "zlib_crc32 data = NOT (foldl crc_update (NOT 0) data)"

definition crc32 :: "bytes \<Rightarrow> int" where
  "crc32 data = uint (zlib_crc32 data) AND 0xFFFFFFFF"

definition verify :: "bytes \<Rightarrow> int \<Rightarrow> bool" where
  "verify data expected \<longleftrightarrow> crc32 data = expected"

text \<open>The check value of the CRC-32 catalogue, the checksum of the ASCII text 123456789.\<close>

lemma crc32_check_value:
  "crc32 [0x31, 0x32, 0x33, 0x34, 0x35, 0x36, 0x37, 0x38, 0x39] = 0xCBF43926"
  by code_simp

section \<open>Range\<close>

lemma crc32_eq_uint: "crc32 data = uint (zlib_crc32 data)"
proof -
  have "(0xFFFFFFFF :: int) = mask 32" by (simp add: mask_eq_exp_minus_1)
  then have "crc32 data = take_bit 32 (uint (zlib_crc32 data))"
    by (simp only: crc32_def take_bit_eq_mask)
  also have "take_bit 32 (uint (zlib_crc32 data)) = uint (zlib_crc32 data)"
    using uint_lt2p [of "zlib_crc32 data"] by (simp add: take_bit_int_eq_self)
  finally show ?thesis .
qed

lemma crc32_range: "0 \<le> crc32 data \<and> crc32 data < 2 ^ 32"
  using uint_lt2p [of "zlib_crc32 data"] by (simp add: crc32_eq_uint)

section \<open>Injectivity of the steps\<close>

lemma bit_crc_bit:
  "bit (crc_bit c) n \<longleftrightarrow> (bit c (Suc n) \<noteq> (bit c 0 \<and> bit crc_poly n))"
  by (auto simp: crc_bit_def bit_xor_iff bit_drop_bit_eq)

lemma crc_poly_top: "bit crc_poly 31"
  by (simp add: crc_poly_def bit_numeral_word_iff) 

lemma crc_bit_top: "bit (crc_bit c) 31 \<longleftrightarrow> bit c 0"
proof -
  have "\<not> bit c 32" using bit_imp_le_length [of c 32] by auto
  then show ?thesis using crc_poly_top by (simp add: bit_crc_bit)
qed

lemma crc_bit_inj:
  assumes "crc_bit c = crc_bit d"
  shows "c = d"
proof (rule bit_word_eqI)
  fix n
  have z: "bit c 0 = bit d 0" using assms crc_bit_top [of c] crc_bit_top [of d] by simp
  show "bit c n \<longleftrightarrow> bit d n"
  proof (cases n)
    case 0
    with z show ?thesis by simp
  next
    case (Suc m)
    with z bit_crc_bit [of c m] bit_crc_bit [of d m] assms show ?thesis by auto
  qed
qed

lemma crc_bits_inj: "crc_bits n c = crc_bits n d \<Longrightarrow> c = d"
  by (induction n arbitrary: c d) (auto dest: crc_bit_inj)

lemma xor_cancel_right: "(c :: 'a::len word) XOR x = d XOR x \<Longrightarrow> c = d"
proof -
  assume "c XOR x = d XOR x"
  then have "(c XOR x) XOR x = (d XOR x) XOR x" by simp
  then show "c = d" by (simp add: xor.assoc)
qed

lemma crc_update_inj_state: "crc_update c b = crc_update d b \<Longrightarrow> c = d"
  unfolding crc_update_def by (blast dest: crc_bits_inj xor_cancel_right)

lemma crc_update_inj_byte:
  assumes "crc_update c a = crc_update c b"
  shows "a = b"
proof -
  from assms have "c XOR ucast a = c XOR ucast b"
    unfolding crc_update_def by (rule crc_bits_inj)
  then have "ucast a XOR c = ucast b XOR c" by (simp only: xor.commute)
  then have "(ucast a :: 32 word) = ucast b" by (rule xor_cancel_right)
  then have "uint (ucast a :: 32 word) = uint (ucast b :: 32 word)" by simp
  then have "uint a = uint b" by (simp add: uint_up_ucast is_up)
  then show ?thesis by (rule word_uint_eqI)
qed

lemma crc_fold_inj: "foldl crc_update c bs = foldl crc_update d bs \<Longrightarrow> c = d"
  by (induction bs arbitrary: c d) (auto dest: crc_update_inj_state)

lemma zlib_crc32_one_byte:
  assumes "a \<noteq> b"
  shows "zlib_crc32 (pre @ a # post) \<noteq> zlib_crc32 (pre @ b # post)"
proof
  assume "zlib_crc32 (pre @ a # post) = zlib_crc32 (pre @ b # post)"
  then have "foldl crc_update (foldl crc_update (NOT 0) pre) (a # post)
           = foldl crc_update (foldl crc_update (NOT 0) pre) (b # post)"
    by (simp add: zlib_crc32_def)
  then have "crc_update (foldl crc_update (NOT 0) pre) a = crc_update (foldl crc_update (NOT 0) pre) b"
    by (auto dest: crc_fold_inj)
  with assms show False by (auto dest: crc_update_inj_byte)
qed

lemma crc32_one_byte:
  "a \<noteq> b \<Longrightarrow> crc32 (pre @ a # post) \<noteq> crc32 (pre @ b # post)"
  using zlib_crc32_one_byte [of a b pre post] by (metis crc32_eq_uint word_uint_eqI)

lemma crc32_list_update:
  assumes "i < length bs" and "b \<noteq> bs ! i"
  shows "crc32 (bs[i := b]) \<noteq> crc32 bs"
proof -
  have "bs = take i bs @ bs ! i # drop (Suc i) bs"
    using assms(1) by (rule id_take_nth_drop)
  moreover have "bs[i := b] = take i bs @ b # drop (Suc i) bs"
    using assms(1) by (rule upd_conv_take_nth_drop)
  ultimately show ?thesis using crc32_one_byte [OF assms(2)] by metis
qed

end
