(* ===== verification/Packet.thy ===== *)
theory Packet
  imports Py_Struct Crc
begin

text \<open>
  \<open>photontcp/packet/types.py\<close> and \<open>photontcp/packet/header.py\<close>: packet types, flags,
  the 22-byte header and \<open>Packet.pack\<close> / \<open>Packet.unpack\<close>. The lemmas give the codec's
  round trips in both directions, the exact condition under which packing raises, the
  classification of every input of unpacking, and the rejection of one-byte corruption.
\<close>

section \<open>Types and flags\<close>

definition PROTOCOL_VERSION :: int where
  "PROTOCOL_VERSION = 1"

datatype PacketType = SYN | SYN_ACK | ACK | DATA | NACK | FIN | FIN_ACK | HEARTBEAT

text \<open>\<open>int(t)\<close> and \<open>PacketType(n)\<close>; the latter raises \<open>ValueError\<close> for an unknown value.\<close>

fun PacketType_int :: "PacketType \<Rightarrow> int" where
  "PacketType_int SYN = 0"
| "PacketType_int SYN_ACK = 1"
| "PacketType_int ACK = 2"
| "PacketType_int DATA = 3"
| "PacketType_int NACK = 4"
| "PacketType_int FIN = 5"
| "PacketType_int FIN_ACK = 6"
| "PacketType_int HEARTBEAT = 7"

definition PacketType_of :: "int \<Rightarrow> PacketType result" where
  "PacketType_of n =
     (if n = 0 then Inr SYN else if n = 1 then Inr SYN_ACK else if n = 2 then Inr ACK
      else if n = 3 then Inr DATA else if n = 4 then Inr NACK else if n = 5 then Inr FIN
      else if n = 6 then Inr FIN_ACK else if n = 7 then Inr HEARTBEAT else Inl ValueError)"

text \<open>An \<open>IntFlag\<close> is an integer; combinations of flags are bitwise disjunctions.\<close>

type_synonym Flags = int

definition Flags_NONE :: Flags where "Flags_NONE = 0"
definition Flags_SYN :: Flags where "Flags_SYN = 1"
definition Flags_ACK :: Flags where "Flags_ACK = 2"
definition Flags_FIN :: Flags where "Flags_FIN = 4"
definition Flags_NACK :: Flags where "Flags_NACK = 8"

lemma PacketType_of_int [simp]: "PacketType_of (PacketType_int t) = Inr t"
  by (cases t) (simp_all add: PacketType_of_def)

lemma PacketType_of_Inr: "PacketType_of n = Inr t \<Longrightarrow> PacketType_int t = n"
  by (auto simp: PacketType_of_def split: if_splits)

lemma PacketType_of_range: "PacketType_of n = Inr t \<Longrightarrow> 0 \<le> n \<and> n \<le> 7"
  by (auto simp: PacketType_of_def split: if_splits)

lemma PacketType_of_error: "PacketType_of n = Inl e \<longleftrightarrow> \<not> (0 \<le> n \<and> n \<le> 7) \<and> e = ValueError"
  by (auto simp: PacketType_of_def)

lemma PacketType_int_fits: "fits 1 (PacketType_int t)"
  by (cases t) (simp_all add: fits_def)

section \<open>Packets\<close>

record Packet =
  ptype :: PacketType
  p_session_id :: int
  p_stream_id :: int
  p_seq :: int
  p_ack :: int
  p_window :: int
  p_flags :: Flags
  p_version :: int
  p_payload :: bytes

definition HEADER_FORMAT :: string where
  "HEADER_FORMAT = ''>BBBHBIIHHI''"

definition HEADER_SIZE :: nat where
  "HEADER_SIZE = 22"

definition CRC_OFFSET :: nat where
  "CRC_OFFSET = HEADER_SIZE - 4"

lemma header_widths: "struct_widths HEADER_FORMAT = [1, 1, 1, 2, 1, 4, 4, 2, 2, 4]"
  by (simp add: HEADER_FORMAT_def)

text \<open>The assertion the module makes when it is loaded.\<close>

lemma header_calcsize: "calcsize HEADER_FORMAT = HEADER_SIZE"
  by (simp add: calcsize_def header_widths HEADER_SIZE_def)

definition header_values :: "Packet \<Rightarrow> int \<Rightarrow> int list" where
  "header_values p crc =
     [p_version p, PacketType_int (ptype p), p_flags p, p_session_id p, p_stream_id p,
      p_seq p, p_ack p, p_window p, int (length (p_payload p)), crc]"

definition pack :: "Packet \<Rightarrow> bytes result" where
  "pack p =
     (case struct_pack HEADER_FORMAT (header_values p 0) of
        Inl e \<Rightarrow> Inl e
      | Inr header_zero_crc \<Rightarrow>
          (let checksum = crc32 (header_zero_crc @ p_payload p) in
           case struct_pack HEADER_FORMAT (header_values p checksum) of
             Inl e \<Rightarrow> Inl e
           | Inr header \<Rightarrow> Inr (header @ p_payload p)))"

definition zeroed_crc :: "bytes \<Rightarrow> bytes" where
  "zeroed_crc raw = take CRC_OFFSET raw @ [0, 0, 0, 0] @ drop (CRC_OFFSET + 4) raw"

definition unpack :: "bytes \<Rightarrow> Packet result" where
  "unpack raw =
     (if length raw < HEADER_SIZE then Inl MalformedPacketError
      else case struct_unpack HEADER_FORMAT (take HEADER_SIZE raw) of
        Inl e \<Rightarrow> Inl e
      | Inr [version, type', flags, session_id, stream_id, seq, ack, window, payload_len, checksum] \<Rightarrow>
          (let payload = drop HEADER_SIZE raw in
           if payload_len \<noteq> int (length payload) then Inl MalformedPacketError
           else if crc32 (zeroed_crc raw) \<noteq> checksum then Inl ChecksumError
           else case PacketType_of type' of
             Inl e \<Rightarrow> Inl e
           | Inr t \<Rightarrow>
               Inr \<lparr>ptype = t, p_session_id = session_id, p_stream_id = stream_id, p_seq = seq,
                    p_ack = ack, p_window = window, p_flags = flags, p_version = version,
                    p_payload = payload\<rparr>)
      | Inr _ \<Rightarrow> Inl StructError)"

section \<open>Field ranges\<close>

definition packet_ok :: "Packet \<Rightarrow> bool" where
  "packet_ok p \<longleftrightarrow>
     fits 1 (p_version p) \<and> fits 1 (p_flags p) \<and> fits 2 (p_session_id p) \<and>
     fits 1 (p_stream_id p) \<and> fits 4 (p_seq p) \<and> fits 4 (p_ack p) \<and>
     fits 2 (p_window p) \<and> length (p_payload p) < 65536"

text \<open>The 18 header bytes before the checksum field.\<close>

definition header_prefix :: "Packet \<Rightarrow> bytes" where
  "header_prefix p =
     be_encode 1 (p_version p) @ be_encode 1 (PacketType_int (ptype p)) @ be_encode 1 (p_flags p) @
     be_encode 2 (p_session_id p) @ be_encode 1 (p_stream_id p) @ be_encode 4 (p_seq p) @
     be_encode 4 (p_ack p) @ be_encode 2 (p_window p) @ be_encode 2 (int (length (p_payload p)))"

lemma length_header_prefix [simp]: "length (header_prefix p) = 18"
  by (simp add: header_prefix_def del: be_encode.simps)

lemma fits_payload_len: "fits 2 (int n) \<longleftrightarrow> n < 65536"
  by (simp add: fits_def)

lemma struct_pack_header:
  assumes "fits 4 crc"
  shows "struct_pack HEADER_FORMAT (header_values p crc) =
    (if packet_ok p then Inr (header_prefix p @ be_encode 4 crc) else Inl StructError)"
  using assms PacketType_int_fits [of "ptype p"]
  by (auto simp: struct_pack_def header_widths header_values_def packet_ok_def header_prefix_def
      fits_payload_len simp del: be_encode.simps)

lemma crc32_fits: "fits 4 (crc32 bs)"
  using crc32_range [of bs] by (simp add: fits_def)

lemma zero_fits: "fits 4 0"
  by (simp add: fits_def)

definition packet_crc :: "Packet \<Rightarrow> int" where
  "packet_crc p = crc32 (header_prefix p @ [0, 0, 0, 0] @ p_payload p)"

lemma be_encode_4_zero: "be_encode 4 0 = [0, 0, 0, 0]"
  by code_simp

lemma pack_eq:
  "pack p = (if packet_ok p then Inr (header_prefix p @ be_encode 4 (packet_crc p) @ p_payload p)
             else Inl StructError)"
  by (simp add: pack_def struct_pack_header zero_fits crc32_fits be_encode_4_zero packet_crc_def Let_def
      del: be_encode.simps)

section \<open>Unpacking by fields\<close>

definition raw_field :: "nat \<Rightarrow> nat \<Rightarrow> bytes \<Rightarrow> int" where
  "raw_field off w raw = be_decode (take w (drop off raw))"

lemma take_drop_header:
  "22 \<le> length raw \<Longrightarrow> off + w \<le> 22 \<Longrightarrow> take w (drop off (take 22 raw)) = take w (drop off raw)"
  by (simp add: drop_take min_def)

lemma struct_unpack_header:
  assumes "22 \<le> length raw"
  shows "struct_unpack HEADER_FORMAT (take HEADER_SIZE raw) = Inr
    [raw_field 0 1 raw, raw_field 1 1 raw, raw_field 2 1 raw, raw_field 3 2 raw, raw_field 5 1 raw,
     raw_field 6 4 raw, raw_field 10 4 raw, raw_field 14 2 raw, raw_field 16 2 raw, raw_field 18 4 raw]"
  using assms
  by (simp add: struct_unpack_def header_calcsize header_widths HEADER_SIZE_def raw_field_def
      drop_take min_def del: One_nat_def)

lemma unpack_eq:
  "unpack raw =
     (if length raw < 22 then Inl MalformedPacketError
      else if raw_field 16 2 raw \<noteq> int (length raw - 22) then Inl MalformedPacketError
      else if crc32 (zeroed_crc raw) \<noteq> raw_field 18 4 raw then Inl ChecksumError
      else case PacketType_of (raw_field 1 1 raw) of
        Inl e \<Rightarrow> Inl e
      | Inr t \<Rightarrow>
          Inr \<lparr>ptype = t, p_session_id = raw_field 3 2 raw, p_stream_id = raw_field 5 1 raw,
               p_seq = raw_field 6 4 raw, p_ack = raw_field 10 4 raw, p_window = raw_field 14 2 raw,
               p_flags = raw_field 2 1 raw, p_version = raw_field 0 1 raw,
               p_payload = drop 22 raw\<rparr>)"
proof (cases "length raw < 22")
  case True
  then show ?thesis by (simp add: unpack_def HEADER_SIZE_def)
next
  case False
  then have "22 \<le> length raw" by simp
  then show ?thesis
    using struct_unpack_header [of raw]
    by (simp add: unpack_def HEADER_SIZE_def Let_def del: One_nat_def)
qed

lemma raw_field_fits: "off + w \<le> length raw \<Longrightarrow> fits w (raw_field off w raw)"
  using be_decode_fits [of "take w (drop off raw)"] by (simp add: raw_field_def)

lemma be_encode_raw_field:
  "off + w \<le> length raw \<Longrightarrow> be_encode w (raw_field off w raw) = take w (drop off raw)"
  using be_encode_decode [of "take w (drop off raw)"] by (simp add: raw_field_def)

lemma unpack_pack: "pack p = Inr raw \<Longrightarrow> unpack raw = Inr p"
proof -
  assume a: "pack p = Inr raw"
  then have ok: "packet_ok p" and
    raw: "raw = (header_prefix p @ be_encode 4 (packet_crc p)) @ p_payload p"
    by (auto simp: pack_eq split: if_splits)
  let ?h = "header_prefix p @ be_encode 4 (packet_crc p)"
  have lh: "length ?h = 22" by simp
  have c4: "fits 4 (packet_crc p)" by (simp add: packet_crc_def crc32_fits)
  have tk: "take HEADER_SIZE raw = ?h" and dr: "drop HEADER_SIZE raw = p_payload p"
    using lh by (simp_all add: raw HEADER_SIZE_def)
  have su: "struct_unpack HEADER_FORMAT ?h = Inr (header_values p (packet_crc p))"
    using ok c4 by (intro struct_unpack_pack) (simp add: struct_pack_header)
  have z: "zeroed_crc raw = header_prefix p @ [0, 0, 0, 0] @ p_payload p"
    by (simp add: zeroed_crc_def raw CRC_OFFSET_def HEADER_SIZE_def)
  have "\<not> length raw < HEADER_SIZE" using lh by (simp add: raw HEADER_SIZE_def)
  then show "unpack raw = Inr p"
    unfolding unpack_def tk su dr z
    by (simp add: header_values_def packet_crc_def Let_def)
qed

lemma header_pieces:
  fixes raw :: bytes
  shows "take 18 raw = take 1 raw @ take 1 (drop 1 raw) @ take 1 (drop 2 raw) @ take 2 (drop 3 raw) @
    take 1 (drop 5 raw) @ take 4 (drop 6 raw) @ take 4 (drop 10 raw) @ take 2 (drop 14 raw) @
    take 2 (drop 16 raw)"
proof -
  have split: "take (m + n) xs = take m xs @ take n (drop m xs)" for m n and xs :: bytes
    by (simp add: take_add)
  show ?thesis
    using split [of 16 2 raw] split [of 14 2 raw] split [of 10 4 raw] split [of 6 4 raw]
      split [of 5 1 raw] split [of 3 2 raw] split [of 2 1 raw] split [of 1 1 raw]
    by (simp del: One_nat_def)
qed

lemma raw_pieces:
  fixes raw :: bytes
  shows "raw = take 18 raw @ take 4 (drop 18 raw) @ drop 22 raw"
proof -
  have "drop 18 raw = take 4 (drop 18 raw) @ drop 22 raw"
    using append_take_drop_id [of 4 "drop 18 raw"] by simp
  then show ?thesis using append_take_drop_id [of 18 raw] by simp
qed

lemma pack_unpack: "unpack raw = Inr p \<Longrightarrow> pack p = Inr raw"
proof -
  assume a: "unpack raw = Inr p"
  then have len: "22 \<le> length raw" and pl: "raw_field 16 2 raw = int (length raw - 22)"
    and crc: "crc32 (zeroed_crc raw) = raw_field 18 4 raw"
    and t: "PacketType_of (raw_field 1 1 raw) = Inr (ptype p)"
    and p: "p = \<lparr>ptype = ptype p, p_session_id = raw_field 3 2 raw, p_stream_id = raw_field 5 1 raw,
               p_seq = raw_field 6 4 raw, p_ack = raw_field 10 4 raw, p_window = raw_field 14 2 raw,
               p_flags = raw_field 2 1 raw, p_version = raw_field 0 1 raw,
               p_payload = drop 22 raw\<rparr>"
    by (auto simp: unpack_eq split: if_splits sum.splits)
  have ti: "PacketType_int (ptype p) = raw_field 1 1 raw" using t by (rule PacketType_of_Inr)
  have "fits 2 (raw_field 16 2 raw)" using len by (intro raw_field_fits) simp
  with pl have plen: "length raw - 22 < 65536" by (simp add: fits_def)
  have ok: "packet_ok p"
    using len plen by (subst p) (simp add: packet_ok_def raw_field_fits)
  have pay: "p_payload p = drop 22 raw" by (subst p) simp
  have pre: "header_prefix p = take 18 raw"
  proof -
    have "header_prefix p =
      be_encode 1 (raw_field 0 1 raw) @ be_encode 1 (raw_field 1 1 raw) @ be_encode 1 (raw_field 2 1 raw) @
      be_encode 2 (raw_field 3 2 raw) @ be_encode 1 (raw_field 5 1 raw) @ be_encode 4 (raw_field 6 4 raw) @
      be_encode 4 (raw_field 10 4 raw) @ be_encode 2 (raw_field 14 2 raw) @ be_encode 2 (raw_field 16 2 raw)"
      unfolding header_prefix_def ti pl by (subst (1 2 3 4 5 6 7 8) p) (simp del: be_encode.simps One_nat_def)
    also have "\<dots> = take 18 raw"
      using len by (subst header_pieces)
        (simp add: be_encode_raw_field del: be_encode.simps One_nat_def)
    finally show ?thesis .
  qed
  have "packet_crc p = raw_field 18 4 raw"
    using crc by (simp add: packet_crc_def pre pay zeroed_crc_def CRC_OFFSET_def HEADER_SIZE_def)
  then have "pack p = Inr (take 18 raw @ take 4 (drop 18 raw) @ drop 22 raw)"
    using ok len by (simp add: pack_eq pre pay be_encode_raw_field del: be_encode.simps)
  then show ?thesis using raw_pieces [of raw] by simp
qed

section \<open>One-byte corruption\<close>

lemma raw_field_update_outside:
  "i < off \<or> off + w \<le> i \<Longrightarrow> raw_field off w (raw[i := b]) = raw_field off w raw"
  by (auto simp: raw_field_def drop_update_cancel take_update_cancel drop_update_swap)

lemma raw_field_update_inside:
  assumes "off \<le> i" and "i < off + w" and "i < length raw" and "b \<noteq> raw ! i"
  shows "raw_field off w (raw[i := b]) \<noteq> raw_field off w raw"
proof
  assume "raw_field off w (raw[i := b]) = raw_field off w raw"
  then have "take w (drop off (raw[i := b])) = take w (drop off raw)"
    unfolding raw_field_def by (rule be_decode_inj [rotated]) simp
  then have "take w (drop off (raw[i := b])) ! (i - off) = take w (drop off raw) ! (i - off)" by simp
  with assms show False by simp
qed

lemma zeroed_update_outside:
  assumes "i < length raw" and "22 \<le> length raw" and "\<not> (18 \<le> i \<and> i < 22)"
  shows "zeroed_crc (raw[i := b]) = (zeroed_crc raw)[i := b] \<and> i < length (zeroed_crc raw)
    \<and> zeroed_crc raw ! i = raw ! i"
proof (cases "i < 18")
  case True
  with assms show ?thesis
    by (simp add: zeroed_crc_def CRC_OFFSET_def HEADER_SIZE_def take_update_swap list_update_append
        nth_append)
next
  case False
  with assms have i: "22 \<le> i" by simp
  define pre where "pre = take 18 raw @ [0, 0, 0, 0 :: byte]"
  have lp: "length pre = 22" using assms by (simp add: pre_def)
  have z: "zeroed_crc raw = pre @ drop 22 raw"
    by (simp add: zeroed_crc_def CRC_OFFSET_def HEADER_SIZE_def pre_def)
  have "zeroed_crc (raw[i := b]) = pre @ (drop 22 raw)[i - 22 := b]"
    using i by (simp add: zeroed_crc_def CRC_OFFSET_def HEADER_SIZE_def pre_def drop_update_swap)
  with z lp i assms show ?thesis by (simp add: list_update_append nth_append)
qed

lemma zeroed_update_inside:
  "18 \<le> i \<Longrightarrow> i < 22 \<Longrightarrow> zeroed_crc (raw[i := b]) = zeroed_crc raw"
  by (simp add: zeroed_crc_def CRC_OFFSET_def HEADER_SIZE_def)

lemma unpack_one_byte:
  assumes "unpack raw = Inr p" and i: "i < length raw" and b: "b \<noteq> raw ! i"
  shows "\<exists>e. unpack (raw[i := b]) = Inl e \<and> is_packet_error e"
proof -
  from assms(1) have len: "22 \<le> length raw" and pl: "raw_field 16 2 raw = int (length raw - 22)"
    and crc: "crc32 (zeroed_crc raw) = raw_field 18 4 raw"
    by (auto simp: unpack_eq split: if_splits sum.splits)
  consider (plen) "16 \<le> i" "i < 18" | (crcf) "18 \<le> i" "i < 22" | (rest) "i < 16 \<or> 22 \<le> i"
    by linarith
  then show ?thesis
  proof cases
    case plen
    then have "raw_field 16 2 (raw[i := b]) \<noteq> raw_field 16 2 raw"
      using i b by (intro raw_field_update_inside) auto
    then show ?thesis using len pl by (simp add: unpack_eq is_packet_error_def)
  next
    case crcf
    then have "raw_field 18 4 (raw[i := b]) \<noteq> raw_field 18 4 raw"
      using i b by (intro raw_field_update_inside) auto
    moreover have "zeroed_crc (raw[i := b]) = zeroed_crc raw" using crcf by (rule zeroed_update_inside)
    moreover have "raw_field 16 2 (raw[i := b]) = raw_field 16 2 raw"
      using crcf by (intro raw_field_update_outside) simp
    ultimately show ?thesis using len pl crc by (simp add: unpack_eq is_packet_error_def)
  next
    case rest
    then have z: "zeroed_crc (raw[i := b]) = (zeroed_crc raw)[i := b]"
        "i < length (zeroed_crc raw)" "zeroed_crc raw ! i = raw ! i"
      using zeroed_update_outside [OF i len] by auto
    then have "crc32 (zeroed_crc (raw[i := b])) \<noteq> crc32 (zeroed_crc raw)"
      using b crc32_list_update [of i "zeroed_crc raw" b] by simp
    moreover have "raw_field 18 4 (raw[i := b]) = raw_field 18 4 raw"
        "raw_field 16 2 (raw[i := b]) = raw_field 16 2 raw"
      using rest by (auto intro!: raw_field_update_outside)
    ultimately show ?thesis using len pl crc by (simp add: unpack_eq is_packet_error_def)
  qed
qed

section \<open>Properties\<close>

text \<open>
  C11. The codec is a bijection between in-range packets and accepted frames: \<open>unpack\<close> accepts
  \<open>raw\<close> as \<open>p\<close> exactly when \<open>pack\<close> writes \<open>p\<close> as \<open>raw\<close>. So what is packed is read back
  unchanged, no frame is read as a packet that would be written differently, and no two
  frames are read as one packet.
\<close>

theorem codec_bijection: "unpack raw = Inr p \<longleftrightarrow> pack p = Inr raw"
  using unpack_pack pack_unpack by blast

text \<open>
  Packing raises only \<open>struct.error\<close>, exactly when a field does not fit its header field
  (a 32-bit \<open>seq\<close> or \<open>ack\<close>, a 16-bit window, a payload of 64 KiB, \<dots>); otherwise the frame
  is the 22-byte header and the payload.
\<close>

theorem pack_outcome:
  "case pack p of
     Inl e \<Rightarrow> \<not> packet_ok p \<and> e = StructError
   | Inr raw \<Rightarrow> packet_ok p \<and> length raw = HEADER_SIZE + length (p_payload p)
       \<and> drop HEADER_SIZE raw = p_payload p"
  by (simp add: pack_eq HEADER_SIZE_def)

text \<open>
  Every outcome of \<open>unpack\<close>: a frame shorter than the header or whose length field is not
  the number of payload bytes is malformed; one whose checksum field is not the CRC-32 of
  the frame with that field zeroed is a checksum error; one that passes both but carries a
  type byte above 7 raises \<open>ValueError\<close>, which is not a \<open>PacketError\<close>; nothing else
  raises.
\<close>

theorem unpack_errors:
  "(unpack raw = Inl MalformedPacketError \<longleftrightarrow>
      \<not> (22 \<le> length raw \<and> raw_field 16 2 raw = int (length raw - 22))) \<and>
   (unpack raw = Inl ChecksumError \<longleftrightarrow>
      22 \<le> length raw \<and> raw_field 16 2 raw = int (length raw - 22) \<and>
      crc32 (zeroed_crc raw) \<noteq> raw_field 18 4 raw) \<and>
   (unpack raw = Inl ValueError \<longleftrightarrow>
      22 \<le> length raw \<and> raw_field 16 2 raw = int (length raw - 22) \<and>
      crc32 (zeroed_crc raw) = raw_field 18 4 raw \<and> 7 < raw_field 1 1 raw) \<and>
   (case unpack raw of Inl e \<Rightarrow> is_packet_error e \<or> e = ValueError | Inr p \<Rightarrow> True)"
proof (cases "22 \<le> length raw")
  case True
  have f: "0 \<le> raw_field 1 1 raw" using raw_field_fits [of 1 1 raw] True by (simp add: fits_def)
  show ?thesis
    using True f
    by (cases "PacketType_of (raw_field 1 1 raw)")
      (auto simp: unpack_eq is_packet_error_def PacketType_of_error split: if_splits sum.splits
        simp del: One_nat_def dest: PacketType_of_range)
next
  case False
  then show ?thesis by (auto simp: unpack_eq is_packet_error_def)
qed

text \<open>
  A frame of which one byte was changed on the way (the corruption the loopback channel
  simulates) is never accepted: wherever the byte is, \<open>unpack\<close> raises an error that
  \<open>except PacketError\<close> catches.
\<close>

theorem one_byte_corruption_rejected:
  assumes "pack p = Inr raw" and "i < length raw" and "b \<noteq> raw ! i"
  shows "\<exists>e. unpack (raw[i := b]) = Inl e \<and> is_packet_error e"
  using assms unpack_pack unpack_one_byte by blast

definition sample_packet :: Packet where
  "sample_packet = \<lparr>ptype = DATA, p_session_id = 7, p_stream_id = 1, p_seq = 4294967295, p_ack = 0,
     p_window = 32, p_flags = Flags_NONE, p_version = PROTOCOL_VERSION, p_payload = [104, 105]\<rparr>"

theorem one_byte_corruption_rejected_witness:
  "\<exists>raw e. pack sample_packet = Inr raw \<and> unpack (raw[1 := raw ! 1 + 1]) = Inl e \<and> is_packet_error e"
proof -
  obtain raw where r: "pack sample_packet = Inr raw" and l: "1 < length raw"
    by (simp add: pack_eq packet_ok_def sample_packet_def fits_def Flags_NONE_def PROTOCOL_VERSION_def)
  have "raw ! 1 + 1 \<noteq> raw ! 1" by simp
  from one_byte_corruption_rejected [OF r l this] r show ?thesis by blast
qed

end
