(* ===== verification/Serial.thy ===== *)
theory Serial
  imports Prelude
begin

text \<open>
  \<open>photontcp/reliability/serial.py\<close>: 32-bit serial-number arithmetic. The lemmas relate
  the circular comparisons to the order of the positions they stand for, which is what
  the retransmission engine relies on across the wrap from \<open>2^32 - 1\<close> to 0.
\<close>

definition SEQ_MOD :: int where
  "SEQ_MOD = 2 ^ 32"

definition SEQ_HALF :: int where
  "SEQ_HALF = 2 ^ 31"

definition seq_add :: "int \<Rightarrow> int \<Rightarrow> int" where
  "seq_add a n = (a + n) mod SEQ_MOD"

definition seq_lt :: "int \<Rightarrow> int \<Rightarrow> bool" where
  "seq_lt a b = (let d = (b - a) mod SEQ_MOD in 0 < d \<and> d < SEQ_HALF)"

definition seq_gt :: "int \<Rightarrow> int \<Rightarrow> bool" where
  "seq_gt a b = seq_lt b a"

definition seq_leq :: "int \<Rightarrow> int \<Rightarrow> bool" where
  "seq_leq a b \<longleftrightarrow> a = b \<or> seq_lt a b"

definition seq_geq :: "int \<Rightarrow> int \<Rightarrow> bool" where
  "seq_geq a b \<longleftrightarrow> a = b \<or> seq_gt a b"

definition seq_diff :: "int \<Rightarrow> int \<Rightarrow> int" where
  "seq_diff a b = (let d = (a - b) mod SEQ_MOD in if d \<ge> SEQ_HALF then d - SEQ_MOD else d)"

lemmas serial_defs = SEQ_MOD_def SEQ_HALF_def seq_add_def seq_lt_def seq_gt_def seq_leq_def
  seq_geq_def seq_diff_def Let_def

section \<open>Positions in a stream\<close>

text \<open>
  The sequence number of position \<open>i\<close> of a stream whose first number is \<open>isn\<close>.
\<close>

definition sq :: "int \<Rightarrow> nat \<Rightarrow> int" where
  "sq isn i = (isn + int i) mod SEQ_MOD"

lemma sq_range: "0 \<le> sq isn i \<and> sq isn i < SEQ_MOD"
  by (simp add: sq_def SEQ_MOD_def)

lemma sq_0: "0 \<le> isn \<Longrightarrow> isn < SEQ_MOD \<Longrightarrow> sq isn 0 = isn"
  by (simp add: sq_def)

lemma sq_Suc: "sq isn (Suc i) = seq_add (sq isn i) 1"
  by (simp add: sq_def seq_add_def mod_add_left_eq mod_add_right_eq algebra_simps)

lemma mod_diff_of_sq: "(sq isn j - sq isn i) mod SEQ_MOD = (int j - int i) mod SEQ_MOD"
proof -
  have "(sq isn j - sq isn i) mod SEQ_MOD = ((isn + int j) - (isn + int i)) mod SEQ_MOD"
    unfolding sq_def by (rule mod_diff_eq)
  then show ?thesis by simp
qed

lemma small_mod:
  assumes "- SEQ_HALF < d" and "d < SEQ_HALF"
  shows "d mod SEQ_MOD = (if 0 \<le> d then d else d + SEQ_MOD)"
proof (cases "0 \<le> d")
  case True
  with assms show ?thesis by (simp add: SEQ_HALF_def SEQ_MOD_def)
next
  case False
  have "d mod SEQ_MOD = (d + SEQ_MOD) mod SEQ_MOD" by simp
  also have "\<dots> = d + SEQ_MOD"
    using False assms by (intro mod_pos_pos_trivial) (auto simp: SEQ_HALF_def SEQ_MOD_def)
  finally show ?thesis using False by simp
qed

text \<open>Two positions less than half the sequence space apart.\<close>

definition near :: "nat \<Rightarrow> nat \<Rightarrow> bool" where
  "near i j \<longleftrightarrow> \<bar>int i - int j\<bar> < SEQ_HALF"

lemma nearI: "int i < SEQ_HALF \<Longrightarrow> int j < SEQ_HALF \<Longrightarrow> near i j"
  by (auto simp: near_def)

lemma near_sym: "near i j \<Longrightarrow> near j i"
  by (auto simp: near_def)

lemma seq_lt_sq: "near i j \<Longrightarrow> seq_lt (sq isn i) (sq isn j) \<longleftrightarrow> i < j"
  unfolding seq_lt_def Let_def mod_diff_of_sq near_def
  by (subst (1 2) small_mod) (auto simp: SEQ_HALF_def SEQ_MOD_def)

lemma seq_diff_sq: "near i j \<Longrightarrow> seq_diff (sq isn i) (sq isn j) = int i - int j"
  unfolding seq_diff_def Let_def mod_diff_of_sq near_def
  by (subst (1 2 3) small_mod) (auto simp: SEQ_HALF_def SEQ_MOD_def)

lemma sq_inj: "near i j \<Longrightarrow> sq isn i = sq isn j \<longleftrightarrow> i = j"
proof
  assume n: "near i j" and e: "sq isn i = sq isn j"
  from e have "\<not> seq_lt (sq isn i) (sq isn j)" "\<not> seq_lt (sq isn j) (sq isn i)"
    by (simp_all add: seq_lt_def)
  with n near_sym [OF n] show "i = j" by (simp add: seq_lt_sq)
qed simp

section \<open>Properties\<close>

text \<open>
  Across any wrap, serial comparison is the order of stream positions: for positions
  less than half the sequence space apart, counted from any initial number, \<open>seq_lt\<close>,
  \<open>seq_leq\<close>, \<open>seq_gt\<close>, \<open>seq_geq\<close> and \<open>seq_diff\<close> of their sequence numbers are
  \<open><\<close>, \<open>\<le>\<close>, \<open>>\<close>, \<open>\<ge>\<close> and the difference of the positions.
\<close>

theorem serial_order_is_position_order:
  assumes "near i j"
  shows "seq_lt (sq isn i) (sq isn j) = (i < j) \<and> seq_leq (sq isn i) (sq isn j) = (i \<le> j) \<and>
    seq_gt (sq isn i) (sq isn j) = (i > j) \<and> seq_geq (sq isn i) (sq isn j) = (i \<ge> j) \<and>
    seq_diff (sq isn i) (sq isn j) = int i - int j"
  using assms near_sym [OF assms] sq_inj [OF assms, of isn]
  by (auto simp: seq_lt_sq seq_diff_sq seq_leq_def seq_geq_def seq_gt_def)

theorem serial_order_is_position_order_witness:
  "seq_lt (sq 4294967295 0) (sq 4294967295 1) \<and> sq 4294967295 1 = 0 \<and>
   seq_diff (sq 4294967295 0) (sq 4294967295 1) = - 1"
proof -
  have "near 0 1" by (simp add: near_def SEQ_HALF_def)
  from serial_order_is_position_order [OF this, of 4294967295] show ?thesis
    by (simp add: sq_def SEQ_MOD_def)
qed

text \<open>
  For any two integers the comparison is decided by their circular distance: at most one
  of \<open>seq_lt a b\<close> and \<open>seq_lt b a\<close> holds; neither does only when the numbers are congruent
  modulo \<open>2^32\<close> or exactly half the space apart; the signed distance lies in
  \<open>[-2^31, 2^31)\<close>, and adding it back gives the other number.
\<close>

theorem serial_trichotomy:
  "\<not> (seq_lt a b \<and> seq_lt b a) \<and>
   (seq_lt a b \<or> seq_lt b a \<or> (b - a) mod SEQ_MOD = 0 \<or> (b - a) mod SEQ_MOD = SEQ_HALF) \<and>
   - SEQ_HALF \<le> seq_diff a b \<and> seq_diff a b < SEQ_HALF \<and>
   seq_add b (seq_diff a b) = a mod SEQ_MOD"
proof -
  let ?d = "(b - a) mod SEQ_MOD"
  have d: "0 \<le> ?d" "?d < SEQ_MOD" by (simp_all add: SEQ_MOD_def)
  have neg: "(a - b) mod SEQ_MOD = (if ?d = 0 then 0 else SEQ_MOD - ?d)"
    using zmod_zminus1_eq_if [of "b - a" SEQ_MOD] by (simp add: SEQ_MOD_def)
  have add: "seq_add b (seq_diff a b) = a mod SEQ_MOD"
  proof (cases "(a - b) mod SEQ_MOD \<ge> SEQ_HALF")
    case True
    have "(b + ((a - b) mod SEQ_MOD - SEQ_MOD)) mod SEQ_MOD = (b + (a - b) mod SEQ_MOD) mod SEQ_MOD"
      using mod_add_self2 [of "b + ((a - b) mod SEQ_MOD - SEQ_MOD)" SEQ_MOD] by simp
    also have "\<dots> = a mod SEQ_MOD" by (simp add: mod_add_right_eq)
    finally show ?thesis using True by (simp add: seq_add_def seq_diff_def)
  next
    case False
    then show ?thesis by (simp add: seq_add_def seq_diff_def mod_add_right_eq)
  qed
  show ?thesis
    using d neg add
    by (auto simp: seq_lt_def seq_diff_def Let_def SEQ_HALF_def SEQ_MOD_def split: if_splits)
qed

end
