(* ===== verification/Rto.thy ===== *)
theory Rto
  imports Prelude
begin

text \<open>
  \<open>photontcp/reliability/rto.py\<close>: the Jacobson/Karels estimator. Floats are reals here, so
  the recurrences are exact. The lemmas bound the timeout and the smoothed round trip.
\<close>

definition ALPHA :: real where "ALPHA = 1 / 8"
definition BETA :: real where "BETA = 1 / 4"
definition K_RTTVAR :: real where "K_RTTVAR = 4"

definition clamp :: "real \<Rightarrow> real \<Rightarrow> real \<Rightarrow> real" where
  "clamp value low high = (if value < low then low else if value > high then high else value)"

record RtoEstimator =
  initial_rto :: time
  min_rto :: time
  max_rto :: time
  srtt :: "time option"
  rttvar :: "time option"
  rto_value :: time

definition RtoEstimator_init :: "time \<Rightarrow> time \<Rightarrow> time \<Rightarrow> RtoEstimator" where
  "RtoEstimator_init initial minr maxr =
     \<lparr>initial_rto = initial, min_rto = minr, max_rto = maxr, srtt = None, rttvar = None,
      rto_value = initial\<rparr>"

text \<open>The defaults of the constructor's keyword arguments.\<close>

definition RtoEstimator_default :: RtoEstimator where
  "RtoEstimator_default = RtoEstimator_init 1 (1 / 5) 60"

definition rto_clone :: "RtoEstimator \<Rightarrow> RtoEstimator" where
  "rto_clone e = RtoEstimator_init (initial_rto e) (min_rto e) (max_rto e)"

definition on_sample :: "RtoEstimator \<Rightarrow> time \<Rightarrow> unit result \<times> RtoEstimator" where
  "on_sample e rtt =
     (if rtt < 0 then (Inl ValueError, e)
      else
        (let (s, v) =
           (case (srtt e, rttvar e) of
              (Some s0, Some v0) \<Rightarrow>
                ((1 - ALPHA) * s0 + ALPHA * rtt, (1 - BETA) * v0 + BETA * \<bar>s0 - rtt\<bar>)
            | _ \<Rightarrow> (rtt, rtt / 2))
         in (Inr (),
             e\<lparr>srtt := Some s, rttvar := Some v,
               rto_value := clamp (s + K_RTTVAR * v) (min_rto e) (max_rto e)\<rparr>)))"

definition on_timeout :: "RtoEstimator \<Rightarrow> RtoEstimator" where
  "on_timeout e = e\<lparr>rto_value := min (rto_value e * 2) (max_rto e)\<rparr>"

definition rto :: "RtoEstimator \<Rightarrow> time" where
  "rto e = rto_value e"

section \<open>Runs of the estimator\<close>

datatype rto_op = Sample time | Timeout

fun rto_step :: "RtoEstimator \<Rightarrow> rto_op \<Rightarrow> RtoEstimator" where
  "rto_step e (Sample r) = snd (on_sample e r)"
| "rto_step e Timeout = on_timeout e"

definition rto_run :: "RtoEstimator \<Rightarrow> rto_op list \<Rightarrow> RtoEstimator" where
  "rto_run e ops = foldl rto_step e ops"

text \<open>The samples lie between two bounds.\<close>

definition samples_in :: "time \<Rightarrow> time \<Rightarrow> rto_op list \<Rightarrow> bool" where
  "samples_in lo hi ops \<longleftrightarrow> (\<forall>r. Sample r \<in> set ops \<longrightarrow> lo \<le> r \<and> r \<le> hi)"

definition rto_inv :: "time \<Rightarrow> time \<Rightarrow> RtoEstimator \<Rightarrow> bool" where
  "rto_inv lo hi e \<longleftrightarrow>
     (srtt e = None \<longleftrightarrow> rttvar e = None) \<and>
     (\<forall>s. srtt e = Some s \<longrightarrow> lo \<le> s \<and> s \<le> hi) \<and>
     (\<forall>v. rttvar e = Some v \<longrightarrow> 0 \<le> v \<and> v \<le> hi)"

lemma clamp_bounds: "low \<le> high \<Longrightarrow> low \<le> clamp v low high \<and> clamp v low high \<le> high"
  by (simp add: clamp_def)

lemma mix_bounds:
  fixes a b lo hi x :: real
  assumes "0 \<le> x" "x \<le> 1" "lo \<le> a" "a \<le> hi" "lo \<le> b" "b \<le> hi"
  shows "lo \<le> (1 - x) * a + x * b \<and> (1 - x) * a + x * b \<le> hi"
proof -
  have "(1 - x) * lo + x * lo \<le> (1 - x) * a + x * b"
    using assms by (intro add_mono mult_left_mono) auto
  moreover have "(1 - x) * a + x * b \<le> (1 - x) * hi + x * hi"
    using assms by (intro add_mono mult_left_mono) auto
  ultimately show ?thesis by (simp add: algebra_simps)
qed

lemma rto_inv_sample:
  assumes inv: "rto_inv lo hi e" and r: "0 \<le> lo" "lo \<le> r" "r \<le> hi"
  shows "rto_inv lo hi (snd (on_sample e r))"
proof (cases "srtt e")
  case None
  with inv have "rttvar e = None" by (simp add: rto_inv_def)
  with None r show ?thesis by (simp add: on_sample_def rto_inv_def)
next
  case (Some s)
  with inv obtain v where v: "rttvar e = Some v" by (cases "rttvar e") (auto simp: rto_inv_def)
  from inv Some v have b: "lo \<le> s" "s \<le> hi" "0 \<le> v" "v \<le> hi" by (auto simp: rto_inv_def)
  have "lo \<le> (1 - ALPHA) * s + ALPHA * r \<and> (1 - ALPHA) * s + ALPHA * r \<le> hi"
    using b r by (intro mix_bounds) (auto simp: ALPHA_def)
  moreover have "0 \<le> (1 - BETA) * v + BETA * \<bar>s - r\<bar> \<and> (1 - BETA) * v + BETA * \<bar>s - r\<bar> \<le> hi"
    using b r by (intro mix_bounds) (auto simp: BETA_def)
  ultimately show ?thesis
    using r Some v by (simp add: on_sample_def rto_inv_def)
qed

lemma on_sample_config:
  "min_rto (snd (on_sample e r)) = min_rto e \<and> max_rto (snd (on_sample e r)) = max_rto e \<and>
   initial_rto (snd (on_sample e r)) = initial_rto e"
  by (simp add: on_sample_def split: option.split prod.split)

lemma on_sample_range:
  "0 \<le> r \<Longrightarrow> min_rto e \<le> max_rto e \<Longrightarrow>
   min_rto e \<le> rto (snd (on_sample e r)) \<and> rto (snd (on_sample e r)) \<le> max_rto e"
  by (simp add: on_sample_def rto_def clamp_bounds split: option.split prod.split)

lemma on_sample_ok: "0 \<le> r \<Longrightarrow> fst (on_sample e r) = Inr ()"
  by (simp add: on_sample_def split: option.split prod.split)

lemma on_sample_error: "r < 0 \<Longrightarrow> on_sample e r = (Inl ValueError, e)"
  by (simp add: on_sample_def)

lemma rto_step_config:
  "min_rto (rto_step e x) = min_rto e \<and> max_rto (rto_step e x) = max_rto e"
  by (cases x) (auto simp: on_sample_config on_timeout_def)

definition rto_ok :: "RtoEstimator \<Rightarrow> bool" where
  "rto_ok e \<longleftrightarrow> 0 < min_rto e \<and> min_rto e \<le> rto e \<and> rto e \<le> max_rto e"

lemma rto_ok_step: "rto_ok e \<Longrightarrow> rto_ok (rto_step e x)"
proof (cases x)
  case (Sample r)
  assume ok: "rto_ok e"
  show ?thesis
  proof (cases "r < 0")
    case True
    with ok Sample show ?thesis by (simp add: on_sample_error)
  next
    case False
    with ok Sample show ?thesis
      using on_sample_range [of r e] on_sample_config [of e r] by (simp add: rto_ok_def)
  qed
next
  case Timeout
  assume "rto_ok e"
  with Timeout show ?thesis by (simp add: rto_ok_def rto_def on_timeout_def)
qed

lemma rto_run_ok: "rto_ok e \<Longrightarrow> rto_ok (rto_run e ops)"
  unfolding rto_run_def by (induction ops arbitrary: e) (simp_all add: rto_ok_step)

section \<open>Properties\<close>

text \<open>
  An estimator whose initial timeout lies within its bounds keeps the timeout within them
  for ever: after any sequence of samples (negative ones, which raise, included) and
  timeouts, \<open>rto()\<close> is positive, at least \<open>min_rto\<close> and at most \<open>max_rto\<close>.
\<close>

theorem rto_always_bounded:
  assumes "0 < min_rto e" and "min_rto e \<le> rto e" and "rto e \<le> max_rto e"
  shows "min_rto e \<le> rto (rto_run e ops) \<and> rto (rto_run e ops) \<le> max_rto e \<and> 0 < rto (rto_run e ops)"
proof -
  have c: "min_rto (rto_run e ops) = min_rto e \<and> max_rto (rto_run e ops) = max_rto e"
    unfolding rto_run_def by (induction ops arbitrary: e) (simp_all add: rto_step_config)
  have "rto_ok e" using assms by (simp add: rto_ok_def)
  then have "rto_ok (rto_run e ops)" by (rule rto_run_ok)
  with c show ?thesis by (simp add: rto_ok_def)
qed

theorem rto_always_bounded_witness:
  "1 / 5 \<le> rto (rto_run RtoEstimator_default [Sample 100, Timeout, Sample (-1), Timeout]) \<and>
   rto (rto_run RtoEstimator_default [Sample 100, Timeout, Sample (-1), Timeout]) \<le> 60"
  using rto_always_bounded [of RtoEstimator_default "[Sample 100, Timeout, Sample (-1), Timeout]"]
  by (simp add: RtoEstimator_default_def RtoEstimator_init_def rto_def)

text \<open>
  The smoothed round-trip time of a fresh or cloned estimator never leaves the range of the
  samples it has seen: if all samples lie between \<open>lo\<close> and \<open>hi\<close>, then so does \<open>srtt\<close>,
  and the variation lies between 0 and \<open>hi\<close>, whatever timeouts occur in between.
\<close>

theorem srtt_within_samples:
  assumes "0 \<le> lo" and "samples_in lo hi ops"
  shows "case (srtt (rto_run (rto_clone e) ops), rttvar (rto_run (rto_clone e) ops)) of
      (None, None) \<Rightarrow> True
    | (Some s, Some v) \<Rightarrow> lo \<le> s \<and> s \<le> hi \<and> 0 \<le> v \<and> v \<le> hi
    | _ \<Rightarrow> False"
proof -
  have step: "rto_inv lo hi e' \<Longrightarrow> samples_in lo hi ops \<Longrightarrow> rto_inv lo hi (foldl rto_step e' ops)"
    for e' ops
  proof (induction ops arbitrary: e')
    case Nil
    then show ?case by simp
  next
    case (Cons x ops)
    have "rto_inv lo hi (rto_step e' x)"
    proof (cases x)
      case (Sample r)
      with Cons.prems(2) have "lo \<le> r" "r \<le> hi" by (auto simp: samples_in_def)
      with Cons.prems(1) Sample assms(1) show ?thesis by (simp add: rto_inv_sample)
    next
      case Timeout
      with Cons.prems(1) show ?thesis by (simp add: rto_inv_def on_timeout_def)
    qed
    with Cons show ?case by (simp add: samples_in_def)
  qed
  have "rto_inv lo hi (rto_run (rto_clone e) ops)"
    unfolding rto_run_def
    by (rule step) (simp_all add: rto_inv_def rto_clone_def RtoEstimator_init_def assms)
  then show ?thesis by (auto simp: rto_inv_def split: option.split)
qed

theorem srtt_within_samples_witness:
  "samples_in 1 3 [Sample 1, Timeout, Sample 3] \<and>
   (case (srtt (rto_run (rto_clone RtoEstimator_default) [Sample 1, Timeout, Sample 3]),
          rttvar (rto_run (rto_clone RtoEstimator_default) [Sample 1, Timeout, Sample 3])) of
      (None, None) \<Rightarrow> True
    | (Some s, Some v) \<Rightarrow> 1 \<le> s \<and> s \<le> 3 \<and> 0 \<le> v \<and> v \<le> 3
    | _ \<Rightarrow> False)"
proof -
  have s: "samples_in 1 3 [Sample 1, Timeout, Sample 3]" by (auto simp: samples_in_def)
  have "(0::real) \<le> 1" by simp
  from srtt_within_samples [OF this s, of RtoEstimator_default] s show ?thesis by simp
qed

end
