(* ===== verification/Arq.thy ===== *)
theory Arq
  imports Packet Serial Rto
begin

text \<open>
  \<open>photontcp/reliability/arq.py\<close>: the Selective Repeat endpoint. One definition per
  method of \<open>ArqEndpoint\<close>; dictionaries are insertion-ordered association lists, the
  outstanding records are values (the code mutates them only through the dictionary).
  A method that can raise returns its result beside the endpoint it leaves behind.
\<close>

section \<open>Data\<close>

datatype ArqEvent = SEND_FAILED

record ArqOutput =
  ao_packets :: "Packet list"
  ao_delivered :: "bytes list"
  ao_events :: "ArqEvent list"

definition empty_output :: ArqOutput where
  "empty_output = \<lparr>ao_packets = [], ao_delivered = [], ao_events = []\<rparr>"

record Outstanding =
  o_packet :: Packet
  o_send_time :: time
  o_retx_count :: nat

record ArqEndpoint =
  ep_session_id :: int
  ep_stream_id :: int
  ep_window_size :: nat
  ep_max_payload :: nat
  ep_max_retx :: nat
  ep_rto :: RtoEstimator
  ep_next_seq :: int
  ep_outstanding :: "(int, Outstanding) dict"
  ep_peer_window :: int
  ep_pending :: "bytes list"
  ep_acked_bytes :: nat
  ep_failed :: bool
  ep_rcv_base :: int
  ep_reorder :: "(int, bytes) dict"
  ep_nacked :: "int set"

text \<open>
  The constructor. The configuration arguments are Python integers: the first three checks
  raise \<open>ValueError\<close>.
\<close>

definition ArqEndpoint_init ::
  "int \<Rightarrow> int \<Rightarrow> int \<Rightarrow> RtoEstimator \<Rightarrow> int \<Rightarrow> int \<Rightarrow> int \<Rightarrow> int \<Rightarrow> ArqEndpoint result" where
  "ArqEndpoint_init session_id send_isn window_size est max_payload recv_isn stream_id max_retx =
     (if window_size < 1 then Inl ValueError
      else if max_payload < 1 then Inl ValueError
      else if max_retx < 0 then Inl ValueError
      else Inr \<lparr>ep_session_id = session_id, ep_stream_id = stream_id,
        ep_window_size = nat window_size, ep_max_payload = nat max_payload,
        ep_max_retx = nat max_retx, ep_rto = est, ep_next_seq = send_isn, ep_outstanding = [],
        ep_peer_window = window_size, ep_pending = [], ep_acked_bytes = 0, ep_failed = False,
        ep_rcv_base = recv_isn, ep_reorder = [], ep_nacked = {}\<rparr>)"

section \<open>Read-only helpers\<close>

definition unacked_count :: "ArqEndpoint \<Rightarrow> nat" where
  "unacked_count ep = length (ep_outstanding ep)"

definition bytes_in_flight :: "ArqEndpoint \<Rightarrow> nat" where
  "bytes_in_flight ep = sum_list (map (\<lambda>(s, o'). length (p_payload (o_packet o'))) (ep_outstanding ep))"

definition pending_count :: "ArqEndpoint \<Rightarrow> nat" where
  "pending_count ep = length (ep_pending ep)"

section \<open>Internals\<close>

definition recv_advertised_window :: "ArqEndpoint \<Rightarrow> int" where
  "recv_advertised_window ep =
     (let free = int (ep_window_size ep) - int (length (ep_reorder ep))
      in if free > 0 then free else 0)"

definition send_limit :: "ArqEndpoint \<Rightarrow> int" where
  "send_limit ep = min (int (ep_window_size ep)) (ep_peer_window ep)"

definition can_send :: "ArqEndpoint \<Rightarrow> bool" where
  "can_send ep \<longleftrightarrow> int (length (ep_outstanding ep)) < send_limit ep"

definition emit_data :: "ArqEndpoint \<Rightarrow> bytes \<Rightarrow> time \<Rightarrow> Packet \<times> ArqEndpoint" where
  "emit_data ep chunk now =
     (let pkt = \<lparr>ptype = DATA, p_session_id = ep_session_id ep, p_stream_id = ep_stream_id ep,
                 p_seq = ep_next_seq ep, p_ack = ep_rcv_base ep,
                 p_window = recv_advertised_window ep, p_flags = Flags_NONE,
                 p_version = PROTOCOL_VERSION, p_payload = chunk\<rparr>
      in (pkt, ep\<lparr>ep_outstanding := AList.update (ep_next_seq ep)
                    \<lparr>o_packet = pkt, o_send_time = now, o_retx_count = 0\<rparr> (ep_outstanding ep),
                  ep_next_seq := seq_add (ep_next_seq ep) 1\<rparr>))"

lemma emit_data_pending: "ep_pending (snd (emit_data ep c now)) = ep_pending ep"
  by (simp add: emit_data_def Let_def)

function flush_pending :: "ArqEndpoint \<Rightarrow> time \<Rightarrow> Packet list \<times> ArqEndpoint" where
  "flush_pending ep now =
     (case ep_pending ep of
        [] \<Rightarrow> ([], ep)
      | chunk # rest \<Rightarrow>
          (if can_send ep then
             (let (pkt, ep1) = emit_data (ep\<lparr>ep_pending := rest\<rparr>) chunk now;
                  (pkts, ep2) = flush_pending ep1 now
              in (pkt # pkts, ep2))
           else ([], ep)))"
  by pat_completeness auto
termination
proof (relation "measure (\<lambda>(ep, now). length (ep_pending ep))", goal_cases)
  case 1
  show ?case by simp
next
  case (2 ep now chunk rest x pkt ep1)
  then have "ep1 = snd (emit_data (ep\<lparr>ep_pending := rest\<rparr>) chunk now)"
    by (metis snd_conv)
  with 2(1) show ?case by (simp add: emit_data_pending)
qed

declare flush_pending.simps [simp del]

definition ack_packet :: "ArqEndpoint \<Rightarrow> Packet" where
  "ack_packet ep =
     \<lparr>ptype = ACK, p_session_id = ep_session_id ep, p_stream_id = ep_stream_id ep,
      p_seq = ep_next_seq ep, p_ack = ep_rcv_base ep, p_window = recv_advertised_window ep,
      p_flags = Flags_NONE, p_version = PROTOCOL_VERSION, p_payload = []\<rparr>"

definition nack_packet :: "ArqEndpoint \<Rightarrow> int \<Rightarrow> Packet" where
  "nack_packet ep missing_seq =
     \<lparr>ptype = NACK, p_session_id = ep_session_id ep, p_stream_id = ep_stream_id ep,
      p_seq = ep_next_seq ep, p_ack = missing_seq, p_window = recv_advertised_window ep,
      p_flags = Flags_NACK, p_version = PROTOCOL_VERSION, p_payload = []\<rparr>"

text \<open>\<open>max(keys, key=f)\<close>: the first key with the largest value.\<close>

fun max_key :: "('a \<Rightarrow> int) \<Rightarrow> 'a \<Rightarrow> 'a list \<Rightarrow> 'a" where
  "max_key f best [] = best"
| "max_key f best (x # xs) = max_key f (if f x > f best then x else best) xs"

definition walk_measure :: "int \<Rightarrow> int \<Rightarrow> nat" where
  "walk_measure highest seq =
     (let d = (highest - seq) mod SEQ_MOD in if d < SEQ_HALF then nat (d + 1) else 0)"

lemma walk_measure_dec:
  assumes "seq_lt seq highest \<or> seq = highest"
  shows "walk_measure highest (seq_add seq 1) < walk_measure highest seq"
proof -
  let ?d = "(highest - seq) mod SEQ_MOD"
  have d: "0 \<le> ?d" "?d < SEQ_MOD" by (simp_all add: SEQ_MOD_def)
  have "(highest - seq_add seq 1) mod SEQ_MOD = (highest - (seq + 1)) mod SEQ_MOD"
    unfolding seq_add_def by (rule mod_diff_right_eq)
  also have "\<dots> = (?d - 1) mod SEQ_MOD" by (simp add: mod_diff_left_eq diff_diff_eq)
  finally have e: "(highest - seq_add seq 1) mod SEQ_MOD = (?d - 1) mod SEQ_MOD" .
  have half: "?d < SEQ_HALF" using assms by (auto simp: seq_lt_def Let_def SEQ_HALF_def)
  show ?thesis
  proof (cases "?d = 0")
    case True
    then have "(highest - seq_add seq 1) mod SEQ_MOD = SEQ_MOD - 1" using e by (simp add: SEQ_MOD_def)
    with True show ?thesis by (simp add: walk_measure_def Let_def SEQ_MOD_def SEQ_HALF_def)
  next
    case False
    with d have "(?d - 1) mod SEQ_MOD = ?d - 1" by (intro mod_pos_pos_trivial) auto
    with e half d False show ?thesis by (simp add: walk_measure_def Let_def)
  qed
qed

text \<open>
  The walk of \<open>_lowest_missing_seq\<close> from \<open>seq\<close> up to \<open>highest\<close>. It stops because the
  circular distance to \<open>highest\<close> falls by one in each round.
\<close>

function missing_walk :: "(int, bytes) dict \<Rightarrow> int \<Rightarrow> int \<Rightarrow> int option" where
  "missing_walk reorder highest seq =
     (if seq_lt seq highest \<or> seq = highest then
        (if \<not> dict_mem seq reorder then Some seq
         else missing_walk reorder highest (seq_add seq 1))
      else None)"
  by pat_completeness auto
termination
  by (relation "measure (\<lambda>(r, h, s). walk_measure h s)") (auto simp: walk_measure_dec)

declare missing_walk.simps [simp del]

definition lowest_missing_seq :: "ArqEndpoint \<Rightarrow> int option" where
  "lowest_missing_seq ep =
     (case dict_keys (ep_reorder ep) of
        [] \<Rightarrow> None
      | k # ks \<Rightarrow>
          (let highest = max_key (\<lambda>s. seq_diff s (ep_rcv_base ep)) k ks
           in missing_walk (ep_reorder ep) highest (ep_rcv_base ep)))"

definition prune_nacked :: "ArqEndpoint \<Rightarrow> ArqEndpoint" where
  "prune_nacked ep =
     (if ep_nacked ep = {} then ep
      else ep\<lparr>ep_nacked := {s \<in> ep_nacked ep. seq_lt (ep_rcv_base ep) s}\<rparr>)"

section \<open>Public operations\<close>

text \<open>\<open>send\<close>: the loop over the chunks, then the method.\<close>

fun send_chunks :: "ArqEndpoint \<Rightarrow> bytes list \<Rightarrow> time \<Rightarrow> Packet list \<times> ArqEndpoint" where
  "send_chunks ep [] now = ([], ep)"
| "send_chunks ep (chunk # chunks) now =
     (if can_send ep then
        (let (pkt, ep1) = emit_data ep chunk now;
             (pkts, ep2) = send_chunks ep1 chunks now
         in (pkt # pkts, ep2))
      else send_chunks (ep\<lparr>ep_pending := ep_pending ep @ [chunk]\<rparr>) chunks now)"

definition arq_send :: "ArqEndpoint \<Rightarrow> bytes \<Rightarrow> time \<Rightarrow> ArqOutput \<times> ArqEndpoint" where
  "arq_send ep data now =
     (if data = [] then (empty_output, ep)
      else (let (pkts, ep1) = send_chunks ep (py_slices (ep_max_payload ep) data) now
            in (empty_output\<lparr>ao_packets := pkts\<rparr>, ep1)))"

text \<open>The drain loop of \<open>_on_data\<close>: pop \<open>rcv_base\<close> from the buffer while it is there.\<close>

function drain :: "ArqEndpoint \<Rightarrow> bytes list \<times> ArqEndpoint" where
  "drain ep =
     (case map_of (ep_reorder ep) (ep_rcv_base ep) of
        None \<Rightarrow> ([], ep)
      | Some payload \<Rightarrow>
          (let (ds, ep1) = drain (ep\<lparr>ep_reorder := AList.delete (ep_rcv_base ep) (ep_reorder ep),
                                    ep_rcv_base := seq_add (ep_rcv_base ep) 1\<rparr>)
           in (payload # ds, ep1)))"
  by pat_completeness auto
termination
  by (relation "measure (\<lambda>ep. length (ep_reorder ep))")
    (auto intro!: length_delete_mem simp: dict_mem_def)

declare drain.simps [simp del]

text \<open>
  \<open>_on_data\<close> in two parts: what becomes of the payload, then the acknowledgement and, the
  first time a hole is seen, the negative acknowledgement.
\<close>

definition accept_data :: "ArqEndpoint \<Rightarrow> Packet \<Rightarrow> bytes list \<times> ArqEndpoint" where
  "accept_data ep pkt =
     (let seq = p_seq pkt in
      if seq = ep_rcv_base ep then
        (let (ds, ep') = drain (ep\<lparr>ep_rcv_base := seq_add (ep_rcv_base ep) 1\<rparr>)
         in (p_payload pkt # ds, prune_nacked ep'))
      else if seq_lt (ep_rcv_base ep) seq then
        ([], if seq_diff seq (ep_rcv_base ep) < int (ep_window_size ep)
                \<and> \<not> dict_mem seq (ep_reorder ep)
             then ep\<lparr>ep_reorder := AList.update seq (p_payload pkt) (ep_reorder ep)\<rparr>
             else ep)
      else ([], ep))"

definition on_data :: "ArqEndpoint \<Rightarrow> Packet \<Rightarrow> time \<Rightarrow> ArqOutput \<times> ArqEndpoint" where
  "on_data ep pkt now =
     (let (delivered, ep1) = accept_data ep pkt;
          acks = [ack_packet ep1]
      in case lowest_missing_seq ep1 of
           Some missing \<Rightarrow>
             (if missing \<notin> ep_nacked ep1 then
                (\<lparr>ao_packets = acks @ [nack_packet ep1 missing], ao_delivered = delivered,
                  ao_events = []\<rparr>,
                 ep1\<lparr>ep_nacked := insert missing (ep_nacked ep1)\<rparr>)
              else (\<lparr>ao_packets = acks, ao_delivered = delivered, ao_events = []\<rparr>, ep1))
         | None \<Rightarrow> (\<lparr>ao_packets = acks, ao_delivered = delivered, ao_events = []\<rparr>, ep1))"

text \<open>
  The loop of \<open>_on_ack\<close> over the acknowledged keys. A sample taken at a time before the
  packet was sent raises \<open>ValueError\<close> and leaves the loop half done.
\<close>

fun ack_loop :: "ArqEndpoint \<Rightarrow> int list \<Rightarrow> time \<Rightarrow> unit result \<times> ArqEndpoint" where
  "ack_loop ep [] now = (Inr (), ep)"
| "ack_loop ep (s # ss) now =
     (case map_of (ep_outstanding ep) s of
        None \<Rightarrow> (Inl KeyError, ep)
      | Some ob \<Rightarrow>
          (let ep1 = ep\<lparr>ep_outstanding := AList.delete s (ep_outstanding ep),
                       ep_acked_bytes := ep_acked_bytes ep + length (p_payload (o_packet ob))\<rparr>
           in if o_retx_count ob = 0 then
                (case on_sample (ep_rto ep1) (now - o_send_time ob) of
                   (Inl e, est) \<Rightarrow> (Inl e, ep1\<lparr>ep_rto := est\<rparr>)
                 | (Inr _, est) \<Rightarrow> ack_loop (ep1\<lparr>ep_rto := est\<rparr>) ss now)
              else ack_loop ep1 ss now))"

definition on_ack :: "ArqEndpoint \<Rightarrow> Packet \<Rightarrow> time \<Rightarrow> ArqOutput result \<times> ArqEndpoint" where
  "on_ack ep pkt now =
     (let ep0 = ep\<lparr>ep_peer_window := p_window pkt\<rparr>;
          acked = filter (\<lambda>s. seq_lt s (p_ack pkt)) (dict_keys (ep_outstanding ep0))
      in case ack_loop ep0 acked now of
           (Inl e, ep1) \<Rightarrow> (Inl e, ep1)
         | (Inr _, ep1) \<Rightarrow>
             (let (pkts, ep2) = flush_pending ep1 now
              in (Inr (empty_output\<lparr>ao_packets := pkts\<rparr>), ep2)))"

text \<open>\<open>o.send_time = float(now); o.retx_count += 1\<close> on the record kept under \<open>s\<close>.\<close>

definition touch :: "ArqEndpoint \<Rightarrow> int \<Rightarrow> Outstanding \<Rightarrow> time \<Rightarrow> ArqEndpoint" where
  "touch ep s ob now =
     ep\<lparr>ep_outstanding := AList.update s
          (ob\<lparr>o_send_time := now, o_retx_count := o_retx_count ob + 1\<rparr>) (ep_outstanding ep)\<rparr>"

definition on_nack :: "ArqEndpoint \<Rightarrow> Packet \<Rightarrow> time \<Rightarrow> ArqOutput \<times> ArqEndpoint" where
  "on_nack ep pkt now =
     (let ep0 = ep\<lparr>ep_peer_window := p_window pkt\<rparr>;
          target = p_ack pkt
      in case map_of (ep_outstanding ep0) target of
           None \<Rightarrow> (empty_output, ep0)
         | Some ob \<Rightarrow>
             (empty_output\<lparr>ao_packets := [o_packet ob]\<rparr>, touch ep0 target ob now))"

definition arq_on_packet :: "ArqEndpoint \<Rightarrow> Packet \<Rightarrow> time \<Rightarrow> ArqOutput result \<times> ArqEndpoint" where
  "arq_on_packet ep pkt now =
     (if p_session_id pkt \<noteq> ep_session_id ep then (Inr empty_output, ep)
      else if ptype pkt = DATA then (let (out, ep1) = on_data ep pkt now in (Inr out, ep1))
      else if ptype pkt = ACK then on_ack ep pkt now
      else if ptype pkt = NACK then (let (out, ep1) = on_nack ep pkt now in (Inr out, ep1))
      else (Inr empty_output, ep))"

text \<open>
  The loop of \<open>on_tick\<close> over the timed-out records, in the dictionary's order: a record
  whose budget is spent fails the endpoint and returns at once, with the packets
  retransmitted so far. The flag says whether the loop ran to its end.
\<close>

fun tick_loop :: "ArqEndpoint \<Rightarrow> int list \<Rightarrow> time \<Rightarrow> Packet list \<times> bool \<times> ArqEndpoint" where
  "tick_loop ep [] now = ([], True, ep)"
| "tick_loop ep (s # ss) now =
     (case map_of (ep_outstanding ep) s of
        None \<Rightarrow> tick_loop ep ss now
      | Some ob \<Rightarrow>
          (if o_retx_count ob \<ge> ep_max_retx ep then ([], False, ep\<lparr>ep_failed := True\<rparr>)
           else
             (let (pkts, done', ep2) = tick_loop (touch ep s ob now) ss now
              in (o_packet ob # pkts, done', ep2))))"

definition timed_out :: "ArqEndpoint \<Rightarrow> time \<Rightarrow> int list" where
  "timed_out ep now =
     map fst (filter (\<lambda>(s, ob). now - o_send_time ob \<ge> rto (ep_rto ep)) (ep_outstanding ep))"

definition arq_on_tick :: "ArqEndpoint \<Rightarrow> time \<Rightarrow> ArqOutput \<times> ArqEndpoint" where
  "arq_on_tick ep now =
     (if ep_failed ep then (empty_output, ep)
      else if timed_out ep now = [] then (empty_output, ep)
      else
        (case tick_loop ep (timed_out ep now) now of
           (pkts, False, ep1) \<Rightarrow>
             (\<lparr>ao_packets = pkts, ao_delivered = [], ao_events = [SEND_FAILED]\<rparr>, ep1)
         | (pkts, True, ep1) \<Rightarrow>
             (\<lparr>ao_packets = pkts, ao_delivered = [], ao_events = []\<rparr>,
              ep1\<lparr>ep_rto := on_timeout (ep_rto ep1)\<rparr>)))"

end
