(* ===== verification/Arq_Inv.thy ===== *)
theory Arq_Inv
  imports Arq
begin

text \<open>
  What every operation of an ARQ endpoint keeps: frames (the sender's methods do not touch
  the receiver's fields and the other way round), the sender's and receiver's invariants
  relative to the log of chunks put on the wire, and the order of queued chunks.
\<close>

section \<open>Frames\<close>

definition rcv_part :: "ArqEndpoint \<Rightarrow> int \<times> (int, bytes) dict \<times> int set" where
  "rcv_part ep = (ep_rcv_base ep, ep_reorder ep, ep_nacked ep)"

definition config_part :: "ArqEndpoint \<Rightarrow> int \<times> int \<times> nat \<times> nat \<times> nat" where
  "config_part ep = (ep_session_id ep, ep_stream_id ep, ep_window_size ep, ep_max_payload ep,
     ep_max_retx ep)"

definition snd_part ::
  "ArqEndpoint \<Rightarrow> int \<times> (int, Outstanding) dict \<times> int \<times> bytes list \<times> nat \<times> bool \<times> RtoEstimator" where
  "snd_part ep = (ep_next_seq ep, ep_outstanding ep, ep_peer_window ep, ep_pending ep,
     ep_acked_bytes ep, ep_failed ep, ep_rto ep)"

lemmas part_defs = rcv_part_def config_part_def snd_part_def

lemma emit_data_frame [simp]:
  "rcv_part (snd (emit_data ep c now)) = rcv_part ep"
  "config_part (snd (emit_data ep c now)) = config_part ep"
  by (simp_all add: emit_data_def Let_def part_defs)

lemma touch_frame [simp]:
  "rcv_part (touch ep s ob now) = rcv_part ep"
  "config_part (touch ep s ob now) = config_part ep"
  "ep_pending (touch ep s ob now) = ep_pending ep"
  "ep_peer_window (touch ep s ob now) = ep_peer_window ep"
  "ep_failed (touch ep s ob now) = ep_failed ep"
  "ep_rto (touch ep s ob now) = ep_rto ep"
  "ep_next_seq (touch ep s ob now) = ep_next_seq ep"
  "ep_acked_bytes (touch ep s ob now) = ep_acked_bytes ep"
  "ep_max_retx (touch ep s ob now) = ep_max_retx ep"
  by (simp_all add: touch_def part_defs)

text \<open>The loops, unfolded once, with projections instead of tuple patterns.\<close>

lemma flush_stop:
  "ep_pending ep = [] \<or> \<not> can_send ep \<Longrightarrow> flush_pending ep now = ([], ep)"
  by (auto simp: flush_pending.simps [of ep] split: list.split)

lemma flush_step:
  assumes "ep_pending ep = c # rest" and "can_send ep"
  shows "flush_pending ep now =
    (let e = emit_data (ep\<lparr>ep_pending := rest\<rparr>) c now; r = flush_pending (snd e) now
     in (fst e # fst r, snd r))"
  using assms by (simp add: flush_pending.simps [of ep] Let_def split: prod.split)

lemma flush_induct [case_names stop step]:
  fixes ep :: ArqEndpoint
  assumes "\<And>ep. ep_pending ep = [] \<or> \<not> can_send ep \<Longrightarrow> P ep"
    and "\<And>ep c rest. ep_pending ep = c # rest \<Longrightarrow> can_send ep \<Longrightarrow>
      P (snd (emit_data (ep\<lparr>ep_pending := rest\<rparr>) c now)) \<Longrightarrow> P ep"
  shows "P ep"
proof (induction "length (ep_pending ep)" arbitrary: ep)
  case 0
  then show ?case by (intro assms(1)) simp
next
  case (Suc n)
  then obtain c rest where p: "ep_pending ep = c # rest" by (cases "ep_pending ep") auto
  show ?case
  proof (cases "can_send ep")
    case False
    then show ?thesis by (intro assms(1)) simp
  next
    case True
    have "n = length (ep_pending (snd (emit_data (ep\<lparr>ep_pending := rest\<rparr>) c now)))"
      using Suc(2) p by (simp add: emit_data_pending)
    from assms(2) [OF p True Suc(1) [OF this]] show ?thesis .
  qed
qed

lemma send_chunks_step:
  "can_send ep \<Longrightarrow> send_chunks ep (c # cs) now =
    (let e = emit_data ep c now; r = send_chunks (snd e) cs now in (fst e # fst r, snd r))"
  by (simp add: Let_def split: prod.split)

lemma send_chunks_grows:
  "length (ep_outstanding ep) \<le> length (ep_outstanding (snd (send_chunks ep cs now)))"
proof (induction cs arbitrary: ep)
  case (Cons c cs)
  have "length (ep_outstanding ep) \<le> length (ep_outstanding (snd (emit_data ep c now)))"
    by (simp add: emit_data_def Let_def length_update)
  with Cons [of "snd (emit_data ep c now)"] Cons [of "ep\<lparr>ep_pending := ep_pending ep @ [c]\<rparr>"]
  show ?case by (auto simp: case_prod_beta Let_def)
qed simp

lemma ack_loop_step:
  assumes "map_of (ep_outstanding ep) s = Some ob"
  shows "ack_loop ep (s # ss) now =
    (let ep1 = ep\<lparr>ep_outstanding := AList.delete s (ep_outstanding ep),
                 ep_acked_bytes := ep_acked_bytes ep + length (p_payload (o_packet ob))\<rparr>;
         r = on_sample (ep_rto ep) (now - o_send_time ob)
     in if o_retx_count ob = 0 then
          (case fst r of Inl e \<Rightarrow> (Inl e, ep1\<lparr>ep_rto := snd r\<rparr>)
           | Inr _ \<Rightarrow> ack_loop (ep1\<lparr>ep_rto := snd r\<rparr>) ss now)
        else ack_loop ep1 ss now)"
  using assms by (auto simp: Let_def split: sum.split prod.split)

lemma tick_loop_step:
  assumes "map_of (ep_outstanding ep) s = Some ob" and "o_retx_count ob < ep_max_retx ep"
  shows "tick_loop ep (s # ss) now =
    (let r = tick_loop (touch ep s ob now) ss now in (o_packet ob # fst r, snd r))"
  using assms by (simp add: Let_def split: prod.split)

lemma tick_loop_fail:
  assumes "map_of (ep_outstanding ep) s = Some ob" and "ep_max_retx ep \<le> o_retx_count ob"
  shows "tick_loop ep (s # ss) now = ([], False, ep\<lparr>ep_failed := True\<rparr>)"
  using assms by simp

lemma drain_stop: "map_of (ep_reorder ep) (ep_rcv_base ep) = None \<Longrightarrow> drain ep = ([], ep)"
  by (simp add: drain.simps [of ep])

lemma drain_step:
  assumes "map_of (ep_reorder ep) (ep_rcv_base ep) = Some payload"
  shows "drain ep =
    (let r = drain (ep\<lparr>ep_reorder := AList.delete (ep_rcv_base ep) (ep_reorder ep),
                      ep_rcv_base := seq_add (ep_rcv_base ep) 1\<rparr>)
     in (payload # fst r, snd r))"
  using assms by (simp add: drain.simps [of ep] Let_def split: prod.split)

lemma drain_induct [case_names stop step]:
  fixes ep :: ArqEndpoint
  assumes "\<And>ep. map_of (ep_reorder ep) (ep_rcv_base ep) = None \<Longrightarrow> P ep"
    and "\<And>ep v. map_of (ep_reorder ep) (ep_rcv_base ep) = Some v \<Longrightarrow>
      P (ep\<lparr>ep_reorder := AList.delete (ep_rcv_base ep) (ep_reorder ep),
            ep_rcv_base := seq_add (ep_rcv_base ep) 1\<rparr>) \<Longrightarrow> P ep"
  shows "P ep"
proof (induction ep rule: drain.induct)
  case (1 ep)
  show ?case
  proof (cases "map_of (ep_reorder ep) (ep_rcv_base ep)")
    case None
    then show ?thesis by (rule assms(1))
  next
    case (Some v)
    then show ?thesis by (rule assms(2)) (rule "1" [OF Some])
  qed
qed

lemmas loop_steps = flush_stop flush_step send_chunks_step ack_loop_step tick_loop_step
  tick_loop_fail drain_stop drain_step

text \<open>The frames of the loops.\<close>

lemma flush_pending_frame [simp]:
  "rcv_part (snd (flush_pending ep now)) = rcv_part ep \<and>
   config_part (snd (flush_pending ep now)) = config_part ep"
proof (induction ep rule: flush_induct [where now = now])
  case (stop ep)
  then show ?case by (simp add: flush_stop)
next
  case (step ep c rest)
  then show ?case by (simp add: flush_step Let_def) (simp add: part_defs)
qed

lemma send_chunks_frame [simp]:
  "rcv_part (snd (send_chunks ep cs now)) = rcv_part ep \<and>
   config_part (snd (send_chunks ep cs now)) = config_part ep"
proof (induction cs arbitrary: ep)
  case (Cons c cs)
  show ?case
  proof (cases "can_send ep")
    case True
    with Cons show ?thesis by (simp add: send_chunks_step Let_def del: send_chunks.simps(2))
  next
    case False
    with Cons [of "ep\<lparr>ep_pending := ep_pending ep @ [c]\<rparr>"] show ?thesis by (simp add: part_defs)
  qed
qed simp

lemma ack_loop_frame [simp]:
  "rcv_part (snd (ack_loop ep ss now)) = rcv_part ep \<and>
   config_part (snd (ack_loop ep ss now)) = config_part ep \<and>
   ep_pending (snd (ack_loop ep ss now)) = ep_pending ep \<and>
   ep_peer_window (snd (ack_loop ep ss now)) = ep_peer_window ep \<and>
   ep_failed (snd (ack_loop ep ss now)) = ep_failed ep \<and>
   ep_next_seq (snd (ack_loop ep ss now)) = ep_next_seq ep"
proof (induction ss arbitrary: ep)
  case (Cons s ss)
  show ?case
  proof (cases "map_of (ep_outstanding ep) s")
    case (Some ob)
    with Cons show ?thesis
      by (simp add: ack_loop_step Let_def del: ack_loop.simps(2) split: sum.split)
        (simp add: part_defs)
  qed simp
qed simp

lemma tick_loop_frame [simp]:
  "rcv_part (snd (snd (tick_loop ep ss now))) = rcv_part ep \<and>
   config_part (snd (snd (tick_loop ep ss now))) = config_part ep \<and>
   ep_pending (snd (snd (tick_loop ep ss now))) = ep_pending ep \<and>
   ep_peer_window (snd (snd (tick_loop ep ss now))) = ep_peer_window ep \<and>
   ep_next_seq (snd (snd (tick_loop ep ss now))) = ep_next_seq ep \<and>
   ep_acked_bytes (snd (snd (tick_loop ep ss now))) = ep_acked_bytes ep"
proof (induction ss arbitrary: ep)
  case (Cons s ss)
  show ?case
  proof (cases "map_of (ep_outstanding ep) s")
    case None
    with Cons show ?thesis by simp
  next
    case (Some ob)
    show ?thesis
    proof (cases "o_retx_count ob < ep_max_retx ep")
      case True
      with Some Cons show ?thesis
        by (simp add: tick_loop_step Let_def del: tick_loop.simps(2))
    next
      case False
      with Some show ?thesis by (simp add: part_defs)
    qed
  qed
qed simp

lemma drain_frame [simp]:
  "snd_part (snd (drain ep)) = snd_part ep \<and> config_part (snd (drain ep)) = config_part ep \<and>
   ep_nacked (snd (drain ep)) = ep_nacked ep"
proof (induction ep rule: drain_induct)
  case (stop ep)
  then show ?case by (simp add: drain_stop)
next
  case (step ep v)
  then show ?case by (simp add: drain_step Let_def) (simp add: part_defs)
qed

lemma prune_nacked_frame [simp]:
  "snd_part (prune_nacked ep) = snd_part ep" "config_part (prune_nacked ep) = config_part ep"
  "ep_rcv_base (prune_nacked ep) = ep_rcv_base ep" "ep_reorder (prune_nacked ep) = ep_reorder ep"
  "ep_window_size (prune_nacked ep) = ep_window_size ep"
  by (simp_all add: prune_nacked_def part_defs)

lemma prune_nacked_set: "ep_nacked (prune_nacked ep) = {s \<in> ep_nacked ep. seq_lt (ep_rcv_base ep) s}"
  by (simp add: prune_nacked_def)

end
