(* ===== verification/Arq_Sender.thy ===== *)
theory Arq_Sender
  imports Arq_Inv
begin

text \<open>
  The sending half of an endpoint against its log, the list of chunks it has put on the
  wire in sequence order. The invariant says that the outstanding records are exactly the
  last entries of the log, in order; each operation is shown to keep it, and the packets an
  operation returns are shown to carry log entries under their own sequence numbers.
\<close>

definition small :: "'a list \<Rightarrow> bool" where
  "small xs \<longleftrightarrow> int (length xs) < SEQ_HALF"

lemma small_append: "small (xs @ ys) \<Longrightarrow> small xs"
  by (simp add: small_def)

lemma small_near: "small xs \<Longrightarrow> i \<le> length xs \<Longrightarrow> j \<le> length xs \<Longrightarrow> near i j"
  by (auto simp: small_def intro: nearI)

lemma small_sq_inj:
  "small xs \<Longrightarrow> i \<le> length xs \<Longrightarrow> j \<le> length xs \<Longrightarrow> sq isn i = sq isn j \<longleftrightarrow> i = j"
  by (rule sq_inj) (rule small_near)

lemma small_seq_lt:
  "small xs \<Longrightarrow> i \<le> length xs \<Longrightarrow> j \<le> length xs \<Longrightarrow> seq_lt (sq isn i) (sq isn j) \<longleftrightarrow> i < j"
  by (rule seq_lt_sq) (rule small_near)

lemma small_seq_diff:
  "small xs \<Longrightarrow> i \<le> length xs \<Longrightarrow> j \<le> length xs \<Longrightarrow> seq_diff (sq isn i) (sq isn j) = int i - int j"
  by (rule seq_diff_sq) (rule small_near)

section \<open>The invariant\<close>

definition data_ok :: "int \<Rightarrow> bytes list \<Rightarrow> Packet \<Rightarrow> bool" where
  "data_ok isn lg pkt \<longleftrightarrow> (\<exists>i<length lg. p_seq pkt = sq isn i \<and> p_payload pkt = lg ! i)"

lemma data_ok_mono: "data_ok isn lg pkt \<Longrightarrow> data_ok isn (lg @ xs) pkt"
  by (force simp: data_ok_def nth_append)

text \<open>The position of the oldest unacknowledged chunk.\<close>

definition una :: "bytes list \<Rightarrow> ArqEndpoint \<Rightarrow> nat" where
  "una lg ep = length lg - length (ep_outstanding ep)"

definition entry_ok :: "int \<Rightarrow> bytes list \<Rightarrow> int \<times> Outstanding \<Rightarrow> bool" where
  "entry_ok isn lg e \<longleftrightarrow>
     ptype (o_packet (snd e)) = DATA \<and> p_seq (o_packet (snd e)) = fst e \<and>
     data_ok isn lg (o_packet (snd e))"

definition snd_inv :: "int \<Rightarrow> bytes list \<Rightarrow> ArqEndpoint \<Rightarrow> bool" where
  "snd_inv isn lg ep \<longleftrightarrow>
     ep_next_seq ep = sq isn (length lg) \<and>
     length (ep_outstanding ep) \<le> length lg \<and>
     dict_keys (ep_outstanding ep) = map (sq isn) [una lg ep..<length lg] \<and>
     list_all (entry_ok isn lg) (ep_outstanding ep) \<and>
     ep_acked_bytes ep = length (concat (take (una lg ep) lg))"

lemma entry_ok_mono: "entry_ok isn lg e \<Longrightarrow> entry_ok isn (lg @ xs) e"
  by (simp add: entry_ok_def data_ok_mono)

lemma list_entry_ok_mono:
  "list_all (entry_ok isn lg) es \<Longrightarrow> list_all (entry_ok isn (lg @ xs)) es"
  by (simp add: list_all_iff entry_ok_mono)

lemma snd_inv_cong:
  assumes "snd_inv isn lg ep"
    and "ep_next_seq ep' = ep_next_seq ep" "ep_outstanding ep' = ep_outstanding ep"
    and "ep_acked_bytes ep' = ep_acked_bytes ep"
  shows "snd_inv isn lg ep'"
  using assms by (simp add: snd_inv_def una_def)

lemma snd_inv_distinct:
  assumes "snd_inv isn lg ep" and "small lg"
  shows "distinct (dict_keys (ep_outstanding ep))"
proof -
  have "inj_on (sq isn) (set [una lg ep..<length lg])"
    by (rule inj_onI) (use small_sq_inj [OF assms(2)] in auto)
  with assms(1) show ?thesis by (simp add: snd_inv_def distinct_map)
qed

lemma snd_inv_fresh:
  assumes "snd_inv isn lg ep" and "small (lg @ [c])"
  shows "\<not> dict_mem (ep_next_seq ep) (ep_outstanding ep)"
proof
  assume "dict_mem (ep_next_seq ep) (ep_outstanding ep)"
  with assms(1) obtain i where "i < length lg" "sq isn i = sq isn (length lg)"
    by (auto simp: dict_mem_keys snd_inv_def)
  with small_sq_inj [OF assms(2), of i "length lg" isn] show False by simp
qed

section \<open>Emitting\<close>

lemma emit_data_inv:
  fixes now :: time
  assumes inv: "snd_inv isn lg ep" and sm: "small (lg @ [c])"
  defines "e \<equiv> emit_data ep c now"
  shows "snd_inv isn (lg @ [c]) (snd e)" and "data_ok isn (lg @ [c]) (fst e)"
    and "ptype (fst e) = DATA" and "p_payload (fst e) = c"
    and "una (lg @ [c]) (snd e) = una lg ep"
proof -
  let ?p = "fst e"
  let ?ob = "\<lparr>o_packet = ?p, o_send_time = now, o_retx_count = 0\<rparr>"
  have p: "ptype ?p = DATA" "p_payload ?p = c" "p_seq ?p = ep_next_seq ep"
    by (simp_all add: e_def emit_data_def Let_def)
  have next': "ep_next_seq ep = sq isn (length lg)" using inv by (simp add: snd_inv_def)
  have ok: "data_ok isn (lg @ [c]) ?p"
    unfolding data_ok_def using p next' by (intro exI [of _ "length lg"]) simp
  have out: "ep_outstanding (snd e) = ep_outstanding ep @ [(ep_next_seq ep, ?ob)]"
    using snd_inv_fresh [OF inv sm] by (simp add: e_def emit_data_def Let_def update_append)
  have una': "una (lg @ [c]) (snd e) = una lg ep"
    using inv by (simp add: una_def out snd_inv_def)
  have le: "una lg ep \<le> length lg" by (simp add: una_def)
  have "snd_inv isn (lg @ [c]) (snd e)"
    unfolding snd_inv_def una'
  proof (intro conjI)
    show "ep_next_seq (snd e) = sq isn (length (lg @ [c]))"
      using next' by (simp add: e_def emit_data_def Let_def sq_Suc)
    show "length (ep_outstanding (snd e)) \<le> length (lg @ [c])"
      using inv by (simp add: out snd_inv_def)
    show "dict_keys (ep_outstanding (snd e)) = map (sq isn) [una lg ep..<length (lg @ [c])]"
      using inv le next' by (simp add: out snd_inv_def)
    show "list_all (entry_ok isn (lg @ [c])) (ep_outstanding (snd e))"
      using inv ok p by (simp add: out snd_inv_def list_entry_ok_mono entry_ok_def)
    show "ep_acked_bytes (snd e) = length (concat (take (una lg ep) (lg @ [c])))"
      using inv le by (simp add: snd_inv_def e_def emit_data_def Let_def)
  qed
  with ok p una' show "snd_inv isn (lg @ [c]) (snd e)" "data_ok isn (lg @ [c]) ?p"
    "ptype ?p = DATA" "p_payload ?p = c"
    "una (lg @ [c]) (snd e) = una lg ep" by simp_all
qed

text \<open>
  The chunks are in order: nothing is queued while the window is open. Every method but
  \<open>on_nack\<close> keeps this.
\<close>

definition flushed :: "ArqEndpoint \<Rightarrow> bool" where
  "flushed ep \<longleftrightarrow> ep_pending ep = [] \<or> \<not> can_send ep"

text \<open>What a call that emits new chunks guarantees.\<close>

definition emits :: "int \<Rightarrow> bytes list \<Rightarrow> nat \<Rightarrow> Packet list \<Rightarrow> ArqEndpoint \<Rightarrow> bool" where
  "emits isn lg u pkts ep \<longleftrightarrow>
     snd_inv isn (lg @ map p_payload pkts) ep \<and> una (lg @ map p_payload pkts) ep = u \<and>
     (\<forall>p \<in> set pkts. ptype p = DATA \<and> data_ok isn (lg @ map p_payload pkts) p)"

lemma emits_Nil: "snd_inv isn lg ep \<Longrightarrow> emits isn lg (una lg ep) [] ep"
  by (simp add: emits_def)

lemma emits_Cons:
  assumes "emits isn (lg @ [p_payload p]) u pkts ep"
    and "ptype p = DATA" and "data_ok isn (lg @ [p_payload p]) p"
  shows "emits isn lg u (p # pkts) ep"
  using assms data_ok_mono [OF assms(3), of "map p_payload pkts"] by (auto simp: emits_def)

lemma flush_pending_emits:
  assumes "snd_inv isn lg ep" and "small (lg @ map p_payload (fst (flush_pending ep now)))"
  shows "emits isn lg (una lg ep) (fst (flush_pending ep now)) (snd (flush_pending ep now))"
  using assms
proof (induction ep arbitrary: lg rule: flush_induct [where now = now])
  case (stop ep)
  then show ?case by (simp add: flush_stop emits_Nil)
next
  case (step ep c rest)
  let ?ep0 = "ep\<lparr>ep_pending := rest\<rparr>"
  let ?e = "emit_data ?ep0 c now"
  let ?r = "flush_pending (snd ?e) now"
  have f: "flush_pending ep now = (fst ?e # fst ?r, snd ?r)"
    using step.hyps by (simp add: flush_step Let_def)
  have pl: "p_payload (fst ?e) = c" by (simp add: emit_data_def Let_def)
  have sm: "small ((lg @ [c]) @ map p_payload (fst ?r))" using step.prems(2) by (simp add: f pl)
  have inv0: "snd_inv isn lg ?ep0" by (rule snd_inv_cong [OF step.prems(1)]) simp_all
  note e = emit_data_inv [OF inv0 small_append [OF sm], of now]
  have "emits isn (lg @ [c]) (una (lg @ [c]) (snd ?e)) (fst ?r) (snd ?r)"
    by (rule step.IH [OF e(1) sm])
  moreover have "una (lg @ [c]) (snd ?e) = una lg ep" using e(5) by (simp add: una_def)
  ultimately show ?case unfolding f using e by (auto intro!: emits_Cons simp: pl)
qed

lemma flush_pending_order:
  "ep_pending ep = map p_payload (fst (flush_pending ep now)) @ ep_pending (snd (flush_pending ep now))
   \<and> flushed (snd (flush_pending ep now))"
proof (induction ep rule: flush_induct [where now = now])
  case (stop ep)
  then show ?case by (auto simp: flush_stop flushed_def)
next
  case (step ep c rest)
  moreover have "p_payload (fst (emit_data (ep\<lparr>ep_pending := rest\<rparr>) c now)) = c"
    by (simp add: emit_data_def Let_def)
  ultimately show ?case by (auto simp: flush_step Let_def emit_data_pending)
qed

lemma send_chunks_emits:
  assumes "snd_inv isn lg ep" and "small (lg @ map p_payload (fst (send_chunks ep cs now)))"
  shows "emits isn lg (una lg ep) (fst (send_chunks ep cs now)) (snd (send_chunks ep cs now))"
  using assms
proof (induction cs arbitrary: ep lg)
  case Nil
  then show ?case by (simp add: emits_Nil)
next
  case (Cons c cs)
  show ?case
  proof (cases "can_send ep")
    case False
    let ?ep0 = "ep\<lparr>ep_pending := ep_pending ep @ [c]\<rparr>"
    have "snd_inv isn lg ?ep0" by (rule snd_inv_cong [OF Cons.prems(1)]) simp_all
    with False Cons.IH [of lg ?ep0] Cons.prems show ?thesis by (simp add: una_def)
  next
    case True
    let ?e = "emit_data ep c now"
    let ?r = "send_chunks (snd ?e) cs now"
    have f: "send_chunks ep (c # cs) now = (fst ?e # fst ?r, snd ?r)"
      using True by (simp add: send_chunks_step Let_def del: send_chunks.simps)
    have pl: "p_payload (fst ?e) = c" by (simp add: emit_data_def Let_def)
    have sm: "small ((lg @ [c]) @ map p_payload (fst ?r))" using Cons.prems(2) unfolding f by (simp add: pl)
    note e = emit_data_inv [OF Cons.prems(1) small_append [OF sm], of now]
    have "emits isn (lg @ [c]) (una (lg @ [c]) (snd ?e)) (fst ?r) (snd ?r)"
      by (rule Cons.IH [OF e(1) sm])
    then show ?thesis unfolding f using e by (auto intro!: emits_Cons simp: pl)
  qed
qed

lemma send_chunks_blocked:
  "\<not> can_send ep \<Longrightarrow> send_chunks ep cs now = ([], ep\<lparr>ep_pending := ep_pending ep @ cs\<rparr>)"
proof (induction cs arbitrary: ep)
  case (Cons c cs)
  moreover have "\<not> can_send (ep\<lparr>ep_pending := ep_pending ep @ [c]\<rparr>)"
    using Cons.prems by (simp add: can_send_def send_limit_def)
  ultimately show ?case by simp
qed simp

lemma send_chunks_order:
  assumes "flushed ep"
  shows "ep_pending ep @ cs =
      map p_payload (fst (send_chunks ep cs now)) @ ep_pending (snd (send_chunks ep cs now))
    \<and> flushed (snd (send_chunks ep cs now))"
  using assms
proof (induction cs arbitrary: ep)
  case Nil
  then show ?case by (auto simp: flushed_def)
next
  case (Cons c cs)
  show ?case
  proof (cases "can_send ep")
    case False
    then have "\<not> can_send (ep\<lparr>ep_pending := ep_pending ep @ c # cs\<rparr>)"
      by (simp add: can_send_def send_limit_def)
    with False show ?thesis
      by (simp add: send_chunks_blocked flushed_def del: send_chunks.simps)
  next
    case True
    with Cons.prems have p: "ep_pending ep = []" by (simp add: flushed_def)
    let ?e = "emit_data ep c now"
    have "p_payload (fst ?e) = c" by (simp add: emit_data_def Let_def)
    moreover have "flushed (snd ?e)" using p by (simp add: flushed_def emit_data_pending)
    ultimately show ?thesis
      using Cons.IH [of "snd ?e"] True p
      by (simp add: send_chunks_step Let_def emit_data_pending del: send_chunks.simps)
  qed
qed

section \<open>Acknowledgements and retransmissions\<close>

lemma snd_inv_head:
  assumes "snd_inv isn lg ep" and "small lg" and "una lg ep < length lg"
  obtains ob rest where "ep_outstanding ep = (sq isn (una lg ep), ob) # rest"
    and "p_payload (o_packet ob) = lg ! una lg ep"
proof -
  have k: "dict_keys (ep_outstanding ep) = sq isn (una lg ep) # map (sq isn) [Suc (una lg ep)..<length lg]"
    using assms by (simp add: snd_inv_def upt_conv_Cons)
  then obtain ob rest where o: "ep_outstanding ep = (sq isn (una lg ep), ob) # rest"
    by (cases "ep_outstanding ep") auto
  have "entry_ok isn lg (sq isn (una lg ep), ob)" using assms(1) o by (simp add: snd_inv_def)
  then obtain i where "i < length lg" "sq isn (una lg ep) = sq isn i" "p_payload (o_packet ob) = lg ! i"
    by (auto simp: entry_ok_def data_ok_def)
  moreover have "i = una lg ep"
    using calculation small_sq_inj [OF assms(2), of "una lg ep" i isn] assms(3) by simp
  ultimately show ?thesis using that o by simp
qed

lemma ack_one_inv:
  assumes inv: "snd_inv isn lg ep" and sm: "small lg"
    and o: "ep_outstanding ep = (sq isn (una lg ep), ob) # rest"
    and pl: "p_payload (o_packet ob) = lg ! una lg ep"
    and lt: "una lg ep < length lg"
    and e': "ep_outstanding ep' = AList.delete (sq isn (una lg ep)) (ep_outstanding ep)"
      "ep_acked_bytes ep' = ep_acked_bytes ep + length (p_payload (o_packet ob))"
      "ep_next_seq ep' = ep_next_seq ep"
  shows "snd_inv isn lg ep' \<and> una lg ep' = Suc (una lg ep)"
proof -
  have "sq isn (una lg ep) \<notin> set (dict_keys rest)"
    using snd_inv_distinct [OF inv sm] o by simp
  then have out: "ep_outstanding ep' = rest" using e'(1) o by (simp add: image_iff)
  have len: "length (ep_outstanding ep) \<le> length lg" using inv by (simp add: snd_inv_def)
  have "length (ep_outstanding ep) = Suc (length rest)" by (subst o) simp
  then have u: "una lg ep' = Suc (una lg ep)" using len unfolding una_def out by linarith
  have "dict_keys rest = map (sq isn) [Suc (una lg ep)..<length lg]"
    using inv lt o by (simp add: snd_inv_def upt_conv_Cons)
  moreover have "take (Suc (una lg ep)) lg = take (una lg ep) lg @ [lg ! una lg ep]"
    using lt by (rule take_Suc_conv_app_nth)
  ultimately have "snd_inv isn lg ep'"
    using inv o pl e' unfolding snd_inv_def u by (simp add: out)
  with u show ?thesis by simp
qed

lemma ack_loop_inv:
  assumes "snd_inv isn lg ep" and "small lg" and "ss = map (sq isn) [una lg ep..<m]" and "m \<le> length lg"
  shows "snd_inv isn lg (snd (ack_loop ep ss now)) \<and>
    una lg ep \<le> una lg (snd (ack_loop ep ss now)) \<and>
    una lg (snd (ack_loop ep ss now)) \<le> max m (una lg ep)"
  using assms(1,3)
proof (induction ss arbitrary: ep)
  case Nil
  then show ?case by simp
next
  case (Cons s ss)
  have lt: "una lg ep < m" using Cons.prems(2) by (cases "una lg ep < m") auto
  then have l: "una lg ep < length lg" using assms(4) by simp
  from Cons.prems(2) lt have s: "s = sq isn (una lg ep)" and ss: "ss = map (sq isn) [Suc (una lg ep)..<m]"
    by (auto simp: upt_conv_Cons)
  obtain ob rest where o: "ep_outstanding ep = (sq isn (una lg ep), ob) # rest"
    and pl: "p_payload (o_packet ob) = lg ! una lg ep"
    using snd_inv_head [OF Cons.prems(1) assms(2) l] by blast
  have mo: "map_of (ep_outstanding ep) s = Some ob" using o s by simp
  define Q where "Q r \<longleftrightarrow> snd_inv isn lg (snd r) \<and> una lg ep \<le> una lg (snd r) \<and>
      una lg (snd r) \<le> max m (una lg ep)" for r :: "unit result \<times> ArqEndpoint"
  have one: "snd_inv isn lg ep' \<and> una lg ep' = Suc (una lg ep)"
    if "ep_outstanding ep' = AList.delete s (ep_outstanding ep)"
      "ep_acked_bytes ep' = ep_acked_bytes ep + length (p_payload (o_packet ob))"
      "ep_next_seq ep' = ep_next_seq ep" for ep'
    by (rule ack_one_inv [OF Cons.prems(1) assms(2) o pl l]) (simp_all only: that s)
  have stop: "Q (r, ep')" if "snd_inv isn lg ep' \<and> una lg ep' = Suc (una lg ep)" for r ep'
    using that lt by (simp add: Q_def)
  have go: "Q (ack_loop ep' ss now)" if "snd_inv isn lg ep' \<and> una lg ep' = Suc (una lg ep)" for ep'
    using Cons.IH [of ep'] that ss lt by (auto simp: Q_def)
  have "Q (ack_loop ep (s # ss) now)"
  proof (cases "o_retx_count ob = 0")
    case False
    show ?thesis unfolding ack_loop_step [OF mo] Let_def if_not_P [OF False]
      by (rule go, rule one) simp_all
  next
    case True
    show ?thesis
    proof (cases "fst (on_sample (ep_rto ep) (now - o_send_time ob))")
      case (Inl e)
      show ?thesis unfolding ack_loop_step [OF mo] Let_def if_P [OF True] Inl sum.case
        by (rule stop, rule one) simp_all
    next
      case (Inr x)
      show ?thesis unfolding ack_loop_step [OF mo] Let_def if_P [OF True] Inr sum.case
        by (rule go, rule one) simp_all
    qed
  qed
  then show ?case by (simp only: Q_def)
qed

lemma filter_less_upt: "filter (\<lambda>i. i < j) [u..<n] = [u..<min j n]"
proof (induction n)
  case (Suc n)
  then show ?case by (cases "u \<le> n") (auto simp: min_def le_Suc_eq)
qed simp

lemma acked_keys:
  assumes "snd_inv isn lg ep" and "small lg" and "j \<le> length lg"
  shows "filter (\<lambda>s. seq_lt s (sq isn j)) (dict_keys (ep_outstanding ep))
    = map (sq isn) [una lg ep..<j]"
proof -
  have "filter (\<lambda>s. seq_lt s (sq isn j)) (map (sq isn) [una lg ep..<length lg])
    = map (sq isn) (filter (\<lambda>i. seq_lt (sq isn i) (sq isn j)) [una lg ep..<length lg])"
    by (simp add: filter_map comp_def)
  also have "filter (\<lambda>i. seq_lt (sq isn i) (sq isn j)) [una lg ep..<length lg]
    = filter (\<lambda>i. i < j) [una lg ep..<length lg]"
    using assms(2,3) by (intro filter_cong) (simp_all add: small_seq_lt)
  finally show ?thesis using assms by (simp add: snd_inv_def filter_less_upt min_def)
qed

lemma touch_inv:
  assumes "snd_inv isn lg ep" and "map_of (ep_outstanding ep) s = Some ob"
  shows "snd_inv isn lg (touch ep s ob now)"
proof -
  let ?ob = "ob\<lparr>o_send_time := now, o_retx_count := o_retx_count ob + 1\<rparr>"
  let ?es = "AList.update s ?ob (ep_outstanding ep)"
  have mem: "dict_mem s (ep_outstanding ep)" using assms(2) by (simp add: dict_mem_def)
  then have keys: "dict_keys ?es = dict_keys (ep_outstanding ep)"
    by (simp add: update_keys dict_mem_keys)
  have len: "length ?es = length (ep_outstanding ep)" using mem by (simp add: length_update)
  have "entry_ok isn lg (s, ob)"
    using assms map_of_SomeD [OF assms(2)] by (auto simp: snd_inv_def list_all_iff)
  then have eo: "entry_ok isn lg (s, ?ob)" by (simp add: entry_ok_def)
  have "set ?es \<subseteq> insert (s, ?ob) (set (ep_outstanding ep))" by (rule set_update_subset)
  then have "list_all (entry_ok isn lg) ?es"
    using assms(1) eo by (auto simp: snd_inv_def list_all_iff)
  with assms(1) keys len show ?thesis
    by (simp add: snd_inv_def una_def touch_def)
qed

lemma retx_packet_ok:
  assumes "snd_inv isn lg ep" and "map_of (ep_outstanding ep) s = Some ob"
  shows "ptype (o_packet ob) = DATA \<and> data_ok isn lg (o_packet ob) \<and> p_seq (o_packet ob) = s"
  using assms map_of_SomeD [OF assms(2)] by (auto simp: snd_inv_def list_all_iff entry_ok_def)

lemma tick_loop_inv:
  assumes "snd_inv isn lg ep"
  shows "snd_inv isn lg (snd (snd (tick_loop ep ss now))) \<and>
    (\<forall>p \<in> set (fst (tick_loop ep ss now)). ptype p = DATA \<and> data_ok isn lg p)"
  using assms
proof (induction ss arbitrary: ep)
  case (Cons s ss)
  show ?case
  proof (cases "map_of (ep_outstanding ep) s")
    case None
    with Cons show ?thesis by simp
  next
    case (Some ob)
    show ?thesis
    proof (cases "o_retx_count ob < ep_max_retx ep")
      case True
      with Cons.IH [OF touch_inv [OF Cons.prems Some]] retx_packet_ok [OF Cons.prems Some]
      show ?thesis by (simp add: tick_loop_step [OF Some True] Let_def del: tick_loop.simps)
    next
      case False
      have "snd_inv isn lg (ep\<lparr>ep_failed := True\<rparr>)" by (rule snd_inv_cong [OF Cons.prems]) simp_all
      with False Some show ?thesis by simp
    qed
  qed
qed simp

section \<open>The public methods\<close>

lemma arq_send_emits:
  assumes "snd_inv isn lg ep" and "small (lg @ map p_payload (ao_packets (fst (arq_send ep data now))))"
  shows "emits isn lg (una lg ep) (ao_packets (fst (arq_send ep data now))) (snd (arq_send ep data now))"
proof (cases "data = []")
  case True
  with assms show ?thesis by (simp add: arq_send_def empty_output_def emits_Nil)
next
  case False
  with assms send_chunks_emits [of isn lg ep "py_slices (ep_max_payload ep) data" now]
  show ?thesis by (simp add: arq_send_def empty_output_def case_prod_beta)
qed

lemma arq_send_frame:
  "rcv_part (snd (arq_send ep data now)) = rcv_part ep \<and>
   config_part (snd (arq_send ep data now)) = config_part ep \<and>
   ao_delivered (fst (arq_send ep data now)) = []"
  by (simp add: arq_send_def empty_output_def case_prod_beta)

lemma arq_send_order:
  assumes "flushed ep" and "1 \<le> ep_max_payload ep"
  shows "concat (ep_pending ep) @ data =
      concat (map p_payload (ao_packets (fst (arq_send ep data now))))
      @ concat (ep_pending (snd (arq_send ep data now)))
    \<and> flushed (snd (arq_send ep data now))"
proof (cases "data = []")
  case True
  with assms show ?thesis by (simp add: arq_send_def empty_output_def)
next
  case False
  let ?cs = "py_slices (ep_max_payload ep) data"
  have "concat ?cs = data" using assms(2) by (intro concat_py_slices) simp
  moreover from send_chunks_order [OF assms(1), of ?cs now]
  have "concat (ep_pending ep) @ concat ?cs =
      concat (map p_payload (fst (send_chunks ep ?cs now))) @
      concat (ep_pending (snd (send_chunks ep ?cs now)))"
    by (metis concat_append)
  ultimately show ?thesis
    using False send_chunks_order [OF assms(1), of ?cs now]
    by (simp add: arq_send_def empty_output_def case_prod_beta)
qed

lemma on_ack_inv:
  fixes now :: time
  assumes inv: "snd_inv isn lg ep" and sm: "small lg" and j: "p_ack pkt = sq isn j" "j \<le> length lg"
  defines "r \<equiv> on_ack ep pkt now"
  shows "fst r = Inl e \<Longrightarrow> snd_inv isn lg (snd r) \<and> una lg (snd r) \<le> max j (una lg ep)"
    and "fst r = Inr out \<Longrightarrow> small (lg @ map p_payload (ao_packets out)) \<Longrightarrow>
      \<exists>u. u \<le> max j (una lg ep) \<and> emits isn lg u (ao_packets out) (snd r)"
proof -
  let ?ep0 = "ep\<lparr>ep_peer_window := p_window pkt\<rparr>"
  let ?l = "ack_loop ?ep0 (filter (\<lambda>s. seq_lt s (p_ack pkt)) (dict_keys (ep_outstanding ?ep0))) now"
  have inv0: "snd_inv isn lg ?ep0" by (rule snd_inv_cong [OF inv]) simp_all
  have u0: "una lg ?ep0 = una lg ep" by (simp add: una_def)
  have keys: "filter (\<lambda>s. seq_lt s (p_ack pkt)) (dict_keys (ep_outstanding ?ep0))
      = map (sq isn) [una lg ?ep0..<j]"
    unfolding j(1) by (rule acked_keys [OF inv0 sm j(2)])
  have l: "snd_inv isn lg (snd ?l)" "una lg (snd ?l) \<le> max j (una lg ep)"
    using ack_loop_inv [OF inv0 sm keys j(2), of now] u0 by simp_all
  show "snd_inv isn lg (snd r) \<and> una lg (snd r) \<le> max j (una lg ep)" if "fst r = Inl e"
    using that l unfolding r_def on_ack_def Let_def
    by (cases ?l) (auto split: sum.splits prod.splits)
  show "\<exists>u. u \<le> max j (una lg ep) \<and> emits isn lg u (ao_packets out) (snd r)"
    if "fst r = Inr out" "small (lg @ map p_payload (ao_packets out))"
  proof -
    from that(1) obtain x where x: "fst ?l = Inr x"
      unfolding r_def on_ack_def Let_def by (cases ?l) (auto split: sum.splits prod.splits)
    then have l_eq: "?l = (Inr x, snd ?l)" by (metis prod.collapse)
    have req: "r = (Inr (empty_output\<lparr>ao_packets := fst (flush_pending (snd ?l) now)\<rparr>),
        snd (flush_pending (snd ?l) now))"
      unfolding r_def on_ack_def Let_def by (subst l_eq) (simp add: case_prod_beta)
    with that have out: "ao_packets out = fst (flush_pending (snd ?l) now)"
      by (auto simp: empty_output_def)
    have "emits isn lg (una lg (snd ?l)) (ao_packets out) (snd r)"
      using flush_pending_emits [OF l(1), of now] that(2) out req by simp
    with l(2) show ?thesis by blast
  qed
qed

lemma on_ack_frame:
  "rcv_part (snd (on_ack ep pkt now)) = rcv_part ep \<and>
   config_part (snd (on_ack ep pkt now)) = config_part ep"
proof -
  let ?ep0 = "ep\<lparr>ep_peer_window := p_window pkt\<rparr>"
  let ?ks = "filter (\<lambda>s. seq_lt s (p_ack pkt)) (dict_keys (ep_outstanding ?ep0))"
  obtain r b where l: "ack_loop ?ep0 ?ks now = (r, b)" by (cases "ack_loop ?ep0 ?ks now")
  have "rcv_part b = rcv_part ?ep0 \<and> config_part b = config_part ?ep0"
    using ack_loop_frame [of ?ep0 ?ks now] unfolding l by simp
  then have "rcv_part b = rcv_part ep" "config_part b = config_part ep"
    by (simp_all add: part_defs)
  then show ?thesis
    unfolding on_ack_def Let_def l by (auto simp: case_prod_beta split: sum.split)
qed

lemma on_ack_order:
  assumes "fst (on_ack ep pkt now) = Inr out"
  shows "ep_pending ep = map p_payload (ao_packets out) @ ep_pending (snd (on_ack ep pkt now)) \<and>
    flushed (snd (on_ack ep pkt now)) \<and> ao_delivered out = []"
proof -
  let ?ep0 = "ep\<lparr>ep_peer_window := p_window pkt\<rparr>"
  let ?l = "ack_loop ?ep0 (filter (\<lambda>s. seq_lt s (p_ack pkt)) (dict_keys (ep_outstanding ?ep0))) now"
  from assms obtain x where x: "fst ?l = Inr x"
    unfolding on_ack_def Let_def by (cases ?l) (auto split: sum.splits prod.splits)
  then have l_eq: "?l = (Inr x, snd ?l)" by (metis prod.collapse)
  have req: "on_ack ep pkt now = (Inr (empty_output\<lparr>ao_packets := fst (flush_pending (snd ?l) now)\<rparr>),
      snd (flush_pending (snd ?l) now))"
    unfolding on_ack_def Let_def by (subst l_eq) (simp add: case_prod_beta)
  have "ep_pending (snd ?l) = ep_pending ep" by simp
  with req assms flush_pending_order [of "snd ?l" now] show ?thesis by (auto simp: empty_output_def)
qed

lemma on_nack_inv:
  assumes "snd_inv isn lg ep"
  shows "snd_inv isn lg (snd (on_nack ep pkt now)) \<and> una lg (snd (on_nack ep pkt now)) = una lg ep \<and>
    (\<forall>p \<in> set (ao_packets (fst (on_nack ep pkt now))). ptype p = DATA \<and> data_ok isn lg p)"
proof -
  let ?ep0 = "ep\<lparr>ep_peer_window := p_window pkt\<rparr>"
  have inv0: "snd_inv isn lg ?ep0" by (rule snd_inv_cong [OF assms]) simp_all
  show ?thesis
  proof (cases "map_of (ep_outstanding ?ep0) (p_ack pkt)")
    case None
    with inv0 show ?thesis by (simp add: on_nack_def Let_def empty_output_def una_def)
  next
    case (Some ob)
    have "length (ep_outstanding (touch ?ep0 (p_ack pkt) ob now)) = length (ep_outstanding ep)"
      using Some by (simp add: touch_def length_update dict_mem_def)
    with Some touch_inv [OF inv0 Some] retx_packet_ok [OF inv0 Some] show ?thesis
      by (simp add: on_nack_def Let_def empty_output_def una_def)
  qed
qed

lemma on_nack_frame:
  "rcv_part (snd (on_nack ep pkt now)) = rcv_part ep \<and>
   config_part (snd (on_nack ep pkt now)) = config_part ep \<and>
   ep_pending (snd (on_nack ep pkt now)) = ep_pending ep \<and>
   ao_delivered (fst (on_nack ep pkt now)) = []"
  by (simp add: on_nack_def Let_def empty_output_def split: option.split) (simp add: part_defs)

lemma tick_loop_una: "length (ep_outstanding (snd (snd (tick_loop ep ss now)))) = length (ep_outstanding ep)"
proof (induction ss arbitrary: ep)
  case (Cons s ss)
  have "length (ep_outstanding (touch ep s ob now)) = length (ep_outstanding ep)"
    if "map_of (ep_outstanding ep) s = Some ob" for ob
    using that by (simp add: touch_def length_update dict_mem_def)
  with Cons show ?case by (simp add: case_prod_beta split: option.split)
qed simp

lemma arq_on_tick_inv:
  assumes "snd_inv isn lg ep"
  shows "snd_inv isn lg (snd (arq_on_tick ep now)) \<and> una lg (snd (arq_on_tick ep now)) = una lg ep \<and>
    (\<forall>p \<in> set (ao_packets (fst (arq_on_tick ep now))). ptype p = DATA \<and> data_ok isn lg p)"
proof -
  let ?t = "tick_loop ep (timed_out ep now) now"
  have t: "snd_inv isn lg (snd (snd ?t))"
    "snd_inv isn lg (snd (snd ?t)\<lparr>ep_rto := on_timeout (ep_rto (snd (snd ?t)))\<rparr>)"
    using tick_loop_inv [OF assms, of "timed_out ep now" now] by (auto elim: snd_inv_cong)
  with tick_loop_inv [OF assms, of "timed_out ep now" now] assms
    tick_loop_una [of ep "timed_out ep now" now]
  show ?thesis
    by (cases ?t) (auto simp: arq_on_tick_def empty_output_def una_def split: bool.split)
qed

lemma arq_on_tick_frame:
  "rcv_part (snd (arq_on_tick ep now)) = rcv_part ep \<and>
   config_part (snd (arq_on_tick ep now)) = config_part ep \<and>
   ep_pending (snd (arq_on_tick ep now)) = ep_pending ep \<and>
   ep_peer_window (snd (arq_on_tick ep now)) = ep_peer_window ep \<and>
   ao_delivered (fst (arq_on_tick ep now)) = []"
proof -
  let ?t = "tick_loop ep (timed_out ep now) now"
  show ?thesis
    using tick_loop_frame [of ep "timed_out ep now" now]
    by (cases ?t) (auto simp: arq_on_tick_def empty_output_def part_defs split: bool.split)
qed

end
