(* ===== verification/Arq_Receiver.thy ===== *)
theory Arq_Receiver
  imports Arq_Sender
begin

text \<open>
  The receiving half of an endpoint. First an invariant that any sequence of arrivals keeps,
  valid or hostile: the reorder buffer holds only keys strictly ahead of \<open>rcv_base\<close> and
  inside the window, so at least one slot is always free and the advertised window never
  closes. Then the invariant against the peer's log: what has been delivered is a prefix of
  the log, and the buffer holds log entries under their own numbers.
\<close>

section \<open>Shape of the reorder buffer\<close>

definition in_window :: "ArqEndpoint \<Rightarrow> int \<Rightarrow> int \<Rightarrow> bool" where
  "in_window ep lo k \<longleftrightarrow> fits 4 k \<and> lo \<le> seq_diff k (ep_rcv_base ep) \<and>
     seq_diff k (ep_rcv_base ep) < int (ep_window_size ep)"

definition recv_shape :: "int \<Rightarrow> ArqEndpoint \<Rightarrow> bool" where
  "recv_shape lo ep \<longleftrightarrow> 1 \<le> ep_window_size ep \<and> fits 4 (ep_rcv_base ep) \<and>
     distinct (dict_keys (ep_reorder ep)) \<and>
     list_all (in_window ep lo) (dict_keys (ep_reorder ep))"

abbreviation recv_ok :: "ArqEndpoint \<Rightarrow> bool" where
  "recv_ok ep \<equiv> recv_shape 1 ep"

lemma fits_4: "fits 4 k \<longleftrightarrow> 0 \<le> k \<and> k < SEQ_MOD"
  by (simp add: fits_def SEQ_MOD_def)

lemma seq_add_fits: "fits 4 (seq_add a n)"
  by (simp add: fits_4 seq_add_def SEQ_MOD_def)

lemma seq_add_diff: "seq_add b (seq_diff a b) = a mod SEQ_MOD"
proof -
  have "(b + ((a - b) mod SEQ_MOD - SEQ_MOD)) mod SEQ_MOD = (b + (a - b) mod SEQ_MOD) mod SEQ_MOD"
    using mod_add_self2 [of "b + ((a - b) mod SEQ_MOD - SEQ_MOD)" SEQ_MOD] by simp
  moreover have "(b + (a - b) mod SEQ_MOD) mod SEQ_MOD = a mod SEQ_MOD"
    by (simp add: mod_add_right_eq)
  ultimately show ?thesis by (simp add: seq_add_def seq_diff_def Let_def)
qed

lemma fits_seq_diff_inj:
  assumes "fits 4 a" and "fits 4 c" and "seq_diff a b = seq_diff c b"
  shows "a = c"
proof -
  have "a mod SEQ_MOD = c mod SEQ_MOD" using seq_add_diff [of b a] seq_add_diff [of b c] assms(3) by simp
  with assms show ?thesis by (simp add: fits_4)
qed

lemma seq_diff_Suc:
  assumes "1 \<le> seq_diff k b"
  shows "seq_diff k (seq_add b 1) = seq_diff k b - 1"
proof -
  let ?d = "(k - b) mod SEQ_MOD"
  have d: "?d < SEQ_HALF" "seq_diff k b = ?d" "0 \<le> ?d"
    using assms by (auto simp: seq_diff_def Let_def SEQ_HALF_def SEQ_MOD_def split: if_splits)
  have "(k - seq_add b 1) mod SEQ_MOD = (k - (b + 1)) mod SEQ_MOD"
    unfolding seq_add_def by (rule mod_diff_right_eq)
  also have "\<dots> = (?d - 1) mod SEQ_MOD" by (simp add: mod_diff_left_eq diff_diff_eq)
  also have "\<dots> = ?d - 1"
    using assms d by (intro mod_pos_pos_trivial) (auto simp: SEQ_HALF_def SEQ_MOD_def)
  finally show ?thesis using d by (simp add: seq_diff_def Let_def)
qed

lemma seq_diff_refl [simp]: "seq_diff b b = 0"
  by (simp add: seq_diff_def SEQ_HALF_def)

lemma seq_diff_self: "fits 4 k \<Longrightarrow> fits 4 b \<Longrightarrow> seq_diff k b = 0 \<longleftrightarrow> k = b"
  using fits_seq_diff_inj [of k b b] by auto

lemma seq_lt_diff: "seq_lt b k \<longleftrightarrow> 1 \<le> seq_diff k b"
  by (auto simp: seq_lt_def seq_diff_def Let_def SEQ_HALF_def SEQ_MOD_def)

text \<open>At most \<open>window - 1\<close> keys fit strictly ahead of \<open>rcv_base\<close>.\<close>

lemma recv_ok_length:
  assumes "recv_ok ep"
  shows "length (ep_reorder ep) < ep_window_size ep"
proof -
  let ?K = "set (dict_keys (ep_reorder ep))"
  let ?f = "\<lambda>k. seq_diff k (ep_rcv_base ep)"
  have inj: "inj_on ?f ?K"
    by (rule inj_onI) (use assms in \<open>auto simp: recv_shape_def in_window_def list_all_iff intro: fits_seq_diff_inj\<close>)
  have "?f ` ?K \<subseteq> {1..<int (ep_window_size ep)}"
    using assms by (auto simp: recv_shape_def in_window_def list_all_iff)
  then have "card (?f ` ?K) \<le> card {1..<int (ep_window_size ep)}" by (rule card_mono [rotated]) simp
  then have "card ?K \<le> ep_window_size ep - 1" using card_image [OF inj] by simp
  moreover have "card ?K = length (dict_keys (ep_reorder ep))"
    using assms by (intro distinct_card) (simp add: recv_shape_def)
  moreover have "1 \<le> ep_window_size ep" using assms by (simp add: recv_shape_def)
  ultimately show ?thesis by simp
qed

lemma recv_ok_advertised: "recv_ok ep \<Longrightarrow> 1 \<le> recv_advertised_window ep"
  using recv_ok_length [of ep] by (simp add: recv_advertised_window_def Let_def)

lemma recv_shape_advance:
  assumes "recv_shape 1 ep"
  shows "recv_shape 0 (ep\<lparr>ep_rcv_base := seq_add (ep_rcv_base ep) 1\<rparr>)"
  using assms seq_add_fits [of "ep_rcv_base ep" 1]
  by (auto simp: recv_shape_def in_window_def list_all_iff seq_diff_Suc)

lemma recv_shape_pop:
  assumes "recv_shape 0 ep"
  shows "recv_shape 1 (ep\<lparr>ep_reorder := AList.delete (ep_rcv_base ep) (ep_reorder ep)\<rparr>)"
proof -
  have "1 \<le> seq_diff k (ep_rcv_base ep)"
    if "in_window ep 0 k" "k \<noteq> ep_rcv_base ep" for k
    using that assms seq_diff_self [of k "ep_rcv_base ep"] by (auto simp: in_window_def recv_shape_def)
  with assms show ?thesis
    by (auto simp: recv_shape_def list_all_iff delete_keys distinct_removeAll in_window_def)
qed

lemma recv_shape_absent:
  assumes "recv_shape 0 ep" and "map_of (ep_reorder ep) (ep_rcv_base ep) = None"
  shows "recv_shape 1 ep"
proof -
  have "AList.delete (ep_rcv_base ep) (ep_reorder ep) = ep_reorder ep"
    using assms(2) by (simp add: map_of_eq_None_iff)
  with recv_shape_pop [OF assms(1)] show ?thesis by simp
qed

lemma drain_shape: "recv_shape 0 ep \<Longrightarrow> recv_shape 1 (snd (drain ep))"
proof (induction ep rule: drain_induct)
  case (stop ep)
  then show ?case by (simp add: drain_stop recv_shape_absent)
next
  case (step ep v)
  have "recv_shape 0 (ep\<lparr>ep_reorder := AList.delete (ep_rcv_base ep) (ep_reorder ep),
            ep_rcv_base := seq_add (ep_rcv_base ep) 1\<rparr>)"
    using recv_shape_advance [OF recv_shape_pop [OF step.prems]] by simp
  with step.IH step.hyps show ?case by (simp add: drain_step Let_def)
qed

lemma recv_shape_cong:
  "ep_window_size ep' = ep_window_size ep \<Longrightarrow> ep_rcv_base ep' = ep_rcv_base ep \<Longrightarrow>
   ep_reorder ep' = ep_reorder ep \<Longrightarrow> recv_shape lo ep' = recv_shape lo ep"
  by (simp add: recv_shape_def in_window_def [abs_def])

text \<open>The three fates of a DATA packet.\<close>

lemma accept_data_base:
  "p_seq pkt = ep_rcv_base ep \<Longrightarrow> accept_data ep pkt =
    (let r = drain (ep\<lparr>ep_rcv_base := seq_add (ep_rcv_base ep) 1\<rparr>)
     in (p_payload pkt # fst r, prune_nacked (snd r)))"
  by (simp add: accept_data_def Let_def case_prod_beta)

definition stores :: "ArqEndpoint \<Rightarrow> int \<Rightarrow> bool" where
  "stores ep seq \<longleftrightarrow> seq_lt (ep_rcv_base ep) seq \<and>
     seq_diff seq (ep_rcv_base ep) < int (ep_window_size ep) \<and> \<not> dict_mem seq (ep_reorder ep)"

lemma accept_data_store:
  "p_seq pkt \<noteq> ep_rcv_base ep \<Longrightarrow> stores ep (p_seq pkt) \<Longrightarrow> accept_data ep pkt =
    ([], ep\<lparr>ep_reorder := ep_reorder ep @ [(p_seq pkt, p_payload pkt)]\<rparr>)"
  by (simp add: accept_data_def stores_def update_append)

lemma accept_data_drop:
  "p_seq pkt \<noteq> ep_rcv_base ep \<Longrightarrow> \<not> stores ep (p_seq pkt) \<Longrightarrow> accept_data ep pkt = ([], ep)"
  by (auto simp: accept_data_def stores_def Let_def)

lemma accept_data_shape:
  assumes "recv_ok ep" and "fits 4 (p_seq pkt)"
  shows "recv_ok (snd (accept_data ep pkt))"
proof -
  consider (base) "p_seq pkt = ep_rcv_base ep"
    | (store) "p_seq pkt \<noteq> ep_rcv_base ep" "stores ep (p_seq pkt)"
    | (same) "p_seq pkt \<noteq> ep_rcv_base ep" "\<not> stores ep (p_seq pkt)" by blast
  then show ?thesis
  proof cases
    case base
    let ?r = "drain (ep\<lparr>ep_rcv_base := seq_add (ep_rcv_base ep) 1\<rparr>)"
    have "recv_ok (snd ?r)" by (rule drain_shape) (rule recv_shape_advance [OF assms(1)])
    then have "recv_ok (prune_nacked (snd ?r))" by (subst recv_shape_cong [of _ "snd ?r"]) simp_all
    with base show ?thesis by (simp add: accept_data_base Let_def)
  next
    case store
    with assms show ?thesis
      by (auto simp: accept_data_store recv_shape_def in_window_def list_all_iff dict_mem_keys
          seq_lt_diff stores_def)
  next
    case same
    with assms show ?thesis by (simp add: accept_data_drop)
  qed
qed

lemma on_data_parts:
  "snd_part (snd (on_data ep pkt now)) = snd_part (snd (accept_data ep pkt))"
  "config_part (snd (on_data ep pkt now)) = config_part (snd (accept_data ep pkt))"
  "ep_rcv_base (snd (on_data ep pkt now)) = ep_rcv_base (snd (accept_data ep pkt))"
  "ep_reorder (snd (on_data ep pkt now)) = ep_reorder (snd (accept_data ep pkt))"
  "ep_window_size (snd (on_data ep pkt now)) = ep_window_size (snd (accept_data ep pkt))"
  "ao_delivered (fst (on_data ep pkt now)) = fst (accept_data ep pkt)"
  "ao_events (fst (on_data ep pkt now)) = []"
  by (simp_all add: on_data_def Let_def part_defs split: prod.split option.split)

lemma accept_data_frame:
  "snd_part (snd (accept_data ep pkt)) = snd_part ep \<and>
   config_part (snd (accept_data ep pkt)) = config_part ep"
proof (cases "p_seq pkt = ep_rcv_base ep")
  case True
  let ?e = "ep\<lparr>ep_rcv_base := seq_add (ep_rcv_base ep) 1\<rparr>"
  have "snd_part ?e = snd_part ep" "config_part ?e = config_part ep" by (simp_all add: part_defs)
  with True drain_frame [of ?e] show ?thesis by (simp add: accept_data_base Let_def)
next
  case False
  then show ?thesis by (auto simp: accept_data_def Let_def part_defs)
qed

lemma on_data_shape:
  "recv_ok ep \<Longrightarrow> fits 4 (p_seq pkt) \<Longrightarrow> recv_ok (snd (on_data ep pkt now))"
  using accept_data_shape [of ep pkt]
  by (subst recv_shape_cong [of _ "snd (accept_data ep pkt)"]) (simp_all add: on_data_parts)

section \<open>Against the log of the peer\<close>

definition rcv_entry :: "bytes list \<Rightarrow> int \<Rightarrow> nat \<Rightarrow> nat \<Rightarrow> nat \<Rightarrow> int \<times> bytes \<Rightarrow> bool" where
  "rcv_entry lg isn lo d win e \<longleftrightarrow>
     (\<exists>i. lo \<le> i \<and> i < length lg \<and> i < d + win \<and> fst e = sq isn i \<and> snd e = lg ! i)"

text \<open>
  \<open>d = length got\<close> chunks have been delivered; with \<open>lo = d + 1\<close> the buffer holds only
  entries past the next expected one, with \<open>lo = d\<close> that one may be there too (inside the
  drain loop).
\<close>

definition rcv_inv :: "int \<Rightarrow> bytes list \<Rightarrow> bytes list \<Rightarrow> nat \<Rightarrow> ArqEndpoint \<Rightarrow> bool" where
  "rcv_inv isn lg got lo ep \<longleftrightarrow>
     got = take (length got) lg \<and> length got \<le> length lg \<and>
     ep_rcv_base ep = sq isn (length got) \<and> distinct (dict_keys (ep_reorder ep)) \<and>
     list_all (rcv_entry lg isn lo (length got) (ep_window_size ep)) (ep_reorder ep)"

abbreviation rcv_link :: "int \<Rightarrow> bytes list \<Rightarrow> bytes list \<Rightarrow> ArqEndpoint \<Rightarrow> bool" where
  "rcv_link isn lg got ep \<equiv> rcv_inv isn lg got (Suc (length got)) ep"

lemma rcv_inv_cong:
  assumes "rcv_part ep' = rcv_part ep" and "config_part ep' = config_part ep"
  shows "rcv_inv isn lg got lo ep' = rcv_inv isn lg got lo ep"
  using assms by (simp add: rcv_inv_def part_defs)

lemma rcv_inv_log_mono:
  assumes "rcv_inv isn lg got lo ep"
  shows "rcv_inv isn (lg @ xs) got lo ep"
proof -
  have "rcv_entry (lg @ xs) isn lo d w e" if "rcv_entry lg isn lo d w e" for d w e
    using that by (force simp: rcv_entry_def nth_append)
  with assms show ?thesis by (auto simp: rcv_inv_def list_all_iff)
qed

lemma rcv_inv_pop:
  assumes inv: "rcv_inv isn lg got (length got) ep" and sm: "small lg"
    and v: "map_of (ep_reorder ep) (ep_rcv_base ep) = Some v"
  shows "rcv_inv isn lg (got @ [v]) (Suc (length got))
    (ep\<lparr>ep_reorder := AList.delete (ep_rcv_base ep) (ep_reorder ep),
       ep_rcv_base := seq_add (ep_rcv_base ep) 1\<rparr>)"
proof -
  let ?d = "length got"
  have base: "ep_rcv_base ep = sq isn ?d" and dl: "?d \<le> length lg" using inv by (auto simp: rcv_inv_def)
  have ent: "\<forall>e \<in> set (ep_reorder ep). rcv_entry lg isn ?d ?d (ep_window_size ep) e"
    using inv by (simp add: rcv_inv_def list_all_iff)
  then have "rcv_entry lg isn ?d ?d (ep_window_size ep) (ep_rcv_base ep, v)"
    using map_of_SomeD [OF v] by blast
  then obtain i where i: "?d \<le> i" "i < length lg" "sq isn ?d = sq isn i" "v = lg ! i"
    by (auto simp: rcv_entry_def base)
  then have "i = ?d" using small_sq_inj [OF sm, of ?d i isn] dl by simp
  with i have d: "?d < length lg" "v = lg ! ?d" by auto
  have rest: "rcv_entry lg isn (Suc ?d) (Suc ?d) (ep_window_size ep) e"
    if "e \<in> set (AList.delete (ep_rcv_base ep) (ep_reorder ep))" for e
  proof -
    from that have e: "e \<in> set (ep_reorder ep)" "fst e \<noteq> sq isn ?d"
      by (auto simp: AList.delete_eq base)
    with ent obtain j where j: "?d \<le> j" "j < length lg" "j < ?d + ep_window_size ep"
      "fst e = sq isn j" "snd e = lg ! j" by (auto simp: rcv_entry_def)
    with e have "j \<noteq> ?d" by auto
    with j show ?thesis by (auto simp: rcv_entry_def intro!: exI [of _ j])
  qed
  have "got @ [v] = take (Suc ?d) lg"
    using inv d by (simp add: rcv_inv_def take_Suc_conv_app_nth)
  with inv d base rest show ?thesis
    by (auto simp: rcv_inv_def list_all_iff delete_keys distinct_removeAll sq_Suc)
qed

lemma drain_link:
  assumes "rcv_inv isn lg got (length got) ep" and "small lg"
  shows "rcv_link isn lg (got @ fst (drain ep)) (snd (drain ep))"
  using assms(1)
proof (induction ep arbitrary: got rule: drain_induct)
  case (stop ep)
  let ?d = "length got"
  have "rcv_entry lg isn (Suc ?d) ?d (ep_window_size ep) e" if e: "e \<in> set (ep_reorder ep)" for e
  proof -
    have "rcv_entry lg isn ?d ?d (ep_window_size ep) e"
      using stop.prems e by (simp add: rcv_inv_def list_all_iff)
    then obtain i where i: "?d \<le> i" "i < length lg" "i < ?d + ep_window_size ep"
      "fst e = sq isn i" "snd e = lg ! i" by (auto simp: rcv_entry_def)
    have "ep_rcv_base ep \<noteq> fst e" using stop.hyps e by (auto simp: map_of_eq_None_iff)
    then have "i \<noteq> ?d" using i stop.prems by (auto simp: rcv_inv_def)
    with i show ?thesis by (auto simp: rcv_entry_def intro!: exI [of _ i])
  qed
  with stop show ?case by (simp add: drain_stop rcv_inv_def list_all_iff)
next
  case (step ep v)
  have "rcv_inv isn lg (got @ [v]) (length (got @ [v]))
    (ep\<lparr>ep_reorder := AList.delete (ep_rcv_base ep) (ep_reorder ep),
       ep_rcv_base := seq_add (ep_rcv_base ep) 1\<rparr>)"
    using rcv_inv_pop [OF step.prems assms(2) step.hyps] by simp
  from step.IH [OF this] show ?case using step.hyps by (simp add: drain_step Let_def)
qed

lemma rcv_inv_reparam:
  "ep_rcv_base ep' = ep_rcv_base ep \<Longrightarrow> ep_reorder ep' = ep_reorder ep \<Longrightarrow>
   ep_window_size ep' = ep_window_size ep \<Longrightarrow> rcv_inv isn lg got lo ep' = rcv_inv isn lg got lo ep"
  by (simp add: rcv_inv_def)

lemma accept_data_link:
  assumes inv: "rcv_link isn lg got ep" and sm: "small lg" and ok: "data_ok isn lg pkt"
  shows "rcv_link isn lg (got @ fst (accept_data ep pkt)) (snd (accept_data ep pkt))"
proof -
  let ?d = "length got"
  from ok obtain i where i: "i < length lg" "p_seq pkt = sq isn i" "p_payload pkt = lg ! i"
    by (auto simp: data_ok_def)
  have base: "ep_rcv_base ep = sq isn ?d" and dl: "?d \<le> length lg" using inv by (auto simp: rcv_inv_def)
  have eq: "p_seq pkt = ep_rcv_base ep \<longleftrightarrow> i = ?d"
    using small_sq_inj [OF sm, of i ?d isn] i dl base by simp
  show ?thesis
  proof (cases "i = ?d")
    case True
    let ?e = "ep\<lparr>ep_rcv_base := seq_add (ep_rcv_base ep) 1\<rparr>"
    have tk: "got @ [p_payload pkt] = take (Suc ?d) lg"
      using inv i True by (simp add: rcv_inv_def take_Suc_conv_app_nth)
    have ent: "rcv_entry lg isn (Suc ?d) (Suc ?d) w e"
      if "rcv_entry lg isn (Suc ?d) ?d w e" for w e using that by (auto simp: rcv_entry_def)
    have "rcv_inv isn lg (got @ [p_payload pkt]) (length (got @ [p_payload pkt])) ?e"
      using inv i True base tk ent by (auto simp: rcv_inv_def list_all_iff sq_Suc)
    from drain_link [OF this sm] show ?thesis
      using eq True by (simp add: accept_data_base Let_def rcv_inv_reparam [of "prune_nacked _"])
  next
    case False
    then have ne: "p_seq pkt \<noteq> ep_rcv_base ep" using eq by simp
    show ?thesis
    proof (cases "stores ep (p_seq pkt)")
      case False
      with inv ne show ?thesis by (simp add: accept_data_drop)
    next
      case True
      have "?d < i" using True small_seq_lt [OF sm, of ?d i isn] i dl base by (simp add: stores_def)
      moreover have "i < ?d + ep_window_size ep"
        using True small_seq_diff [OF sm, of i ?d isn] i dl base by (simp add: stores_def)
      ultimately have "rcv_entry lg isn (Suc ?d) ?d (ep_window_size ep) (p_seq pkt, p_payload pkt)"
        using i by (auto simp: rcv_entry_def intro!: exI [of _ i])
      with inv ne True show ?thesis
        by (auto simp: accept_data_store rcv_inv_def stores_def dict_mem_keys)
    qed
  qed
qed

lemma on_data_link:
  assumes "rcv_link isn lg got ep" and "small lg" and "data_ok isn lg pkt"
  shows "rcv_link isn lg (got @ ao_delivered (fst (on_data ep pkt now))) (snd (on_data ep pkt now))"
  using accept_data_link [OF assms]
  by (subst rcv_inv_reparam [of _ "snd (accept_data ep pkt)"]) (simp_all add: on_data_parts)

lemma on_data_packets:
  "p \<in> set (ao_packets (fst (on_data ep pkt now))) \<Longrightarrow>
    (ptype p = ACK \<and> p_ack p = ep_rcv_base (snd (on_data ep pkt now))) \<or> ptype p = NACK"
  by (auto simp: on_data_def Let_def ack_packet_def nack_packet_def
      split: prod.split_asm option.split_asm if_splits)

end
