(* ===== verification/Arq_Link.thy ===== *)
theory Arq_Link
  imports Arq_Receiver
begin

text \<open>
  Two endpoints and a channel that may lose, duplicate, delay and reorder: whatever a peer
  has ever put on the wire may arrive at the other any number of times, at any moment, or
  never. A peer is an endpoint with its history: the chunks it put on the wire in sequence
  order, the bytes its application handed to \<open>send\<close>, the chunks it delivered. Times are
  arbitrary, so a clock that runs backwards (and makes a sample raise) is covered.
\<close>

section \<open>Peers and steps\<close>

record peer =
  pr_ep :: ArqEndpoint
  pr_log :: "bytes list"
  pr_sent :: bytes
  pr_in_order :: bool
  pr_got :: "bytes list"
  pr_wire :: "Packet list"

definition fresh_peer :: "ArqEndpoint \<Rightarrow> peer" where
  "fresh_peer ep = \<lparr>pr_ep = ep, pr_log = [], pr_sent = [], pr_in_order = True, pr_got = [],
     pr_wire = []\<rparr>"

text \<open>
  Only an acknowledgement makes a received packet emit new chunks; a NACK repeats an old one.
\<close>

definition new_chunks :: "Packet \<Rightarrow> ArqOutput \<Rightarrow> bytes list" where
  "new_chunks pkt out = (if ptype pkt = ACK then map p_payload (ao_packets out) else [])"

text \<open>
  \<open>peer_step q p p'\<close>: peer \<open>p\<close> becomes \<open>p'\<close> while the other peer is \<open>q\<close>. A \<open>stamp\<close> is the
  session id a multiplexer gives to its endpoints when the handshake has settled it. The flag
  \<open>pr_in_order\<close> stays true while every \<open>send\<close> found no chunk queued behind an open
  window.
\<close>

inductive peer_step :: "peer \<Rightarrow> peer \<Rightarrow> peer \<Rightarrow> bool" where
  send: "arq_send (pr_ep p) data now = (out, ep') \<Longrightarrow>
    peer_step q p (p\<lparr>pr_ep := ep', pr_log := pr_log p @ map p_payload (ao_packets out),
      pr_sent := pr_sent p @ data, pr_in_order := (pr_in_order p \<and> flushed (pr_ep p)),
      pr_wire := pr_wire p @ ao_packets out\<rparr>)"
| recv: "pkt \<in> set (pr_wire q) \<Longrightarrow> arq_on_packet (pr_ep p) pkt now = (Inr out, ep') \<Longrightarrow>
    peer_step q p (p\<lparr>pr_ep := ep', pr_log := pr_log p @ new_chunks pkt out,
      pr_got := pr_got p @ ao_delivered out, pr_wire := pr_wire p @ ao_packets out\<rparr>)"
| recv_raise: "pkt \<in> set (pr_wire q) \<Longrightarrow> arq_on_packet (pr_ep p) pkt now = (Inl e, ep') \<Longrightarrow>
    peer_step q p (p\<lparr>pr_ep := ep'\<rparr>)"
| tick: "arq_on_tick (pr_ep p) now = (out, ep') \<Longrightarrow>
    peer_step q p (p\<lparr>pr_ep := ep', pr_wire := pr_wire p @ ao_packets out\<rparr>)"
| stamp: "peer_step q p (p\<lparr>pr_ep := (pr_ep p)\<lparr>ep_session_id := sid\<rparr>\<rparr>)"

inductive link_step :: "peer \<times> peer \<Rightarrow> peer \<times> peer \<Rightarrow> bool" where
  left: "peer_step b a a' \<Longrightarrow> link_step (a, b) (a', b)"
| right: "peer_step a b b' \<Longrightarrow> link_step (a, b) (a, b')"

text \<open>
  Reachable states of a link whose first peer numbers its chunks from \<open>ia\<close> and the second
  from \<open>ib\<close>; every other parameter of the two constructors is free.
\<close>

inductive link_reach :: "int \<Rightarrow> int \<Rightarrow> peer \<times> peer \<Rightarrow> bool" for ia ib where
  start: "fits 4 ia \<Longrightarrow> fits 4 ib \<Longrightarrow>
    ArqEndpoint_init sa ia wa ra ma ib ta xa = Inr ea \<Longrightarrow>
    ArqEndpoint_init sb ib wb rb mb ia tb xb = Inr eb \<Longrightarrow>
    link_reach ia ib (fresh_peer ea, fresh_peer eb)"
| step: "link_reach ia ib s \<Longrightarrow> link_step s t \<Longrightarrow> link_reach ia ib t"

section \<open>The invariant of one direction\<close>

definition ack_ok :: "int \<Rightarrow> bytes list \<Rightarrow> Packet \<Rightarrow> bool" where
  "ack_ok isn got k \<longleftrightarrow> (\<exists>j\<le>length got. p_ack k = sq isn j)"

definition dir_inv :: "int \<Rightarrow> peer \<Rightarrow> peer \<Rightarrow> bool" where
  "dir_inv isn p q \<longleftrightarrow>
     snd_inv isn (pr_log p) (pr_ep p) \<and>
     rcv_link isn (pr_log p) (pr_got q) (pr_ep q) \<and>
     una (pr_log p) (pr_ep p) \<le> length (pr_got q) \<and>
     (\<forall>k \<in> set (pr_wire p). ptype k = DATA \<longrightarrow> data_ok isn (pr_log p) k) \<and>
     (\<forall>k \<in> set (pr_wire q). ptype k = ACK \<longrightarrow> ack_ok isn (pr_got q) k)"

lemma ack_ok_mono: "ack_ok isn got k \<Longrightarrow> ack_ok isn (got @ xs) k"
  unfolding ack_ok_def by (metis length_append trans_le_add1)

text \<open>A move of the sending side.\<close>

lemma dir_inv_sender:
  assumes inv: "dir_inv isn p q"
    and new: "snd_inv isn (pr_log p @ cs) (pr_ep p')" "pr_log p' = pr_log p @ cs"
      "una (pr_log p @ cs) (pr_ep p') \<le> length (pr_got q)"
    and wire: "pr_wire p' = pr_wire p @ ks"
      "\<forall>k \<in> set ks. ptype k = DATA \<longrightarrow> data_ok isn (pr_log p @ cs) k"
  shows "dir_inv isn p' q"
  using assms by (auto simp: dir_inv_def data_ok_mono rcv_inv_log_mono)

text \<open>A move of the receiving side.\<close>

lemma dir_inv_receiver:
  assumes inv: "dir_inv isn p q"
    and new: "rcv_link isn (pr_log p) (pr_got q @ ds) (pr_ep q')" "pr_got q' = pr_got q @ ds"
    and wire: "pr_wire q' = pr_wire q @ ks"
      "\<forall>k \<in> set ks. ptype k = ACK \<longrightarrow> ack_ok isn (pr_got q @ ds) k"
  shows "dir_inv isn p q'"
  using assms by (auto simp: dir_inv_def ack_ok_mono)

lemma dir_inv_receiver_still:
  assumes "dir_inv isn p q" and "rcv_part (pr_ep q') = rcv_part (pr_ep q)"
    and "config_part (pr_ep q') = config_part (pr_ep q)" and "pr_got q' = pr_got q"
    and "pr_wire q' = pr_wire q @ ks" and "\<forall>k \<in> set ks. ptype k = DATA"
  shows "dir_inv isn p q'"
proof (rule dir_inv_receiver [OF assms(1), of "[]" q' ks])
  show "rcv_link isn (pr_log p) (pr_got q @ []) (pr_ep q')"
    using assms(1) rcv_inv_cong [OF assms(2,3)] by (simp add: dir_inv_def)
qed (use assms in simp_all)

lemma on_data_answers:
  "\<forall>p \<in> set (ao_packets (fst (on_data ep pkt now))).
    (ptype p = ACK \<and> p_ack p = ep_rcv_base (snd (on_data ep pkt now))) \<or> ptype p = NACK"
  using on_data_packets by blast

text \<open>What one handled packet does, by its type.\<close>

lemma arq_on_packet_cases:
  assumes "arq_on_packet ep pkt now = (r, ep')"
  obtains (other) "r = Inr empty_output" "ep' = ep"
  | (data) out where "ptype pkt = DATA" "r = Inr out" "on_data ep pkt now = (out, ep')"
  | (ack) "ptype pkt = ACK" "on_ack ep pkt now = (r, ep')"
  | (nack) out where "ptype pkt = NACK" "r = Inr out" "on_nack ep pkt now = (out, ep')"
  using assms by (auto simp: arq_on_packet_def case_prod_beta split: if_splits)

lemma peer_step_sender:
  assumes st: "peer_step q p p'" and inv: "dir_inv isn p q" and sm: "small (pr_log p')"
  shows "dir_inv isn p' q"
  using st inv sm
proof (cases rule: peer_step.cases)
  case (send data now out ep')
  have s: "snd_inv isn (pr_log p) (pr_ep p)" using inv by (simp add: dir_inv_def)
  have "emits isn (pr_log p) (una (pr_log p) (pr_ep p)) (ao_packets out) ep'"
    using arq_send_emits [OF s, of data now] sm send by simp
  with inv send show ?thesis
    by (intro dir_inv_sender [OF inv, of "map p_payload (ao_packets out)" p' "ao_packets out"])
      (auto simp: emits_def dir_inv_def)
next
  case (tick now out ep')
  have s: "snd_inv isn (pr_log p) (pr_ep p)" using inv by (simp add: dir_inv_def)
  from arq_on_tick_inv [OF s, of now] tick inv show ?thesis
    by (intro dir_inv_sender [OF inv, of "[]" p' "ao_packets out"]) (auto simp: dir_inv_def)
next
  case (recv pkt now out ep')
  have s: "snd_inv isn (pr_log p) (pr_ep p)" using inv by (simp add: dir_inv_def)
  have sp: "small (pr_log p)" using sm recv by (auto intro: small_append)
  from recv(3) show ?thesis
  proof (cases rule: arq_on_packet_cases)
    case other
    with recv inv show ?thesis
      by (intro dir_inv_sender [OF inv, of "[]" p' "[]"])
        (auto simp: dir_inv_def new_chunks_def empty_output_def)
  next
    case (data out')
    have "snd_part ep' = snd_part (pr_ep p)"
      using data on_data_parts(1) [of "pr_ep p" pkt now] accept_data_frame [of "pr_ep p" pkt] by simp
    then have "snd_inv isn (pr_log p) ep'" "una (pr_log p) ep' = una (pr_log p) (pr_ep p)"
      using s by (auto simp: part_defs una_def elim: snd_inv_cong)
    moreover have "\<forall>k \<in> set (ao_packets out). ptype k \<noteq> DATA"
      using on_data_answers [of "pr_ep p" pkt now] data by auto
    ultimately show ?thesis using recv data inv
      by (intro dir_inv_sender [OF inv, of "[]" p' "ao_packets out"])
        (simp_all add: dir_inv_def new_chunks_def)
  next
    case (nack out')
    with recv inv on_nack_inv [OF s, of pkt now] show ?thesis
      by (intro dir_inv_sender [OF inv, of "[]" p' "ao_packets out"])
        (auto simp: dir_inv_def new_chunks_def)
  next
    case ack
    with recv inv obtain j where j: "j \<le> length (pr_got q)" "p_ack pkt = sq isn j"
      by (auto simp: dir_inv_def ack_ok_def)
    then have jl: "j \<le> length (pr_log p)" using inv by (auto simp: dir_inv_def rcv_inv_def)
    have "small (pr_log p @ map p_payload (ao_packets out))"
      using sm recv ack by (simp add: new_chunks_def)
    then obtain u where "u \<le> max j (una (pr_log p) (pr_ep p))"
      "emits isn (pr_log p) u (ao_packets out) ep'"
      using on_ack_inv(2) [OF s sp j(2) jl, of now out] ack by auto
    with recv ack inv j show ?thesis
      by (intro dir_inv_sender [OF inv, of "map p_payload (ao_packets out)" p' "ao_packets out"])
        (auto simp: emits_def dir_inv_def new_chunks_def)
  qed
next
  case (recv_raise pkt now e ep')
  have s: "snd_inv isn (pr_log p) (pr_ep p)" using inv by (simp add: dir_inv_def)
  have sp: "small (pr_log p)" using sm recv_raise by simp
  from recv_raise(3) show ?thesis
  proof (cases rule: arq_on_packet_cases)
    case ack
    with recv_raise inv obtain j where j: "j \<le> length (pr_got q)" "p_ack pkt = sq isn j"
      by (auto simp: dir_inv_def ack_ok_def)
    then have jl: "j \<le> length (pr_log p)" using inv by (auto simp: dir_inv_def rcv_inv_def)
    from on_ack_inv(1) [OF s sp j(2) jl, of now e] ack recv_raise inv j show ?thesis
      by (intro dir_inv_sender [OF inv, of "[]" p' "[]"]) (auto simp: dir_inv_def)
  qed simp_all
next
  case (stamp sid)
  then have "snd_inv isn (pr_log p) (pr_ep p')" "una (pr_log p) (pr_ep p') = una (pr_log p) (pr_ep p)"
    using inv by (auto simp: dir_inv_def una_def elim: snd_inv_cong)
  with inv stamp show ?thesis
    by (intro dir_inv_sender [OF inv, of "[]" p' "[]"]) (simp_all add: dir_inv_def)
qed

lemma peer_step_receiver:
  assumes st: "peer_step q p p'" and inv: "dir_inv isn q p" and own: "snd_inv isn' (pr_log p) (pr_ep p)"
    and sm: "small (pr_log q)" and smp: "small (pr_log p')"
    and acks: "\<forall>k \<in> set (pr_wire q). ptype k = ACK \<longrightarrow> (\<exists>j\<le>length (pr_log p). p_ack k = sq isn' j)"
  shows "dir_inv isn q p'"
  using st
proof (cases rule: peer_step.cases)
  case (send data now out ep')
  have "emits isn' (pr_log p) (una (pr_log p) (pr_ep p)) (ao_packets out) ep'"
    using arq_send_emits [OF own, of data now] smp send by simp
  with send arq_send_frame [of "pr_ep p" data now] show ?thesis
    by (intro dir_inv_receiver_still [OF inv, of p' "ao_packets out"]) (auto simp: emits_def)
next
  case (tick now out ep')
  with arq_on_tick_frame [of "pr_ep p" now] arq_on_tick_inv [OF own, of now] show ?thesis
    by (intro dir_inv_receiver_still [OF inv, of p' "ao_packets out"]) auto
next
  case (recv pkt now out ep')
  from recv(3) show ?thesis
  proof (cases rule: arq_on_packet_cases)
    case other
    with recv show ?thesis
      by (intro dir_inv_receiver_still [OF inv, of p' "[]"]) (auto simp: empty_output_def)
  next
    case (data out')
    have ok: "data_ok isn (pr_log q) pkt" using inv recv data by (auto simp: dir_inv_def)
    have link: "rcv_link isn (pr_log q) (pr_got p @ ao_delivered out) ep'"
      using on_data_link [OF _ sm ok, of "pr_got p" "pr_ep p" now] inv data by (simp add: dir_inv_def)
    then have "ep_rcv_base ep' = sq isn (length (pr_got p @ ao_delivered out))" by (simp add: rcv_inv_def)
    then have "\<forall>k \<in> set (ao_packets out). ptype k = ACK \<longrightarrow> ack_ok isn (pr_got p @ ao_delivered out) k"
      using on_data_answers [of "pr_ep p" pkt now] data unfolding ack_ok_def by force
    with link recv show ?thesis
      by (intro dir_inv_receiver [OF inv, of "ao_delivered out" p' "ao_packets out"]) simp_all
  next
    case (nack out')
    with recv on_nack_frame [of "pr_ep p" pkt now] on_nack_inv [OF own, of pkt now] show ?thesis
      by (intro dir_inv_receiver_still [OF inv, of p' "ao_packets out"]) auto
  next
    case ack
    have sp: "small (pr_log p)" using smp recv by (auto intro: small_append)
    obtain j where j: "j \<le> length (pr_log p)" "p_ack pkt = sq isn' j" using acks recv ack by blast
    have "small (pr_log p @ map p_payload (ao_packets out))"
      using smp recv ack by (simp add: new_chunks_def)
    then have "\<forall>k \<in> set (ao_packets out). ptype k = DATA"
      using on_ack_inv(2) [OF own sp j(2) j(1), of now out] ack by (auto simp: emits_def)
    with recv ack on_ack_frame [of "pr_ep p" pkt now] on_ack_order [of "pr_ep p" pkt now out] show ?thesis
      by (intro dir_inv_receiver_still [OF inv, of p' "ao_packets out"]) auto
  qed
next
  case (recv_raise pkt now e ep')
  from recv_raise(3) show ?thesis
  proof (cases rule: arq_on_packet_cases)
    case ack
    with recv_raise on_ack_frame [of "pr_ep p" pkt now] show ?thesis
      by (intro dir_inv_receiver_still [OF inv, of p' "[]"]) auto
  qed simp_all
next
  case (stamp sid)
  have "rcv_link isn (pr_log q) (pr_got p) ((pr_ep p)\<lparr>ep_session_id := sid\<rparr>)"
    using inv by (simp add: dir_inv_def rcv_inv_def)
  with stamp show ?thesis
    by (intro dir_inv_receiver [OF inv, of "[]" p' "[]"]) simp_all
qed

section \<open>Both directions\<close>

definition link_inv :: "int \<Rightarrow> int \<Rightarrow> peer \<times> peer \<Rightarrow> bool" where
  "link_inv ia ib s \<longleftrightarrow> dir_inv ia (fst s) (snd s) \<and> dir_inv ib (snd s) (fst s)"

definition link_small :: "peer \<times> peer \<Rightarrow> bool" where
  "link_small s \<longleftrightarrow> small (pr_log (fst s)) \<and> small (pr_log (snd s))"

lemma peer_step_inv:
  assumes "peer_step q p p'" and "dir_inv i p q" and "dir_inv j q p"
    and "small (pr_log p')" and "small (pr_log q)"
  shows "dir_inv i p' q \<and> dir_inv j q p'"
proof -
  have s: "snd_inv i (pr_log p) (pr_ep p)" "rcv_link i (pr_log p) (pr_got q) (pr_ep q)"
    "\<forall>k \<in> set (pr_wire q). ptype k = ACK \<longrightarrow> ack_ok i (pr_got q) k"
    using assms(2) unfolding dir_inv_def by blast+
  have "length (pr_got q) \<le> length (pr_log p)" using s(2) by (simp add: rcv_inv_def)
  with s(3) have "\<forall>k \<in> set (pr_wire q). ptype k = ACK \<longrightarrow> (\<exists>m\<le>length (pr_log p). p_ack k = sq i m)"
    unfolding ack_ok_def by (meson le_trans)
  from peer_step_receiver [OF assms(1,3) s(1) assms(5,4) this] peer_step_sender [OF assms(1,2,4)]
  show ?thesis by simp
qed

lemma peer_step_log: "peer_step q p p' \<Longrightarrow> \<exists>xs. pr_log p' = pr_log p @ xs"
  by (erule peer_step.cases) auto

lemma link_small_back: "link_step s t \<Longrightarrow> link_small t \<Longrightarrow> link_small s"
  by (erule link_step.cases)
    (auto simp: link_small_def dest!: peer_step_log intro: small_append)

lemma link_step_inv: "link_step s t \<Longrightarrow> link_inv ia ib s \<Longrightarrow> link_small t \<Longrightarrow> link_inv ia ib t"
  by (erule link_step.cases)
    (auto simp: link_inv_def link_small_def dest: peer_step_inv)

lemma fresh_dir_inv:
  assumes "fits 4 isn" and "ArqEndpoint_init sa isn wa ra ma ib ta xa = Inr ea"
    and "ArqEndpoint_init sb ib wb rb mb isn tb xb = Inr eb"
  shows "dir_inv isn (fresh_peer ea) (fresh_peer eb)"
proof -
  have "sq isn 0 = isn" using assms(1) by (intro sq_0) (auto simp: fits_4)
  with assms show ?thesis
    by (auto simp: dir_inv_def fresh_peer_def snd_inv_def rcv_inv_def una_def ArqEndpoint_init_def
        split: if_splits)
qed

lemma link_reach_inv: "link_reach ia ib s \<Longrightarrow> link_small s \<Longrightarrow> link_inv ia ib s"
proof (induction rule: link_reach.induct)
  case start
  then show ?case by (auto simp: link_inv_def intro: fresh_dir_inv)
next
  case (step s t)
  then show ?case by (blast intro: link_step_inv link_small_back)
qed

end
