(* ===== verification/Arq_Props.thy ===== *)
theory Arq_Props
  imports Arq_Link "HOL-Library.Sublist"
begin

text \<open>
  What the ARQ endpoints promise each other over a channel that loses, duplicates and
  reorders: the bytes delivered are a prefix of the bytes sent, nothing is counted as
  acknowledged before it was delivered, an idle sender means a complete transfer, and the
  next chunk is always there to be sent again. An executable schedule replays chosen
  interleavings.
\<close>

section \<open>Executable schedules\<close>

text \<open>
  A move names the side that acts (\<open>True\<close> for the first peer): it sends, receives the
  \<open>n\<close>-th packet the other side ever put on the wire, or ticks.
\<close>

datatype move = MSend bool bytes time | MRecv bool nat time | MTick bool time

definition peer_move :: "peer \<Rightarrow> peer \<Rightarrow> move \<Rightarrow> peer" where
  "peer_move q p m =
     (case m of
        MSend _ data now \<Rightarrow>
          (let (out, ep') = arq_send (pr_ep p) data now
           in p\<lparr>pr_ep := ep', pr_log := pr_log p @ map p_payload (ao_packets out),
                pr_sent := pr_sent p @ data, pr_in_order := (pr_in_order p \<and> flushed (pr_ep p)),
                pr_wire := pr_wire p @ ao_packets out\<rparr>)
      | MRecv _ n now \<Rightarrow>
          (if n < length (pr_wire q) then
             (let pkt = pr_wire q ! n in
              case arq_on_packet (pr_ep p) pkt now of
                (Inr out, ep') \<Rightarrow>
                  p\<lparr>pr_ep := ep', pr_log := pr_log p @ new_chunks pkt out,
                    pr_got := pr_got p @ ao_delivered out, pr_wire := pr_wire p @ ao_packets out\<rparr>
              | (Inl e, ep') \<Rightarrow> p\<lparr>pr_ep := ep'\<rparr>)
           else p)
      | MTick _ now \<Rightarrow>
          (let (out, ep') = arq_on_tick (pr_ep p) now
           in p\<lparr>pr_ep := ep', pr_wire := pr_wire p @ ao_packets out\<rparr>))"

fun move_left :: "move \<Rightarrow> bool" where
  "move_left (MSend s _ _) = s"
| "move_left (MRecv s _ _) = s"
| "move_left (MTick s _) = s"

fun play :: "peer \<times> peer \<Rightarrow> move list \<Rightarrow> peer \<times> peer" where
  "play s [] = s"
| "play (a, b) (m # ms) =
     play (if move_left m then (peer_move b a m, b) else (a, peer_move a b m)) ms"

lemma peer_move_step: "peer_step q p (peer_move q p m) \<or> peer_move q p m = p"
proof (cases m)
  case (MSend x data now)
  then show ?thesis
    using peer_step.send [of p data now _ _ q] by (cases "arq_send (pr_ep p) data now") (simp add: peer_move_def)
next
  case (MTick x now)
  then show ?thesis
    using peer_step.tick [of p now _ _ q] by (cases "arq_on_tick (pr_ep p) now") (simp add: peer_move_def)
next
  case (MRecv x n now)
  show ?thesis
  proof (cases "n < length (pr_wire q)")
    case False
    with MRecv show ?thesis by (simp add: peer_move_def)
  next
    case True
    then have m: "pr_wire q ! n \<in> set (pr_wire q)" by simp
    obtain r ep' where r: "arq_on_packet (pr_ep p) (pr_wire q ! n) now = (r, ep')" by fastforce
    show ?thesis
      using MRecv True r peer_step.recv [OF m, of p now _ ep'] peer_step.recv_raise [OF m, of p now _ ep']
      by (cases r) (simp_all add: peer_move_def Let_def)
  qed
qed

lemma play_reach: "link_reach ia ib s \<Longrightarrow> link_reach ia ib (play s ms)"
proof (induction s ms rule: play.induct)
  case (2 a b m ms)
  have "link_reach ia ib (if move_left m then (peer_move b a m, b) else (a, peer_move a b m))"
    using peer_move_step [of b a m] peer_move_step [of a b m] "2.prems"
    by (auto intro: link_reach.step link_step.intros)
  with "2.IH" show ?case by simp
qed simp

section \<open>The order of the bytes\<close>

definition order_inv :: "peer \<Rightarrow> bool" where
  "order_inv p \<longleftrightarrow> 1 \<le> ep_max_payload (pr_ep p) \<and>
     (pr_in_order p \<longrightarrow> concat (pr_log p) @ concat (ep_pending (pr_ep p)) = pr_sent p)"

lemma max_payload_config: "config_part ep' = config_part ep \<Longrightarrow> ep_max_payload ep' = ep_max_payload ep"
  by (simp add: config_part_def)

lemma on_ack_raise_pending:
  assumes "fst (on_ack ep pkt now) = Inl e"
  shows "ep_pending (snd (on_ack ep pkt now)) = ep_pending ep"
proof -
  let ?ep0 = "ep\<lparr>ep_peer_window := p_window pkt\<rparr>"
  let ?ks = "filter (\<lambda>s. seq_lt s (p_ack pkt)) (dict_keys (ep_outstanding ?ep0))"
  obtain r b where l: "ack_loop ?ep0 ?ks now = (r, b)" by (cases "ack_loop ?ep0 ?ks now")
  have "ep_pending b = ep_pending ep" using ack_loop_frame [of ?ep0 ?ks now] unfolding l by simp
  with assms show ?thesis
    unfolding on_ack_def Let_def l by (auto split: sum.splits prod.splits)
qed

text \<open>Apart from a \<open>send\<close>, a step only moves chunks from the queue to the wire.\<close>

lemma peer_step_pending:
  assumes "peer_step q p p'"
  obtains (send) data now out ep' where "arq_send (pr_ep p) data now = (out, ep')"
      and "pr_ep p' = ep'" and "pr_log p' = pr_log p @ map p_payload (ao_packets out)"
      and "pr_sent p' = pr_sent p @ data" and "pr_in_order p' = (pr_in_order p \<and> flushed (pr_ep p))"
      and "ep_max_payload ep' = ep_max_payload (pr_ep p)"
    | (other) cs where "pr_log p' = pr_log p @ cs" and "ep_pending (pr_ep p) = cs @ ep_pending (pr_ep p')"
      and "pr_sent p' = pr_sent p" and "pr_in_order p' = pr_in_order p"
      and "ep_max_payload (pr_ep p') = ep_max_payload (pr_ep p)"
  using assms
proof (cases rule: peer_step.cases)
  case (send data now out ep')
  have "ep_max_payload ep' = ep_max_payload (pr_ep p)"
    using arq_send_frame [of "pr_ep p" data now] send by (intro max_payload_config) simp
  with send that(1) show ?thesis by simp
next
  case (tick now out ep')
  then show ?thesis
    using arq_on_tick_frame [of "pr_ep p" now] by (intro that(2) [of "[]"]) (simp_all add: config_part_def)
next
  case (recv pkt now out ep')
  have "ep_max_payload ep' = ep_max_payload (pr_ep p) \<and> ep_pending (pr_ep p) = new_chunks pkt out @ ep_pending ep'"
    using recv(3)
  proof (cases rule: arq_on_packet_cases)
    case other
    then show ?thesis by (simp add: new_chunks_def empty_output_def)
  next
    case (data out')
    have "snd_part ep' = snd_part (pr_ep p)" "config_part ep' = config_part (pr_ep p)"
      using data on_data_parts(1,2) [of "pr_ep p" pkt now] accept_data_frame [of "pr_ep p" pkt] by simp_all
    then show ?thesis using data by (simp add: part_defs new_chunks_def)
  next
    case (nack out')
    then show ?thesis
      using on_nack_frame [of "pr_ep p" pkt now] by (simp add: config_part_def new_chunks_def)
  next
    case ack
    then show ?thesis
      using on_ack_frame [of "pr_ep p" pkt now] on_ack_order [of "pr_ep p" pkt now out]
      by (simp add: config_part_def new_chunks_def)
  qed
  with recv show ?thesis by (intro that(2) [of "new_chunks pkt out"]) simp_all
next
  case (recv_raise pkt now e ep')
  from recv_raise(3) have "on_ack (pr_ep p) pkt now = (Inl e, ep')"
    by (cases rule: arq_on_packet_cases) simp_all
  with recv_raise on_ack_frame [of "pr_ep p" pkt now] on_ack_raise_pending [of "pr_ep p" pkt now e]
  show ?thesis by (intro that(2) [of "[]"]) (simp_all add: config_part_def)
next
  case (stamp sid)
  then show ?thesis by (intro that(2) [of "[]"]) simp_all
qed

lemma order_inv_step:
  assumes "peer_step q p p'" and "order_inv p"
  shows "order_inv p'"
  using assms(1)
proof (cases rule: peer_step_pending)
  case (send data now out ep')
  have "concat (pr_log p @ map p_payload (ao_packets out)) @ concat (ep_pending ep')
      = pr_sent p @ data" if "pr_in_order p" and f: "flushed (pr_ep p)"
  proof -
    have m: "1 \<le> ep_max_payload (pr_ep p)" and s: "pr_sent p = concat (pr_log p) @ concat (ep_pending (pr_ep p))"
      using assms(2) that by (simp_all add: order_inv_def)
    from arq_send_order [OF f m, of data now] send(1) show ?thesis unfolding s by simp
  qed
  with send assms(2) show ?thesis by (simp add: order_inv_def)
next
  case (other cs)
  with assms(2) show ?thesis by (simp add: order_inv_def)
qed

lemma order_inv_reach: "link_reach ia ib s \<Longrightarrow> order_inv (fst s) \<and> order_inv (snd s)"
proof (induction rule: link_reach.induct)
  case start
  then show ?case
    by (auto simp: order_inv_def fresh_peer_def ArqEndpoint_init_def split: if_splits)
next
  case (step s t)
  from step.hyps(2) step.IH show ?case
    by (cases rule: link_step.cases) (auto intro: order_inv_step)
qed

section \<open>Consequences of the invariants\<close>

lemma link_reach_dirs:
  assumes "link_reach ia ib (a, b)" and "link_small (a, b)"
  shows "dir_inv ia a b" and "dir_inv ib b a" and "small (pr_log a)" and "small (pr_log b)"
  using link_reach_inv [OF assms] assms(2) by (simp_all add: link_inv_def link_small_def)

lemma take_concat_prefix: "prefix (concat (take n xs)) (concat xs)"
  by (metis append_take_drop_id concat_append prefixI)

text \<open>One direction: what \<open>q\<close> has delivered against what \<open>p\<close> has sent.\<close>

lemma dir_delivery:
  assumes "dir_inv isn p q" and "order_inv p"
  shows "prefix (pr_got q) (pr_log p)" and "pr_in_order p \<Longrightarrow> prefix (concat (pr_got q)) (pr_sent p)"
proof -
  have got: "pr_got q = take (length (pr_got q)) (pr_log p)"
    using assms(1) by (simp add: dir_inv_def rcv_inv_def)
  show "prefix (pr_got q) (pr_log p)" by (subst got) (rule take_is_prefix)
  assume "pr_in_order p"
  then have "prefix (concat (pr_log p)) (pr_sent p)" using assms(2) unfolding order_inv_def by (metis prefixI)
  moreover have "prefix (concat (pr_got q)) (concat (pr_log p))" by (subst got) (rule take_concat_prefix)
  ultimately show "prefix (concat (pr_got q)) (pr_sent p)" by (rule prefix_order.order_trans [rotated])
qed

lemma dir_complete:
  assumes "dir_inv isn p q" and "ep_outstanding (pr_ep p) = []"
  shows "pr_got q = pr_log p"
  using assms by (auto simp: dir_inv_def rcv_inv_def una_def)









section \<open>A concrete link\<close>

text \<open>
  Two endpoints with a window of six one-byte chunks. In \<open>demo_moves\<close> the first and third of
  four packets are lost, then recovered; \<open>overtake_moves\<close> continues after the first loss: a
  chunk is queued while the peer's window is full, and a NACK whose ACK was lost reopens it.
\<close>

definition demo_endpoint :: ArqEndpoint where
  "demo_endpoint = projr (ArqEndpoint_init 1 0 6 RtoEstimator_default 1 0 0 8)"

definition demo_link :: "peer \<times> peer" where
  "demo_link = (fresh_peer demo_endpoint, fresh_peer demo_endpoint)"

definition lossy_moves :: "move list" where
  "lossy_moves = [MSend True [1, 2, 3, 4] 0, MRecv False 1 1, MRecv False 3 1, MRecv True 2 2]"

definition demo_moves :: "move list" where
  "demo_moves = lossy_moves @ [MTick True 3, MRecv False 4 3, MRecv False 6 3, MRecv True 5 4]"


lemma demo_reach: "link_reach 0 0 (play demo_link ms)"
proof -
  have i: "ArqEndpoint_init 1 0 6 RtoEstimator_default 1 0 0 8 = Inr demo_endpoint"
    by (simp add: demo_endpoint_def ArqEndpoint_init_def)
  have "link_reach 0 0 demo_link"
    unfolding demo_link_def by (rule link_reach.start [OF _ _ i i]) (simp_all add: fits_def)
  then show ?thesis by (rule play_reach)
qed

lemma demo_peers:
  assumes "length (pr_log (fst (play demo_link ms))) = 4" and "length (pr_log (snd (play demo_link ms))) = 0"
  shows "link_reach 0 0 (fst (play demo_link ms), snd (play demo_link ms))"
    and "link_small (fst (play demo_link ms), snd (play demo_link ms))"
  using demo_reach [of ms] assms by (simp_all add: link_small_def small_def SEQ_HALF_def)

section \<open>Properties\<close>

text \<open>
  Over a channel that may lose, duplicate, delay and reorder packets, the chunks an endpoint
  has delivered are at every moment a prefix of the chunks its peer put on the wire: no loss,
  no duplication, no reordering, in both directions at once and across the wrap of the 32-bit
  sequence numbers. If no \<open>send\<close> overtook queued data, the delivered bytes are a prefix of
  the bytes handed to \<open>send\<close>. Fewer than 2^31 chunks per direction are assumed.
\<close>

theorem link_delivers_prefix:
  assumes "link_reach ia ib (a, b)" and "link_small (a, b)"
  shows "prefix (pr_got b) (pr_log a) \<and> prefix (pr_got a) (pr_log b) \<and>
    (pr_in_order a \<longrightarrow> prefix (concat (pr_got b)) (pr_sent a)) \<and>
    (pr_in_order b \<longrightarrow> prefix (concat (pr_got a)) (pr_sent b))"
proof -
  note d = link_reach_dirs [OF assms]
  have "order_inv a" "order_inv b" using order_inv_reach [OF assms(1)] by simp_all
  with dir_delivery [OF d(1)] dir_delivery [OF d(2)] show ?thesis by simp
qed

theorem link_delivers_prefix_witness:
  "pr_got (snd (play demo_link demo_moves)) = [[1], [2], [3], [4]] \<and>
   prefix (concat (pr_got (snd (play demo_link demo_moves)))) (pr_sent (fst (play demo_link demo_moves)))"
proof -
  have v: "pr_got (snd (play demo_link demo_moves)) = [[1], [2], [3], [4]]"
    "pr_in_order (fst (play demo_link demo_moves))"
    "length (pr_log (fst (play demo_link demo_moves))) = 4"
    "length (pr_log (snd (play demo_link demo_moves))) = 0"
    by code_simp+
  note r = demo_peers [of demo_moves, OF v(3,4)]
  from link_delivers_prefix [OF r] v show ?thesis by simp
qed

text \<open>
  A sender with nothing outstanding and nothing queued has completed its transfer: the
  peer has delivered every chunk and, if no \<open>send\<close> overtook queued data, exactly the bytes
  that were sent; the acknowledged byte count is their number.
\<close>

theorem idle_means_complete:
  assumes "link_reach ia ib (a, b)" and "link_small (a, b)"
    and "unacked_count (pr_ep a) = 0" and "pending_count (pr_ep a) = 0"
  shows "pr_got b = pr_log a \<and> (pr_in_order a \<longrightarrow> concat (pr_got b) = pr_sent a) \<and>
    ep_acked_bytes (pr_ep a) = length (concat (pr_got b))"
proof -
  note d = link_reach_dirs [OF assms(1,2)]
  have "order_inv a" using order_inv_reach [OF assms(1)] by simp
  moreover have "pr_got b = pr_log a"
    using assms(3) by (intro dir_complete [OF d(1)]) (simp add: unacked_count_def)
  moreover have "una (pr_log a) (pr_ep a) = length (pr_log a)"
    using assms(3) by (simp add: una_def unacked_count_def)
  ultimately show ?thesis
    using d(1) assms(4) by (simp add: dir_inv_def snd_inv_def order_inv_def pending_count_def)
qed

theorem idle_means_complete_witness:
  "unacked_count (pr_ep (fst (play demo_link demo_moves))) = 0 \<and>
   concat (pr_got (snd (play demo_link demo_moves))) = [1, 2, 3, 4]"
proof -
  have v: "unacked_count (pr_ep (fst (play demo_link demo_moves))) = 0"
    "pending_count (pr_ep (fst (play demo_link demo_moves))) = 0"
    "pr_in_order (fst (play demo_link demo_moves))"
    "pr_sent (fst (play demo_link demo_moves)) = [1, 2, 3, 4]"
    "length (pr_log (fst (play demo_link demo_moves))) = 4"
    "length (pr_log (snd (play demo_link demo_moves))) = 0"
    by code_simp+
  note r = demo_peers [of demo_moves, OF v(5,6)]
  from idle_means_complete [OF r v(1,2)] v(1,3,4) show ?thesis by metis
qed

text \<open>
  Nothing is counted as acknowledged before the peer's application has it: the bytes
  acknowledged at the sender are the bytes of a prefix of what the peer has delivered.
\<close>

theorem acked_is_delivered:
  assumes "link_reach ia ib (a, b)" and "link_small (a, b)"
  shows "\<exists>n \<le> length (pr_got b). ep_acked_bytes (pr_ep a) = length (concat (take n (pr_got b)))"
proof -
  note d = link_reach_dirs(1) [OF assms]
  let ?u = "una (pr_log a) (pr_ep a)"
  have g: "pr_got b = take (length (pr_got b)) (pr_log a)" and u: "?u \<le> length (pr_got b)"
    and k: "ep_acked_bytes (pr_ep a) = length (concat (take ?u (pr_log a)))"
    using d by (auto simp: dir_inv_def rcv_inv_def snd_inv_def)
  have "take ?u (pr_log a) = take ?u (pr_got b)" using u by (subst g) (simp add: min_def)
  with k u show ?thesis by (intro exI [of _ ?u]) simp
qed

theorem acked_is_delivered_witness:
  "ep_acked_bytes (pr_ep (fst (play demo_link demo_moves))) = 4 \<and>
   (\<exists>n \<le> length (pr_got (snd (play demo_link demo_moves))).
      4 = length (concat (take n (pr_got (snd (play demo_link demo_moves))))))"
proof -
  have v: "ep_acked_bytes (pr_ep (fst (play demo_link demo_moves))) = 4"
    "length (pr_log (fst (play demo_link demo_moves))) = 4"
    "length (pr_log (snd (play demo_link demo_moves))) = 0"
    by code_simp+
  note r = demo_peers [of demo_moves, OF v(2,3)]
  from acked_is_delivered [OF r] v(1) show ?thesis by simp
qed




end
