(* ===== verification/Machine.thy ===== *)
theory Machine
  imports Packet
begin

text \<open>
  \<open>photontcp/session/states.py\<close> and \<open>session/state_machine.py\<close>: the connection lifecycle.
  The machine is pure: every input method takes the time and returns packets, events and the
  new state. Its fields are Python integers of any size; that they fit the header is not
  checked here but by \<open>pack\<close>.
\<close>

section \<open>States, events, constants\<close>

datatype SessionState = CLOSED | SYN_SENT | SYN_RCVD | ESTABLISHED | FIN_WAIT | CLOSE_WAIT

datatype SessionEvent = EvESTABLISHED | EvPEER_CLOSED | EvCLOSED | EvTIMED_OUT | EvCONNECT_FAILED

definition DEFAULT_HEARTBEAT_INTERVAL :: time where "DEFAULT_HEARTBEAT_INTERVAL = 1"
definition DEFAULT_IDLE_TIMEOUT :: time where "DEFAULT_IDLE_TIMEOUT = 3"
definition DEFAULT_CONTROL_RTO :: time where "DEFAULT_CONTROL_RTO = 1 / 2"
definition DEFAULT_MAX_CONTROL_RETRIES :: int where "DEFAULT_MAX_CONTROL_RETRIES = 5"

record Output =
  out_packets :: "Packet list"
  out_events :: "SessionEvent list"

definition no_output :: Output where
  "no_output = \<lparr>out_packets = [], out_events = []\<rparr>"

record SessionStateMachine =
  sm_is_initiator :: bool
  sm_session_id :: int
  sm_isn :: int
  sm_seq :: int
  sm_heartbeat_interval :: time
  sm_idle_timeout :: time
  sm_control_rto :: time
  sm_max_control_retries :: int
  sm_state :: SessionState
  sm_last_send :: "time option"
  sm_last_recv :: "time option"
  sm_fin_acked :: bool
  sm_peer_fin_acked :: bool
  sm_pending_ctrl :: "Packet option"
  sm_pending_ctrl_since :: time
  sm_ctrl_retries :: nat

definition SessionStateMachine_init ::
  "bool \<Rightarrow> int \<Rightarrow> int \<Rightarrow> time \<Rightarrow> time \<Rightarrow> time \<Rightarrow> int \<Rightarrow> SessionStateMachine" where
  "SessionStateMachine_init is_initiator session_id isn heartbeat_interval idle_timeout control_rto
     max_control_retries =
     \<lparr>sm_is_initiator = is_initiator, sm_session_id = session_id, sm_isn = isn, sm_seq = isn,
      sm_heartbeat_interval = heartbeat_interval, sm_idle_timeout = idle_timeout,
      sm_control_rto = control_rto, sm_max_control_retries = max_control_retries,
      sm_state = CLOSED, sm_last_send = None, sm_last_recv = None, sm_fin_acked = False,
      sm_peer_fin_acked = False, sm_pending_ctrl = None, sm_pending_ctrl_since = 0,
      sm_ctrl_retries = 0\<rparr>"

definition is_established :: "SessionStateMachine \<Rightarrow> bool" where
  "is_established sm \<longleftrightarrow> sm_state sm = ESTABLISHED"

definition is_closed :: "SessionStateMachine \<Rightarrow> bool" where
  "is_closed sm \<longleftrightarrow> sm_state sm = CLOSED"

section \<open>Internals\<close>

definition make_ctrl ::
  "SessionStateMachine \<Rightarrow> PacketType \<Rightarrow> int \<Rightarrow> int \<Rightarrow> Flags \<Rightarrow> Packet" where
  "make_ctrl sm t seq ack flags =
     \<lparr>ptype = t, p_session_id = sm_session_id sm, p_stream_id = 0, p_seq = seq, p_ack = ack,
      p_window = 0, p_flags = flags, p_version = PROTOCOL_VERSION, p_payload = []\<rparr>"

definition arm_pending :: "Packet \<Rightarrow> time \<Rightarrow> SessionStateMachine \<Rightarrow> SessionStateMachine" where
  "arm_pending pkt now sm =
     sm\<lparr>sm_pending_ctrl := Some pkt, sm_pending_ctrl_since := now, sm_ctrl_retries := 0\<rparr>"

definition clear_pending :: "SessionStateMachine \<Rightarrow> SessionStateMachine" where
  "clear_pending sm =
     sm\<lparr>sm_pending_ctrl := None, sm_pending_ctrl_since := 0, sm_ctrl_retries := 0\<rparr>"

text \<open>The combined flags of the replies: \<open>Flags.SYN | Flags.ACK\<close>, \<open>Flags.FIN | Flags.ACK\<close>.\<close>

definition Flags_SYN_ACK :: Flags where "Flags_SYN_ACK = or Flags_SYN Flags_ACK"
definition Flags_FIN_ACK :: Flags where "Flags_FIN_ACK = or Flags_FIN Flags_ACK"

section \<open>Inputs\<close>

definition sm_connect :: "SessionStateMachine \<Rightarrow> time \<Rightarrow> Output \<times> SessionStateMachine" where
  "sm_connect sm now =
     (if \<not> sm_is_initiator sm \<or> sm_state sm \<noteq> CLOSED then (no_output, sm)
      else
        (let pkt = make_ctrl sm SYN (sm_isn sm) 0 Flags_SYN
         in (no_output\<lparr>out_packets := [pkt]\<rparr>,
             arm_pending pkt now (sm\<lparr>sm_state := SYN_SENT, sm_last_send := Some now\<rparr>))))"

definition sm_close :: "SessionStateMachine \<Rightarrow> time \<Rightarrow> Output \<times> SessionStateMachine" where
  "sm_close sm now =
     (if sm_state sm \<noteq> ESTABLISHED then (no_output, sm)
      else
        (let pkt = make_ctrl sm FIN (sm_seq sm) 0 Flags_FIN
         in (no_output\<lparr>out_packets := [pkt]\<rparr>,
             arm_pending pkt now (sm\<lparr>sm_state := FIN_WAIT, sm_last_send := Some now\<rparr>))))"

definition note_data_activity :: "SessionStateMachine \<Rightarrow> time \<Rightarrow> SessionStateMachine" where
  "note_data_activity sm now =
     (if sm_state sm \<in> {ESTABLISHED, FIN_WAIT, CLOSE_WAIT} then sm\<lparr>sm_last_recv := Some now\<rparr> else sm)"

text \<open>
  \<open>on_packet\<close>: the guard on the session id first, then the branches of the method in the
  order the code has them, from the state in which the idle timer has been refreshed.
\<close>

definition responder_initial :: "SessionStateMachine \<Rightarrow> Packet \<Rightarrow> bool" where
  "responder_initial sm pkt \<longleftrightarrow> sm_state sm = CLOSED \<and> \<not> sm_is_initiator sm \<and> ptype pkt = SYN"

definition handle_packet :: "SessionStateMachine \<Rightarrow> Packet \<Rightarrow> time \<Rightarrow> Output \<times> SessionStateMachine" where
  "handle_packet sm pkt now =
     (if responder_initial sm pkt then
        (let sm1 = sm\<lparr>sm_session_id := p_session_id pkt, sm_state := SYN_RCVD\<rparr>;
             reply = make_ctrl sm1 SYN_ACK (sm_isn sm) (p_seq pkt + 1) Flags_SYN_ACK
         in (no_output\<lparr>out_packets := [reply]\<rparr>,
             arm_pending reply now (sm1\<lparr>sm_last_send := Some now\<rparr>)))
      else if sm_state sm = SYN_SENT \<and> ptype pkt = SYN_ACK then
        (let sm1 = (clear_pending sm)\<lparr>sm_state := ESTABLISHED, sm_seq := sm_isn sm + 1\<rparr>;
             reply = make_ctrl sm1 ACK (sm_seq sm1) (p_seq pkt + 1) Flags_ACK
         in (\<lparr>out_packets = [reply], out_events = [EvESTABLISHED]\<rparr>, sm1\<lparr>sm_last_send := Some now\<rparr>))
      else if sm_state sm = SYN_RCVD \<and> ptype pkt = ACK then
        (no_output\<lparr>out_events := [EvESTABLISHED]\<rparr>,
         (clear_pending sm)\<lparr>sm_state := ESTABLISHED, sm_seq := sm_isn sm + 1\<rparr>)
      else if sm_state sm = ESTABLISHED \<and> ptype pkt = SYN_ACK then
        (no_output\<lparr>out_packets := [make_ctrl sm ACK (sm_seq sm) (p_seq pkt + 1) Flags_ACK]\<rparr>,
         sm\<lparr>sm_last_send := Some now\<rparr>)
      else if sm_state sm = ESTABLISHED \<and> ptype pkt = FIN then
        (let sm1 = sm\<lparr>sm_state := CLOSE_WAIT, sm_peer_fin_acked := True\<rparr>;
             fin_ack = make_ctrl sm1 FIN_ACK (sm_seq sm1) (p_seq pkt + 1) Flags_FIN_ACK;
             own_fin = make_ctrl sm1 FIN (sm_seq sm1) 0 Flags_FIN
         in (\<lparr>out_packets = [fin_ack, own_fin], out_events = [EvPEER_CLOSED]\<rparr>,
             arm_pending own_fin now (sm1\<lparr>sm_last_send := Some now\<rparr>)))
      else if sm_state sm = FIN_WAIT \<and> ptype pkt = FIN_ACK then
        (let sm1 = (clear_pending sm)\<lparr>sm_fin_acked := True\<rparr>
         in if sm_peer_fin_acked sm1
            then (no_output\<lparr>out_events := [EvCLOSED]\<rparr>, sm1\<lparr>sm_state := CLOSED\<rparr>)
            else (no_output, sm1))
      else if sm_state sm = FIN_WAIT \<and> ptype pkt = FIN then
        (let sm1 = sm\<lparr>sm_peer_fin_acked := True, sm_last_send := Some now\<rparr>;
             out = no_output\<lparr>out_packets := [make_ctrl sm1 FIN_ACK (sm_seq sm1) (p_seq pkt + 1) Flags_FIN_ACK]\<rparr>
         in if sm_fin_acked sm1
            then (out\<lparr>out_events := [EvCLOSED]\<rparr>, sm1\<lparr>sm_state := CLOSED\<rparr>)
            else (out, sm1))
      else if sm_state sm = CLOSE_WAIT \<and> ptype pkt = FIN_ACK then
        (no_output\<lparr>out_events := [EvCLOSED]\<rparr>,
         (clear_pending sm)\<lparr>sm_fin_acked := True, sm_state := CLOSED\<rparr>)
      else (no_output, sm))"

definition sm_on_packet :: "SessionStateMachine \<Rightarrow> Packet \<Rightarrow> time \<Rightarrow> Output \<times> SessionStateMachine" where
  "sm_on_packet sm pkt now =
     (if \<not> responder_initial sm pkt \<and> p_session_id pkt \<noteq> sm_session_id sm then (no_output, sm)
      else handle_packet (sm\<lparr>sm_last_recv := Some now\<rparr>) pkt now)"

definition idle_expired :: "SessionStateMachine \<Rightarrow> time \<Rightarrow> bool" where
  "idle_expired sm now \<longleftrightarrow> sm_state sm \<noteq> CLOSED \<and>
     (case sm_last_recv sm of None \<Rightarrow> False | Some r \<Rightarrow> now - r \<ge> sm_idle_timeout sm)"

definition heartbeat_due :: "SessionStateMachine \<Rightarrow> time \<Rightarrow> bool" where
  "heartbeat_due sm now \<longleftrightarrow> sm_state sm = ESTABLISHED \<and>
     (case sm_last_send sm of None \<Rightarrow> True | Some s \<Rightarrow> now - s \<ge> sm_heartbeat_interval sm)"

definition tick_heartbeat :: "SessionStateMachine \<Rightarrow> time \<Rightarrow> Output \<times> SessionStateMachine" where
  "tick_heartbeat sm now =
     (if heartbeat_due sm now then
        (no_output\<lparr>out_packets := [make_ctrl sm HEARTBEAT (sm_seq sm) 0 Flags_NONE]\<rparr>,
         sm\<lparr>sm_last_send := Some now\<rparr>)
      else (no_output, sm))"

definition sm_on_tick :: "SessionStateMachine \<Rightarrow> time \<Rightarrow> Output \<times> SessionStateMachine" where
  "sm_on_tick sm now =
     (if idle_expired sm now then
        (no_output\<lparr>out_events := [if sm_state sm \<in> {FIN_WAIT, CLOSE_WAIT} then EvCLOSED else EvTIMED_OUT]\<rparr>,
         clear_pending (sm\<lparr>sm_state := CLOSED\<rparr>))
      else
        (case sm_pending_ctrl sm of
           Some pkt \<Rightarrow>
             (if now - sm_pending_ctrl_since sm \<ge> sm_control_rto sm then
                (if int (sm_ctrl_retries sm) > sm_max_control_retries sm then
                   (no_output\<lparr>out_events :=
                      [if sm_state sm \<in> {SYN_SENT, SYN_RCVD} then EvCONNECT_FAILED else EvTIMED_OUT]\<rparr>,
                    clear_pending (sm\<lparr>sm_state := CLOSED\<rparr>))
                 else
                   (no_output\<lparr>out_packets := [pkt]\<rparr>,
                    sm\<lparr>sm_ctrl_retries := sm_ctrl_retries sm + 1, sm_pending_ctrl_since := now,
                       sm_last_send := Some now\<rparr>))
              else tick_heartbeat sm now)
         | None \<Rightarrow> tick_heartbeat sm now))"

end
