(* ===== verification/Machine_Props.thy ===== *)
theory Machine_Props
  imports Machine
begin

text \<open>
  The contract of the lifecycle machine: an abstract lifecycle it refines, what its retry and
  idle timers guarantee, agreement of the two ends over a lossy wire, and what goes wrong
  when a closed machine is opened again.
\<close>

section \<open>Inputs as operations\<close>

datatype sm_op = Connect time | Close time | Recv Packet time | Tick time | DataSeen time

fun sm_apply :: "SessionStateMachine \<Rightarrow> sm_op \<Rightarrow> Output \<times> SessionStateMachine" where
  "sm_apply sm (Connect now) = sm_connect sm now"
| "sm_apply sm (Close now) = sm_close sm now"
| "sm_apply sm (Recv pkt now) = sm_on_packet sm pkt now"
| "sm_apply sm (Tick now) = sm_on_tick sm now"
| "sm_apply sm (DataSeen now) = (no_output, note_data_activity sm now)"

fun sm_run :: "SessionStateMachine \<Rightarrow> sm_op list \<Rightarrow> Output list \<times> SessionStateMachine" where
  "sm_run sm [] = ([], sm)"
| "sm_run sm (x # ops) =
     (let (out, sm1) = sm_apply sm x; (outs, sm2) = sm_run sm1 ops in (out # outs, sm2))"

lemmas sm_ops = sm_connect_def sm_close_def sm_on_packet_def handle_packet_def sm_on_tick_def
  tick_heartbeat_def note_data_activity_def
lemmas sm_helpers = no_output_def arm_pending_def clear_pending_def make_ctrl_def Let_def

section \<open>The abstract lifecycle\<close>

text \<open>
  What sets a step off. A packet that the guard of \<open>on_packet\<close> turns away, and data seen on a stream,
  set off nothing; \<open>ByLastFin\<close> is the FIN or FIN_ACK after which both FINs are acknowledged; a tick may
  find the peer silent for too long, or the retransmissions of the outstanding packet used up.
\<close>

datatype trigger =
  ByConnect | ByClose | ByPacket PacketType | ByLastFin | BySilence | ByGivingUp | ByTick | ByNothing

definition completes_close :: "SessionStateMachine \<Rightarrow> PacketType \<Rightarrow> bool" where
  "completes_close sm t \<longleftrightarrow>
     sm_state sm = FIN_WAIT \<and> (t = FIN \<and> sm_fin_acked sm \<or> t = FIN_ACK \<and> sm_peer_fin_acked sm)"

definition retries_spent :: "SessionStateMachine \<Rightarrow> time \<Rightarrow> bool" where
  "retries_spent sm now \<longleftrightarrow> sm_pending_ctrl sm \<noteq> None \<and>
     now - sm_pending_ctrl_since sm \<ge> sm_control_rto sm \<and> int (sm_ctrl_retries sm) > sm_max_control_retries sm"

fun trigger_of :: "SessionStateMachine \<Rightarrow> sm_op \<Rightarrow> trigger" where
  "trigger_of sm (Connect now) = ByConnect"
| "trigger_of sm (Close now) = ByClose"
| "trigger_of sm (Recv pkt now) =
     (if \<not> responder_initial sm pkt \<and> p_session_id pkt \<noteq> sm_session_id sm then ByNothing
      else if completes_close sm (ptype pkt) then ByLastFin else ByPacket (ptype pkt))"
| "trigger_of sm (Tick now) =
     (if idle_expired sm now then BySilence else if retries_spent sm now then ByGivingUp else ByTick)"
| "trigger_of sm (DataSeen now) = ByNothing"

text \<open>
  The lifecycle of one side, the initiator or the responder: which trigger takes it from which state to
  which, with the events reported. \<open>moves\<close> are the triggers that cannot leave the state as it is; all
  others do, and report nothing.
\<close>

fun moves :: "bool \<Rightarrow> trigger \<Rightarrow> SessionState \<Rightarrow> bool" where
  "moves initiator ByConnect s = (initiator \<and> s = CLOSED)"
| "moves initiator ByClose s = (s = ESTABLISHED)"
| "moves initiator (ByPacket t) s =
     ((t, s) \<in> {(SYN_ACK, SYN_SENT), (ACK, SYN_RCVD), (FIN, ESTABLISHED), (FIN_ACK, CLOSE_WAIT)} \<or>
      \<not> initiator \<and> (t, s) = (SYN, CLOSED))"
| "moves initiator ByLastFin s = (s = FIN_WAIT)"
| "moves initiator BySilence s = (s \<noteq> CLOSED)"
| "moves initiator ByGivingUp s = (s \<in> {SYN_SENT, SYN_RCVD, FIN_WAIT, CLOSE_WAIT})"
| "moves initiator ByTick s = False"
| "moves initiator ByNothing s = False"

inductive life_step :: "bool \<Rightarrow> trigger \<Rightarrow> SessionState \<Rightarrow> SessionEvent list \<Rightarrow> SessionState \<Rightarrow> bool" for initiator where
  stay: "\<not> moves initiator t s \<Longrightarrow> life_step initiator t s [] s"
| active_open: "initiator \<Longrightarrow> life_step initiator ByConnect CLOSED [] SYN_SENT"
| passive_open: "\<not> initiator \<Longrightarrow> life_step initiator (ByPacket SYN) CLOSED [] SYN_RCVD"
| opened: "life_step initiator (ByPacket SYN_ACK) SYN_SENT [EvESTABLISHED] ESTABLISHED"
| accepted: "life_step initiator (ByPacket ACK) SYN_RCVD [EvESTABLISHED] ESTABLISHED"
| active_close: "life_step initiator ByClose ESTABLISHED [] FIN_WAIT"
| passive_close: "life_step initiator (ByPacket FIN) ESTABLISHED [EvPEER_CLOSED] CLOSE_WAIT"
| closed: "life_step initiator ByLastFin FIN_WAIT [EvCLOSED] CLOSED"
| peer_done: "life_step initiator (ByPacket FIN_ACK) CLOSE_WAIT [EvCLOSED] CLOSED"
| silent: "s \<in> {SYN_SENT, SYN_RCVD, ESTABLISHED} \<Longrightarrow> life_step initiator BySilence s [EvTIMED_OUT] CLOSED"
| silent_closing: "s \<in> {FIN_WAIT, CLOSE_WAIT} \<Longrightarrow> life_step initiator BySilence s [EvCLOSED] CLOSED"
| connect_failed: "s \<in> {SYN_SENT, SYN_RCVD} \<Longrightarrow> life_step initiator ByGivingUp s [EvCONNECT_FAILED] CLOSED"
| close_failed: "s \<in> {FIN_WAIT, CLOSE_WAIT} \<Longrightarrow> life_step initiator ByGivingUp s [EvTIMED_OUT] CLOSED"

inductive_simps life_from:
  "life_step initiator t CLOSED evs s"
  "life_step initiator t SYN_SENT evs s"
  "life_step initiator t SYN_RCVD evs s"
  "life_step initiator t ESTABLISHED evs s"
  "life_step initiator t FIN_WAIT evs s"
  "life_step initiator t CLOSE_WAIT evs s"

text \<open>A trigger has one outcome.\<close>

lemma life_step_unique:
  assumes "life_step initiator t s evs s'" and "life_step initiator t s evs2 s2"
  shows "evs2 = evs \<and> s2 = s'"
  using assms by (cases s) (auto simp: life_from)

abbreviation life_of :: "SessionStateMachine \<Rightarrow> sm_op \<Rightarrow> bool" where
  "life_of sm x \<equiv> life_step (sm_is_initiator sm) (trigger_of sm x) (sm_state sm)
     (out_events (fst (sm_apply sm x))) (sm_state (snd (sm_apply sm x)))"

text \<open>
  The packet that is outstanding fits the state. The machine never clears its close flags,
  so this is kept only while a closed machine that has finished a close is not opened again.
\<close>

definition pending_is :: "SessionStateMachine \<Rightarrow> PacketType \<Rightarrow> bool" where
  "pending_is sm t \<longleftrightarrow> (case sm_pending_ctrl sm of None \<Rightarrow> False | Some p \<Rightarrow> ptype p = t)"

definition no_close_flags :: "SessionStateMachine \<Rightarrow> bool" where
  "no_close_flags sm \<longleftrightarrow> \<not> sm_fin_acked sm \<and> \<not> sm_peer_fin_acked sm"

fun machine_ok :: "SessionStateMachine \<Rightarrow> bool" where
  "machine_ok sm =
     (case sm_state sm of
        CLOSED \<Rightarrow> sm_pending_ctrl sm = None
      | SYN_SENT \<Rightarrow> pending_is sm SYN \<and> no_close_flags sm
      | SYN_RCVD \<Rightarrow> pending_is sm SYN_ACK \<and> no_close_flags sm
      | ESTABLISHED \<Rightarrow> sm_pending_ctrl sm = None \<and> no_close_flags sm
      | FIN_WAIT \<Rightarrow> (if sm_fin_acked sm then sm_pending_ctrl sm = None \<and> \<not> sm_peer_fin_acked sm
                     else pending_is sm FIN)
      | CLOSE_WAIT \<Rightarrow> pending_is sm FIN \<and> \<not> sm_fin_acked sm)"

declare machine_ok.simps [simp del]

definition reopens :: "SessionStateMachine \<Rightarrow> sm_op \<Rightarrow> bool" where
  "reopens sm x \<longleftrightarrow> sm_state sm = CLOSED \<and> sm_state (snd (sm_apply sm x)) \<noteq> CLOSED \<and> \<not> no_close_flags sm"

lemmas machine_simps = machine_ok.simps pending_is_def no_close_flags_def

lemma connect_ok:
  assumes "machine_ok sm" and "\<not> reopens sm (Connect now)"
  shows "machine_ok (snd (sm_connect sm now)) \<and> life_of sm (Connect now)"
  using assms
  by (cases "sm_state sm")
    (auto simp: sm_connect_def machine_simps sm_helpers reopens_def life_from)

lemma close_ok:
  assumes "machine_ok sm"
  shows "machine_ok (snd (sm_close sm now)) \<and> life_of sm (Close now)"
  using assms
  by (cases "sm_state sm") (auto simp: sm_close_def machine_simps sm_helpers life_from)

lemma tick_ok:
  assumes "machine_ok sm"
  shows "machine_ok (snd (sm_on_tick sm now)) \<and> life_of sm (Tick now)"
  using assms
  by (cases "sm_state sm"; cases "sm_pending_ctrl sm")
    (auto simp: sm_on_tick_def tick_heartbeat_def heartbeat_due_def idle_expired_def machine_simps sm_helpers completes_close_def
      retries_spent_def life_from split: if_splits)

lemma data_seen_ok: "machine_ok sm \<Longrightarrow> machine_ok (note_data_activity sm now)"
  by (cases "sm_state sm") (auto simp: note_data_activity_def machine_simps)

lemma packet_ok_step:
  assumes "machine_ok sm" and "\<not> reopens sm (Recv pkt now)"
  shows "machine_ok (snd (sm_on_packet sm pkt now)) \<and> life_of sm (Recv pkt now)"
  using assms
  by (cases "sm_state sm"; cases "ptype pkt")
    (auto simp: sm_on_packet_def handle_packet_def responder_initial_def machine_simps sm_helpers reopens_def completes_close_def
      retries_spent_def life_from split: option.splits if_splits)

lemma machine_step_ok:
  assumes "machine_ok sm" and "\<not> reopens sm x"
  shows "machine_ok (snd (sm_apply sm x)) \<and> life_of sm x"
proof (cases x)
  case (DataSeen now)
  with assms data_seen_ok [of sm now] show ?thesis
    by (cases "sm_state sm") (auto simp: no_output_def note_data_activity_def life_from)
qed (use assms connect_ok close_ok packet_ok_step tick_ok in simp_all)

text \<open>Machines that have never been reopened after a completed close.\<close>

inductive first_life :: "SessionStateMachine \<Rightarrow> bool" where
  fresh: "first_life (SessionStateMachine_init i sid isn hb idle crto maxr)"
| step: "first_life sm \<Longrightarrow> \<not> reopens sm x \<Longrightarrow> first_life (snd (sm_apply sm x))"

lemma fresh_machine_ok: "machine_ok (SessionStateMachine_init i sid isn hb idle crto maxr)"
  by (simp add: SessionStateMachine_init_def machine_ok.simps)

lemma first_life_ok: "first_life sm \<Longrightarrow> machine_ok sm"
  by (induction rule: first_life.induct) (simp_all add: machine_step_ok fresh_machine_ok)

section \<open>Timers\<close>

text \<open>The configuration a step never changes.\<close>

definition sm_config :: "SessionStateMachine \<Rightarrow> bool \<times> int \<times> time \<times> time \<times> time \<times> int" where
  "sm_config sm = (sm_is_initiator sm, sm_isn sm, sm_heartbeat_interval sm, sm_idle_timeout sm,
     sm_control_rto sm, sm_max_control_retries sm)"

lemma sm_config_step: "sm_config (snd (sm_apply sm x)) = sm_config sm"
  by (cases x) (auto simp: sm_ops sm_config_def sm_helpers split: option.split)

text \<open>
  A machine left alone while a control packet is outstanding: nothing has been received, so
  the idle timer is off, and ticks come at the times \<open>ts\<close>, each at least one
  \<open>control_rto\<close> after the one before.
\<close>

fun spaced :: "time \<Rightarrow> time \<Rightarrow> time list \<Rightarrow> bool" where
  "spaced d t0 [] = True"
| "spaced d t0 (t # ts) = (t0 + d \<le> t \<and> spaced d t ts)"

definition waiting :: "SessionStateMachine \<Rightarrow> Packet \<Rightarrow> nat \<Rightarrow> time \<Rightarrow> bool" where
  "waiting sm pkt n t0 \<longleftrightarrow> sm_state sm \<in> {SYN_SENT, SYN_RCVD} \<and> sm_last_recv sm = None \<and>
     sm_pending_ctrl sm = Some pkt \<and> sm_pending_ctrl_since sm = t0 \<and> sm_ctrl_retries sm = n"

lemma waiting_tick:
  assumes "waiting sm pkt n t0" and "t0 + sm_control_rto sm \<le> t"
  shows "sm_on_tick sm t =
    (if int n > sm_max_control_retries sm
     then (no_output\<lparr>out_events := [EvCONNECT_FAILED]\<rparr>, clear_pending (sm\<lparr>sm_state := CLOSED\<rparr>))
     else (no_output\<lparr>out_packets := [pkt]\<rparr>,
       sm\<lparr>sm_ctrl_retries := n + 1, sm_pending_ctrl_since := t, sm_last_send := Some t\<rparr>))"
  using assms by (auto simp: waiting_def sm_on_tick_def idle_expired_def)

text \<open>With \<open>k\<close> retransmissions left, \<open>k\<close> ticks repeat the packet and the next one gives up.\<close>

lemma waiting_run:
  assumes "waiting sm pkt n t0" and "spaced (sm_control_rto sm) t0 (ts @ [t])"
    and "length ts + n = nat (sm_max_control_retries sm) + 1" and "0 \<le> sm_max_control_retries sm"
  shows "map out_packets (fst (sm_run sm (map Tick (ts @ [t])))) = replicate (length ts) [pkt] @ [[]] \<and>
    map out_events (fst (sm_run sm (map Tick (ts @ [t])))) = replicate (length ts) [] @ [[EvCONNECT_FAILED]] \<and>
    sm_state (snd (sm_run sm (map Tick (ts @ [t])))) = CLOSED"
  using assms
proof (induction ts arbitrary: sm n t0)
  case Nil
  then show ?case by (simp add: waiting_tick no_output_def clear_pending_def)
next
  case (Cons t1 ts)
  let ?sm = "sm\<lparr>sm_ctrl_retries := n + 1, sm_pending_ctrl_since := t1, sm_last_send := Some t1\<rparr>"
  have w: "waiting ?sm pkt (n + 1) t1" using Cons.prems(1) by (simp add: waiting_def)
  have st: "sm_on_tick sm t1 = (no_output\<lparr>out_packets := [pkt]\<rparr>, ?sm)"
    using Cons.prems by (subst waiting_tick [OF Cons.prems(1)]) auto
  have sp: "spaced (sm_control_rto ?sm) t1 (ts @ [t])" using Cons.prems(2) by simp
  have len: "length ts + (n + 1) = nat (sm_max_control_retries ?sm) + 1" using Cons.prems(3) by simp
  from Cons.IH [OF w sp len] Cons.prems(4) st show ?case by (simp add: case_prod_beta Let_def no_output_def)
qed

text \<open>A silent peer: only ticks happen after the last frame at time \<open>r\<close>.\<close>

lemma tick_keeps_recv: "sm_last_recv (snd (sm_on_tick sm t)) = sm_last_recv sm"
  by (auto simp: sm_on_tick_def tick_heartbeat_def clear_pending_def split: option.split)

lemma tick_stays_closed:
  "machine_ok sm \<Longrightarrow> sm_state sm = CLOSED \<Longrightarrow> sm_state (snd (sm_on_tick sm t)) = CLOSED"
  by (simp add: machine_ok.simps sm_on_tick_def idle_expired_def tick_heartbeat_def heartbeat_due_def)

lemma ticks_ok: "machine_ok sm \<Longrightarrow> machine_ok (snd (sm_run sm (map Tick ts)))"
proof (induction ts arbitrary: sm)
  case (Cons t ts)
  with tick_ok [OF Cons.prems, of t] show ?case by (simp add: case_prod_beta Let_def)
qed simp

lemma ticks_stay_closed:
  "machine_ok sm \<Longrightarrow> sm_state sm = CLOSED \<Longrightarrow> sm_state (snd (sm_run sm (map Tick ts))) = CLOSED"
proof (induction ts arbitrary: sm)
  case (Cons t ts)
  with tick_ok [OF Cons.prems(1), of t] tick_stays_closed [OF Cons.prems, of t] show ?case
    by (simp add: case_prod_beta Let_def)
qed simp

lemma ticks_close:
  assumes "machine_ok sm" and "sm_last_recv sm = Some r" and "t \<in> set ts" and "r + sm_idle_timeout sm \<le> t"
  shows "sm_state (snd (sm_run sm (map Tick ts))) = CLOSED"
  using assms
proof (induction ts arbitrary: sm)
  case (Cons u ts)
  let ?sm = "snd (sm_on_tick sm u)"
  have ok: "machine_ok ?sm" using tick_ok [OF Cons.prems(1)] by simp
  have idle: "sm_idle_timeout ?sm = sm_idle_timeout sm"
    using sm_config_step [of sm "Tick u"] by (simp add: sm_config_def)
  show ?case
  proof (cases "t = u")
    case False
    with Cons ok idle show ?thesis by (simp add: case_prod_beta Let_def tick_keeps_recv)
  next
    case True
    then have "sm_state ?sm = CLOSED"
      using Cons.prems tick_stays_closed [OF Cons.prems(1), of u]
      by (cases "sm_state sm = CLOSED") (auto simp: sm_on_tick_def idle_expired_def clear_pending_def)
    with ticks_stay_closed [OF ok] show ?thesis by (simp add: case_prod_beta Let_def)
  qed
qed simp

section \<open>Two machines and a wire\<close>

text \<open>
  An initiator and a responder; everything either has sent may arrive at the other at any
  time, any number of times or never, and both may be closed and reopened.
\<close>

record handshake =
  hs_a :: SessionStateMachine
  hs_b :: SessionStateMachine
  hs_wa :: "Packet list"
  hs_wb :: "Packet list"

fun arrives_from :: "Packet list \<Rightarrow> sm_op \<Rightarrow> bool" where
  "arrives_from w (Recv pkt _) = (pkt \<in> set w)"
| "arrives_from w _ = True"

inductive hs_step :: "handshake \<Rightarrow> handshake \<Rightarrow> bool" where
  initiator: "arrives_from (hs_wb s) x \<Longrightarrow> sm_apply (hs_a s) x = (out, a') \<Longrightarrow>
    hs_step s (s\<lparr>hs_a := a', hs_wa := hs_wa s @ out_packets out\<rparr>)"
| responder: "arrives_from (hs_wa s) x \<Longrightarrow> sm_apply (hs_b s) x = (out, b') \<Longrightarrow>
    hs_step s (s\<lparr>hs_b := b', hs_wb := hs_wb s @ out_packets out\<rparr>)"

definition hs_start :: "SessionStateMachine \<Rightarrow> SessionStateMachine \<Rightarrow> handshake" where
  "hs_start a b = \<lparr>hs_a = a, hs_b = b, hs_wa = [], hs_wb = []\<rparr>"

inductive hs_reach :: "int \<Rightarrow> int \<Rightarrow> int \<Rightarrow> handshake \<Rightarrow> bool" for sid ia ib where
  start: "hs_reach sid ia ib (hs_start
     (SessionStateMachine_init True sid ia hb1 idle1 crto1 max1)
     (SessionStateMachine_init False sid' ib hb2 idle2 crto2 max2))"
| step: "hs_reach sid ia ib s \<Longrightarrow> hs_step s t \<Longrightarrow> hs_reach sid ia ib t"

text \<open>What either side's packets carry.\<close>

definition from_a :: "int \<Rightarrow> int \<Rightarrow> int \<Rightarrow> Packet \<Rightarrow> bool" where
  "from_a sid ia ib k \<longleftrightarrow> p_session_id k = sid \<and> ptype k \<noteq> SYN_ACK \<and>
     (ptype k = SYN \<longrightarrow> p_seq k = ia) \<and> (ptype k = ACK \<longrightarrow> p_seq k = ia + 1 \<and> p_ack k = ib + 1)"

definition from_b :: "int \<Rightarrow> int \<Rightarrow> int \<Rightarrow> Packet \<Rightarrow> bool" where
  "from_b sid ia ib k \<longleftrightarrow> ptype k \<noteq> SYN \<and> ptype k \<noteq> ACK \<and>
     (ptype k = SYN_ACK \<longrightarrow> p_session_id k = sid \<and> p_seq k = ib \<and> p_ack k = ia + 1)"

definition open_state :: "SessionStateMachine \<Rightarrow> bool" where
  "open_state sm \<longleftrightarrow> sm_state sm \<in> {ESTABLISHED, FIN_WAIT, CLOSE_WAIT}"

definition sent_type :: "PacketType \<Rightarrow> Packet list \<Rightarrow> bool" where
  "sent_type t w \<longleftrightarrow> (\<exists>k \<in> set w. ptype k = t)"

lemma sent_type_append [simp]: "sent_type t (u @ w) \<longleftrightarrow> sent_type t u \<or> sent_type t w"
  by (auto simp: sent_type_def)

definition a_inv :: "int \<Rightarrow> int \<Rightarrow> int \<Rightarrow> SessionStateMachine \<Rightarrow> Packet list \<Rightarrow> Packet list \<Rightarrow> bool" where
  "a_inv sid ia ib a wa wb \<longleftrightarrow> sm_is_initiator a \<and> sm_session_id a = sid \<and> sm_isn a = ia \<and>
     sm_state a \<noteq> SYN_RCVD \<and> list_all (from_a sid ia ib) wa \<and>
     (\<forall>k. sm_pending_ctrl a = Some k \<longrightarrow> from_a sid ia ib k \<and> ptype k \<noteq> ACK) \<and>
     (open_state a \<longrightarrow> sm_seq a = ia + 1 \<and> sent_type SYN_ACK wb) \<and>
     (sent_type ACK wa \<longrightarrow> sent_type SYN_ACK wb)"

definition b_inv :: "int \<Rightarrow> int \<Rightarrow> int \<Rightarrow> SessionStateMachine \<Rightarrow> Packet list \<Rightarrow> Packet list \<Rightarrow> bool" where
  "b_inv sid ia ib b wa wb \<longleftrightarrow> \<not> sm_is_initiator b \<and> sm_isn b = ib \<and> sm_state b \<noteq> SYN_SENT \<and>
     list_all (from_b sid ia ib) wb \<and> (\<forall>k. sm_pending_ctrl b = Some k \<longrightarrow> from_b sid ia ib k) \<and>
     (sm_state b \<noteq> CLOSED \<longrightarrow> sm_session_id b = sid) \<and> (open_state b \<longrightarrow> sent_type ACK wa)"

lemmas wire_simps = from_a_def from_b_def open_state_def sent_type_def

lemma a_inv_packet:
  assumes "a_inv sid ia ib a wa wb" and "pkt \<in> set wb" and "from_b sid ia ib pkt"
  shows "a_inv sid ia ib (snd (sm_on_packet a pkt now)) (wa @ out_packets (fst (sm_on_packet a pkt now))) wb"
  using assms
  by (cases "sm_state a"; cases "ptype pkt")
    (auto simp: a_inv_def sm_on_packet_def handle_packet_def responder_initial_def sm_helpers wire_simps)

lemma b_inv_packet:
  assumes "b_inv sid ia ib b wa wb" and "pkt \<in> set wa" and "from_a sid ia ib pkt"
  shows "b_inv sid ia ib (snd (sm_on_packet b pkt now)) wa (wb @ out_packets (fst (sm_on_packet b pkt now)))"
  using assms
  by (cases "sm_state b"; cases "ptype pkt")
    (auto simp: b_inv_def sm_on_packet_def handle_packet_def responder_initial_def sm_helpers wire_simps)

lemma a_inv_tick:
  "a_inv sid ia ib a wa wb \<Longrightarrow>
   a_inv sid ia ib (snd (sm_on_tick a now)) (wa @ out_packets (fst (sm_on_tick a now))) wb"
  by (cases "sm_state a"; cases "sm_pending_ctrl a")
    (auto simp: a_inv_def sm_on_tick_def tick_heartbeat_def heartbeat_due_def idle_expired_def sm_helpers wire_simps)

lemma b_inv_tick:
  "b_inv sid ia ib b wa wb \<Longrightarrow>
   b_inv sid ia ib (snd (sm_on_tick b now)) wa (wb @ out_packets (fst (sm_on_tick b now)))"
  by (cases "sm_state b"; cases "sm_pending_ctrl b")
    (auto simp: b_inv_def sm_on_tick_def tick_heartbeat_def heartbeat_due_def idle_expired_def sm_helpers wire_simps)

lemma a_inv_step:
  assumes "a_inv sid ia ib a wa wb" and "list_all (from_b sid ia ib) wb" and "arrives_from wb x"
  shows "a_inv sid ia ib (snd (sm_apply a x)) (wa @ out_packets (fst (sm_apply a x))) wb"
proof (cases x)
  case (Recv pkt now)
  with assms show ?thesis by (auto simp: list_all_iff intro: a_inv_packet)
next
  case (Tick now)
  with assms show ?thesis by (auto intro: a_inv_tick)
qed (use assms in \<open>auto simp: a_inv_def sm_connect_def sm_close_def note_data_activity_def sm_helpers wire_simps\<close>)

lemma b_inv_step:
  assumes "b_inv sid ia ib b wa wb" and "list_all (from_a sid ia ib) wa" and "arrives_from wa x"
  shows "b_inv sid ia ib (snd (sm_apply b x)) wa (wb @ out_packets (fst (sm_apply b x)))"
proof (cases x)
  case (Recv pkt now)
  with assms show ?thesis by (auto simp: list_all_iff intro: b_inv_packet)
next
  case (Tick now)
  with assms show ?thesis by (auto intro: b_inv_tick)
qed (use assms in \<open>auto simp: b_inv_def sm_connect_def sm_close_def note_data_activity_def sm_helpers wire_simps\<close>)

definition hs_inv :: "int \<Rightarrow> int \<Rightarrow> int \<Rightarrow> handshake \<Rightarrow> bool" where
  "hs_inv sid ia ib s \<longleftrightarrow> a_inv sid ia ib (hs_a s) (hs_wa s) (hs_wb s) \<and>
     b_inv sid ia ib (hs_b s) (hs_wa s) (hs_wb s)"

lemma a_inv_more: "a_inv sid ia ib a wa wb \<Longrightarrow> a_inv sid ia ib a wa (wb @ ks)"
  by (auto simp: a_inv_def)

lemma b_inv_more: "b_inv sid ia ib b wa wb \<Longrightarrow> b_inv sid ia ib b (wa @ ks) wb"
  by (auto simp: b_inv_def)

lemma hs_step_inv: "hs_step s t \<Longrightarrow> hs_inv sid ia ib s \<Longrightarrow> hs_inv sid ia ib t"
proof (induction rule: hs_step.induct)
  case (initiator s x out a')
  then have a: "a_inv sid ia ib (hs_a s) (hs_wa s) (hs_wb s)" and b: "b_inv sid ia ib (hs_b s) (hs_wa s) (hs_wb s)"
    and w: "list_all (from_b sid ia ib) (hs_wb s)" by (auto simp: hs_inv_def b_inv_def)
  from a_inv_step [OF a w initiator(1)] b_inv_more [OF b] initiator(2) show ?case by (simp add: hs_inv_def)
next
  case (responder s x out b')
  then have a: "a_inv sid ia ib (hs_a s) (hs_wa s) (hs_wb s)" and b: "b_inv sid ia ib (hs_b s) (hs_wa s) (hs_wb s)"
    and w: "list_all (from_a sid ia ib) (hs_wa s)" by (auto simp: hs_inv_def a_inv_def)
  from b_inv_step [OF b w responder(1)] a_inv_more [OF a] responder(2) show ?case by (simp add: hs_inv_def)
qed

lemma hs_reach_inv: "hs_reach sid ia ib s \<Longrightarrow> hs_inv sid ia ib s"
proof (induction rule: hs_reach.induct)
  case start
  show ?case
    by (simp add: hs_inv_def hs_start_def a_inv_def b_inv_def SessionStateMachine_init_def wire_simps)
qed (rule hs_step_inv)

lemma a_inv_open: "a_inv sid ia ib a wa wb \<Longrightarrow> open_state a \<Longrightarrow> sent_type SYN_ACK wb"
  by (simp add: a_inv_def)

lemma b_inv_open: "b_inv sid ia ib b wa wb \<Longrightarrow> open_state b \<Longrightarrow> sent_type ACK wa"
  by (simp add: b_inv_def)

lemma a_inv_sent:
  "a_inv sid ia ib a wa wb \<Longrightarrow> sent_type ACK wa \<Longrightarrow>
   \<exists>k \<in> set wa. ptype k = ACK \<and> p_session_id k = sid \<and> p_seq k = ia + 1 \<and> p_ack k = ib + 1"
  unfolding a_inv_def list_all_iff from_a_def sent_type_def by blast

lemma b_inv_sent:
  "b_inv sid ia ib b wa wb \<Longrightarrow> sent_type SYN_ACK wb \<Longrightarrow>
   \<exists>k \<in> set wb. ptype k = SYN_ACK \<and> p_session_id k = sid \<and> p_seq k = ib \<and> p_ack k = ia + 1"
  unfolding b_inv_def list_all_iff from_b_def sent_type_def by blast

section \<open>A lossless wire\<close>

text \<open>\<open>sm_feed\<close> hands a queue of packets to a machine; one round lets both sides answer.\<close>

fun sm_feed :: "SessionStateMachine \<Rightarrow> Packet list \<Rightarrow> time \<Rightarrow>
    Packet list \<times> SessionEvent list \<times> SessionStateMachine" where
  "sm_feed sm [] now = ([], [], sm)"
| "sm_feed sm (k # ks) now =
     (let (out, sm1) = sm_on_packet sm k now; (pkts, evs, sm2) = sm_feed sm1 ks now
      in (out_packets out @ pkts, out_events out @ evs, sm2))"

definition exchange :: "SessionStateMachine \<Rightarrow> SessionStateMachine \<Rightarrow> Packet list \<Rightarrow> time \<Rightarrow>
    Packet list \<times> SessionEvent list \<times> SessionEvent list \<times> SessionStateMachine \<times> SessionStateMachine" where
  "exchange a b to_b now =
     (let (to_a, eb, b1) = sm_feed b to_b now; (to_b1, ea, a1) = sm_feed a to_a now
      in (to_b1, ea, eb, a1, b1))"

definition open_both :: "SessionStateMachine \<Rightarrow> SessionStateMachine \<Rightarrow> time \<Rightarrow> SessionEvent list \<times> SessionEvent list \<times> SessionStateMachine \<times> SessionStateMachine" where
  "open_both a b now =
     (let (out, a0) = sm_connect a now;
          (k1, ea1, eb1, a1, b1) = exchange a0 b (out_packets out) now;
          (k2, ea2, eb2, a2, b2) = exchange a1 b1 k1 now
      in (ea1 @ ea2, eb1 @ eb2, a2, b2))"

definition close_both :: "SessionStateMachine \<Rightarrow> SessionStateMachine \<Rightarrow> time \<Rightarrow> SessionEvent list \<times> SessionEvent list \<times> SessionStateMachine \<times> SessionStateMachine" where
  "close_both a b now =
     (let (out, a0) = sm_close a now;
          (k1, ea1, eb1, a1, b1) = exchange a0 b (out_packets out) now;
          (k2, ea2, eb2, a2, b2) = exchange a1 b1 k1 now
      in (ea1 @ ea2, eb1 @ eb2, a2, b2))"

text \<open>
  On a lossless wire one \<open>connect\<close> opens both ends under the initiator's session id,
  and one \<open>close\<close> closes both, each end reporting each event once: for any identifiers,
  sequence numbers, timers and times.
\<close>

theorem lossless_lifecycle:
  "case open_both (SessionStateMachine_init True sid ia h1 i1 c1 m1)
       (SessionStateMachine_init False sid' ib h2 i2 c2 m2) t1 of (ea, eb, a, b) \<Rightarrow>
     ea = [EvESTABLISHED] \<and> eb = [EvESTABLISHED] \<and> is_established a \<and> is_established b \<and>
     sm_session_id a = sid \<and> sm_session_id b = sid \<and>
     (case close_both a b t2 of (ea2, eb2, a2, b2) \<Rightarrow>
        ea2 = [EvCLOSED] \<and> eb2 = [EvPEER_CLOSED, EvCLOSED] \<and> is_closed a2 \<and> is_closed b2)"
  by (simp add: open_both_def close_both_def exchange_def sm_connect_def sm_close_def sm_on_packet_def
      handle_packet_def responder_initial_def SessionStateMachine_init_def is_established_def is_closed_def
      sm_helpers)

text \<open>
  C17. The lifecycle machine refines its abstract lifecycle, as long as it has never been opened again after a
  completed close (\<open>first_life\<close>, and this step does not reopen it): a call, packet or tick makes
  exactly the move that its trigger has in this state and role, and reports ESTABLISHED, PEER_CLOSED,
  CLOSED, TIMED_OUT or CONNECT_FAILED exactly with the move it belongs to.
\<close>

theorem machine_refines_lifecycle:
  assumes "first_life sm" and "\<not> reopens sm x"
  shows "life_step (sm_is_initiator sm) (trigger_of sm x) (sm_state sm) evs s \<longleftrightarrow>
    evs = out_events (fst (sm_apply sm x)) \<and> s = sm_state (snd (sm_apply sm x))"
  using machine_step_ok [OF first_life_ok [OF assms(1)] assms(2)] life_step_unique by blast

definition demo_machine :: SessionStateMachine where
  "demo_machine = SessionStateMachine_init True 7 100 1 3 (1 / 2) 5"

text \<open>The initiator has connected and gets the answer of a responder.\<close>

definition demo_answer :: sm_op where
  "demo_answer = Recv \<lparr>ptype = SYN_ACK, p_session_id = 7, p_stream_id = 0, p_seq = 500, p_ack = 101, p_window = 0,
     p_flags = Flags_SYN_ACK, p_version = 1, p_payload = []\<rparr> (1 / 4)"

theorem machine_refines_lifecycle_witness:
  "let sm = snd (sm_apply demo_machine (Connect 0)); (out, sm1) = sm_apply sm demo_answer in
   trigger_of sm demo_answer = ByPacket SYN_ACK \<and> sm_state sm = SYN_SENT \<and> out_events out = [EvESTABLISHED] \<and>
   sm_state sm1 = ESTABLISHED \<and>
   (\<forall>evs s. life_step True (trigger_of sm demo_answer) (sm_state sm) evs s \<longleftrightarrow>
      evs = out_events out \<and> s = sm_state sm1)"
proof -
  let ?sm = "snd (sm_apply demo_machine (Connect 0))"
  have "\<not> reopens demo_machine (Connect 0)"
    by (simp add: reopens_def no_close_flags_def demo_machine_def SessionStateMachine_init_def)
  then have f: "first_life ?sm"
    using first_life.step [OF first_life.fresh [where i = True and sid = 7 and isn = 100 and hb = 1 and idle = 3
          and crto = "1 / 2" and maxr = 5], of "Connect 0"] by (simp add: demo_machine_def)
  have v: "sm_state ?sm = SYN_SENT" "sm_is_initiator ?sm" "sm_session_id ?sm = 7"
    by (simp_all add: sm_connect_def demo_machine_def SessionStateMachine_init_def sm_helpers)
  then have "\<not> reopens ?sm demo_answer" by (simp add: reopens_def)
  from machine_refines_lifecycle [OF f this] v show ?thesis
    by (simp add: split_beta Let_def demo_answer_def sm_on_packet_def responder_initial_def handle_packet_def
        clear_pending_def make_ctrl_def completes_close_def del: sm_apply.simps(1))
qed

text \<open>
  A peer that has gone silent is noticed, by a machine not reopened after a completed close: once a
  frame has been received at time \<open>r\<close>, any run of ticks of which one falls at or after \<open>r + idle_timeout\<close> leaves the machine closed,
  whatever state it was in and whatever it was retransmitting.
\<close>

theorem silence_closes:
  assumes "first_life sm" and "sm_last_recv sm = Some r" and "t \<in> set ts" and "r + sm_idle_timeout sm \<le> t"
  shows "is_closed (snd (sm_run sm (map Tick ts)))"
  using ticks_close [OF first_life_ok [OF assms(1)] assms(2-4)] by (simp add: is_closed_def)

theorem silence_closes_witness:
  "is_closed (snd (sm_run (snd (sm_apply (snd (sm_apply demo_machine (Connect 0)))
     (Recv (make_ctrl demo_machine SYN_ACK 5 101 Flags_SYN_ACK) 1))) (map Tick [2, 3, 4])))"
proof -
  let ?a = "snd (sm_apply demo_machine (Connect 0))"
  let ?x = "Recv (make_ctrl demo_machine SYN_ACK 5 101 Flags_SYN_ACK) 1"
  let ?b = "snd (sm_apply ?a ?x)"
  have "first_life demo_machine" unfolding demo_machine_def by (rule first_life.fresh)
  moreover have "\<not> reopens demo_machine (Connect 0)"
    by (simp add: reopens_def no_close_flags_def demo_machine_def SessionStateMachine_init_def)
  ultimately have a: "first_life ?a" by (rule first_life.step)
  moreover have "\<not> reopens ?a ?x"
    by (simp add: reopens_def sm_connect_def demo_machine_def SessionStateMachine_init_def sm_helpers)
  ultimately have b: "first_life ?b" by (rule first_life.step)
  have r: "sm_last_recv ?b = Some 1"
    by (simp add: sm_connect_def sm_on_packet_def handle_packet_def responder_initial_def
        demo_machine_def SessionStateMachine_init_def sm_helpers)
  have i: "sm_idle_timeout ?b = 3"
    using sm_config_step [of ?a ?x] sm_config_step [of demo_machine "Connect 0"]
    by (simp add: sm_config_def demo_machine_def SessionStateMachine_init_def)
  show ?thesis by (rule silence_closes [OF b r, of 4]) (simp_all only: i, simp_all)
qed

text \<open>
  An unanswered handshake is given up: after \<open>connect\<close>, with ticks at least one
  \<open>control_rto\<close> apart and nothing received, the SYN is repeated at each of the first
  \<open>max_control_retries + 1\<close> ticks (one more than the name promises) and the next tick
  reports CONNECT_FAILED and closes the machine.
\<close>

theorem unanswered_connect_fails:
  assumes "sm_is_initiator sm" and "sm_state sm = CLOSED" and "sm_last_recv sm = None"
    and "0 \<le> sm_max_control_retries sm" and "int (length ts) = sm_max_control_retries sm + 1"
    and "spaced (sm_control_rto sm) t0 (ts @ [t])"
  shows "map out_packets (fst (sm_run (snd (sm_connect sm t0)) (map Tick (ts @ [t]))))
      = replicate (length ts) (out_packets (fst (sm_connect sm t0))) @ [[]] \<and>
    map out_events (fst (sm_run (snd (sm_connect sm t0)) (map Tick (ts @ [t]))))
      = replicate (length ts) [] @ [[EvCONNECT_FAILED]] \<and>
    is_closed (snd (sm_run (snd (sm_connect sm t0)) (map Tick (ts @ [t]))))"
proof -
  let ?sm = "snd (sm_connect sm t0)" and ?k = "make_ctrl sm SYN (sm_isn sm) 0 Flags_SYN"
  have c: "out_packets (fst (sm_connect sm t0)) = [?k]"
    using assms(1,2) by (simp add: sm_connect_def Let_def no_output_def)
  have w: "waiting ?sm ?k 0 t0"
    using assms(1-3) by (simp add: waiting_def sm_connect_def arm_pending_def Let_def)
  have cfg: "sm_control_rto ?sm = sm_control_rto sm" "sm_max_control_retries ?sm = sm_max_control_retries sm"
    using sm_config_step [of sm "Connect t0"] by (simp_all add: sm_config_def)
  have "length ts + 0 = nat (sm_max_control_retries ?sm) + 1" using assms(4,5) cfg by simp
  from waiting_run [OF w _ this] assms(4,6) cfg show ?thesis
    by (simp add: is_closed_def c)
qed

theorem unanswered_connect_fails_witness:
  "is_closed (snd (sm_run (snd (sm_connect demo_machine 0)) (map Tick ([1, 2, 3, 4, 5, 6] @ [7])))) \<and>
   length (filter (\<lambda>out. out_packets out \<noteq> [])
     (fst (sm_run (snd (sm_connect demo_machine 0)) (map Tick ([1, 2, 3, 4, 5, 6] @ [7]))))) = 6"
proof -
  let ?outs = "fst (sm_run (snd (sm_connect demo_machine 0)) (map Tick ([1, 2, 3, 4, 5, 6] @ [7])))"
  have d: "sm_is_initiator demo_machine" "sm_state demo_machine = CLOSED" "sm_last_recv demo_machine = None"
    "0 \<le> sm_max_control_retries demo_machine"
    "int (length [1::time, 2, 3, 4, 5, 6]) = sm_max_control_retries demo_machine + 1"
    "spaced (sm_control_rto demo_machine) 0 ([1, 2, 3, 4, 5, 6] @ [7])"
    by (simp_all add: demo_machine_def SessionStateMachine_init_def)
  note r = unanswered_connect_fails [OF d]
  have s: "out_packets (fst (sm_connect demo_machine 0)) \<noteq> []"
    by (simp add: sm_connect_def demo_machine_def SessionStateMachine_init_def sm_helpers)
  have "length (filter (\<lambda>out. out_packets out \<noteq> []) ?outs) = length (filter (\<lambda>ks. ks \<noteq> []) (map out_packets ?outs))"
    by (simp only: filter_map comp_def length_map)
  also have "\<dots> = 6" unfolding conjunct1 [OF r] using s by (simp add: filter_replicate)
  finally show ?thesis using r by blast
qed

text \<open>
  Over a wire that loses, repeats and reorders, with both ends free to close and reopen, a
  responder that is not closed always has the initiator's session id; it is open only if the
  initiator has sent the ACK that answers its SYN_ACK (with the two initial sequence numbers
  plus one), and the initiator is open only if the responder has sent a SYN_ACK for this
  session and for its initial sequence number.
\<close>

theorem handshake_agreement:
  assumes "hs_reach sid ia ib s"
  shows "sm_session_id (hs_a s) = sid \<and>
    (sm_state (hs_b s) \<noteq> CLOSED \<longrightarrow> sm_session_id (hs_b s) = sid) \<and>
    (open_state (hs_b s) \<longrightarrow>
       (\<exists>k \<in> set (hs_wa s). ptype k = ACK \<and> p_session_id k = sid \<and> p_seq k = ia + 1 \<and> p_ack k = ib + 1)) \<and>
    (open_state (hs_a s) \<longrightarrow>
       (\<exists>k \<in> set (hs_wb s). ptype k = SYN_ACK \<and> p_session_id k = sid \<and> p_seq k = ib \<and> p_ack k = ia + 1))"
proof -
  have a: "a_inv sid ia ib (hs_a s) (hs_wa s) (hs_wb s)" and b: "b_inv sid ia ib (hs_b s) (hs_wa s) (hs_wb s)"
    using hs_reach_inv [OF assms] by (simp_all add: hs_inv_def)
  have "sm_session_id (hs_a s) = sid" "sm_state (hs_b s) \<noteq> CLOSED \<longrightarrow> sm_session_id (hs_b s) = sid"
    using a b by (simp_all add: a_inv_def b_inv_def)
  with a_inv_sent [OF a] b_inv_sent [OF b] a_inv_open [OF a] b_inv_open [OF b] show ?thesis by blast
qed

theorem handshake_agreement_witness:
  "\<exists>s. hs_reach 7 100 200 s \<and> sm_state (hs_b s) = SYN_RCVD \<and> sm_session_id (hs_b s) = 7"
proof -
  let ?a = "SessionStateMachine_init True 7 100 1 3 1 5" and ?b = "SessionStateMachine_init False 0 200 1 3 1 5"
  let ?s0 = "hs_start ?a ?b"
  obtain out a' where c: "sm_apply ?a (Connect 0) = (out, a')" by fastforce
  let ?s1 = "?s0\<lparr>hs_a := a', hs_wa := hs_wa ?s0 @ out_packets out\<rparr>"
  have s1: "hs_step ?s0 ?s1" by (rule hs_step.initiator [of ?s0 "Connect 0"]) (simp_all add: hs_start_def c del: sm_apply.simps)
  obtain k where k: "out_packets out = [k]" "ptype k = SYN" "p_session_id k = 7"
    using c by (auto simp: sm_connect_def SessionStateMachine_init_def sm_helpers)
  obtain out2 b' where r: "sm_apply ?b (Recv k 1) = (out2, b')" by fastforce
  let ?s2 = "?s1\<lparr>hs_b := b', hs_wb := hs_wb ?s1 @ out_packets out2\<rparr>"
  have s2: "hs_step ?s1 ?s2"
    by (rule hs_step.responder [of ?s1 "Recv k 1"]) (simp_all add: hs_start_def k r del: sm_apply.simps)
  have reach: "hs_reach 7 100 200 ?s2" by (intro hs_reach.step [OF _ s2] hs_reach.step [OF _ s1] hs_reach.start)
  moreover have "sm_state b' = SYN_RCVD"
    using r k by (auto simp: sm_on_packet_def handle_packet_def responder_initial_def SessionStateMachine_init_def sm_helpers)
  ultimately show ?thesis using handshake_agreement [OF reach] by (intro exI [of _ ?s2]) simp
qed

text \<open>
  A machine that was closed cannot be opened again later: \<open>connect\<close> does not reset the
  time of the last received frame, so if that lies an idle timeout back, the first tick after
  a new \<open>connect\<close> reports TIMED_OUT and closes the machine before any answer can arrive.
\<close>

theorem reopened_times_out:
  assumes "sm_is_initiator sm" and "sm_state sm = CLOSED" and "sm_last_recv sm = Some r"
    and "r + sm_idle_timeout sm \<le> now" and "now \<le> t"
  shows "sm_state (snd (sm_connect sm now)) = SYN_SENT \<and>
    out_events (fst (sm_on_tick (snd (sm_connect sm now)) t)) = [EvTIMED_OUT] \<and>
    is_closed (snd (sm_on_tick (snd (sm_connect sm now)) t))"
  using assms by (simp add: sm_connect_def sm_on_tick_def idle_expired_def is_closed_def sm_helpers)

theorem reopened_times_out_witness:
  "out_events (fst (sm_on_tick (snd (sm_connect (demo_machine\<lparr>sm_last_recv := Some 1\<rparr>) 10)) 10)) = [EvTIMED_OUT]"
  using reopened_times_out [of "demo_machine\<lparr>sm_last_recv := Some 1\<rparr>" 1 10 10]
  by (simp add: demo_machine_def SessionStateMachine_init_def)

text \<open>
  A reopened machine keeps its old close flags: it closes at the peer's FIN although its
  own FIN is unanswered, and then, closed, still retransmits that FIN and reports a second
  ending.
\<close>

definition second_life :: "sm_op list" where
  "second_life =
     (let k = \<lambda>t. make_ctrl demo_machine t 0 0 Flags_NONE in
      [Connect 0, Recv (k SYN_ACK) 0, Close 0, Recv (k FIN_ACK) 0, Recv (k FIN) 0,
       Connect 1, Recv (k SYN_ACK) 1, Close 1, Recv (k FIN) 1])"

theorem reopened_machine_closes_early:
  "is_closed (snd (sm_run demo_machine second_life)) \<and>
   sm_pending_ctrl (snd (sm_run demo_machine second_life)) \<noteq> None \<and>
   map ptype (out_packets (fst (sm_on_tick (snd (sm_run demo_machine second_life)) 2))) = [FIN] \<and>
   out_events (last (fst (sm_run demo_machine (second_life @ map Tick [2, 3, 4, 5, 6, 7, 8])))) = [EvTIMED_OUT]"
  by code_simp

text \<open>
  Control sequence numbers do not wrap: a responder answers a SYN whose (valid) sequence
  number is 2^32 - 1 with a SYN_ACK whose acknowledgement does not fit the header, so packing
  the answer raises \<open>struct.error\<close>.
\<close>

theorem syn_ack_overflow:
  assumes "sm_state sm = CLOSED" and "\<not> sm_is_initiator sm" and "ptype pkt = SYN" and "p_seq pkt = 4294967295"
  shows "\<exists>reply. out_packets (fst (sm_on_packet sm pkt now)) = [reply] \<and> pack reply = Inl StructError"
  using assms
  by (simp add: sm_on_packet_def handle_packet_def responder_initial_def sm_helpers pack_eq packet_ok_def fits_def)

theorem syn_ack_overflow_witness:
  "\<exists>raw reply. pack (make_ctrl demo_machine SYN 4294967295 0 Flags_SYN) = Inr raw \<and>
    out_packets (fst (sm_on_packet (demo_machine\<lparr>sm_is_initiator := False\<rparr>)
      (make_ctrl demo_machine SYN 4294967295 0 Flags_SYN) 0)) = [reply] \<and> pack reply = Inl StructError"
proof -
  have "\<exists>raw. pack (make_ctrl demo_machine SYN 4294967295 0 Flags_SYN) = Inr raw"
    by (simp add: pack_eq packet_ok_def fits_def make_ctrl_def demo_machine_def SessionStateMachine_init_def
        Flags_SYN_def PROTOCOL_VERSION_def)
  with syn_ack_overflow [of "demo_machine\<lparr>sm_is_initiator := False\<rparr>" "make_ctrl demo_machine SYN 4294967295 0 Flags_SYN" 0]
  show ?thesis by (simp add: demo_machine_def SessionStateMachine_init_def make_ctrl_def)
qed

end
