(* ===== verification/Mux.thy ===== *)
theory Mux
  imports Arq_Inv
begin

text \<open>
  \<open>photontcp/stream/mux.py\<close>: one ARQ endpoint per application stream, created on first use.
  The main result is that the multiplexer is a product: what one stream does is what a lone
  endpoint does on that stream's share of the operations, whatever happens on the others.
\<close>

section \<open>Data\<close>

definition CONTROL_STREAM_ID :: int where "CONTROL_STREAM_ID = 0"
definition DEFAULT_STREAM_ID :: int where "DEFAULT_STREAM_ID = 1"

record MuxOutput =
  mo_packets :: "Packet list"
  mo_delivered :: "(int, bytes list) dict"
  mo_failed_streams :: "int list"

definition empty_mux_output :: MuxOutput where
  "empty_mux_output = \<lparr>mo_packets = [], mo_delivered = [], mo_failed_streams = []\<rparr>"

record StreamMux =
  mx_session_id :: int
  mx_is_initiator :: bool
  mx_window_size :: int
  mx_max_payload :: int
  mx_rto_factory :: "unit \<Rightarrow> RtoEstimator"
  mx_endpoints :: "(int, ArqEndpoint) dict"
  mx_next_open_id :: int

definition StreamMux_init ::
  "int \<Rightarrow> bool \<Rightarrow> int \<Rightarrow> int \<Rightarrow> (unit \<Rightarrow> RtoEstimator) option \<Rightarrow> StreamMux" where
  "StreamMux_init session_id is_initiator window_size max_payload rto_factory =
     \<lparr>mx_session_id = session_id, mx_is_initiator = is_initiator, mx_window_size = window_size,
      mx_max_payload = max_payload,
      mx_rto_factory = (case rto_factory of Some f \<Rightarrow> f | None \<Rightarrow> (\<lambda>_. RtoEstimator_default)),
      mx_endpoints = [], mx_next_open_id = (if is_initiator then 3 else 2)\<rparr>"

section \<open>Read-only helpers\<close>

definition stream_ids :: "StreamMux \<Rightarrow> int list" where
  "stream_ids m = sort (dict_keys (mx_endpoints m))"

definition has_stream :: "StreamMux \<Rightarrow> int \<Rightarrow> bool" where
  "has_stream m stream_id = dict_mem stream_id (mx_endpoints m)"

definition mux_acked_bytes :: "StreamMux \<Rightarrow> int \<Rightarrow> nat" where
  "mux_acked_bytes m stream_id =
     (case map_of (mx_endpoints m) stream_id of Some ep \<Rightarrow> ep_acked_bytes ep | None \<Rightarrow> 0)"

definition failed_stream_ids :: "StreamMux \<Rightarrow> int list" where
  "failed_stream_ids m = sort (map fst (filter (\<lambda>(sid, ep). ep_failed ep) (mx_endpoints m)))"

section \<open>Operations\<close>

text \<open>The constructor's default for \<open>max_retx\<close>, which the multiplexer does not pass.\<close>

definition DEFAULT_MAX_RETX :: int where "DEFAULT_MAX_RETX = 8"

definition new_endpoint :: "StreamMux \<Rightarrow> int \<Rightarrow> ArqEndpoint result" where
  "new_endpoint m stream_id =
     ArqEndpoint_init (mx_session_id m) 0 (mx_window_size m) (mx_rto_factory m ())
       (mx_max_payload m) 0 stream_id DEFAULT_MAX_RETX"

definition mux_endpoint :: "StreamMux \<Rightarrow> int \<Rightarrow> ArqEndpoint result \<times> StreamMux" where
  "mux_endpoint m stream_id =
     (case map_of (mx_endpoints m) stream_id of
        Some ep \<Rightarrow> (Inr ep, m)
      | None \<Rightarrow>
          (case new_endpoint m stream_id of
             Inl e \<Rightarrow> (Inl e, m)
           | Inr ep \<Rightarrow>
               (Inr ep, m\<lparr>mx_endpoints := AList.update stream_id ep (mx_endpoints m)\<rparr>)))"

text \<open>The endpoint objects are mutated in place: \<open>put_endpoint\<close> stores the new state.\<close>

definition put_endpoint :: "StreamMux \<Rightarrow> int \<Rightarrow> ArqEndpoint \<Rightarrow> StreamMux" where
  "put_endpoint m stream_id ep =
     m\<lparr>mx_endpoints := AList.update stream_id ep (mx_endpoints m)\<rparr>"

lemma free_id_measure:
  fixes sid :: int
  assumes "sid \<in> set ks"
  shows "length (filter (\<lambda>k. sid + 2 \<le> k) ks) < length (filter (\<lambda>k. sid \<le> k) ks)"
proof -
  have "filter (\<lambda>k. sid + 2 \<le> k) ks = filter (\<lambda>k. sid + 2 \<le> k) (filter (\<lambda>k. sid \<le> k) ks)"
    by (simp add: filter_filter) (rule filter_cong, auto)
  moreover have "length (filter (\<lambda>k. sid + 2 \<le> k) (filter (\<lambda>k. sid \<le> k) ks)) < length (filter (\<lambda>k. sid \<le> k) ks)"
    by (rule length_filter_less [of sid]) (use assms in auto)
  ultimately show ?thesis by simp
qed

function next_free_id :: "int list \<Rightarrow> int \<Rightarrow> int" where
  "next_free_id ks sid = (if sid \<in> set ks then next_free_id ks (sid + 2) else sid)"
  by pat_completeness auto
termination
  by (relation "measure (\<lambda>(ks, sid). length (filter (\<lambda>k. sid \<le> k) ks))")
    (auto simp: free_id_measure)

declare next_free_id.simps [simp del]

definition open_stream :: "StreamMux \<Rightarrow> int result \<times> StreamMux" where
  "open_stream m =
     (let sid = next_free_id (dict_keys (mx_endpoints m)) (mx_next_open_id m) in
      case mux_endpoint m sid of
        (Inl e, m1) \<Rightarrow> (Inl e, m1)
      | (Inr _, m1) \<Rightarrow> (Inr sid, m1\<lparr>mx_next_open_id := sid + 2\<rparr>))"

definition mux_send :: "StreamMux \<Rightarrow> int \<Rightarrow> bytes \<Rightarrow> time \<Rightarrow> MuxOutput result \<times> StreamMux" where
  "mux_send m stream_id data now =
     (case mux_endpoint m stream_id of
        (Inl e, m1) \<Rightarrow> (Inl e, m1)
      | (Inr ep, m1) \<Rightarrow>
          (let (result, ep1) = arq_send ep data now
           in (Inr (empty_mux_output\<lparr>mo_packets := ao_packets result\<rparr>),
               put_endpoint m1 stream_id ep1)))"

definition mux_on_packet :: "StreamMux \<Rightarrow> Packet \<Rightarrow> time \<Rightarrow> MuxOutput result \<times> StreamMux" where
  "mux_on_packet m pkt now =
     (if p_stream_id pkt = CONTROL_STREAM_ID then (Inr empty_mux_output, m)
      else
        (case mux_endpoint m (p_stream_id pkt) of
           (Inl e, m1) \<Rightarrow> (Inl e, m1)
         | (Inr ep, m1) \<Rightarrow>
             (case arq_on_packet ep pkt now of
                (Inl e, ep1) \<Rightarrow> (Inl e, put_endpoint m1 (p_stream_id pkt) ep1)
              | (Inr result, ep1) \<Rightarrow>
                  (Inr \<lparr>mo_packets = ao_packets result,
                        mo_delivered = (if ao_delivered result \<noteq> []
                          then [(p_stream_id pkt, ao_delivered result)] else []),
                        mo_failed_streams = (if SEND_FAILED \<in> set (ao_events result)
                          then [p_stream_id pkt] else [])\<rparr>,
                   put_endpoint m1 (p_stream_id pkt) ep1))))"

text \<open>The loop of \<open>on_tick\<close> over the dictionary, which changes only the values.\<close>

fun tick_endpoints ::
  "(int, ArqEndpoint) dict \<Rightarrow> time \<Rightarrow> Packet list \<times> int list \<times> (int, ArqEndpoint) dict" where
  "tick_endpoints [] now = ([], [], [])"
| "tick_endpoints ((sid, ep) # rest) now =
     (let (result, ep1) = arq_on_tick ep now;
          (pkts, failed, rest1) = tick_endpoints rest now
      in (ao_packets result @ pkts,
          (if SEND_FAILED \<in> set (ao_events result) then [sid] else []) @ failed,
          (sid, ep1) # rest1))"

definition mux_on_tick :: "StreamMux \<Rightarrow> time \<Rightarrow> MuxOutput \<times> StreamMux" where
  "mux_on_tick m now =
     (let (pkts, failed, eps) = tick_endpoints (mx_endpoints m) now
      in (\<lparr>mo_packets = pkts, mo_delivered = [], mo_failed_streams = failed\<rparr>,
          m\<lparr>mx_endpoints := eps\<rparr>))"

definition set_session_id :: "StreamMux \<Rightarrow> int \<Rightarrow> StreamMux" where
  "set_session_id m sid =
     m\<lparr>mx_session_id := sid,
       mx_endpoints := map (\<lambda>(k, ep). (k, ep\<lparr>ep_session_id := sid\<rparr>)) (mx_endpoints m)\<rparr>"

section \<open>Runs\<close>

datatype mux_op = MuxSend int bytes time | MuxPacket Packet time | MuxTick time | MuxOpen
  | MuxSession int

fun mux_apply :: "StreamMux \<Rightarrow> mux_op \<Rightarrow> (int, bytes list) dict \<times> StreamMux" where
  "mux_apply m (MuxSend sid data now) = ([], snd (mux_send m sid data now))"
| "mux_apply m (MuxPacket pkt now) =
     (case mux_on_packet m pkt now of (Inl _, m1) \<Rightarrow> ([], m1) | (Inr out, m1) \<Rightarrow> (mo_delivered out, m1))"
| "mux_apply m (MuxTick now) = ([], snd (mux_on_tick m now))"
| "mux_apply m MuxOpen = ([], snd (open_stream m))"
| "mux_apply m (MuxSession sid) = ([], set_session_id m sid)"

definition on_stream :: "int \<Rightarrow> (int, bytes list) dict \<Rightarrow> bytes list" where
  "on_stream t d = (case map_of d t of Some ds \<Rightarrow> ds | None \<Rightarrow> [])"

text \<open>The chunks delivered on stream \<open>t\<close> by a sequence of operations, and the final state.\<close>

fun mux_run :: "int \<Rightarrow> StreamMux \<Rightarrow> mux_op list \<Rightarrow> bytes list \<times> StreamMux" where
  "mux_run t m [] = ([], m)"
| "mux_run t m (x # ops) =
     (let (d, m1) = mux_apply m x; (ds, m2) = mux_run t m1 ops in (on_stream t d @ ds, m2))"

text \<open>The same operations seen by a lone endpoint for stream \<open>t\<close>.\<close>

fun lone_apply :: "int \<Rightarrow> ArqEndpoint \<Rightarrow> mux_op \<Rightarrow> bytes list \<times> ArqEndpoint" where
  "lone_apply t ep (MuxSend sid data now) = ([], if sid = t then snd (arq_send ep data now) else ep)"
| "lone_apply t ep (MuxPacket pkt now) =
     (if p_stream_id pkt = t then
        (case arq_on_packet ep pkt now of (Inl _, ep1) \<Rightarrow> ([], ep1) | (Inr out, ep1) \<Rightarrow> (ao_delivered out, ep1))
      else ([], ep))"
| "lone_apply t ep (MuxTick now) = ([], snd (arq_on_tick ep now))"
| "lone_apply t ep MuxOpen = ([], ep)"
| "lone_apply t ep (MuxSession sid) = ([], ep\<lparr>ep_session_id := sid\<rparr>)"

fun lone_run :: "int \<Rightarrow> ArqEndpoint \<Rightarrow> mux_op list \<Rightarrow> bytes list \<times> ArqEndpoint" where
  "lone_run t ep [] = ([], ep)"
| "lone_run t ep (x # ops) =
     (let (d, ep1) = lone_apply t ep x; (ds, ep2) = lone_run t ep1 ops in (d @ ds, ep2))"

definition mux_config_ok :: "StreamMux \<Rightarrow> bool" where
  "mux_config_ok m \<longleftrightarrow> 1 \<le> mx_window_size m \<and> 1 \<le> mx_max_payload m"

text \<open>The endpoint of stream \<open>t\<close>, or the one that would be created for it.\<close>

definition view :: "StreamMux \<Rightarrow> int \<Rightarrow> ArqEndpoint" where
  "view m t = (case map_of (mx_endpoints m) t of Some ep \<Rightarrow> ep | None \<Rightarrow> projr (new_endpoint m t))"

lemma new_endpoint_ok: "mux_config_ok m \<Longrightarrow> new_endpoint m t = Inr (projr (new_endpoint m t))"
  by (simp add: new_endpoint_def ArqEndpoint_init_def mux_config_ok_def DEFAULT_MAX_RETX_def)

lemma view_put [simp]: "view (put_endpoint m s ep) t = (if t = s then ep else view m t)"
  by (simp add: view_def put_endpoint_def update_conv new_endpoint_def split: option.split)

lemma put_endpoint_config [simp]:
  "mux_config_ok (put_endpoint m s ep) = mux_config_ok m"
  "mx_next_open_id (put_endpoint m s ep) = mx_next_open_id m"
  "mx_is_initiator (put_endpoint m s ep) = mx_is_initiator m"
  by (simp_all add: put_endpoint_def mux_config_ok_def)

lemma mux_endpoint_view:
  assumes "mux_config_ok m"
  obtains m1 where "mux_endpoint m s = (Inr (view m s), m1)" and "\<forall>t. view m1 t = view m t"
    and "mux_config_ok m1"
proof (cases "map_of (mx_endpoints m) s")
  case (Some ep)
  with assms show ?thesis by (intro that [of m]) (simp_all add: mux_endpoint_def view_def)
next
  case None
  let ?ep = "projr (new_endpoint m s)"
  have v: "view m s = ?ep" using None by (simp add: view_def)
  have n: "new_endpoint m s = Inr ?ep" by (rule new_endpoint_ok [OF assms])
  have "mux_endpoint m s = (Inr ?ep, put_endpoint m s ?ep)"
    unfolding mux_endpoint_def None by (subst n) (simp add: put_endpoint_def)
  with v assms show ?thesis by (intro that [of "put_endpoint m s ?ep"]) auto
qed

lemma tick_endpoints_map_of:
  "map_of (snd (snd (tick_endpoints eps now))) t = map_option (\<lambda>ep. snd (arq_on_tick ep now)) (map_of eps t)"
  by (induction eps) (auto simp: case_prod_beta Let_def)

lemma on_tick_fresh:
  assumes "mux_config_ok m"
  shows "arq_on_tick (projr (new_endpoint m t)) now = (empty_output, projr (new_endpoint m t))"
  using assms
  by (simp add: new_endpoint_def ArqEndpoint_init_def mux_config_ok_def DEFAULT_MAX_RETX_def
      arq_on_tick_def timed_out_def)

lemma view_step:
  assumes ok: "mux_config_ok m" and t: "t \<noteq> CONTROL_STREAM_ID"
  shows "mux_config_ok (snd (mux_apply m x)) \<and>
    view (snd (mux_apply m x)) t = snd (lone_apply t (view m t) x) \<and>
    on_stream t (fst (mux_apply m x)) = fst (lone_apply t (view m t) x)"
proof (cases x)
  case (MuxSend sid data now)
  obtain m1 where m1: "mux_endpoint m sid = (Inr (view m sid), m1)" "\<forall>t. view m1 t = view m t" "mux_config_ok m1"
    by (rule mux_endpoint_view [OF ok, of sid])
  with MuxSend show ?thesis by (simp add: mux_send_def on_stream_def case_prod_beta)
next
  case (MuxPacket pkt now)
  let ?s = "p_stream_id pkt"
  obtain m1 where m1: "mux_endpoint m ?s = (Inr (view m ?s), m1)" "\<forall>t. view m1 t = view m t" "mux_config_ok m1"
    by (rule mux_endpoint_view [OF ok, of ?s])
  obtain r ep1 where r: "arq_on_packet (view m ?s) pkt now = (r, ep1)" by fastforce
  show ?thesis
  proof (cases "?s = CONTROL_STREAM_ID")
    case True
    with MuxPacket ok t show ?thesis by (auto simp: mux_on_packet_def on_stream_def empty_mux_output_def)
  next
    case False
    with MuxPacket m1 r show ?thesis by (cases r) (auto simp: mux_on_packet_def on_stream_def)
  qed
next
  case (MuxTick now)
  have "map_of (mx_endpoints (snd (mux_on_tick m now))) t
      = map_option (\<lambda>ep. snd (arq_on_tick ep now)) (map_of (mx_endpoints m) t)"
    by (simp add: mux_on_tick_def case_prod_beta tick_endpoints_map_of)
  moreover have "new_endpoint (snd (mux_on_tick m now)) t = new_endpoint m t"
    by (simp add: mux_on_tick_def case_prod_beta new_endpoint_def)
  moreover have "mux_config_ok (snd (mux_on_tick m now))"
    using ok by (simp add: mux_on_tick_def case_prod_beta mux_config_ok_def)
  ultimately show ?thesis
    using MuxTick on_tick_fresh [OF ok, of t now]
    by (auto simp: view_def on_stream_def split: option.split)
next
  case MuxOpen
  let ?s = "next_free_id (dict_keys (mx_endpoints m)) (mx_next_open_id m)"
  obtain m1 where m1: "mux_endpoint m ?s = (Inr (view m ?s), m1)" "\<forall>t. view m1 t = view m t" "mux_config_ok m1"
    by (rule mux_endpoint_view [OF ok, of ?s])
  have "view (m1\<lparr>mx_next_open_id := i\<rparr>) t = view m1 t" for i
    by (simp add: view_def new_endpoint_def split: option.split)
  with MuxOpen m1 show ?thesis
    by (simp add: open_stream_def Let_def on_stream_def mux_config_ok_def)
next
  case (MuxSession sid)
  have "map_of (mx_endpoints (set_session_id m sid)) t
      = map_option (\<lambda>ep. ep\<lparr>ep_session_id := sid\<rparr>) (map_of (mx_endpoints m) t)"
    by (simp add: set_session_id_def map_of_map)
  moreover have "projr (new_endpoint (set_session_id m sid) t) = (projr (new_endpoint m t))\<lparr>ep_session_id := sid\<rparr>"
    using ok by (simp add: new_endpoint_def ArqEndpoint_init_def mux_config_ok_def DEFAULT_MAX_RETX_def set_session_id_def)
  moreover have "mux_config_ok (set_session_id m sid)" using ok by (simp add: mux_config_ok_def set_session_id_def)
  ultimately show ?thesis using MuxSession by (simp add: view_def on_stream_def split: option.split)
qed

lemma mux_run_view:
  assumes "mux_config_ok m" and "t \<noteq> CONTROL_STREAM_ID"
  shows "fst (mux_run t m ops) = fst (lone_run t (view m t) ops) \<and>
    view (snd (mux_run t m ops)) t = snd (lone_run t (view m t) ops) \<and>
    mux_config_ok (snd (mux_run t m ops))"
  using assms(1)
proof (induction ops arbitrary: m)
  case (Cons x ops)
  from view_step [OF Cons.prems assms(2), of x] Cons.IH [of "snd (mux_apply m x)"] show ?case
    by (simp add: case_prod_beta Let_def)
qed simp

text \<open>An operation another stream is the target of does nothing to a lone endpoint.\<close>

fun concerns :: "int \<Rightarrow> mux_op \<Rightarrow> bool" where
  "concerns t (MuxSend sid _ _) = (sid = t)"
| "concerns t (MuxPacket pkt _) = (p_stream_id pkt = t)"
| "concerns t (MuxTick _) = True"
| "concerns t MuxOpen = False"
| "concerns t (MuxSession _) = True"

lemma lone_run_concerns: "lone_run t ep ops = lone_run t ep (filter (concerns t) ops)"
proof (induction ops arbitrary: ep)
  case (Cons x ops)
  have "\<not> concerns t x \<Longrightarrow> lone_apply t ep x = ([], ep)" by (cases x) auto
  with Cons show ?case by (cases "concerns t x") (simp_all add: case_prod_beta Let_def)
qed simp

section \<open>Stream numbers\<close>

definition ids_ok :: "StreamMux \<Rightarrow> bool" where
  "ids_ok m \<longleftrightarrow> 2 \<le> mx_next_open_id m \<and> (odd (mx_next_open_id m) \<longleftrightarrow> mx_is_initiator m)"

lemma next_free_id_ok:
  "next_free_id ks sid \<notin> set ks \<and> sid \<le> next_free_id ks sid \<and> even (next_free_id ks sid - sid)"
proof (induction ks sid rule: next_free_id.induct)
  case (1 ks sid)
  show ?case
  proof (cases "sid \<in> set ks")
    case True
    have "even (next_free_id ks (sid + 2) - (sid + 2)) \<Longrightarrow> even (next_free_id ks (sid + 2) - sid)" by presburger
    with True 1 show ?thesis by (simp add: next_free_id.simps [of ks sid])
  next
    case False
    then show ?thesis by (simp add: next_free_id.simps [of ks sid])
  qed
qed

lemma mux_endpoint_ids:
  "mx_next_open_id (snd (mux_endpoint m s)) = mx_next_open_id m \<and>
   mx_is_initiator (snd (mux_endpoint m s)) = mx_is_initiator m"
  by (auto simp: mux_endpoint_def split: option.split sum.split)

lemma ids_ok_cong:
  "mx_next_open_id m' = mx_next_open_id m \<Longrightarrow> mx_is_initiator m' = mx_is_initiator m \<Longrightarrow>
   ids_ok m' = ids_ok m"
  by (simp add: ids_ok_def)

lemma mux_apply_ids: "ids_ok m \<Longrightarrow> ids_ok (snd (mux_apply m x)) \<and>
  mx_is_initiator (snd (mux_apply m x)) = mx_is_initiator m"
proof (cases x)
  case MuxOpen
  let ?s = "next_free_id (dict_keys (mx_endpoints m)) (mx_next_open_id m)"
  assume "ids_ok m"
  moreover have "odd (?s + 2) \<longleftrightarrow> odd (mx_next_open_id m)" "mx_next_open_id m \<le> ?s"
    using next_free_id_ok [of "dict_keys (mx_endpoints m)" "mx_next_open_id m"] by auto
  ultimately show ?thesis
    using MuxOpen mux_endpoint_ids [of m ?s]
    by (cases "mux_endpoint m ?s") (auto simp: open_stream_def Let_def ids_ok_def split: sum.split)
next
  case (MuxSend sid data now)
  assume "ids_ok m"
  with MuxSend mux_endpoint_ids [of m sid] show ?thesis
    by (cases "mux_endpoint m sid")
      (auto simp: mux_send_def put_endpoint_def ids_ok_def split: sum.split prod.split)
next
  case (MuxPacket pkt now)
  assume "ids_ok m"
  with MuxPacket mux_endpoint_ids [of m "p_stream_id pkt"] show ?thesis
    by (cases "mux_endpoint m (p_stream_id pkt)")
      (auto simp: mux_on_packet_def put_endpoint_def ids_ok_def split: sum.split prod.split)
qed (auto simp: ids_ok_def mux_on_tick_def set_session_id_def split: prod.split)

lemma mux_run_ids:
  "ids_ok m \<Longrightarrow> ids_ok (snd (mux_run t m ops)) \<and> mx_is_initiator (snd (mux_run t m ops)) = mx_is_initiator m"
proof (induction ops arbitrary: m)
  case (Cons x ops)
  with mux_apply_ids [OF Cons.prems, of x] Cons.IH [of "snd (mux_apply m x)"] show ?case
    by (simp add: case_prod_beta Let_def)
qed simp

lemma open_stream_ids:
  assumes "ids_ok m" and "open_stream m = (Inr sid, m')"
  shows "2 \<le> sid \<and> (odd sid \<longleftrightarrow> mx_is_initiator m) \<and> \<not> has_stream m sid \<and> sid < mx_next_open_id m'"
proof -
  have s: "sid = next_free_id (dict_keys (mx_endpoints m)) (mx_next_open_id m)" "mx_next_open_id m' = sid + 2"
    using assms(2) by (auto simp: open_stream_def Let_def split: prod.splits sum.splits)
  from next_free_id_ok [of "dict_keys (mx_endpoints m)" "mx_next_open_id m", folded s(1)] assms(1) s(2)
  show ?thesis by (auto simp: ids_ok_def has_stream_def dict_mem_keys)
qed

section \<open>Properties\<close>

text \<open>
  No head-of-line blocking: after any sequence of multiplexer operations, what stream
  \<open>t\<close> has delivered and the state of its endpoint are those of a lone endpoint that has seen
  only the operations on stream \<open>t\<close> (and the ticks and session changes). Packets, losses and
  failures of other streams have no influence.
\<close>

theorem streams_are_independent:
  assumes "mux_config_ok m" and "t \<noteq> CONTROL_STREAM_ID"
  shows "fst (mux_run t m ops) = fst (lone_run t (view m t) (filter (concerns t) ops)) \<and>
    view (snd (mux_run t m ops)) t = snd (lone_run t (view m t) (filter (concerns t) ops))"
  using mux_run_view [OF assms, of ops] lone_run_concerns [of t "view m t" ops] by simp

definition demo_data :: "int \<Rightarrow> int \<Rightarrow> bytes \<Rightarrow> Packet" where
  "demo_data stream seq payload = \<lparr>ptype = DATA, p_session_id = 9, p_stream_id = stream, p_seq = seq,
     p_ack = 0, p_window = 4, p_flags = Flags_NONE, p_version = PROTOCOL_VERSION, p_payload = payload\<rparr>"

definition demo_mux :: StreamMux where
  "demo_mux = StreamMux_init 9 True 4 100 None"

theorem streams_are_independent_witness:
  "fst (mux_run 3 demo_mux [MuxPacket (demo_data 1 1 [7]) 0, MuxPacket (demo_data 3 0 [5]) 1]) = [[5]]"
proof -
  have ok: "mux_config_ok demo_mux" by (simp add: mux_config_ok_def demo_mux_def StreamMux_init_def)
  have "(3::int) \<noteq> CONTROL_STREAM_ID" by (simp add: CONTROL_STREAM_ID_def)
  from streams_are_independent [OF ok this, of "[MuxPacket (demo_data 1 1 [7]) 0, MuxPacket (demo_data 3 0 [5]) 1]"]
  have "fst (mux_run 3 demo_mux [MuxPacket (demo_data 1 1 [7]) 0, MuxPacket (demo_data 3 0 [5]) 1])
      = fst (lone_run 3 (view demo_mux 3) [MuxPacket (demo_data 3 0 [5]) 1])"
    by (simp add: demo_data_def)
  moreover have "fst (lone_run 3 (view demo_mux 3) [MuxPacket (demo_data 3 0 [5]) 1]) = [[5]]"
    by code_simp
  ultimately show ?thesis by simp
qed

text \<open>
  Stream numbers never collide: after any operations, a stream opened by the initiator has
  an odd number and one opened by the responder an even one, at least 2, not in use, and the
  next search starts above it.
\<close>

theorem opened_streams_fresh:
  assumes "open_stream (snd (mux_run t (StreamMux_init sess initiator w p f) ops)) = (Inr sid, m')"
  shows "2 \<le> sid \<and> (odd sid \<longleftrightarrow> initiator) \<and>
    \<not> has_stream (snd (mux_run t (StreamMux_init sess initiator w p f) ops)) sid \<and> sid < mx_next_open_id m'"
proof -
  have i: "ids_ok (StreamMux_init sess initiator w p f)" by (simp add: ids_ok_def StreamMux_init_def)
  have "mx_is_initiator (StreamMux_init sess initiator w p f) = initiator" by (simp add: StreamMux_init_def)
  with mux_run_ids [OF i, of t ops] open_stream_ids [OF _ assms] show ?thesis by simp
qed

theorem opened_streams_fresh_witness:
  "\<exists>m'. open_stream (snd (mux_run 1 (StreamMux_init 9 True 4 100 None) [MuxOpen, MuxSend 5 [1] 0])) = (Inr 7, m')
     \<and> odd (7::int) \<and> 7 < mx_next_open_id m'"
proof -
  let ?m = "snd (mux_run 1 (StreamMux_init 9 True 4 100 None) [MuxOpen, MuxSend 5 [1] 0])"
  have "fst (open_stream ?m) = Inr 7" by code_simp
  then have "open_stream ?m = (Inr 7, snd (open_stream ?m))" by (metis prod.collapse)
  with opened_streams_fresh [OF this] show ?thesis by blast
qed

end
