(* ===== verification/Session.thy ===== *)
theory Session
  imports Mux Machine
begin

text \<open>
  \<open>photontcp/session/session.py\<close> and \<open>session/clock.py\<close>: the synchronous driver. The
  channel and the clock are objects the session is given; here they are one world of any type
  \<open>'w\<close> with three operations. A call returns its result (or the exception that left it), the
  session's new state and the world's new state.
\<close>

section \<open>Clocks\<close>

record ManualClock =
  clock_t :: time

definition ManualClock_init :: "time \<Rightarrow> ManualClock" where
  "ManualClock_init start = \<lparr>clock_t = start\<rparr>"

definition clock_now :: "ManualClock \<Rightarrow> time" where
  "clock_now c = clock_t c"

definition clock_advance :: "ManualClock \<Rightarrow> time \<Rightarrow> unit result \<times> ManualClock" where
  "clock_advance c dt =
     (if dt < 0 then (Inl ValueError, c) else (Inr (), c\<lparr>clock_t := clock_t c + dt\<rparr>))"

definition clock_set :: "ManualClock \<Rightarrow> time \<Rightarrow> unit result \<times> ManualClock" where
  "clock_set c t = (if t < 0 then (Inl ValueError, c) else (Inr (), c\<lparr>clock_t := t\<rparr>))"

section \<open>The world and the session\<close>

record 'w world_ops =
  w_send :: "bytes \<Rightarrow> 'w \<Rightarrow> unit result \<times> 'w"
  w_recv :: "time \<Rightarrow> 'w \<Rightarrow> bytes option result \<times> 'w"
  w_now :: "'w \<Rightarrow> time \<times> 'w"

definition DEFAULT_ARQ_WINDOW_SIZE :: int where "DEFAULT_ARQ_WINDOW_SIZE = 32"
definition DEFAULT_ARQ_MAX_PAYLOAD :: int where "DEFAULT_ARQ_MAX_PAYLOAD = 200"

definition CONTROL_TYPES :: "PacketType set" where
  "CONTROL_TYPES = {SYN, SYN_ACK, FIN, FIN_ACK, HEARTBEAT}"

definition DRAIN_TIMEOUT :: time where "DRAIN_TIMEOUT = 0"

definition rto_factory_from :: "RtoEstimator option \<Rightarrow> unit \<Rightarrow> RtoEstimator" where
  "rto_factory_from r = (case r of None \<Rightarrow> (\<lambda>_. RtoEstimator_default) | Some e \<Rightarrow> (\<lambda>_. rto_clone e))"

record Session =
  se_machine :: SessionStateMachine
  se_mux :: StreamMux
  se_recv_buffers :: "(int, bytes list) dict"

definition Session_init ::
  "bool \<Rightarrow> int \<Rightarrow> int \<Rightarrow> time \<Rightarrow> time \<Rightarrow> int \<Rightarrow> int \<Rightarrow> RtoEstimator option \<Rightarrow> time \<Rightarrow> int \<Rightarrow> Session" where
  "Session_init is_initiator session_id isn heartbeat_interval idle_timeout arq_window_size
     arq_max_payload r control_rto max_control_retries =
     \<lparr>se_machine = SessionStateMachine_init is_initiator session_id isn heartbeat_interval
        idle_timeout control_rto max_control_retries,
      se_mux = StreamMux_init session_id is_initiator arq_window_size arq_max_payload
        (Some (rto_factory_from r)),
      se_recv_buffers = []\<rparr>"

definition session_id :: "Session \<Rightarrow> int" where
  "session_id s = sm_session_id (se_machine s)"

definition session_state :: "Session \<Rightarrow> SessionState" where
  "session_state s = sm_state (se_machine s)"

definition session_is_established :: "Session \<Rightarrow> bool" where
  "session_is_established s = is_established (se_machine s)"

definition session_is_closed :: "Session \<Rightarrow> bool" where
  "session_is_closed s = is_closed (se_machine s)"

section \<open>Internal helpers\<close>

text \<open>
  \<open>for pkt in packets: channel.send_frame(pkt.pack())\<close>: either call may raise, and then the
  rest of the packets is not sent.
\<close>

fun send_packets :: "'w world_ops \<Rightarrow> Packet list \<Rightarrow> 'w \<Rightarrow> unit result \<times> 'w" where
  "send_packets ops [] w = (Inr (), w)"
| "send_packets ops (pkt # pkts) w =
     (case pack pkt of
        Inl e \<Rightarrow> (Inl e, w)
      | Inr raw \<Rightarrow>
          (case w_send ops raw w of
             (Inl e, w1) \<Rightarrow> (Inl e, w1)
           | (Inr _, w1) \<Rightarrow> send_packets ops pkts w1))"

definition emit :: "'w world_ops \<Rightarrow> Output \<Rightarrow> 'w \<Rightarrow> SessionEvent list result \<times> 'w" where
  "emit ops out w =
     (case send_packets ops (out_packets out) w of
        (Inl e, w1) \<Rightarrow> (Inl e, w1)
      | (Inr _, w1) \<Rightarrow> (Inr (out_events out), w1))"

definition sync_session_id :: "Session \<Rightarrow> Session" where
  "sync_session_id s = s\<lparr>se_mux := set_session_id (se_mux s) (session_id s)\<rparr>"

text \<open>\<open>buffers.setdefault(stream_id, []).extend(chunks)\<close> for every stream that delivered.\<close>

fun buffer_delivered :: "(int, bytes list) dict \<Rightarrow> (int, bytes list) dict \<Rightarrow> (int, bytes list) dict" where
  "buffer_delivered bufs [] = bufs"
| "buffer_delivered bufs ((sid, chunks) # rest) =
     buffer_delivered
       (if chunks \<noteq> [] then AList.update sid (on_stream sid bufs @ chunks) bufs else bufs) rest"

definition emit_mux :: "'w world_ops \<Rightarrow> MuxOutput \<Rightarrow> Session \<Rightarrow> 'w \<Rightarrow> unit result \<times> Session \<times> 'w" where
  "emit_mux ops out s w =
     (case send_packets ops (mo_packets out) w of
        (Inl e, w1) \<Rightarrow> (Inl e, s, w1)
      | (Inr _, w1) \<Rightarrow>
          (Inr (), s\<lparr>se_recv_buffers := buffer_delivered (se_recv_buffers s) (mo_delivered out)\<rparr>, w1))"

section \<open>Lifecycle and data operations\<close>

definition session_connect :: "'w world_ops \<Rightarrow> Session \<Rightarrow> 'w \<Rightarrow> SessionEvent list result \<times> Session \<times> 'w" where
  "session_connect ops s w =
     (let (now, w1) = w_now ops w;
          (out, sm) = sm_connect (se_machine s) now;
          (r, w2) = emit ops out w1
      in (r, s\<lparr>se_machine := sm\<rparr>, w2))"

definition session_close :: "'w world_ops \<Rightarrow> Session \<Rightarrow> 'w \<Rightarrow> SessionEvent list result \<times> Session \<times> 'w" where
  "session_close ops s w =
     (let (now, w1) = w_now ops w;
          (out, sm) = sm_close (se_machine s) now;
          (r, w2) = emit ops out w1
      in (r, s\<lparr>se_machine := sm\<rparr>, w2))"

definition session_open_stream :: "Session \<Rightarrow> int result \<times> Session" where
  "session_open_stream s = (let (r, m) = open_stream (se_mux s) in (r, s\<lparr>se_mux := m\<rparr>))"

definition send_on :: "'w world_ops \<Rightarrow> int \<Rightarrow> bytes \<Rightarrow> Session \<Rightarrow> 'w \<Rightarrow> unit result \<times> Session \<times> 'w" where
  "send_on ops stream_id data s w =
     (if \<not> session_is_established s then (Inl RuntimeError, s, w)
      else
        (let s1 = sync_session_id s;
             (now, w1) = w_now ops w
         in case mux_send (se_mux s1) stream_id data now of
              (Inl e, m) \<Rightarrow> (Inl e, s1\<lparr>se_mux := m\<rparr>, w1)
            | (Inr out, m) \<Rightarrow> emit_mux ops out (s1\<lparr>se_mux := m\<rparr>) w1))"

definition recv_on :: "int \<Rightarrow> Session \<Rightarrow> bytes list \<times> Session" where
  "recv_on stream_id s =
     (on_stream stream_id (se_recv_buffers s),
      s\<lparr>se_recv_buffers := AList.delete stream_id (se_recv_buffers s)\<rparr>)"

definition recv_all :: "Session \<Rightarrow> (int, bytes list) dict \<times> Session" where
  "recv_all s = (se_recv_buffers s, s\<lparr>se_recv_buffers := []\<rparr>)"

definition session_acked_bytes :: "Session \<Rightarrow> int \<Rightarrow> nat" where
  "session_acked_bytes s stream_id = mux_acked_bytes (se_mux s) stream_id"

definition data_failed_streams :: "Session \<Rightarrow> int list" where
  "data_failed_streams s = failed_stream_ids (se_mux s)"

definition session_send :: "'w world_ops \<Rightarrow> bytes \<Rightarrow> Session \<Rightarrow> 'w \<Rightarrow> unit result \<times> Session \<times> 'w" where
  "session_send ops data s w = send_on ops DEFAULT_STREAM_ID data s w"

definition session_recv :: "Session \<Rightarrow> bytes list \<times> Session" where
  "session_recv s = recv_on DEFAULT_STREAM_ID s"

section \<open>The pump\<close>

definition machine_packet ::
  "'w world_ops \<Rightarrow> Session \<Rightarrow> Packet \<Rightarrow> time \<Rightarrow> 'w \<Rightarrow> SessionEvent list result \<times> Session \<times> 'w" where
  "machine_packet ops s pkt now w =
     (let (out, sm) = sm_on_packet (se_machine s) pkt now; (r, w1) = emit ops out w
      in (r, s\<lparr>se_machine := sm\<rparr>, w1))"

definition route_packet ::
  "'w world_ops \<Rightarrow> Session \<Rightarrow> Packet \<Rightarrow> 'w \<Rightarrow> SessionEvent list result \<times> Session \<times> 'w" where
  "route_packet ops s pkt w =
     (let (now, w1) = w_now ops w in
      if p_stream_id pkt = CONTROL_STREAM_ID then
        (if ptype pkt \<in> CONTROL_TYPES then machine_packet ops s pkt now w1
         else if ptype pkt = ACK \<and> session_state s = SYN_RCVD then machine_packet ops s pkt now w1
         else (Inr [], s, w1))
      else
        (let s1 = s\<lparr>se_machine := note_data_activity (se_machine s) now\<rparr>
         in case mux_on_packet (se_mux s1) pkt now of
              (Inl e, m) \<Rightarrow> (Inl e, s1\<lparr>se_mux := m\<rparr>, w1)
            | (Inr out, m) \<Rightarrow>
                (case emit_mux ops out (s1\<lparr>se_mux := m\<rparr>) w1 of
                   (Inl e, s2, w2) \<Rightarrow> (Inl e, s2, w2)
                 | (Inr _, s2, w2) \<Rightarrow> (Inr [], s2, w2))))"

text \<open>
  The drain loop. It ends when the channel has no frame, when \<open>max_frames\<close> is reached, or by
  an exception; a channel that always has a frame keeps it going, which is the value \<open>None\<close>.
\<close>

partial_function (option) drain_frames ::
  "'w world_ops \<Rightarrow> int option \<Rightarrow> int \<Rightarrow> Session \<Rightarrow> 'w \<Rightarrow> (SessionEvent list result \<times> Session \<times> 'w) option" where
  "drain_frames ops max_frames processed s w =
     (if (case max_frames of None \<Rightarrow> False | Some m \<Rightarrow> \<not> processed < m) then Some (Inr [], s, w)
      else
        (case w_recv ops DRAIN_TIMEOUT w of
           (Inl e, w1) \<Rightarrow> Some (Inl e, s, w1)
         | (Inr None, w1) \<Rightarrow> Some (Inr [], s, w1)
         | (Inr (Some frame), w1) \<Rightarrow>
             (case unpack frame of
                Inl e \<Rightarrow>
                  (if is_packet_error e then drain_frames ops max_frames (processed + 1) s w1
                   else Some (Inl e, s, w1))
              | Inr pkt \<Rightarrow>
                  (case route_packet ops s pkt w1 of
                     (Inl e, s1, w2) \<Rightarrow> Some (Inl e, s1, w2)
                   | (Inr evs, s1, w2) \<Rightarrow>
                       Option.bind (drain_frames ops max_frames (processed + 1) s1 w2)
                         (\<lambda>(r, s2, w3). Some (map_sum id ((@) evs) r, s2, w3))))))"

text \<open>The timers of both engines, run once after the drain; the clock is read for each.\<close>

definition run_timers :: "'w world_ops \<Rightarrow> Session \<Rightarrow> 'w \<Rightarrow> SessionEvent list result \<times> Session \<times> 'w" where
  "run_timers ops s w =
     (let (now, w1) = w_now ops w;
          (out, sm) = sm_on_tick (se_machine s) now;
          s1 = s\<lparr>se_machine := sm\<rparr>
      in case emit ops out w1 of
           (Inl e, w2) \<Rightarrow> (Inl e, s1, w2)
         | (Inr evs, w2) \<Rightarrow>
             (let (now2, w3) = w_now ops w2;
                  (mout, m) = mux_on_tick (se_mux s1) now2
              in case emit_mux ops mout (s1\<lparr>se_mux := m\<rparr>) w3 of
                   (Inl e, s2, w4) \<Rightarrow> (Inl e, s2, w4)
                 | (Inr _, s2, w4) \<Rightarrow> (Inr evs, s2, w4)))"

definition pump ::
  "'w world_ops \<Rightarrow> int option \<Rightarrow> Session \<Rightarrow> 'w \<Rightarrow> (SessionEvent list result \<times> Session \<times> 'w) option" where
  "pump ops max_frames s w =
     Option.bind (drain_frames ops max_frames 0 (sync_session_id s) w)
       (\<lambda>(r, s1, w1).
          case r of
            Inl e \<Rightarrow> Some (Inl e, s1, w1)
          | Inr evs \<Rightarrow>
              (let (r2, s2, w2) = run_timers ops s1 w1 in Some (map_sum id ((@) evs) r2, s2, w2)))"

text \<open>\<open>run_until\<close>: the \<open>for\<close> loop over \<open>max_iters\<close> pumps.\<close>

fun run_until ::
  "'w world_ops \<Rightarrow> (Session \<Rightarrow> bool) \<Rightarrow> nat \<Rightarrow> Session \<Rightarrow> 'w \<Rightarrow> (SessionEvent list result \<times> Session \<times> 'w) option" where
  "run_until ops predicate 0 s w = Some (Inr [], s, w)"
| "run_until ops predicate (Suc n) s w =
     (if predicate s then Some (Inr [], s, w)
      else
        Option.bind (pump ops None s w)
          (\<lambda>(r, s1, w1).
             case r of
               Inl e \<Rightarrow> Some (Inl e, s1, w1)
             | Inr evs \<Rightarrow>
                 Option.bind (run_until ops predicate n s1 w1)
                   (\<lambda>(r2, s2, w2). Some (map_sum id ((@) evs) r2, s2, w2))))"

section \<open>Induction over a drain that ends\<close>

text \<open>The cases of one round: what holds of every way to end and is kept by a frame holds of the drain.\<close>

definition limit_reached :: "int option \<Rightarrow> int \<Rightarrow> bool" where
  "limit_reached mf k \<longleftrightarrow> (case mf of None \<Rightarrow> False | Some m \<Rightarrow> \<not> k < m)"

lemma drain_frames_steps [consumes 1, case_names limit raised empty damaged bad refused routed]:
  assumes "drain_frames ops mf k s w = Some y"
    and "\<And>k s w. limit_reached mf k \<Longrightarrow> P k s w (Inr [], s, w)"
    and "\<And>k s w e w1. \<not> limit_reached mf k \<Longrightarrow> w_recv ops DRAIN_TIMEOUT w = (Inl e, w1) \<Longrightarrow> P k s w (Inl e, s, w1)"
    and "\<And>k s w w1. \<not> limit_reached mf k \<Longrightarrow> w_recv ops DRAIN_TIMEOUT w = (Inr None, w1) \<Longrightarrow> P k s w (Inr [], s, w1)"
    and "\<And>k s w f w1 e y. \<not> limit_reached mf k \<Longrightarrow> w_recv ops DRAIN_TIMEOUT w = (Inr (Some f), w1) \<Longrightarrow>
      unpack f = Inl e \<Longrightarrow> is_packet_error e \<Longrightarrow> P (k + 1) s w1 y \<Longrightarrow> P k s w y"
    and "\<And>k s w f w1 e. \<not> limit_reached mf k \<Longrightarrow> w_recv ops DRAIN_TIMEOUT w = (Inr (Some f), w1) \<Longrightarrow>
      unpack f = Inl e \<Longrightarrow> \<not> is_packet_error e \<Longrightarrow> P k s w (Inl e, s, w1)"
    and "\<And>k s w f w1 pkt e s1 w2. \<not> limit_reached mf k \<Longrightarrow> w_recv ops DRAIN_TIMEOUT w = (Inr (Some f), w1) \<Longrightarrow>
      unpack f = Inr pkt \<Longrightarrow> route_packet ops s pkt w1 = (Inl e, s1, w2) \<Longrightarrow> P k s w (Inl e, s1, w2)"
    and "\<And>k s w f w1 pkt evs s1 w2 r s2 w3. \<not> limit_reached mf k \<Longrightarrow> w_recv ops DRAIN_TIMEOUT w = (Inr (Some f), w1) \<Longrightarrow>
      unpack f = Inr pkt \<Longrightarrow> route_packet ops s pkt w1 = (Inr evs, s1, w2) \<Longrightarrow> P (k + 1) s1 w2 (r, s2, w3) \<Longrightarrow>
      P k s w (map_sum id ((@) evs) r, s2, w3)"
  shows "P k s w y"
proof -
  have "ops' = ops \<longrightarrow> mf' = mf \<longrightarrow> P k s w y" if "drain_frames ops' mf' k s w = Some y" for ops' mf' k s w y
  proof (rule drain_frames.raw_induct [where P = "\<lambda>ops' mf' k s w y. ops' = ops \<longrightarrow> mf' = mf \<longrightarrow> P k s w y", OF _ that], goal_cases)
    case (1 D ops' mf' k s w y)
    note ih = 1(1)
    show ?case
    proof (intro impI)
      assume o: "ops' = ops" "mf' = mf"
      obtain r w1 where rw: "w_recv ops DRAIN_TIMEOUT w = (r, w1)" by fastforce
      show "P k s w y"
      proof (cases "limit_reached mf k")
        case True
        with 1(2) o have "y = (Inr [], s, w)" by (simp add: limit_reached_def)
        with assms(2) [OF True] show ?thesis by simp
      next
        case False
        have rec: "(case r of
             Inl e \<Rightarrow> Some (Inl e, s, w1)
           | Inr None \<Rightarrow> Some (Inr [], s, w1)
           | Inr (Some frame) \<Rightarrow>
             (case unpack frame of
                Inl e \<Rightarrow> (if is_packet_error e then D ops mf (k + 1) s w1 else Some (Inl e, s, w1))
              | Inr pkt \<Rightarrow>
                  (case route_packet ops s pkt w1 of
                     (Inl e, s1, w2) \<Rightarrow> Some (Inl e, s1, w2)
                   | (Inr evs, s1, w2) \<Rightarrow>
                       Option.bind (D ops mf (k + 1) s1 w2)
                         (\<lambda>(r, s2, w3). Some (map_sum id ((@) evs) r, s2, w3))))) = Some y"
          using 1(2) False rw unfolding o by (simp add: limit_reached_def)
        show ?thesis
        proof (cases "\<exists>f pkt. r = Inr (Some f) \<and> unpack f = Inr pkt")
          case True
          then obtain f pkt where f: "r = Inr (Some f)" "unpack f = Inr pkt" by blast
          obtain q s1 w2 where q: "route_packet ops s pkt w1 = (q, s1, w2)" by (metis prod_cases3)
          show ?thesis
          proof (cases q)
            case (Inl e)
            with rec rw f q assms(7) [OF False] show ?thesis by auto
          next
            case (Inr evs)
            with rec f q obtain r2 s2 w3 where d: "D ops mf (k + 1) s1 w2 = Some (r2, s2, w3)"
              and y: "y = (map_sum id ((@) evs) r2, s2, w3)"
              by (auto simp: bind_eq_Some_conv)
            from ih [OF d] have "P (k + 1) s1 w2 (r2, s2, w3)" by simp
            from assms(8) [OF False _ f(2) _ this] rw f(1) q Inr y show ?thesis by simp
          qed
        next
          case no: False
          with rec rw show ?thesis
            by (auto split: sum.splits option.splits if_splits dest!: ih intro: assms(3-6) [OF False])
        qed
      qed
    qed
  qed
  with assms(1) show ?thesis by blast
qed

text \<open>Without the count, when the end by the limit needs no care.\<close>

lemma drain_frames_rule [consumes 1, case_names limit raised empty damaged bad refused routed]:
  assumes "drain_frames ops mf k s w = Some y"
    and "\<And>s w. P s w (Inr [], s, w)"
    and "\<And>s w e w1. w_recv ops DRAIN_TIMEOUT w = (Inl e, w1) \<Longrightarrow> P s w (Inl e, s, w1)"
    and "\<And>s w w1. w_recv ops DRAIN_TIMEOUT w = (Inr None, w1) \<Longrightarrow> P s w (Inr [], s, w1)"
    and "\<And>s w f w1 e y. w_recv ops DRAIN_TIMEOUT w = (Inr (Some f), w1) \<Longrightarrow> unpack f = Inl e \<Longrightarrow> P s w1 y \<Longrightarrow> P s w y"
    and "\<And>s w f w1 e. w_recv ops DRAIN_TIMEOUT w = (Inr (Some f), w1) \<Longrightarrow> unpack f = Inl e \<Longrightarrow> P s w (Inl e, s, w1)"
    and "\<And>s w f w1 pkt e s1 w2. w_recv ops DRAIN_TIMEOUT w = (Inr (Some f), w1) \<Longrightarrow> unpack f = Inr pkt \<Longrightarrow>
      route_packet ops s pkt w1 = (Inl e, s1, w2) \<Longrightarrow> P s w (Inl e, s1, w2)"
    and "\<And>s w f w1 pkt evs s1 w2 r s2 w3. w_recv ops DRAIN_TIMEOUT w = (Inr (Some f), w1) \<Longrightarrow> unpack f = Inr pkt \<Longrightarrow>
      route_packet ops s pkt w1 = (Inr evs, s1, w2) \<Longrightarrow> P s1 w2 (r, s2, w3) \<Longrightarrow>
      P s w (map_sum id ((@) evs) r, s2, w3)"
  shows "P s w y"
proof (rule drain_frames_steps [OF assms(1), where P = "\<lambda>_. P"], goal_cases)
  case 1
  show ?case by (rule assms(2))
next
  case 2
  from 2(2) show ?case by (rule assms(3))
next
  case 3
  from 3(2) show ?case by (rule assms(4))
next
  case 4
  from 4(2,3,5) show ?case by (rule assms(5))
next
  case 5
  from 5(2,3) show ?case by (rule assms(6))
next
  case 6
  from 6(2-4) show ?case by (rule assms(7))
next
  case 7
  from 7(2-5) show ?case by (rule assms(8))
qed

section \<open>Worlds with a finite backlog\<close>

lemma bind_triple_None: "Option.bind x (\<lambda>(a, b, c). Some (f a b c)) = None \<longleftrightarrow> x = None"
  by (cases x) auto

text \<open>
  What makes \<open>pump\<close> return: every frame taken from the channel shrinks a backlog that sending
  and reading the clock do not grow.
\<close>

locale finite_world =
  fixes ops :: "'w world_ops" and backlog :: "'w \<Rightarrow> nat"
  assumes recv_backlog: "fst (w_recv ops t w) = Inr (Some f) \<Longrightarrow> backlog (snd (w_recv ops t w)) < backlog w"
    and send_backlog: "backlog (snd (w_send ops f w)) \<le> backlog w"
    and now_backlog: "backlog (snd (w_now ops w)) \<le> backlog w"
begin

lemma send_packets_backlog: "backlog (snd (send_packets ops pkts w)) \<le> backlog w"
proof (induction pkts arbitrary: w)
  case (Cons p pkts)
  show ?case
  proof (cases "pack p")
    case (Inr raw)
    obtain r w1 where w1: "w_send ops raw w = (r, w1)" by fastforce
    with send_backlog [of raw w] Cons [of w1] Inr show ?thesis by (auto split: sum.split)
  qed simp
qed simp

lemma emit_backlog: "backlog (snd (emit ops out w)) \<le> backlog w"
  using send_packets_backlog [of "out_packets out" w]
  by (auto simp: emit_def split: prod.split sum.split)

lemma emit_mux_backlog: "backlog (snd (snd (emit_mux ops out s w))) \<le> backlog w"
  using send_packets_backlog [of "mo_packets out" w]
  by (auto simp: emit_mux_def split: prod.split sum.split)

lemma machine_packet_backlog: "backlog (snd (snd (machine_packet ops s pkt now w))) \<le> backlog w"
  using emit_backlog [of "fst (sm_on_packet (se_machine s) pkt now)" w]
  by (simp add: machine_packet_def case_prod_beta Let_def)

lemma route_packet_backlog: "backlog (snd (snd (route_packet ops s pkt w))) \<le> backlog w"
proof -
  obtain now w1 where n: "w_now ops w = (now, w1)" by fastforce
  then have le: "backlog w1 \<le> backlog w" using now_backlog [of w] by simp
  let ?s1 = "s\<lparr>se_machine := note_data_activity (se_machine s) now\<rparr>"
  obtain r m where m: "mux_on_packet (se_mux ?s1) pkt now = (r, m)" by fastforce
  have "backlog (snd (snd (emit_mux ops out (?s1\<lparr>se_mux := m\<rparr>) w1))) \<le> backlog w" for out
    using emit_mux_backlog [of out "?s1\<lparr>se_mux := m\<rparr>" w1] le by simp
  then show ?thesis
    using n m le machine_packet_backlog [of s pkt now w1]
    by (auto simp: route_packet_def Let_def split: sum.split prod.split)
      (metis snd_conv)+
qed

lemma drain_terminates: "drain_frames ops max_frames k s w \<noteq> None"
proof (induction "backlog w" arbitrary: w s k rule: less_induct)
  case less
  obtain r w1 where w1: "w_recv ops DRAIN_TIMEOUT w = (r, w1)" by fastforce
  show ?case
  proof (cases "(case max_frames of None \<Rightarrow> False | Some m \<Rightarrow> \<not> k < m) \<or> (\<forall>f. r \<noteq> Inr (Some f))")
    case True
    with w1 show ?thesis
      by (auto simp: drain_frames.simps [of ops max_frames k s w] split: sum.split option.split)
  next
    case False
    then obtain f where f: "r = Inr (Some f)" by auto
    then have lt: "backlog w1 < backlog w" using recv_backlog [of DRAIN_TIMEOUT w f] w1 by simp
    then have "drain_frames ops max_frames (k + 1) s w1 \<noteq> None" by (rule less)
    moreover have "drain_frames ops max_frames (k + 1) s1 w2 \<noteq> None"
      if "route_packet ops s pkt w1 = (r', s1, w2)" for pkt r' s1 w2
      using less [of w2 "k + 1" s1] lt route_packet_backlog [of s pkt w1] that by simp
    ultimately show ?thesis
      using w1 f
      by (auto simp: drain_frames.simps [of ops max_frames k s w] bind_triple_None simp del: not_None_eq
          split: sum.split prod.split option.split)
  qed
qed

lemma pump_some: "\<exists>r s' w'. pump ops max_frames s w = Some (r, s', w')"
proof -
  obtain r s1 w1 where d: "drain_frames ops max_frames 0 (sync_session_id s) w = Some (r, s1, w1)"
    using drain_terminates [of max_frames 0 "sync_session_id s" w] by (cases "drain_frames ops max_frames 0 (sync_session_id s) w") auto
  then show ?thesis by (cases r) (auto simp: pump_def split: prod.split)
qed

lemma run_until_some: "\<exists>r s' w'. run_until ops predicate n s w = Some (r, s', w')"
proof (induction n arbitrary: s w)
  case (Suc n)
  obtain r s1 w1 where p: "pump ops None s w = Some (r, s1, w1)" using pump_some by blast
  obtain r2 s2 w2 where "run_until ops predicate n s1 w1 = Some (r2, s2, w2)" using Suc by blast
  with p show ?case by (cases r) auto
qed simp

end

end
