(* ===== verification/Channel.thy ===== *)
theory Channel
  imports Packet
begin

text \<open>
  \<open>photontcp/channel/base.py\<close>: the interface of a frame transport as a locale. A channel
  moves whole frames from a sending to a receiving end and may lose, repeat, delay or damage
  them; what it never does is invent one. The client's lemma is that packets survive this:
  with damage limited to one byte per frame, every packet accepted at the far end was sent.
\<close>

section \<open>Operations on one direction of a channel\<close>

datatype chan_op = ChSend bytes | ChRecv

text \<open>The frames received in a sequence of sends and polls, in order, and the final state.\<close>

fun chan_run ::
  "('c \<Rightarrow> bytes \<Rightarrow> 'c) \<Rightarrow> ('c \<Rightarrow> bytes option \<times> 'c) \<Rightarrow> 'c \<Rightarrow> chan_op list \<Rightarrow> bytes list \<times> 'c" where
  "chan_run send recv c [] = ([], c)"
| "chan_run send recv c (ChSend f # ops) = chan_run send recv (send c f) ops"
| "chan_run send recv c (ChRecv # ops) =
     (let (r, c1) = recv c; (fs, c2) = chan_run send recv c1 ops
      in ((case r of None \<Rightarrow> fs | Some f \<Rightarrow> f # fs), c2))"

fun sent_frames :: "chan_op list \<Rightarrow> bytes list" where
  "sent_frames [] = []"
| "sent_frames (ChSend f # ops) = f # sent_frames ops"
| "sent_frames (ChRecv # ops) = sent_frames ops"

text \<open>A frame that arrives as it was sent, or with one byte changed.\<close>

definition one_byte_off :: "bytes \<Rightarrow> bytes \<Rightarrow> bool" where
  "one_byte_off f g \<longleftrightarrow> g = f \<or> (\<exists>i<length f. \<exists>b. g = f[i := b])"

section \<open>The interface\<close>

text \<open>
  \<open>in_flight c\<close> are the frames that may still come out of \<open>c\<close>; \<open>arrives f g\<close> says that a
  frame sent as \<open>f\<close> may come out as \<open>g\<close>.
\<close>

locale frame_channel =
  fixes send :: "'c \<Rightarrow> bytes \<Rightarrow> 'c"
    and recv :: "'c \<Rightarrow> bytes option \<times> 'c"
    and in_flight :: "'c \<Rightarrow> bytes list"
    and arrives :: "bytes \<Rightarrow> bytes \<Rightarrow> bool"
  assumes send_flight: "g \<in> set (in_flight (send c f)) \<Longrightarrow> g \<in> set (in_flight c) \<or> arrives f g"
    and recv_flight: "set (in_flight (snd (recv c))) \<subseteq> set (in_flight c)"
    and recv_some: "fst (recv c) = Some g \<Longrightarrow> g \<in> set (in_flight c)"
begin

text \<open>No frame out of nowhere.\<close>

lemma received_was_sent:
  "g \<in> set (fst (chan_run send recv c ops)) \<Longrightarrow>
   g \<in> set (in_flight c) \<or> (\<exists>f \<in> set (sent_frames ops). arrives f g)"
proof (induction ops arbitrary: c)
  case (Cons x ops)
  show ?case
  proof (cases x)
    case (ChSend f)
    with Cons send_flight [of g c f] show ?thesis by auto
  next
    case ChRecv
    with Cons.prems have "fst (recv c) = Some g \<or> g \<in> set (fst (chan_run send recv (snd (recv c)) ops))"
      by (auto simp: case_prod_beta Let_def split: option.splits)
    then show ?thesis
    proof
      assume "fst (recv c) = Some g"
      then show ?thesis using recv_some by blast
    next
      assume "g \<in> set (fst (chan_run send recv (snd (recv c)) ops))"
      from Cons.IH [OF this] recv_flight [of c] ChRecv show ?thesis by auto
    qed
  qed
qed simp

end

text \<open>A channel whose damage is at most one byte per frame carries packets faithfully.\<close>

lemma one_byte_packet:
  assumes "pack p = Inr f" and "one_byte_off f g" and "unpack g = Inr q"
  shows "q = p"
proof (cases "g = f")
  case True
  with assms show ?thesis using unpack_pack by fastforce
next
  case False
  with assms(2) obtain i b where g: "i < length f" "g = f[i := b]" by (auto simp: one_byte_off_def)
  with False have "b \<noteq> f ! i" by auto
  from unpack_one_byte [OF unpack_pack [OF assms(1)] g(1) this] assms(3) g(2) show ?thesis by simp
qed

locale packet_channel = frame_channel send recv in_flight one_byte_off
  for send :: "'c \<Rightarrow> bytes \<Rightarrow> 'c" and recv :: "'c \<Rightarrow> bytes option \<times> 'c" and in_flight :: "'c \<Rightarrow> bytes list"
begin

lemma accepted_was_sent:
  assumes "in_flight c = []" and "g \<in> set (fst (chan_run send recv c ops))" and "unpack g = Inr q"
    and "\<forall>f \<in> set (sent_frames ops). \<exists>p. pack p = Inr f"
  shows "\<exists>f \<in> set (sent_frames ops). pack q = Inr f"
proof -
  from received_was_sent [OF assms(2)] assms(1) obtain f where f: "f \<in> set (sent_frames ops)" "one_byte_off f g"
    by auto
  with assms(4) obtain p where "pack p = Inr f" by blast
  with one_byte_packet [OF this f(2) assms(3)] f(1) show ?thesis by blast
qed

end

end
