(* ===== verification/Loopback.thy ===== *)
theory Loopback
  imports Channel
begin

text \<open>
  \<open>photontcp/channel/loopback.py\<close>: two ends joined by two queues, with simulated noise. The
  random generator is a state of any type with the three draws the code makes as functions;
  nothing is assumed about the values drawn. Threads and the lock that guards the generator
  are not modelled: a call is one step.
\<close>

section \<open>State\<close>

record 'r rng_ops =
  rng_random :: "'r \<Rightarrow> real \<times> 'r"
  rng_randrange :: "nat \<Rightarrow> 'r \<Rightarrow> nat \<times> 'r"
  rng_randint :: "int \<Rightarrow> int \<Rightarrow> 'r \<Rightarrow> int \<times> 'r"

record LoopbackChannel =
  lb_loss :: real
  lb_dup :: real
  lb_corrupt :: real
  lb_reorder :: real
  lb_latency :: real
  lb_jitter :: real
  lb_reorder_held :: "bytes option"
  lb_closed :: bool

definition LoopbackChannel_init :: "real \<Rightarrow> real \<Rightarrow> real \<Rightarrow> real \<Rightarrow> real \<Rightarrow> real \<Rightarrow> LoopbackChannel" where
  "LoopbackChannel_init loss dup corrupt reorder latency jitter =
     \<lparr>lb_loss = loss, lb_dup = dup, lb_corrupt = corrupt, lb_reorder = reorder,
      lb_latency = latency, lb_jitter = jitter, lb_reorder_held = None, lb_closed = False\<rparr>"

text \<open>A pair shares the generator; each end's outbox is the other end's inbox.\<close>

record 'r loopback_pair =
  lp_rng :: 'r
  lp_q_ab :: "bytes list"
  lp_q_ba :: "bytes list"
  lp_a :: LoopbackChannel
  lp_b :: LoopbackChannel

definition loopback_pair_init ::
  "'r \<Rightarrow> real \<Rightarrow> real \<Rightarrow> real \<Rightarrow> real \<Rightarrow> real \<Rightarrow> real \<Rightarrow> 'r loopback_pair" where
  "loopback_pair_init rng loss dup corrupt reorder latency jitter =
     (let e = LoopbackChannel_init loss dup corrupt reorder latency jitter
      in \<lparr>lp_rng = rng, lp_q_ab = [], lp_q_ba = [], lp_a = e, lp_b = e\<rparr>)"

section \<open>Sending\<close>

definition corrupt_frame :: "'r rng_ops \<Rightarrow> bytes \<Rightarrow> 'r \<Rightarrow> bytes \<times> 'r" where
  "corrupt_frame ops frame r =
     (if frame = [] then (frame, r)
      else
        (let (idx, r1) = rng_randrange ops (length frame) r;
             (mask, r2) = rng_randint ops 1 255 r1
         in (frame[idx := xor (frame ! idx) (of_int mask)], r2)))"

text \<open>Loss, corruption and duplication: the copies that survive.\<close>

definition survivors :: "'r rng_ops \<Rightarrow> LoopbackChannel \<Rightarrow> bytes \<Rightarrow> 'r \<Rightarrow> bytes list \<times> 'r" where
  "survivors ops ch frame r =
     (let (x, r1) = rng_random ops r in
      if x < lb_loss ch then ([], r1)
      else
        (let (y, r2) = rng_random ops r1;
             (f, r3) = (if y < lb_corrupt ch then corrupt_frame ops frame r2 else (frame, r2));
             (z, r4) = rng_random ops r3
         in (if z < lb_dup ch then [f, f] else [f], r4)))"

text \<open>The loop over the survivors with the one-slot hold buffer.\<close>

fun hold_loop ::
  "'r rng_ops \<Rightarrow> LoopbackChannel \<Rightarrow> bytes option \<Rightarrow> bytes list \<Rightarrow> 'r \<Rightarrow> bytes list \<times> bytes option \<times> 'r" where
  "hold_loop ops ch held [] r = ([], held, r)"
| "hold_loop ops ch held (f # fs) r =
     (let (x, r1) = rng_random ops r;
          released = opt_list held
      in if x < lb_reorder ch then
           (let (emit, held1, r2) = hold_loop ops ch (Some f) fs r1 in (released @ emit, held1, r2))
         else
           (let (emit, held1, r2) = hold_loop ops ch None fs r1 in (released @ f # emit, held1, r2)))"

text \<open>What a send puts in the outbox, with the new state of the end and of the generator.\<close>

definition loopback_send ::
  "'r rng_ops \<Rightarrow> LoopbackChannel \<Rightarrow> bytes \<Rightarrow> 'r \<Rightarrow> bytes list \<times> LoopbackChannel \<times> 'r" where
  "loopback_send ops ch frame r =
     (if lb_closed ch then ([], ch, r)
      else
        (let (fs, r1) = survivors ops ch frame r;
             (emit, held, r2) = hold_loop ops ch (lb_reorder_held ch) fs r1
         in (emit, ch\<lparr>lb_reorder_held := held\<rparr>, r2)))"

text \<open>
  A poll: \<open>recv_frame\<close> with a timeout, which returns \<open>None\<close> when the inbox stays empty. (No
  other thread runs meanwhile; without a timeout the call would block on an empty inbox.)
\<close>

definition loopback_recv :: "LoopbackChannel \<Rightarrow> bytes list \<Rightarrow> bytes option \<times> bytes list" where
  "loopback_recv ch inbox =
     (if lb_closed ch then (None, inbox)
      else case inbox of [] \<Rightarrow> (None, []) | f # rest \<Rightarrow> (Some f, rest))"

definition loopback_close :: "LoopbackChannel \<Rightarrow> LoopbackChannel" where
  "loopback_close ch = ch\<lparr>lb_closed := True, lb_reorder_held := None\<rparr>"

section \<open>The two directions of a pair\<close>

definition send_ab :: "'r rng_ops \<Rightarrow> 'r loopback_pair \<Rightarrow> bytes \<Rightarrow> 'r loopback_pair" where
  "send_ab ops w frame =
     (let (emit, ch, r) = loopback_send ops (lp_a w) frame (lp_rng w)
      in w\<lparr>lp_q_ab := lp_q_ab w @ emit, lp_a := ch, lp_rng := r\<rparr>)"

definition recv_b :: "'r loopback_pair \<Rightarrow> bytes option \<times> 'r loopback_pair" where
  "recv_b w = (let (f, q) = loopback_recv (lp_b w) (lp_q_ab w) in (f, w\<lparr>lp_q_ab := q\<rparr>))"

definition send_ba :: "'r rng_ops \<Rightarrow> 'r loopback_pair \<Rightarrow> bytes \<Rightarrow> 'r loopback_pair" where
  "send_ba ops w frame =
     (let (emit, ch, r) = loopback_send ops (lp_b w) frame (lp_rng w)
      in w\<lparr>lp_q_ba := lp_q_ba w @ emit, lp_b := ch, lp_rng := r\<rparr>)"

definition recv_a :: "'r loopback_pair \<Rightarrow> bytes option \<times> 'r loopback_pair" where
  "recv_a w = (let (f, q) = loopback_recv (lp_a w) (lp_q_ba w) in (f, w\<lparr>lp_q_ba := q\<rparr>))"

section \<open>What a send can produce\<close>

definition held_list :: "LoopbackChannel \<Rightarrow> bytes list" where
  "held_list ch = opt_list (lb_reorder_held ch)"

lemma corrupt_frame_off: "one_byte_off frame (fst (corrupt_frame ops frame r))"
proof (cases "frame = []")
  case True
  then show ?thesis by (simp add: corrupt_frame_def one_byte_off_def)
next
  case False
  obtain idx r1 where i: "rng_randrange ops (length frame) r = (idx, r1)" by fastforce
  obtain mask r2 where m: "rng_randint ops 1 255 r1 = (mask, r2)" by fastforce
  from False i m show ?thesis
    by (cases "idx < length frame") (auto simp: corrupt_frame_def one_byte_off_def list_update_beyond)
qed

lemma survivors_shape:
  "\<exists>f n. fst (survivors ops ch frame r) = replicate n f \<and> n \<le> 2 \<and> one_byte_off frame f"
proof -
  obtain x r1 where x: "rng_random ops r = (x, r1)" by fastforce
  obtain y r2 where y: "rng_random ops r1 = (y, r2)" by fastforce
  obtain f r3 where f: "(if y < lb_corrupt ch then corrupt_frame ops frame r2 else (frame, r2)) = (f, r3)"
    by fastforce
  obtain z r4 where z: "rng_random ops r3 = (z, r4)" by fastforce
  have off: "one_byte_off frame f"
    using f corrupt_frame_off [of frame ops r2] by (auto simp: one_byte_off_def split: if_splits)
  have "fst (survivors ops ch frame r) = (if x < lb_loss ch then [] else if z < lb_dup ch then [f, f] else [f])"
    unfolding survivors_def Let_def x y f z prod.case by (simp add: f z)
  with off show ?thesis
    by (intro exI [of _ f] exI [of _ "if x < lb_loss ch then 0 else if z < lb_dup ch then 2 else 1"])
      (auto simp: numeral_2_eq_2)
qed

text \<open>The hold buffer delays but keeps the order: the held frame always leaves first.\<close>

lemma hold_loop_order:
  "fst (hold_loop ops ch held fs r) @ opt_list (fst (snd (hold_loop ops ch held fs r))) = opt_list held @ fs"
  by (induction fs arbitrary: held r) (simp_all add: case_prod_beta Let_def)

lemma loopback_send_order:
  assumes "\<not> lb_closed ch"
  obtains f n where "fst (loopback_send ops ch frame r) @ held_list (fst (snd (loopback_send ops ch frame r)))
      = held_list ch @ replicate n f"
    and "n \<le> 2" and "one_byte_off frame f"
proof -
  obtain f n where s: "fst (survivors ops ch frame r) = replicate n f" "n \<le> 2" "one_byte_off frame f"
    using survivors_shape [of ops ch frame r] by blast
  have "fst (loopback_send ops ch frame r) @ held_list (fst (snd (loopback_send ops ch frame r)))
      = held_list ch @ replicate n f"
    using assms s(1) hold_loop_order [of ops ch "lb_reorder_held ch" "replicate n f" "snd (survivors ops ch frame r)"]
    by (simp add: loopback_send_def held_list_def case_prod_beta Let_def)
  with s(2,3) that show ?thesis by blast
qed

definition flight_ab :: "'r loopback_pair \<Rightarrow> bytes list" where
  "flight_ab w = lp_q_ab w @ held_list (lp_a w)"

definition flight_ba :: "'r loopback_pair \<Rightarrow> bytes list" where
  "flight_ba w = lp_q_ba w @ held_list (lp_b w)"

lemma send_set:
  "set (fst (loopback_send ops ch frame r)) \<union> set (held_list (fst (snd (loopback_send ops ch frame r))))
   \<subseteq> set (held_list ch) \<union> Collect (one_byte_off frame)"
proof (cases "lb_closed ch")
  case True
  then show ?thesis by (simp add: loopback_send_def)
next
  case False
  then obtain f n where "fst (loopback_send ops ch frame r) @ held_list (fst (snd (loopback_send ops ch frame r)))
      = held_list ch @ replicate n f" "one_byte_off frame f"
    by (rule loopback_send_order)
  then have "set (fst (loopback_send ops ch frame r)) \<union> set (held_list (fst (snd (loopback_send ops ch frame r))))
      = set (held_list ch) \<union> set (replicate n f)"
    by (metis set_append)
  with \<open>one_byte_off frame f\<close> show ?thesis by auto
qed

lemma recv_set:
  "set (snd (loopback_recv ch q)) \<subseteq> set q \<and> (\<forall>f. fst (loopback_recv ch q) = Some f \<longrightarrow> f \<in> set q)"
  by (auto simp: loopback_recv_def split: list.splits)

interpretation loop_ab: packet_channel "send_ab ops" recv_b flight_ab
  for ops :: "'r rng_ops"
proof (unfold_locales, goal_cases)
  case (1 g c f)
  then show ?case
    using send_set [of ops "lp_a c" f "lp_rng c"]
    by (auto simp: send_ab_def flight_ab_def case_prod_beta Let_def)
next
  case (2 c)
  show ?case using recv_set [of "lp_b c" "lp_q_ab c"]
    by (auto simp: recv_b_def flight_ab_def case_prod_beta Let_def)
next
  case (3 c g)
  then show ?case using recv_set [of "lp_b c" "lp_q_ab c"]
    by (auto simp: recv_b_def flight_ab_def case_prod_beta Let_def)
qed

interpretation loop_ba: packet_channel "send_ba ops" recv_a flight_ba
  for ops :: "'r rng_ops"
proof (unfold_locales, goal_cases)
  case (1 g c f)
  then show ?case
    using send_set [of ops "lp_b c" f "lp_rng c"]
    by (auto simp: send_ba_def flight_ba_def case_prod_beta Let_def)
next
  case (2 c)
  show ?case using recv_set [of "lp_a c" "lp_q_ba c"]
    by (auto simp: recv_a_def flight_ba_def case_prod_beta Let_def)
next
  case (3 c g)
  then show ?case using recv_set [of "lp_a c" "lp_q_ba c"]
    by (auto simp: recv_a_def flight_ba_def case_prod_beta Let_def)
qed

section \<open>Order\<close>

text \<open>The copies a run produces, one list per frame sent, in the order of the sends.\<close>

definition copies_of :: "bytes \<Rightarrow> bytes list \<Rightarrow> bool" where
  "copies_of f cs \<longleftrightarrow> (\<exists>g n. cs = replicate n g \<and> n \<le> 2 \<and> one_byte_off f g)"

lemma send_ab_flight:
  assumes "\<not> lb_closed (lp_a w)"
  shows "\<exists>cs. copies_of f cs \<and> flight_ab (send_ab ops w f) = flight_ab w @ cs"
proof -
  obtain g n where o: "fst (loopback_send ops (lp_a w) f (lp_rng w)) @
      held_list (fst (snd (loopback_send ops (lp_a w) f (lp_rng w)))) = held_list (lp_a w) @ replicate n g"
    and c: "n \<le> 2" "one_byte_off f g"
    by (rule loopback_send_order [OF assms, of ops f "lp_rng w"])
  have "flight_ab (send_ab ops w f) = flight_ab w @ replicate n g"
    using o by (simp add: send_ab_def flight_ab_def case_prod_beta Let_def)
  with c show ?thesis by (auto simp: copies_of_def)
qed

lemma send_ab_open:
  "lb_closed (lp_a (send_ab ops w f)) = lb_closed (lp_a w)" "lp_b (send_ab ops w f) = lp_b w"
  by (simp_all add: send_ab_def loopback_send_def case_prod_beta Let_def)

lemma recv_b_flight:
  "flight_ab w = opt_list (fst (recv_b w)) @ flight_ab (snd (recv_b w))"
  "lp_a (snd (recv_b w)) = lp_a w" "lp_b (snd (recv_b w)) = lp_b w"
  by (auto simp: recv_b_def flight_ab_def loopback_recv_def case_prod_beta Let_def split: list.split)

lemma run_ab_order:
  assumes "\<not> lb_closed (lp_a w)"
  shows "\<exists>css. list_all2 copies_of (sent_frames acts) css \<and>
    fst (chan_run (send_ab ops) recv_b w acts) @ flight_ab (snd (chan_run (send_ab ops) recv_b w acts))
      = flight_ab w @ concat css"
  using assms
proof (induction acts arbitrary: w)
  case (Cons x acts)
  show ?case
  proof (cases x)
    case (ChSend f)
    obtain cs where cs: "copies_of f cs" "flight_ab (send_ab ops w f) = flight_ab w @ cs"
      using send_ab_flight [OF Cons.prems] by blast
    have "\<not> lb_closed (lp_a (send_ab ops w f))" using Cons.prems by (simp add: send_ab_open)
    from Cons.IH [OF this] obtain css where css: "list_all2 copies_of (sent_frames acts) css"
      "fst (chan_run (send_ab ops) recv_b (send_ab ops w f) acts)
        @ flight_ab (snd (chan_run (send_ab ops) recv_b (send_ab ops w f) acts))
       = flight_ab (send_ab ops w f) @ concat css" by blast
    with cs ChSend show ?thesis by (intro exI [of _ "cs # css"]) simp
  next
    case ChRecv
    have "\<not> lb_closed (lp_a (snd (recv_b w)))" using Cons.prems by (simp add: recv_b_flight)
    from Cons.IH [OF this] obtain css where css: "list_all2 copies_of (sent_frames acts) css"
      "fst (chan_run (send_ab ops) recv_b (snd (recv_b w)) acts)
        @ flight_ab (snd (chan_run (send_ab ops) recv_b (snd (recv_b w)) acts))
       = flight_ab (snd (recv_b w)) @ concat css" by blast
    with ChRecv recv_b_flight(1) [of w] show ?thesis
      by (intro exI [of _ css]) (simp add: case_prod_beta Let_def split: option.split)
  qed
qed (intro exI [of _ "[]"], simp)

section \<open>Properties\<close>

text \<open>
  Over the loopback channel, whatever it loses, repeats or corrupts and whatever the random
  generator draws, a received frame that unpacks carries a packet that was sent: packing it
  gives one of the frames handed to \<open>send_frame\<close>.
\<close>

theorem loopback_packets_authentic:
  assumes "flight_ab w = []" and "\<forall>f \<in> set (sent_frames acts). \<exists>p. pack p = Inr f"
    and "g \<in> set (fst (chan_run (send_ab ops) recv_b w acts))" and "unpack g = Inr q"
  shows "\<exists>f \<in> set (sent_frames acts). pack q = Inr f"
  by (rule loop_ab.accepted_was_sent [OF assms(1,3,4,2)])

definition quiet_rng :: "unit rng_ops" where
  "quiet_rng = \<lparr>rng_random = (\<lambda>r. (1 / 2, r)), rng_randrange = (\<lambda>n r. (0, r)), rng_randint = (\<lambda>lo hi r. (lo, r))\<rparr>"

definition reordering_pair :: "unit loopback_pair" where
  "reordering_pair = loopback_pair_init () 0 0 0 1 0 0"

theorem loopback_packets_authentic_witness:
  "\<exists>f q. pack sample_packet = Inr f \<and>
     f \<in> set (fst (chan_run (send_ab quiet_rng) recv_b reordering_pair [ChSend f, ChSend f, ChRecv])) \<and>
     unpack f = Inr q \<and> pack q = Inr f"
proof -
  obtain f where f: "pack sample_packet = Inr f"
    by (simp add: pack_eq packet_ok_def sample_packet_def fits_def Flags_NONE_def PROTOCOL_VERSION_def)
  let ?acts = "[ChSend f, ChSend f, ChRecv]"
  have e: "flight_ab reordering_pair = []"
    by (simp add: flight_ab_def held_list_def reordering_pair_def loopback_pair_init_def LoopbackChannel_init_def Let_def)
  have s: "\<forall>h \<in> set (sent_frames ?acts). \<exists>p. pack p = Inr h" using f by auto
  have m: "f \<in> set (fst (chan_run (send_ab quiet_rng) recv_b reordering_pair ?acts))"
    by (simp add: send_ab_def recv_b_def loopback_send_def loopback_recv_def survivors_def quiet_rng_def
        reordering_pair_def loopback_pair_init_def LoopbackChannel_init_def Let_def)
  from loopback_packets_authentic [OF e s m unpack_pack [OF f]] f m unpack_pack [OF f] show ?thesis by auto
qed

text \<open>
  The loopback channel never reorders: what has been received, followed by what is still
  queued or held, is what was there before followed by the copies (at most two per frame, each
  with at most one byte changed) of the frames sent, in the order of the sends. This holds for
  every value of \<open>reorder\<close>: the hold buffer always releases its frame before a later one.
\<close>

theorem loopback_keeps_order:
  assumes "\<not> lb_closed (lp_a w)"
  shows "\<exists>css. list_all2 copies_of (sent_frames acts) css \<and>
    fst (chan_run (send_ab ops) recv_b w acts) @ flight_ab (snd (chan_run (send_ab ops) recv_b w acts))
      = flight_ab w @ concat css"
  by (rule run_ab_order [OF assms])

theorem loopback_keeps_order_witness:
  "fst (chan_run (send_ab quiet_rng) recv_b reordering_pair [ChSend [1], ChSend [2], ChSend [3], ChRecv, ChRecv])
     = [[1], [2]] \<and>
   (\<exists>css. list_all2 copies_of [[1], [2], [3]] css \<and> [[1], [2]] @ [[3]] = concat css)"
proof -
  let ?acts = "[ChSend [1], ChSend [2], ChSend [3], ChRecv, ChRecv]"
  have o: "\<not> lb_closed (lp_a reordering_pair)"
    by (simp add: reordering_pair_def loopback_pair_init_def LoopbackChannel_init_def Let_def)
  have r: "fst (chan_run (send_ab quiet_rng) recv_b reordering_pair ?acts) = [[1], [2]]"
    "flight_ab (snd (chan_run (send_ab quiet_rng) recv_b reordering_pair ?acts)) = [[3]]"
    "flight_ab reordering_pair = []"
    by (simp_all add: send_ab_def recv_b_def loopback_send_def loopback_recv_def survivors_def quiet_rng_def
        reordering_pair_def loopback_pair_init_def LoopbackChannel_init_def Let_def flight_ab_def held_list_def)
  from loopback_keeps_order [OF o, of ?acts quiet_rng] r show ?thesis by simp
qed

end
