(* ===== verification/Session_Props.thy ===== *)
theory Session_Props
  imports Session Loopback
begin

text \<open>
  Sessions over the loopback channel and a manual clock: the pump returns, damaged frames
  have no effect on it, and the cases in which it raises or trusts a foreign packet.
\<close>

section \<open>Worlds whose channel is a queue\<close>

definition damaged :: "bytes \<Rightarrow> bool" where
  "damaged f \<longleftrightarrow> (case unpack f of Inl e \<Rightarrow> is_packet_error e | Inr _ \<Rightarrow> False)"

definition forget_inbox ::
  "('w \<Rightarrow> 'w) \<Rightarrow> (SessionEvent list result \<times> Session \<times> 'w) option
    \<Rightarrow> (SessionEvent list result \<times> Session \<times> 'w) option" where
  "forget_inbox g x = map_option (\<lambda>(r, s, w). (r, s, g w)) x"

text \<open>
  \<open>set_inbox q\<close> replaces the frames waiting to be received. Sending and reading the clock do
  not look at them.
\<close>

locale queue_world =
  fixes ops :: "'w world_ops" and live :: "'w \<Rightarrow> bool" and set_inbox :: "bytes list \<Rightarrow> 'w \<Rightarrow> 'w"
  assumes recv_nil: "live w \<Longrightarrow> w_recv ops t (set_inbox [] w) = (Inr None, set_inbox [] w)"
    and recv_cons: "live w \<Longrightarrow> w_recv ops t (set_inbox (f # q) w) = (Inr (Some f), set_inbox q w)"
    and send_frame: "w_send ops f (set_inbox q w) =
      (fst (w_send ops f w), set_inbox q (snd (w_send ops f w)))"
    and now_frame: "w_now ops (set_inbox q w) = (fst (w_now ops w), set_inbox q (snd (w_now ops w)))"
    and send_live: "live w \<Longrightarrow> live (snd (w_send ops f w))"
    and now_live: "live w \<Longrightarrow> live (snd (w_now ops w))"
    and set_twice: "set_inbox q (set_inbox q' w) = set_inbox q w"
begin

lemma send_packets_frame:
  "send_packets ops pkts (set_inbox q w) =
    (fst (send_packets ops pkts w), set_inbox q (snd (send_packets ops pkts w)))"
proof (induction pkts arbitrary: w)
  case (Cons p pkts)
  show ?case
  proof (cases "pack p")
    case (Inr raw)
    obtain r w1 where w1: "w_send ops raw w = (r, w1)" by fastforce
    with Inr Cons [of w1] send_frame [of raw q w] show ?thesis by (cases r) simp_all
  qed simp
qed simp

lemma send_packets_live: "live w \<Longrightarrow> live (snd (send_packets ops pkts w))"
proof (induction pkts arbitrary: w)
  case (Cons p pkts)
  show ?case
  proof (cases "pack p")
    case (Inr raw)
    obtain r w1 where w1: "w_send ops raw w = (r, w1)" by fastforce
    with send_live [OF Cons.prems, of raw] have "live w1" by simp
    with Inr w1 Cons.IH [of w1] show ?thesis by (cases r) simp_all
  qed (use Cons.prems in simp)
qed simp

lemma emit_frame: "emit ops out (set_inbox q w) = (fst (emit ops out w), set_inbox q (snd (emit ops out w)))"
  by (simp add: emit_def send_packets_frame split: prod.split sum.split)

lemma emit_mux_frame:
  "emit_mux ops out s (set_inbox q w) =
    (fst (emit_mux ops out s w), fst (snd (emit_mux ops out s w)), set_inbox q (snd (snd (emit_mux ops out s w))))"
  by (simp add: emit_mux_def send_packets_frame split: prod.split sum.split)

lemma emit_live: "live w \<Longrightarrow> live (snd (emit ops out w))"
  using send_packets_live [of w "out_packets out"] by (auto simp: emit_def split: prod.split sum.split)

lemma emit_mux_live: "live w \<Longrightarrow> live (snd (snd (emit_mux ops out s w)))"
  using send_packets_live [of w "mo_packets out"] by (auto simp: emit_mux_def split: prod.split sum.split)

lemma machine_packet_frame:
  "machine_packet ops s pkt now (set_inbox q w) =
    (fst (machine_packet ops s pkt now w), fst (snd (machine_packet ops s pkt now w)),
     set_inbox q (snd (snd (machine_packet ops s pkt now w))))"
  by (simp add: machine_packet_def emit_frame case_prod_beta Let_def)

lemma machine_packet_live: "live w \<Longrightarrow> live (snd (snd (machine_packet ops s pkt now w)))"
  by (simp add: machine_packet_def emit_live case_prod_beta Let_def)

lemma route_packet_frame:
  "route_packet ops s pkt (set_inbox q w) =
    (fst (route_packet ops s pkt w), fst (snd (route_packet ops s pkt w)),
     set_inbox q (snd (snd (route_packet ops s pkt w))))"
  by (auto simp: route_packet_def now_frame machine_packet_frame emit_mux_frame Let_def case_prod_beta
      split: sum.split)

lemma route_packet_live: "live w \<Longrightarrow> live (snd (snd (route_packet ops s pkt w)))"
proof -
  assume "live w"
  then have "live (snd (w_now ops w))" by (rule now_live)
  then show ?thesis
    by (auto simp: route_packet_def Let_def case_prod_beta machine_packet_live emit_mux_live split: sum.split)
qed

lemma drain_nil: "live w \<Longrightarrow> drain_frames ops None k s (set_inbox [] w) = Some (Inr [], s, set_inbox [] w)"
  by (simp add: drain_frames.simps [of ops None k s] recv_nil)

lemma drain_cons:
  assumes "live w"
  shows "drain_frames ops None k s (set_inbox (f # q) w) =
    (case unpack f of
       Inl e \<Rightarrow> if is_packet_error e then drain_frames ops None (k + 1) s (set_inbox q w)
               else Some (Inl e, s, set_inbox q w)
     | Inr pkt \<Rightarrow>
         (let r = route_packet ops s pkt w in
          case fst r of
            Inl e \<Rightarrow> Some (Inl e, fst (snd r), set_inbox q (snd (snd r)))
          | Inr evs \<Rightarrow>
              Option.bind (drain_frames ops None (k + 1) (fst (snd r)) (set_inbox q (snd (snd r))))
                (\<lambda>(r2, s2, w2). Some (map_sum id ((@) evs) r2, s2, w2))))"
  by (simp add: drain_frames.simps [of ops None k s "set_inbox (f # q) w"] recv_cons [OF assms]
      route_packet_frame Let_def split: sum.split)

text \<open>Frames that the pump drops might as well not have arrived.\<close>

lemma drain_ignores_damaged:
  assumes "live w"
  shows "forget_inbox (set_inbox []) (drain_frames ops None k s (set_inbox q w)) =
    forget_inbox (set_inbox []) (drain_frames ops None k' s (set_inbox (filter (\<lambda>f. \<not> damaged f) q) w))"
  using assms
proof (induction q arbitrary: k k' s w)
  case Nil
  then show ?case by (simp add: drain_nil)
next
  case (Cons f q)
  show ?case
  proof (cases "unpack f")
    case (Inl e)
    show ?thesis
    proof (cases "is_packet_error e")
      case True
      with Inl Cons.prems Cons.IH [OF Cons.prems] show ?thesis by (simp add: drain_cons damaged_def)
    next
      case False
      with Inl Cons.prems show ?thesis by (simp add: drain_cons damaged_def forget_inbox_def set_twice)
    qed
  next
    case (Inr pkt)
    obtain r s1 w1 where r: "route_packet ops s pkt w = (r, s1, w1)" by (metis prod_cases3)
    then have l: "live w1" using route_packet_live [OF Cons.prems, of s pkt] by simp
    have bind: "forget_inbox g (Option.bind x (\<lambda>(r2, s2, w2). Some (map_sum id ((@) evs) r2, s2, w2)))
      = Option.bind (forget_inbox g x) (\<lambda>(r2, s2, w2). Some (map_sum id ((@) evs) r2, s2, w2))" for g x evs
      by (cases x) (auto simp: forget_inbox_def)
    show ?thesis
    proof (cases r)
      case (Inl e)
      with Inr r Cons.prems \<open>unpack f = Inr pkt\<close> show ?thesis
        by (simp add: drain_cons damaged_def Let_def forget_inbox_def set_twice)
    next
      case (Inr evs)
      with r Cons.prems Cons.IH [OF l, of "k + 1" s1 "k' + 1"] \<open>unpack f = Inr pkt\<close> show ?thesis
        by (simp add: drain_cons damaged_def Let_def bind)
    qed
  qed
qed

lemma run_timers_frame:
  "run_timers ops s (set_inbox q w) =
    (fst (run_timers ops s w), fst (snd (run_timers ops s w)), set_inbox q (snd (snd (run_timers ops s w))))"
  by (simp add: run_timers_def now_frame emit_frame emit_mux_frame Let_def case_prod_beta split: sum.split)

lemma pump_ignores_damaged:
  assumes "live w"
  shows "forget_inbox (set_inbox []) (pump ops None s (set_inbox q w)) =
    forget_inbox (set_inbox []) (pump ops None s (set_inbox (filter (\<lambda>f. \<not> damaged f) q) w))"
proof -
  let ?g = "\<lambda>(r, s1, w1). case r of
            Inl e \<Rightarrow> Some (Inl e, s1, w1)
          | Inr evs \<Rightarrow>
              (let (r2, s2, w2) = run_timers ops s1 w1 in Some (map_sum id ((@) evs) r2, s2, w2))"
  have b: "forget_inbox (set_inbox []) (Option.bind x ?g)
      = forget_inbox (set_inbox []) (Option.bind (forget_inbox (set_inbox []) x) ?g)" for x
  proof (cases x)
    case (Some y)
    obtain r s1 w1 where y: "y = (r, s1, w1)" by (metis prod_cases3)
    show ?thesis
      using Some y by (cases r) (simp_all add: forget_inbox_def run_timers_frame set_twice case_prod_beta Let_def)
  qed (simp add: forget_inbox_def)
  show ?thesis
    unfolding pump_def b [of "drain_frames ops None 0 (sync_session_id s) (set_inbox q w)"]
      b [of "drain_frames ops None 0 (sync_session_id s) (set_inbox (filter (\<lambda>f. \<not> damaged f) q) w)"]
      drain_ignores_damaged [OF assms, of 0 "sync_session_id s" q 0] ..
qed

end

section \<open>A session on one end of a loopback pair\<close>

record 'r loop_world =
  lw_pair :: "'r loopback_pair"
  lw_clock :: ManualClock

definition loop_ops_a :: "'r rng_ops \<Rightarrow> 'r loop_world world_ops" where
  "loop_ops_a rops =
     \<lparr>w_send = (\<lambda>f w. (Inr (), w\<lparr>lw_pair := send_ab rops (lw_pair w) f\<rparr>)),
      w_recv = (\<lambda>t w. (Inr (fst (recv_a (lw_pair w))), w\<lparr>lw_pair := snd (recv_a (lw_pair w))\<rparr>)),
      w_now = (\<lambda>w. (clock_now (lw_clock w), w))\<rparr>"

definition loop_ops_b :: "'r rng_ops \<Rightarrow> 'r loop_world world_ops" where
  "loop_ops_b rops =
     \<lparr>w_send = (\<lambda>f w. (Inr (), w\<lparr>lw_pair := send_ba rops (lw_pair w) f\<rparr>)),
      w_recv = (\<lambda>t w. (Inr (fst (recv_b (lw_pair w))), w\<lparr>lw_pair := snd (recv_b (lw_pair w))\<rparr>)),
      w_now = (\<lambda>w. (clock_now (lw_clock w), w))\<rparr>"

definition live_a :: "'r loop_world \<Rightarrow> bool" where
  "live_a w \<longleftrightarrow> \<not> lb_closed (lp_a (lw_pair w))"

definition live_b :: "'r loop_world \<Rightarrow> bool" where
  "live_b w \<longleftrightarrow> \<not> lb_closed (lp_b (lw_pair w))"

definition inbox_a :: "bytes list \<Rightarrow> 'r loop_world \<Rightarrow> 'r loop_world" where
  "inbox_a q w = w\<lparr>lw_pair := (lw_pair w)\<lparr>lp_q_ba := q\<rparr>\<rparr>"

definition inbox_b :: "bytes list \<Rightarrow> 'r loop_world \<Rightarrow> 'r loop_world" where
  "inbox_b q w = w\<lparr>lw_pair := (lw_pair w)\<lparr>lp_q_ab := q\<rparr>\<rparr>"

lemmas loop_world_defs = loop_ops_a_def loop_ops_b_def live_a_def live_b_def inbox_a_def inbox_b_def

interpretation world_a: queue_world "loop_ops_a rops" live_a inbox_a for rops :: "'r rng_ops"
  by unfold_locales
    (simp_all add: loop_world_defs recv_a_def loopback_recv_def send_ab_def loopback_send_def case_prod_beta Let_def)

interpretation world_b: queue_world "loop_ops_b rops" live_b inbox_b for rops :: "'r rng_ops"
  by unfold_locales
    (simp_all add: loop_world_defs recv_b_def loopback_recv_def send_ba_def loopback_send_def case_prod_beta Let_def)

interpretation backlog_a: finite_world "loop_ops_a rops" "\<lambda>w. length (lp_q_ba (lw_pair w))"
  for rops :: "'r rng_ops"
  by unfold_locales
    (auto simp: loop_ops_a_def recv_a_def loopback_recv_def send_ab_def case_prod_beta Let_def
      split: if_splits list.splits)

interpretation backlog_b: finite_world "loop_ops_b rops" "\<lambda>w. length (lp_q_ab (lw_pair w))"
  for rops :: "'r rng_ops"
  by unfold_locales
    (auto simp: loop_ops_b_def recv_b_def loopback_recv_def send_ba_def case_prod_beta Let_def
      split: if_splits list.splits)

section \<open>Receive buffers\<close>

lemma on_stream_update: "on_stream t (AList.update k v d) = (if t = k then v else on_stream t d)"
  by (simp add: on_stream_def update_conv)

lemma on_stream_Nil [simp]: "on_stream t [] = []"
  by (simp add: on_stream_def)

lemma buffer_delivered_stream:
  "distinct (dict_keys d) \<Longrightarrow> on_stream t (buffer_delivered bufs d) = on_stream t bufs @ on_stream t d"
proof (induction d arbitrary: bufs)
  case (Cons x d)
  obtain k v where x: "x = (k, v)" by fastforce
  have "k \<notin> set (dict_keys d)" using Cons.prems x by simp
  then have "on_stream k d = []" by (simp add: on_stream_def map_of_eq_None_iff [THEN iffD2])
  with Cons x show ?case by (auto simp: on_stream_update) (auto simp: on_stream_def)
qed simp

section \<open>A concrete session\<close>

definition demo_session :: "SessionState \<Rightarrow> Session" where
  "demo_session st =
     (let s = Session_init True 7 100 1 3 32 200 None (1 / 2) 5
      in s\<lparr>se_machine := (se_machine s)\<lparr>sm_state := st, sm_last_recv := Some 0, sm_last_send := Some 0\<rparr>\<rparr>)"

definition demo_world :: "unit loop_world" where
  "demo_world = \<lparr>lw_pair = loopback_pair_init () 0 0 0 0 0 0, lw_clock = ManualClock_init 2\<rparr>"

text \<open>A frame with a correct checksum whose type byte is 9.\<close>

definition rogue_header :: bytes where
  "rogue_header = [1, 9, 0, 0, 7, 0, 0, 0, 0, 0, 0, 0, 0, 0, 0, 0, 0, 0]"

definition rogue_frame :: bytes where
  "rogue_frame = rogue_header @ be_encode 4 (crc32 (rogue_header @ [0, 0, 0, 0]))"

lemma unpack_rogue_frame: "unpack rogue_frame = Inl ValueError"
proof -
  let ?c = "crc32 (rogue_header @ [0, 0, 0, 0])"
  have l: "length rogue_header = 18" by (simp add: rogue_header_def)
  have z: "zeroed_crc rogue_frame = rogue_header @ [0, 0, 0, 0]"
    by (simp add: zeroed_crc_def rogue_frame_def CRC_OFFSET_def HEADER_SIZE_def l del: be_encode.simps)
  have c: "raw_field 18 4 rogue_frame = ?c"
    by (simp add: raw_field_def rogue_frame_def l be_decode_encode crc32_fits del: be_encode.simps)
  have n: "raw_field 16 2 rogue_frame = 0" "raw_field 1 1 rogue_frame = 9"
    by (simp_all add: raw_field_def rogue_frame_def rogue_header_def be_decode_def del: be_encode.simps)
  have "length rogue_frame = 22" by (simp add: rogue_frame_def l del: be_encode.simps)
  with z c n show ?thesis by (simp add: unpack_eq PacketType_of_def)
qed

lemma live_demo [simp]: "live_a demo_world"
  by (simp add: live_a_def demo_world_def loopback_pair_init_def LoopbackChannel_init_def Let_def)

section \<open>Properties\<close>

text \<open>
  C22. The pump returns: over a loopback channel with a finite queue, \<open>pump\<close> with or without a
  frame limit ends, by a result or an exception, and so does \<open>run_until\<close>.
\<close>

theorem pump_returns:
  "\<exists>r s' w'. pump (loop_ops_a rops) max_frames s w = Some (r, s', w') \<and>
    (\<exists>r2 s2 w2. run_until (loop_ops_a rops) predicate n s w = Some (r2, s2, w2))"
  using backlog_a.pump_some [of rops max_frames s w] backlog_a.run_until_some [of rops predicate n s w]
  by blast

text \<open>
  Damaged frames cannot hurt: a pump behaves exactly as if the frames that fail to unpack
  with a \<open>PacketError\<close> (truncated, wrong length, wrong checksum) had not been in the queue:
  same result, same session, same frames sent.
\<close>

theorem damaged_frames_ignored:
  assumes "live_a w"
  shows "forget_inbox (inbox_a []) (pump (loop_ops_a rops) None s (inbox_a q w)) =
    forget_inbox (inbox_a []) (pump (loop_ops_a rops) None s (inbox_a (filter (\<lambda>f. \<not> damaged f) q) w))"
  by (rule world_a.pump_ignores_damaged [OF assms])

theorem damaged_frames_ignored_witness:
  "forget_inbox (inbox_a []) (pump (loop_ops_a quiet_rng) None (demo_session ESTABLISHED) (inbox_a [[1, 2, 3], []] demo_world)) =
   forget_inbox (inbox_a []) (pump (loop_ops_a quiet_rng) None (demo_session ESTABLISHED) (inbox_a [] demo_world))"
proof -
  have "damaged [1, 2, 3]" "damaged []" by (simp_all add: damaged_def unpack_eq is_packet_error_def)
  with damaged_frames_ignored [OF live_demo, of quiet_rng "demo_session ESTABLISHED" "[[1, 2, 3], []]"]
  show ?thesis by simp
qed

text \<open>
  A frame with a valid checksum and an unknown type byte is not dropped: \<open>unpack\<close> raises
  \<open>ValueError\<close>, which \<open>except PacketError\<close> does not catch, so the pump raises it and the
  frames behind it stay unread.
\<close>

theorem unknown_type_escapes_pump:
  assumes "live_a w" and "unpack f = Inl ValueError"
  shows "pump (loop_ops_a rops) None s (inbox_a (f # q) w) = Some (Inl ValueError, sync_session_id s, inbox_a q w)"
  using assms by (simp add: pump_def world_a.drain_cons is_packet_error_def)

theorem unknown_type_escapes_pump_witness:
  "pump (loop_ops_a quiet_rng) None (demo_session ESTABLISHED) (inbox_a [rogue_frame, [1]] demo_world)
     = Some (Inl ValueError, sync_session_id (demo_session ESTABLISHED), inbox_a [[1]] demo_world)"
  by (rule unknown_type_escapes_pump [OF live_demo unpack_rogue_frame])

text \<open>
  \<open>send_on\<close> raises \<open>RuntimeError\<close> exactly when the session is not established, and then
  neither the session nor the channel has changed.
\<close>

theorem send_requires_established:
  "(fst (send_on (loop_ops_a rops) stream data s w) = Inl RuntimeError) = (\<not> session_is_established s) \<and>
   (if session_is_established s then True
    else send_on (loop_ops_a rops) stream data s w = (Inl RuntimeError, s, w))"
proof (cases "session_is_established s")
  case False
  then show ?thesis by (simp add: send_on_def)
next
  case True
  have sp: "fst (send_packets (loop_ops_a rops) pkts w') \<noteq> Inl RuntimeError" for pkts w'
    by (induction pkts arbitrary: w') (auto simp: loop_ops_a_def pack_eq)
  have em: "fst (emit_mux (loop_ops_a rops) out s' w') \<noteq> Inl RuntimeError" for out s' w'
    using sp [of "mo_packets out" w'] by (auto simp: emit_mux_def split: prod.split sum.split)
  have ms: "fst (mux_send m stream data now) \<noteq> Inl RuntimeError" for m now
    by (auto simp: mux_send_def mux_endpoint_def new_endpoint_def ArqEndpoint_init_def case_prod_beta
        split: option.split sum.split)
  show ?thesis
    using True em ms
    by (auto simp: send_on_def Let_def split: prod.splits sum.splits) (metis fst_conv)+
qed

text \<open>
  The idle timer trusts foreign packets: a DATA, ACK or NACK frame on an application stream
  refreshes the time of the last received frame of an established session although its
  session id is another one, while the data itself is not delivered.
\<close>

theorem foreign_data_keeps_alive:
  assumes "session_is_established s" and "p_stream_id pkt \<noteq> CONTROL_STREAM_ID"
    and "mux_config_ok (se_mux s)" and "p_session_id pkt \<noteq> ep_session_id (view (se_mux s) (p_stream_id pkt))"
  shows "case route_packet (loop_ops_a rops) s pkt w of (r, s', w') \<Rightarrow>
    r = Inr [] \<and> sm_last_recv (se_machine s') = Some (clock_now (lw_clock w)) \<and>
    se_recv_buffers s' = se_recv_buffers s \<and> w' = w"
proof -
  let ?s1 = "s\<lparr>se_machine := note_data_activity (se_machine s) (clock_now (lw_clock w))\<rparr>"
  obtain m1 where m1: "mux_endpoint (se_mux s) (p_stream_id pkt) = (Inr (view (se_mux s) (p_stream_id pkt)), m1)"
    using mux_endpoint_view [OF assms(3)] by metis
  have "sm_last_recv (se_machine ?s1) = Some (clock_now (lw_clock w))"
    using assms(1) by (simp add: note_data_activity_def session_is_established_def is_established_def)
  moreover have "w_now (loop_ops_a rops) w = (clock_now (lw_clock w), w)" by (simp add: loop_ops_a_def)
  ultimately show ?thesis
    using assms m1
    by (simp add: route_packet_def Let_def mux_on_packet_def arq_on_packet_def empty_output_def emit_mux_def)
qed

theorem foreign_data_keeps_alive_witness:
  "case route_packet (loop_ops_a quiet_rng) (demo_session ESTABLISHED) (demo_data 1 0 [5]) demo_world of (r, s', w') \<Rightarrow>
     r = Inr [] \<and> sm_last_recv (se_machine s') = Some 2"
proof -
  let ?s = "demo_session ESTABLISHED"
  have c: "session_is_established ?s" "p_stream_id (demo_data 1 0 [5]) \<noteq> CONTROL_STREAM_ID" "mux_config_ok (se_mux ?s)"
    "p_session_id (demo_data 1 0 [5]) \<noteq> ep_session_id (view (se_mux ?s) (p_stream_id (demo_data 1 0 [5])))"
    by (simp_all add: session_is_established_def is_established_def demo_session_def Session_init_def
        demo_data_def CONTROL_STREAM_ID_def mux_config_ok_def StreamMux_init_def view_def new_endpoint_def
        ArqEndpoint_init_def DEFAULT_MAX_RETX_def Let_def)
  from foreign_data_keeps_alive [OF c, of demo_world quiet_rng] show ?thesis
    by (auto simp: demo_world_def clock_now_def ManualClock_init_def split: prod.split)
qed

text \<open>
  Streams above 255 cannot be used: \<open>open_stream\<close> hands out such numbers without a limit,
  but the header has one byte for them, so sending on one raises \<open>struct.error\<close> and the
  first chunk stays outstanding without ever having been on the wire.
\<close>

theorem wide_stream_unsendable:
  assumes "session_is_established s" and "mux_config_ok (se_mux s)" and "data \<noteq> []"
    and "map_of (mx_endpoints (se_mux s)) stream = None" and "255 < stream"
  shows "case send_on (loop_ops_a rops) stream data s w of (r, s', w') \<Rightarrow>
    r = Inl StructError \<and> w' = w \<and> unacked_count (view (se_mux s') stream) > 0"
proof -
  let ?m = "set_session_id (se_mux s) (session_id s)"
  have cfg: "mux_config_ok ?m" using assms(2) by (simp add: mux_config_ok_def set_session_id_def)
  let ?ep = "view ?m stream" and ?now = "clock_now (lw_clock w)"
  have none: "map_of (mx_endpoints ?m) stream = None"
    using assms(4) by (simp add: set_session_id_def map_of_map)
  have "1 \<le> mx_max_payload ?m" "1 \<le> mx_window_size ?m" using cfg by (simp_all add: mux_config_ok_def)
  then have ep: "ep_stream_id ?ep = stream" "ep_outstanding ?ep = []" "1 \<le> ep_max_payload ?ep" "can_send ?ep"
    using none
    by (simp_all add: view_def new_endpoint_def ArqEndpoint_init_def mux_config_ok_def DEFAULT_MAX_RETX_def
        can_send_def send_limit_def)
  obtain m1 where m1: "mux_endpoint ?m stream = (Inr ?ep, m1)"
    using mux_endpoint_view [OF cfg] by metis
  obtain c cs where cs: "py_slices (ep_max_payload ?ep) data = c # cs"
    using assms(3) concat_py_slices [of "ep_max_payload ?ep" data] ep(3)
    by (cases "py_slices (ep_max_payload ?ep) data") auto
  let ?e = "emit_data ?ep c ?now" and ?r = "arq_send ?ep data ?now"
  have pk: "ao_packets (fst ?r) = fst ?e # fst (send_chunks (snd ?e) cs ?now)"
    "snd ?r = snd (send_chunks (snd ?e) cs ?now)"
    using assms(3) cs ep(4) by (simp_all add: arq_send_def empty_output_def case_prod_beta send_chunks_step Let_def)
  have bad: "pack (fst ?e) = Inl StructError"
    using ep(1) assms(5) by (simp add: pack_eq packet_ok_def emit_data_def Let_def fits_def)
  have out: "length (ep_outstanding (snd ?e)) = 1"
    using ep(2) by (simp add: emit_data_def Let_def)
  have grow: "length (ep_outstanding e) \<le> length (ep_outstanding (snd (send_chunks e ds ?now)))" for e ds
    by (rule send_chunks_grows)
  have u: "0 < unacked_count (snd ?r)" using out grow [of "snd ?e" cs] unfolding pk(2) unacked_count_def by linarith
  have st: "w_now (loop_ops_a rops) w = (?now, w)" by (simp add: loop_ops_a_def)
  have "send_on (loop_ops_a rops) stream data s w
      = (Inl StructError, (sync_session_id s)\<lparr>se_mux := put_endpoint m1 stream (snd ?r)\<rparr>, w)"
    using assms(1) st m1 pk(1) bad
    by (simp add: send_on_def Let_def sync_session_id_def mux_send_def case_prod_beta emit_mux_def empty_mux_output_def)
  with u show ?thesis by simp
qed

theorem wide_stream_unsendable_witness:
  "case send_on (loop_ops_a quiet_rng) 257 [1] (demo_session ESTABLISHED) demo_world of (r, s', w') \<Rightarrow>
     r = Inl StructError \<and> w' = demo_world"
proof -
  let ?s = "demo_session ESTABLISHED"
  have c: "session_is_established ?s" "mux_config_ok (se_mux ?s)" "[1::byte] \<noteq> []"
    "map_of (mx_endpoints (se_mux ?s)) 257 = None" "(255::int) < 257"
    by (simp_all add: session_is_established_def is_established_def demo_session_def Session_init_def
        mux_config_ok_def StreamMux_init_def Let_def)
  from wide_stream_unsendable [OF c, of demo_world quiet_rng] show ?thesis by (auto split: prod.split)
qed

end
