(* ===== verification/Session_Api.thy ===== *)
theory Session_Api
  imports Session
begin

text \<open>
  What the applications call on the session they are given: \<open>send_on\<close>, \<open>recv_on\<close>, \<open>pump\<close>,
  \<open>connect\<close>, \<open>close\<close>, the state queries, and the clock they share with it. The contract states
  what they rely on: no sending before the handshake, and buffered chunks that only grow until
  they are taken, once. \<open>Session\<close> over any channel meets it.
\<close>

record 's session_ops =
  so_send_on :: "int \<Rightarrow> bytes \<Rightarrow> 's \<Rightarrow> unit result \<times> 's"
  so_recv_on :: "int \<Rightarrow> 's \<Rightarrow> bytes list \<times> 's"
  so_pump :: "'s \<Rightarrow> (SessionEvent list result \<times> 's) option"
  so_connect :: "'s \<Rightarrow> SessionEvent list result \<times> 's"
  so_close :: "'s \<Rightarrow> SessionEvent list result \<times> 's"
  so_established :: "'s \<Rightarrow> bool"
  so_state :: "'s \<Rightarrow> SessionState"
  so_acked :: "'s \<Rightarrow> int \<Rightarrow> nat"
  so_now :: "'s \<Rightarrow> time \<times> 's"

definition session_api :: "'w world_ops \<Rightarrow> (Session \<times> 'w) session_ops" where
  "session_api ops =
     \<lparr>so_send_on = (\<lambda>sid data (s, w). send_on ops sid data s w),
      so_recv_on = (\<lambda>sid (s, w). let (chunks, s1) = recv_on sid s in (chunks, (s1, w))),
      so_pump = (\<lambda>(s, w). pump ops None s w),
      so_connect = (\<lambda>(s, w). session_connect ops s w),
      so_close = (\<lambda>(s, w). session_close ops s w),
      so_established = (\<lambda>(s, w). session_is_established s),
      so_state = (\<lambda>(s, w). session_state s),
      so_acked = (\<lambda>(s, w). session_acked_bytes s),
      so_now = (\<lambda>(s, w). let (t, w1) = w_now ops w in (t, (s, w1)))\<rparr>"

locale session_contract =
  fixes api :: "'s session_ops" and pending :: "int \<Rightarrow> 's \<Rightarrow> bytes list"
  assumes send_refused: "\<not> so_established api s \<Longrightarrow> so_send_on api sid data s = (Inl RuntimeError, s)"
    and send_pending: "pending t (snd (so_send_on api sid data s)) = pending t s"
    and recv_pending: "so_recv_on api sid s = (chunks, s') \<Longrightarrow>
      chunks = pending sid s \<and> pending t s' = (if t = sid then [] else pending t s)"
    and pump_pending: "so_pump api s = Some (r, s') \<Longrightarrow> \<exists>more. pending t s' = pending t s @ more"
    and now_pending: "pending t (snd (so_now api s)) = pending t s"
    and now_established: "so_established api (snd (so_now api s)) = so_established api s"

section \<open>The session meets the contract\<close>

definition buffered :: "int \<Rightarrow> Session \<Rightarrow> bytes list" where
  "buffered t s = on_stream t (se_recv_buffers s)"

lemma on_stream_put: "on_stream t (AList.update u v d) = (if t = u then v else on_stream t d)"
  by (simp add: on_stream_def update_conv')

lemma on_stream_delete: "on_stream t (AList.delete u d) = (if t = u then [] else on_stream t d)"
  by (simp add: on_stream_def delete_conv')

lemma buffer_delivered_grows: "\<exists>more. on_stream t (buffer_delivered bufs ds) = on_stream t bufs @ more"
proof (induction ds arbitrary: bufs)
  case (Cons x ds)
  obtain sid chunks where x: "x = (sid, chunks)" by fastforce
  let ?b = "if chunks \<noteq> [] then AList.update sid (on_stream sid bufs @ chunks) bufs else bufs"
  obtain more where "on_stream t (buffer_delivered ?b ds) = on_stream t ?b @ more" using Cons by blast
  then show ?case by (cases "t = sid") (auto simp: x on_stream_put)
qed simp

definition grows :: "int \<Rightarrow> Session \<Rightarrow> Session \<Rightarrow> bool" where
  "grows t s s' \<longleftrightarrow> (\<exists>more. buffered t s' = buffered t s @ more)"

lemma grows_refl [simp]: "buffered t s' = buffered t s \<Longrightarrow> grows t s s'"
  by (simp add: grows_def)

lemma grows_trans: "grows t s s1 \<Longrightarrow> grows t s1 s2 \<Longrightarrow> grows t s s2"
  by (auto simp: grows_def)

lemma emit_mux_grows: "grows t s (fst (snd (emit_mux ops out s w)))"
  using buffer_delivered_grows [of t "se_recv_buffers s" "mo_delivered out"]
  by (auto simp: emit_mux_def grows_def buffered_def split: prod.split sum.split)

lemma machine_packet_grows: "grows t s (fst (snd (machine_packet ops s pkt now w)))"
  by (simp add: machine_packet_def case_prod_beta Let_def buffered_def)

lemma route_packet_grows: "grows t s (fst (snd (route_packet ops s pkt w)))"
proof -
  obtain now w1 where n: "w_now ops w = (now, w1)" by fastforce
  let ?s1 = "s\<lparr>se_machine := note_data_activity (se_machine s) now\<rparr>"
  obtain r m where m: "mux_on_packet (se_mux ?s1) pkt now = (r, m)" by fastforce
  have "grows t s (fst (snd (emit_mux ops out (?s1\<lparr>se_mux := m\<rparr>) w1)))" for out
    by (rule grows_trans [OF _ emit_mux_grows]) (simp add: buffered_def)
  then show ?thesis
    using n m machine_packet_grows [of t s ops pkt now w1]
    by (auto simp: route_packet_def Let_def buffered_def split: sum.split prod.split) (metis fst_conv snd_conv)+
qed

lemma drain_frames_grows: "drain_frames ops mf k s w = Some y \<Longrightarrow> grows t s (fst (snd y))"
proof (induction rule: drain_frames_rule)
  case (refused s w f w1 pkt e s1 w2)
  then show ?case using route_packet_grows [of t s ops pkt w1] by simp
next
  case (routed s w f w1 pkt evs s1 w2 r s2 w3)
  then have "grows t s s1" using route_packet_grows [of t s ops pkt w1] by simp
  with routed.IH show ?case using grows_trans by simp
qed simp_all

lemma emit_mux_buffered:
  "emit_mux ops out s1 w = (r, s', w') \<Longrightarrow> buffered t s1 = buffered t s \<Longrightarrow> grows t s s'"
  using emit_mux_grows [of t s1 ops out w] by (simp add: grows_def)

lemma run_timers_grows:
  assumes "run_timers ops s w = (r, s', w')"
  shows "grows t s s'"
proof -
  obtain now w1 where n: "w_now ops w = (now, w1)" by fastforce
  obtain out sm where o: "sm_on_tick (se_machine s) now = (out, sm)" by fastforce
  let ?s1 = "s\<lparr>se_machine := sm\<rparr>"
  obtain q w2 where e: "emit ops out w1 = (q, w2)" by fastforce
  show ?thesis
  proof (cases q)
    case (Inl e')
    with assms n o e show ?thesis by (auto simp: run_timers_def Let_def buffered_def)
  next
    case (Inr evs)
    obtain now2 w3 where n2: "w_now ops w2 = (now2, w3)" by fastforce
    obtain mout m where m: "mux_on_tick (se_mux s) now2 = (mout, m)" by fastforce
    obtain q2 s2 w4 where x: "emit_mux ops mout (?s1\<lparr>se_mux := m\<rparr>) w3 = (q2, s2, w4)"
      by (cases "emit_mux ops mout (?s1\<lparr>se_mux := m\<rparr>) w3")
    from emit_mux_buffered [OF x, of t s] have "grows t s s2" by (simp add: buffered_def)
    moreover have "s' = s2"
      using assms n o e Inr n2 m x by (cases q2) (simp_all add: run_timers_def Let_def)
    ultimately show ?thesis by simp
  qed
qed

lemma pump_grows:
  assumes "pump ops mf s w = Some (r, s', w')"
  shows "grows t s s'"
proof -
  obtain q s1 w1 where d: "drain_frames ops mf 0 (sync_session_id s) w = Some (q, s1, w1)"
    using assms unfolding pump_def bind_eq_Some_conv by (metis prod_cases3)
  have g: "grows t s s1"
    by (rule grows_trans [of t s "sync_session_id s"])
      (use drain_frames_grows [OF d, of t] in \<open>simp_all add: buffered_def sync_session_id_def\<close>)
  show ?thesis
  proof (cases q)
    case (Inl e)
    with assms d g show ?thesis by (simp add: pump_def)
  next
    case (Inr evs)
    obtain r2 s2 w2 where x: "run_timers ops s1 w1 = (r2, s2, w2)" by (cases "run_timers ops s1 w1")
    with assms d Inr have "s' = s2" by (simp add: pump_def)
    with g run_timers_grows [OF x] grows_trans show ?thesis by blast
  qed
qed

lemma send_on_buffered: "buffered t (fst (snd (send_on ops sid data s w))) = buffered t s"
  by (auto simp: send_on_def Let_def buffered_def sync_session_id_def emit_mux_def mux_send_def
      empty_mux_output_def split: prod.splits sum.splits)

interpretation session: session_contract "session_api ops" "\<lambda>t (s, w). buffered t s"
proof
  fix s :: "Session \<times> 'a" and sid data t chunks s' r
  obtain se w where s: "s = (se, w)" by fastforce
  show "\<not> so_established (session_api ops) s \<Longrightarrow>
      so_send_on (session_api ops) sid data s = (Inl RuntimeError, s)"
    by (simp add: s session_api_def send_on_def)
  show "(\<lambda>(s, w). buffered t s) (snd (so_send_on (session_api ops) sid data s)) = (\<lambda>(s, w). buffered t s) s"
    using send_on_buffered [of t ops sid data se w] by (simp add: s session_api_def split_beta)
  show "so_recv_on (session_api ops) sid s = (chunks, s') \<Longrightarrow>
      chunks = (\<lambda>(s, w). buffered sid s) s \<and>
      (\<lambda>(s, w). buffered t s) s' = (if t = sid then [] else (\<lambda>(s, w). buffered t s) s)"
    by (auto simp: s session_api_def recv_on_def buffered_def on_stream_delete)
  show "so_pump (session_api ops) s = Some (r, s') \<Longrightarrow>
      \<exists>more. (\<lambda>(s, w). buffered t s) s' = (\<lambda>(s, w). buffered t s) s @ more"
    using pump_grows [of ops None se w r "fst s'" "snd s'" t]
    by (cases s') (simp add: s session_api_def grows_def)
  show "(\<lambda>(s, w). buffered t s) (snd (so_now (session_api ops) s)) = (\<lambda>(s, w). buffered t s) s"
    by (simp add: s session_api_def split_beta Let_def)
  show "so_established (session_api ops) (snd (so_now (session_api ops) s)) = so_established (session_api ops) s"
    by (simp add: s session_api_def split_beta Let_def)
qed

section \<open>A log of one stream\<close>

text \<open>
  Two endpoints over a common state, with what each has handed to \<open>send_on\<close> and taken with
  \<open>recv_on\<close> on one stream. The log is not part of the program; the applications run the same
  with and without it.
\<close>

record 's StreamLog =
  lg_state :: 's
  lg_sent_a :: bytes
  lg_got_a :: "bytes list"
  lg_sent_b :: bytes
  lg_got_b :: "bytes list"

definition new_log :: "'s \<Rightarrow> 's StreamLog" where
  "new_log s = \<lparr>lg_state = s, lg_sent_a = [], lg_got_a = [], lg_sent_b = [], lg_got_b = []\<rparr>"

definition lift_op :: "('s \<Rightarrow> 'r \<times> 's) \<Rightarrow> 's StreamLog \<Rightarrow> 'r \<times> 's StreamLog" where
  "lift_op f l = (let (r, s1) = f (lg_state l) in (r, l\<lparr>lg_state := s1\<rparr>))"

definition logged ::
  "(bytes \<Rightarrow> 's StreamLog \<Rightarrow> 's StreamLog) \<Rightarrow> (bytes list \<Rightarrow> 's StreamLog \<Rightarrow> 's StreamLog) \<Rightarrow> int
    \<Rightarrow> 's session_ops \<Rightarrow> 's StreamLog session_ops" where
  "logged note_sent note_got sid api =
     \<lparr>so_send_on = (\<lambda>t data l. let (r, l1) = lift_op (so_send_on api t data) l
         in (r, if t = sid \<and> r = Inr () then note_sent data l1 else l1)),
      so_recv_on = (\<lambda>t l. let (chunks, l1) = lift_op (so_recv_on api t) l
         in (chunks, if t = sid then note_got chunks l1 else l1)),
      so_pump = (\<lambda>l. map_option (\<lambda>(r, s1). (r, l\<lparr>lg_state := s1\<rparr>)) (so_pump api (lg_state l))),
      so_connect = lift_op (so_connect api),
      so_close = lift_op (so_close api),
      so_established = (\<lambda>l. so_established api (lg_state l)),
      so_state = (\<lambda>l. so_state api (lg_state l)),
      so_acked = (\<lambda>l. so_acked api (lg_state l)),
      so_now = lift_op (so_now api)\<rparr>"

lemma logged_simps:
  "so_send_on (logged ns ng sid api) u d l =
     (fst (so_send_on api u d (lg_state l)),
      (if u = sid \<and> fst (so_send_on api u d (lg_state l)) = Inr () then ns d else id)
        (l\<lparr>lg_state := snd (so_send_on api u d (lg_state l))\<rparr>))"
  "so_recv_on (logged ns ng sid api) u l =
     (fst (so_recv_on api u (lg_state l)),
      (if u = sid then ng (fst (so_recv_on api u (lg_state l))) else id)
        (l\<lparr>lg_state := snd (so_recv_on api u (lg_state l))\<rparr>))"
  "so_pump (logged ns ng sid api) l =
     map_option (\<lambda>(r, s1). (r, l\<lparr>lg_state := s1\<rparr>)) (so_pump api (lg_state l))"
  "so_now (logged ns ng sid api) l =
     (fst (so_now api (lg_state l)), l\<lparr>lg_state := snd (so_now api (lg_state l))\<rparr>)"
  by (auto simp: logged_def lift_op_def split_beta Let_def)

definition log_a :: "int \<Rightarrow> 's session_ops \<Rightarrow> 's StreamLog session_ops" where
  "log_a = logged (\<lambda>d l. l\<lparr>lg_sent_a := lg_sent_a l @ d\<rparr>) (\<lambda>cs l. l\<lparr>lg_got_a := lg_got_a l @ cs\<rparr>)"

definition log_b :: "int \<Rightarrow> 's session_ops \<Rightarrow> 's StreamLog session_ops" where
  "log_b = logged (\<lambda>d l. l\<lparr>lg_sent_b := lg_sent_b l @ d\<rparr>) (\<lambda>cs l. l\<lparr>lg_got_b := lg_got_b l @ cs\<rparr>)"

lemma logged_lift_simps:
  "so_connect (logged ns ng sid api) l =
     (fst (so_connect api (lg_state l)), l\<lparr>lg_state := snd (so_connect api (lg_state l))\<rparr>)"
  "so_close (logged ns ng sid api) l =
     (fst (so_close api (lg_state l)), l\<lparr>lg_state := snd (so_close api (lg_state l))\<rparr>)"
  by (auto simp: logged_def lift_op_def split_beta Let_def)

text \<open>A statement on the state that every call of an application keeps.\<close>

locale kept =
  fixes J :: "'s \<Rightarrow> bool" and api :: "'s session_ops"
  assumes send_kept: "J s \<Longrightarrow> J (snd (so_send_on api sid data s))"
    and recv_kept: "J s \<Longrightarrow> J (snd (so_recv_on api sid s))"
    and pump_kept: "J s \<Longrightarrow> so_pump api s = Some (r, s') \<Longrightarrow> J s'"
    and connect_kept: "J s \<Longrightarrow> J (snd (so_connect api s))"
    and close_kept: "J s \<Longrightarrow> J (snd (so_close api s))"
    and now_kept: "J s \<Longrightarrow> J (snd (so_now api s))"

text \<open>What the transport promises of a stream: the bytes taken are a prefix of the bytes sent.\<close>

definition stream_ok :: "'s StreamLog \<Rightarrow> bool" where
  "stream_ok l \<longleftrightarrow> take (length (concat (lg_got_b l))) (lg_sent_a l) = concat (lg_got_b l) \<and>
     take (length (concat (lg_got_a l))) (lg_sent_b l) = concat (lg_got_a l)"

text \<open>
  The ideal transport: what one side sends is what the other takes, at once and in one piece.
  \<open>established\<close> is a flag of the state; the clock stands still.
\<close>

record Ideal =
  id_up :: bool
  id_to_a :: "(int \<times> bytes) list"
  id_to_b :: "(int \<times> bytes) list"

definition on_id :: "int \<Rightarrow> (int \<times> bytes) list \<Rightarrow> bytes list" where
  "on_id sid q = map snd (filter (\<lambda>x. fst x = sid) q)"

definition ideal_ops ::
  "(Ideal \<Rightarrow> (int \<times> bytes) list) \<Rightarrow> ((int \<times> bytes) list \<Rightarrow> Ideal \<Rightarrow> Ideal)
    \<Rightarrow> (int \<times> bytes \<Rightarrow> Ideal \<Rightarrow> Ideal) \<Rightarrow> Ideal session_ops" where
  "ideal_ops inbox set_inbox put =
     \<lparr>so_send_on = (\<lambda>sid data s. if id_up s then (Inr (), put (sid, data) s) else (Inl RuntimeError, s)),
      so_recv_on = (\<lambda>sid s. (on_id sid (inbox s), set_inbox (filter (\<lambda>x. fst x \<noteq> sid) (inbox s)) s)),
      so_pump = (\<lambda>s. Some (Inr [], s)),
      so_connect = (\<lambda>s. (Inr [], s)),
      so_close = (\<lambda>s. (Inr [], s\<lparr>id_up := False\<rparr>)),
      so_established = id_up,
      so_state = (\<lambda>s. if id_up s then ESTABLISHED else CLOSED),
      so_acked = (\<lambda>s sid. 0),
      so_now = (\<lambda>s. (0, s))\<rparr>"

definition ideal_a :: "Ideal session_ops" where
  "ideal_a = ideal_ops id_to_a (\<lambda>q s. s\<lparr>id_to_a := q\<rparr>) (\<lambda>x s. s\<lparr>id_to_b := id_to_b s @ [x]\<rparr>)"

definition ideal_b :: "Ideal session_ops" where
  "ideal_b = ideal_ops id_to_b (\<lambda>q s. s\<lparr>id_to_b := q\<rparr>) (\<lambda>x s. s\<lparr>id_to_a := id_to_a s @ [x]\<rparr>)"

definition ideal_start :: Ideal where
  "ideal_start = \<lparr>id_up = True, id_to_a = [], id_to_b = []\<rparr>"

lemma filter_filter_ne: "filter (\<lambda>x. fst x = t) (filter (\<lambda>x. fst x \<noteq> sid) q) =
    (if t = sid then [] else filter (\<lambda>x. fst x = t) q)"
  by (induction q) auto

interpretation ideal_a: session_contract ideal_a "\<lambda>t s. on_id t (id_to_a s)"
  by unfold_locales (auto simp: ideal_a_def ideal_ops_def on_id_def filter_filter_ne simp del: filter_filter)

interpretation ideal_b: session_contract ideal_b "\<lambda>t s. on_id t (id_to_b s)"
  by unfold_locales (auto simp: ideal_b_def ideal_ops_def on_id_def filter_filter_ne simp del: filter_filter)

end
