(* ===== verification/Framing.thy ===== *)
theory Framing
  imports Py_Struct
begin

text \<open>
  What the two reassemblers of the applications share: the loop over a buffer that waits,
  raises or takes a frame off the front, as an interface with its consequences. A \<open>feed\<close>
  keeps the undecoded bytes; when it raises, the frames it had decoded are gone and the
  buffer still starts with the bytes it raised on.
\<close>

datatype 'm frame_step = Wait | Bad py_error | Frame 'm nat

definition cons_frame :: "'m \<Rightarrow> 'm list result \<times> bytes \<Rightarrow> 'm list result \<times> bytes" where
  "cons_frame m = map_prod (map_sum id ((#) m)) id"

definition append_frames :: "'m list \<Rightarrow> 'm list result \<times> bytes \<Rightarrow> 'm list result \<times> bytes" where
  "append_frames ms = map_prod (map_sum id ((@) ms)) id"

lemma append_frames_Nil [simp]: "append_frames [] r = r"
  by (cases r; cases "fst r") (auto simp: append_frames_def)

lemma append_frames_Cons: "append_frames (m # ms) r = cons_frame m (append_frames ms r)"
  by (cases r; cases "fst r") (auto simp: append_frames_def cons_frame_def)

lemma append_frames_append: "append_frames (ms @ ns) r = append_frames ms (append_frames ns r)"
  by (induction ms) (simp_all add: append_frames_Cons)

lemma cons_frame_simps [simp]:
  "cons_frame m (Inr ms, b) = (Inr (m # ms), b)" "cons_frame m (Inl e, b) = (Inl e, b)"
  by (simp_all add: cons_frame_def)

lemma append_frames_simps [simp]:
  "append_frames ms (Inr ns, b) = (Inr (ms @ ns), b)" "append_frames ms (Inl e, b) = (Inl e, b)"
  by (simp_all add: append_frames_def)

text \<open>
  A run of \<open>feed\<close> calls, one per chunk, as the pumps of the applications make them: the frames
  of all of them, or the first exception.
\<close>

fun feed_chunks :: "(bytes \<Rightarrow> bytes \<Rightarrow> 'm list result \<times> bytes) \<Rightarrow> bytes \<Rightarrow> bytes list \<Rightarrow> 'm list result \<times> bytes" where
  "feed_chunks feed buf [] = (Inr [], buf)"
| "feed_chunks feed buf (c # cs) =
     (case feed buf c of
        (Inl e, b) \<Rightarrow> (Inl e, b)
      | (Inr ms, b) \<Rightarrow> append_frames ms (feed_chunks feed b cs))"

locale reassembler =
  fixes step :: "bytes \<Rightarrow> 'm frame_step"
    and loop :: "bytes \<Rightarrow> 'm list result \<times> bytes"
    and feed :: "bytes \<Rightarrow> bytes \<Rightarrow> 'm list result \<times> bytes"
  assumes loop_step: "loop buf =
      (case step buf of
         Wait \<Rightarrow> (Inr [], buf) | Bad e \<Rightarrow> (Inl e, buf) | Frame m n \<Rightarrow> cons_frame m (loop (drop n buf)))"
    and feed_loop: "feed buf data = loop (buf @ data)"
    and frame_size: "step buf = Frame m n \<Longrightarrow> 0 < n \<and> n \<le> length buf"
    and frame_stable: "step buf = Frame m n \<Longrightarrow> step (buf @ more) = Frame m n"
    and bad_stable: "step buf = Bad e \<Longrightarrow> step (buf @ more) = Bad e"
begin

lemma loop_append:
  "loop (a @ b) =
     (case loop a of
        (Inl e, a1) \<Rightarrow> (Inl e, a1 @ b)
      | (Inr ms, a1) \<Rightarrow> append_frames ms (loop (a1 @ b)))"
proof (induction a rule: length_induct)
  case (1 a)
  show ?case
  proof (cases "step a")
    case Wait
    then show ?thesis by (simp add: loop_step [of a])
  next
    case (Bad e)
    then show ?thesis by (simp add: loop_step [of a] loop_step [of "a @ b"] bad_stable)
  next
    case (Frame m n)
    with frame_size have n: "0 < n" "n \<le> length a" by blast+
    then have "length (drop n a) < length a" by simp
    with 1 have ih: "loop (drop n a @ b) = (case loop (drop n a) of
        (Inl e, a1) \<Rightarrow> (Inl e, a1 @ b) | (Inr ms, a1) \<Rightarrow> append_frames ms (loop (a1 @ b)))" by blast
    obtain r a1 where r: "loop (drop n a) = (r, a1)" by fastforce
    have "loop (a @ b) = cons_frame m (loop (drop n a @ b))"
      using loop_step [of "a @ b"] frame_stable [OF Frame, of b] n by simp
    moreover have "loop a = cons_frame m (r, a1)" using loop_step [of a] Frame r by simp
    ultimately show ?thesis
      using ih r by (cases r) (simp_all add: append_frames_Cons)
  qed
qed

lemma loop_rest: "loop a = (Inr ms, b) \<Longrightarrow> loop b = (Inr [], b)"
proof (induction a arbitrary: ms rule: length_induct)
  case (1 a)
  show ?case
  proof (cases "step a")
    case Wait
    then have "loop a = (Inr [], a)" by (simp add: loop_step [of a])
    with 1(2) show ?thesis by simp
  next
    case (Bad e)
    with 1 show ?thesis by (simp add: loop_step [of a])
  next
    case (Frame m n)
    with frame_size have n: "0 < n" "n \<le> length a" by blast+
    obtain r a1 where r: "loop (drop n a) = (r, a1)" by fastforce
    with 1(2) Frame obtain ns where "r = Inr ns" "a1 = b"
      by (cases r) (auto simp: loop_step [of a])
    with r n show ?thesis using 1(1) [rule_format, of "drop n a"] by auto
  qed
qed

text \<open>How the bytes are cut into chunks does not matter, for results and for errors alike.\<close>

lemma feed_chunks_loop:
  assumes "loop buf = (Inr [], buf)" and "feed_chunks feed buf cs = (r, b)"
  shows "\<exists>b'. loop (buf @ concat cs) = (r, b') \<and> (\<not> isl r \<longrightarrow> b' = b)"
  using assms
proof (induction cs arbitrary: buf r b)
  case (Cons c cs)
  obtain q b1 where q: "loop (buf @ c) = (q, b1)" by fastforce
  show ?case
  proof (cases q)
    case (Inl e)
    with q Cons.prems(2) have "r = Inl e" by (simp add: feed_loop)
    with q Inl loop_append [of "buf @ c" "concat cs"] show ?thesis by simp
  next
    case (Inr ns)
    with q loop_rest have "loop b1 = (Inr [], b1)" by blast
    moreover obtain r2 b2 where f: "feed_chunks feed b1 cs = (r2, b2)" by fastforce
    ultimately obtain b' where b': "loop (b1 @ concat cs) = (r2, b')" "\<not> isl r2 \<longrightarrow> b' = b2"
      using Cons.IH by blast
    have "loop (buf @ concat (c # cs)) = append_frames ns (r2, b')"
      using loop_append [of "buf @ c" "concat cs"] q Inr b' by simp
    moreover have "append_frames ns (r2, b2) = (r, b)"
      using Cons.prems(2) q Inr f feed_loop [of buf c] by simp
    ultimately show ?thesis using b' by (cases r2) auto
  qed
qed simp

lemma loop_bad: "loop a = (Inl e, b) \<Longrightarrow> step b = Bad e"
proof (induction a rule: length_induct)
  case (1 a)
  show ?case
  proof (cases "step a")
    case Wait
    with 1 show ?thesis by (simp add: loop_step [of a])
  next
    case (Bad e')
    then have "loop a = (Inl e', a)" by (simp add: loop_step [of a])
    with 1(2) Bad show ?thesis by simp
  next
    case (Frame m n)
    with frame_size have n: "0 < n" "n \<le> length a" by blast+
    obtain r a1 where r: "loop (drop n a) = (r, a1)" by fastforce
    with 1(2) Frame have "r = Inl e" "a1 = b" by (cases r; simp add: loop_step [of a])+
    with r n show ?thesis using 1(1) [rule_format, of "drop n a"] by auto
  qed
qed

text \<open>A raise leaves the buffer at the bytes it raised on, and so does every later call.\<close>

lemma feed_stuck: "feed buf data = (Inl e, b) \<Longrightarrow> feed b more = (Inl e, b @ more)"
  using loop_bad [of "buf @ data" e b] by (simp add: feed_loop loop_step [of "b @ more"] bad_stable)

lemma loop_frames:
  assumes "\<And>m rest. m \<in> set ms \<Longrightarrow> step (enc m @ rest) = Frame m (length (enc m))"
  shows "loop (concat (map enc ms) @ rest) = append_frames ms (loop rest)"
  using assms
proof (induction ms)
  case Nil
  then show ?case by simp
next
  case (Cons m ms)
  have "step (enc m @ concat (map enc ms) @ rest) = Frame m (length (enc m))"
    using Cons.prems by simp
  then have "loop (enc m @ concat (map enc ms) @ rest) = cons_frame m (loop (concat (map enc ms) @ rest))"
    by (simp add: loop_step [of "enc m @ concat (map enc ms) @ rest"])
  with Cons show ?case by (simp add: append_frames_Cons)
qed

lemma loop_prefix:
  assumes "loop (p @ q) = (Inr ms, r)"
  shows "\<exists>ms1 ms2 b. loop p = (Inr ms1, b) \<and> ms = ms1 @ ms2 \<and> loop (b @ q) = (Inr ms2, r)"
proof -
  obtain x b where x: "loop p = (x, b)" by fastforce
  obtain y c where y: "loop (b @ q) = (y, c)" by fastforce
  from assms loop_append [of p q] x y show ?thesis by (cases x; cases y) auto
qed

lemma feed_chunks_frames:
  assumes "\<And>m rest. m \<in> set ms \<Longrightarrow> step (enc m @ rest) = Frame m (length (enc m))"
    and "step rest = Wait" and "step [] = Wait"
    and "concat cs = concat (map enc ms) @ rest"
  shows "feed_chunks feed [] cs = (Inr ms, rest)"
proof -
  have e: "loop [] = (Inr [], [])" using assms(3) by (simp add: loop_step [of "[]"])
  have "loop rest = (Inr [], rest)" using assms(2) by (simp add: loop_step [of rest])
  then have l: "loop (concat cs) = (Inr ms, rest)" using loop_frames [OF assms(1)] assms(4) by simp
  obtain q b where q: "feed_chunks feed [] cs = (q, b)" by fastforce
  from feed_chunks_loop [OF e q] l q show ?thesis by auto
qed

end

end
