(* ===== verification/Utf8.thy ===== *)
theory Utf8
  imports Prelude
begin

text \<open>
  Python strings and UTF-8. A \<open>str\<close> is a list of code points; \<open>encode("utf-8")\<close> refuses
  surrogates, \<open>decode("utf-8")\<close> refuses everything that is not the shortest encoding of a
  code point. Both errors are \<open>ValueError\<close>s. Encoding and decoding are inverse on their
  domains.
\<close>

type_synonym pstr = "nat list"

definition code_points :: "string \<Rightarrow> pstr" where
  "code_points s = map of_char s"

definition utf8_ok :: "nat \<Rightarrow> bool" where
  "utf8_ok c \<longleftrightarrow> c < 55296 \<or> (57344 \<le> c \<and> c < 1114112)"

definition utf8_char :: "nat \<Rightarrow> bytes" where
  "utf8_char c =
     (if c < 128 then [of_nat c]
      else if c < 2048 then [of_nat (192 + c div 64), of_nat (128 + c mod 64)]
      else if c < 65536 then
        [of_nat (224 + c div 4096), of_nat (128 + c div 64 mod 64), of_nat (128 + c mod 64)]
      else [of_nat (240 + c div 262144), of_nat (128 + c div 4096 mod 64),
        of_nat (128 + c div 64 mod 64), of_nat (128 + c mod 64)])"

definition utf8_encode :: "pstr \<Rightarrow> bytes result" where
  "utf8_encode s = (if list_all utf8_ok s then Inr (concat (map utf8_char s)) else Inl ValueError)"

text \<open>A continuation byte in the given range, as its low six bits.\<close>

definition cont :: "nat \<Rightarrow> nat \<Rightarrow> byte \<Rightarrow> nat option" where
  "cont lo hi b = (if lo \<le> unat b \<and> unat b \<le> hi then Some (unat b mod 64) else None)"

definition cons_char :: "nat \<Rightarrow> pstr result \<Rightarrow> pstr result" where
  "cons_char c r = map_sum id ((#) c) r"

text \<open>
  The first byte fixes the length and the range of the second byte, which excludes overlong
  forms, surrogates and code points past U+10FFFF.
\<close>

definition second_range :: "nat \<Rightarrow> nat \<times> nat" where
  "second_range x =
     (if x = 224 then (160, 191) else if x = 237 then (128, 159)
      else if x = 240 then (144, 191) else if x = 244 then (128, 143) else (128, 191))"

definition two_bytes :: "byte \<Rightarrow> byte \<Rightarrow> nat option" where
  "two_bytes b0 b1 = map_option (\<lambda>y. unat b0 mod 32 * 64 + y) (cont 128 191 b1)"

definition three_bytes :: "byte \<Rightarrow> byte \<Rightarrow> byte \<Rightarrow> nat option" where
  "three_bytes b0 b1 b2 =
     (case cont (fst (second_range (unat b0))) (snd (second_range (unat b0))) b1 of
        None \<Rightarrow> None
      | Some y \<Rightarrow> map_option (\<lambda>z. unat b0 mod 16 * 4096 + y * 64 + z) (cont 128 191 b2))"

definition four_bytes :: "byte \<Rightarrow> byte \<Rightarrow> byte \<Rightarrow> byte \<Rightarrow> nat option" where
  "four_bytes b0 b1 b2 b3 =
     (case cont (fst (second_range (unat b0))) (snd (second_range (unat b0))) b1 of
        None \<Rightarrow> None
      | Some y \<Rightarrow>
          (case cont 128 191 b2 of
             None \<Rightarrow> None
           | Some z \<Rightarrow>
               map_option (\<lambda>u. unat b0 mod 8 * 262144 + y * 4096 + z * 64 + u) (cont 128 191 b3)))"

fun utf8_decode :: "bytes \<Rightarrow> pstr result" where
  "utf8_decode [] = Inr []"
| "utf8_decode (b # bs) =
     (let x = unat b in
      if x < 128 then cons_char x (utf8_decode bs)
      else if 194 \<le> x \<and> x < 224 then
        (case bs of
           b1 # rest \<Rightarrow>
             (case two_bytes b b1 of Some c \<Rightarrow> cons_char c (utf8_decode rest) | None \<Rightarrow> Inl ValueError)
         | _ \<Rightarrow> Inl ValueError)
      else if 224 \<le> x \<and> x < 240 then
        (case bs of
           b1 # b2 # rest \<Rightarrow>
             (case three_bytes b b1 b2 of Some c \<Rightarrow> cons_char c (utf8_decode rest) | None \<Rightarrow> Inl ValueError)
         | _ \<Rightarrow> Inl ValueError)
      else if 240 \<le> x \<and> x < 245 then
        (case bs of
           b1 # b2 # b3 # rest \<Rightarrow>
             (case four_bytes b b1 b2 b3 of Some c \<Rightarrow> cons_char c (utf8_decode rest) | None \<Rightarrow> Inl ValueError)
         | _ \<Rightarrow> Inl ValueError)
      else Inl ValueError)"

lemma unat_byte: "n < 256 \<Longrightarrow> unat (of_nat n :: byte) = n"
  by (simp add: unat_of_nat)

lemma byte_lt: "unat (b :: byte) < 256"
proof -
  have "unat b < 2 ^ LENGTH(8)" by (rule unsigned_less)
  then show ?thesis by simp
qed

lemma cont_low: "y < 64 \<Longrightarrow> lo \<le> 128 + y \<Longrightarrow> 128 + y \<le> hi \<Longrightarrow> cont lo hi (of_nat (128 + y)) = Some y"
proof -
  assume "y < 64" "lo \<le> 128 + y" "128 + y \<le> hi"
  moreover from \<open>y < 64\<close> have "unat (of_nat (128 + y) :: byte) = 128 + y" by (intro unat_byte) simp
  moreover have "(128 + y) mod 64 = y"
    using mod_mult_self3 [of 2 64 y] \<open>y < 64\<close> by simp
  ultimately show ?thesis unfolding cont_def by simp
qed

lemma low_bits: "q < m \<Longrightarrow> (k * m + q) mod m = q" for q m k :: nat
  by simp

text \<open>A code point in base 64.\<close>

lemma base64_3: "c = c div 4096 * 4096 + c div 64 mod 64 * 64 + c mod 64" for c :: nat
proof -
  have "c = c div 64 * 64 + c mod 64" by simp
  moreover have "c div 64 = c div 64 div 64 * 64 + c div 64 mod 64" by simp
  moreover have "c div 64 div 64 = c div 4096" by (simp add: div_mult2_eq [symmetric])
  ultimately show ?thesis by linarith
qed

lemma base64_4:
  "c = c div 262144 * 262144 + c div 4096 mod 64 * 4096 + c div 64 mod 64 * 64 + c mod 64" for c :: nat
proof -
  have "c div 4096 = c div 4096 div 64 * 64 + c div 4096 mod 64" by simp
  moreover have "c div 4096 div 64 = c div 262144" by (simp add: div_mult2_eq [symmetric])
  ultimately show ?thesis using base64_3 [of c] by linarith
qed

lemma decode_char_two:
  assumes "128 \<le> c" "c < 2048"
  shows "utf8_decode (utf8_char c @ rest) = cons_char c (utf8_decode rest)"
proof -
  let ?x = "192 + c div 64"
  have q: "c div 64 < 32" using assms by (simp add: less_mult_imp_div_less)
  have x: "194 \<le> ?x" "?x < 224" "unat (of_nat ?x :: byte) = ?x"
    using assms q by (simp_all add: unat_byte div_le_mono [of 128 c 64, simplified] del: of_nat_add)
  have "?x mod 32 = c div 64" using low_bits [OF q, of 6] by simp
  moreover have "c div 64 * 64 + c mod 64 = c" by simp
  ultimately have "two_bytes (of_nat ?x) (of_nat (128 + c mod 64)) = Some c"
    using x(3) by (simp add: two_bytes_def cont_low del: of_nat_add)
  with assms x show ?thesis by (simp add: utf8_char_def Let_def del: of_nat_add)
qed

lemma decode_char_three:
  assumes "2048 \<le> c" "c < 65536" "utf8_ok c"
  shows "utf8_decode (utf8_char c @ rest) = cons_char c (utf8_decode rest)"
proof -
  let ?h = "c div 4096" and ?y = "c div 64 mod 64" and ?r = "c mod 64"
  let ?x = "224 + ?h"
  have q: "?h < 16" using assms by (simp add: less_mult_imp_div_less)
  have b: "c = ?h * 4096 + ?y * 64 + ?r" "?y < 64" "?r < 64" using base64_3 [of c] by simp_all
  have x: "224 \<le> ?x" "?x < 240" "unat (of_nat ?x :: byte) = ?x"
    using q by (simp_all add: unat_byte del: of_nat_add)
  have m: "?x mod 16 = ?h" using low_bits [OF q, of 14] by simp
  have s: "fst (second_range ?x) \<le> 128 + ?y \<and> 128 + ?y \<le> snd (second_range ?x)"
  proof -
    have "?h = 0 \<Longrightarrow> 32 \<le> ?y" using b assms(1) by linarith
    moreover have "?h = 13 \<Longrightarrow> ?y < 32" using b assms(3) unfolding utf8_ok_def by linarith
    ultimately show ?thesis using b(2) q by (auto simp: second_range_def)
  qed
  have c1: "cont (fst (second_range ?x)) (snd (second_range ?x)) (of_nat (128 + ?y)) = Some ?y"
    using s b(2) by (intro cont_low) simp_all
  have c2: "cont 128 191 (of_nat (128 + ?r)) = Some ?r" using b(3) by (intro cont_low) simp_all
  have "three_bytes (of_nat ?x) (of_nat (128 + ?y)) (of_nat (128 + ?r)) = Some c"
    unfolding three_bytes_def x(3) c1 c2 m using b(1) by simp
  with assms x show ?thesis by (simp add: utf8_char_def Let_def del: of_nat_add)
qed

lemma decode_char_four:
  assumes "65536 \<le> c" "c < 1114112"
  shows "utf8_decode (utf8_char c @ rest) = cons_char c (utf8_decode rest)"
proof -
  let ?h = "c div 262144" and ?y = "c div 4096 mod 64" and ?z = "c div 64 mod 64" and ?r = "c mod 64"
  let ?x = "240 + ?h"
  have b: "c = ?h * 262144 + ?y * 4096 + ?z * 64 + ?r" "?y < 64" "?z < 64" "?r < 64"
    using base64_4 [of c] by simp_all
  have q: "?h < 5" using assms b by linarith
  have x: "240 \<le> ?x" "?x < 245" "unat (of_nat ?x :: byte) = ?x"
    using q by (simp_all add: unat_byte del: of_nat_add)
  have m: "?x mod 8 = ?h" using low_bits [of ?h 8 30] q by simp
  have s: "fst (second_range ?x) \<le> 128 + ?y \<and> 128 + ?y \<le> snd (second_range ?x)"
  proof -
    have "?h = 0 \<Longrightarrow> 16 \<le> ?y" using b assms(1) by linarith
    moreover have "?h = 4 \<Longrightarrow> ?y < 16" using b assms(2) by linarith
    ultimately show ?thesis using b(2) q by (auto simp: second_range_def)
  qed
  have c1: "cont (fst (second_range ?x)) (snd (second_range ?x)) (of_nat (128 + ?y)) = Some ?y"
    using s b(2) by (intro cont_low) simp_all
  have c2: "cont 128 191 (of_nat (128 + ?z)) = Some ?z" using b(3) by (intro cont_low) simp_all
  have c3: "cont 128 191 (of_nat (128 + ?r)) = Some ?r" using b(4) by (intro cont_low) simp_all
  have "four_bytes (of_nat ?x) (of_nat (128 + ?y)) (of_nat (128 + ?z)) (of_nat (128 + ?r)) = Some c"
    unfolding four_bytes_def x(3) c1 m using c2 c3 b(1) by simp
  with assms x show ?thesis by (simp add: utf8_char_def Let_def del: of_nat_add)
qed

lemma decode_char:
  assumes "utf8_ok c"
  shows "utf8_decode (utf8_char c @ rest) = cons_char c (utf8_decode rest)"
proof -
  consider (one) "c < 128" | (two) "128 \<le> c" "c < 2048" | (three) "2048 \<le> c" "c < 65536"
    | (four) "65536 \<le> c" "c < 1114112"
    using assms unfolding utf8_ok_def by linarith
  then show ?thesis
  proof cases
    case one
    then show ?thesis by (simp add: utf8_char_def unat_byte)
  qed (use assms decode_char_two decode_char_three decode_char_four in blast)+
qed

lemma utf8_decode_encode: "utf8_encode s = Inr bs \<Longrightarrow> utf8_decode bs = Inr s"
proof -
  assume "utf8_encode s = Inr bs"
  then have "list_all utf8_ok s" "bs = concat (map utf8_char s)" by (auto simp: utf8_encode_def split: if_splits)
  then show ?thesis
    by (induction s arbitrary: bs) (simp_all add: decode_char cons_char_def del: utf8_decode.simps(2))
qed

lemma utf8_decode_error: "utf8_decode bs = Inl e \<Longrightarrow> e = ValueError"
proof (induction bs arbitrary: e rule: utf8_decode.induct)
  case (2 b bs)
  have c: "cons_char x r = Inl e \<longleftrightarrow> r = Inl e" for x r by (cases r) (simp_all add: cons_char_def)
  from 2 show ?case
    by (simp add: Let_def c split: if_split_asm list.split_asm option.split_asm)
qed simp

end
