(* ===== verification/Json.thy ===== *)
theory Json
  imports Utf8
begin

text \<open>
  The parts of Python's \<open>json\<close> module the sources use: \<open>dumps(obj, ensure_ascii=False)\<close> and
  \<open>loads(text)\<close> with their defaults. The text of a float is Python's \<open>repr\<close> and its parsing
  \<open>float\<close>: both are parameters (a float is a real here). Every error of \<open>loads\<close> is a
  \<open>JSONDecodeError\<close>, a \<open>ValueError\<close>. The recursion limit of the interpreter is not
  modelled; the fuel of the parser always suffices.
\<close>

datatype json = JNull | JBool bool | JInt int | JFloat real | JStr pstr | JList "json list"
  | JDict "(pstr \<times> json) list"

definition rbind :: "'a result \<Rightarrow> ('a \<Rightarrow> 'b result) \<Rightarrow> 'b result" where
  "rbind r f = (case r of Inl e \<Rightarrow> Inl e | Inr x \<Rightarrow> f x)"

lemma rbind_simps [simp]: "rbind (Inl e) f = Inl e" "rbind (Inr x) f = f x"
  by (simp_all add: rbind_def)

section \<open>Printing\<close>

fun nat_digits :: "nat \<Rightarrow> pstr" where
  "nat_digits n = (if n < 10 then [48 + n] else nat_digits (n div 10) @ [48 + n mod 10])"

declare nat_digits.simps [simp del]

definition int_text :: "int \<Rightarrow> pstr" where
  "int_text k = (if k < 0 then 45 # nat_digits (nat (- k)) else nat_digits (nat k))"

definition hex_digit :: "nat \<Rightarrow> nat" where
  "hex_digit n = (if n < 10 then 48 + n else 87 + n)"

definition escape_char :: "nat \<Rightarrow> pstr" where
  "escape_char c =
     (if c = 34 then [92, 34] else if c = 92 then [92, 92]
      else if c = 8 then [92, 98] else if c = 12 then [92, 102] else if c = 10 then [92, 110]
      else if c = 13 then [92, 114] else if c = 9 then [92, 116]
      else if c < 32 then [92, 117, 48, 48, hex_digit (c div 16), hex_digit (c mod 16)]
      else [c])"

definition string_text :: "pstr \<Rightarrow> pstr" where
  "string_text s = 34 # concat (map escape_char s) @ [34]"

fun comma_sep :: "pstr list \<Rightarrow> pstr" where
  "comma_sep [] = []"
| "comma_sep [x] = x"
| "comma_sep (x # xs) = x @ [44, 32] @ comma_sep xs"

fun dumps :: "(real \<Rightarrow> pstr) \<Rightarrow> json \<Rightarrow> pstr" where
  "dumps fr JNull = code_points ''null''"
| "dumps fr (JBool b) = (if b then code_points ''true'' else code_points ''false'')"
| "dumps fr (JInt k) = int_text k"
| "dumps fr (JFloat x) = fr x"
| "dumps fr (JStr s) = string_text s"
| "dumps fr (JList vs) = 91 # comma_sep (map (dumps fr) vs) @ [93]"
| "dumps fr (JDict kvs) =
     123 # comma_sep (map (\<lambda>(k, v). string_text k @ [58, 32] @ dumps fr v) kvs) @ [125]"

section \<open>Scanning\<close>

definition is_ws :: "nat \<Rightarrow> bool" where
  "is_ws c \<longleftrightarrow> c = 32 \<or> c = 9 \<or> c = 10 \<or> c = 13"

definition skip_ws :: "pstr \<Rightarrow> pstr" where
  "skip_ws s = dropWhile is_ws s"

text \<open>The next character that is not white space, and what follows it.\<close>

definition next_char :: "pstr \<Rightarrow> (nat \<times> pstr) result" where
  "next_char s = (case skip_ws s of [] \<Rightarrow> Inl ValueError | x # r \<Rightarrow> Inr (x, r))"

definition expect :: "nat \<Rightarrow> pstr \<Rightarrow> pstr result" where
  "expect c s = (case s of x # r \<Rightarrow> if x = c then Inr r else Inl ValueError | [] \<Rightarrow> Inl ValueError)"

definition hex_val :: "nat \<Rightarrow> nat option" where
  "hex_val c = (if 48 \<le> c \<and> c \<le> 57 then Some (c - 48)
     else if 97 \<le> c \<and> c \<le> 102 then Some (c - 87)
     else if 65 \<le> c \<and> c \<le> 70 then Some (c - 55) else None)"

definition hex4 :: "pstr \<Rightarrow> (nat \<times> pstr) result" where
  "hex4 s =
     (case s of
        a # b # c # d # r \<Rightarrow>
          (case (hex_val a, hex_val b, hex_val c, hex_val d) of
             (Some w, Some x, Some y, Some z) \<Rightarrow> Inr (w * 4096 + x * 256 + y * 16 + z, r)
           | _ \<Rightarrow> Inl ValueError)
      | _ \<Rightarrow> Inl ValueError)"

text \<open>The text after a backslash and \<open>u\<close>, with a surrogate pair joined.\<close>

definition unicode_escape :: "pstr \<Rightarrow> (nat \<times> pstr) result" where
  "unicode_escape s =
     rbind (hex4 s) (\<lambda>(u, r).
       if 55296 \<le> u \<and> u \<le> 56319 \<and> take 2 r = [92, 117] then
         rbind (hex4 (drop 2 r)) (\<lambda>(u2, r2).
           if 56320 \<le> u2 \<and> u2 \<le> 57343 then Inr (65536 + (u - 55296) * 1024 + (u2 - 56320), r2)
           else Inr (u, r))
       else Inr (u, r))"

definition short_escape :: "nat \<Rightarrow> nat option" where
  "short_escape e =
     (if e = 34 \<or> e = 92 \<or> e = 47 then Some e else if e = 98 then Some 8
      else if e = 102 then Some 12 else if e = 110 then Some 10 else if e = 114 then Some 13
      else if e = 116 then Some 9 else None)"

text \<open>One character of a string body after a backslash.\<close>

definition escape :: "pstr \<Rightarrow> (nat \<times> pstr) result" where
  "escape s =
     (case s of
        [] \<Rightarrow> Inl ValueError
      | e # r \<Rightarrow>
          (if e = 117 then unicode_escape r
           else case short_escape e of Some c \<Rightarrow> Inr (c, r) | None \<Rightarrow> Inl ValueError))"

lemma hex4_shorter: "hex4 s = Inr (u, r) \<Longrightarrow> length r < length s"
  by (auto simp: hex4_def split: list.splits option.splits)

lemma unicode_escape_shorter: "unicode_escape s = Inr (u, r) \<Longrightarrow> length r < length s"
  by (auto simp: unicode_escape_def rbind_def split: sum.splits if_splits dest!: hex4_shorter)

lemma escape_shorter: "escape s = Inr (c, r) \<Longrightarrow> length r < length s"
  by (auto simp: escape_def split: list.splits if_splits option.splits dest: unicode_escape_shorter)

definition cons_scan :: "nat \<Rightarrow> (pstr \<times> pstr) result \<Rightarrow> (pstr \<times> pstr) result" where
  "cons_scan c r = map_sum id (map_prod ((#) c) id) r"

text \<open>The body of a string up to the closing quote, and what follows it.\<close>

function scan_str :: "pstr \<Rightarrow> (pstr \<times> pstr) result" where
  "scan_str [] = Inl ValueError"
| "scan_str (c # s) =
     (if c = 34 then Inr ([], s)
      else if c = 92 then
        (case escape s of Inl e \<Rightarrow> Inl e | Inr (x, r) \<Rightarrow> cons_scan x (scan_str r))
      else if c < 32 then Inl ValueError
      else cons_scan c (scan_str s))"
  by pat_completeness auto
termination
  by (relation "measure length") (auto dest: escape_shorter)

definition is_digit :: "nat \<Rightarrow> bool" where
  "is_digit c \<longleftrightarrow> 48 \<le> c \<and> c \<le> 57"

definition digits_value :: "pstr \<Rightarrow> nat" where
  "digits_value ds = foldl (\<lambda>n d. 10 * n + (d - 48)) 0 ds"

text \<open>The three groups of the number grammar; an absent group is the empty text.\<close>

definition int_group :: "pstr \<Rightarrow> pstr" where
  "int_group s =
     (case s of
        [] \<Rightarrow> []
      | c # r \<Rightarrow> if c = 48 then [48] else if is_digit c then takeWhile is_digit s else [])"

definition frac_group :: "pstr \<Rightarrow> pstr" where
  "frac_group s =
     (case s of
        [] \<Rightarrow> []
      | c # r \<Rightarrow> if c = 46 \<and> takeWhile is_digit r \<noteq> [] then c # takeWhile is_digit r else [])"

definition exp_group :: "pstr \<Rightarrow> pstr" where
  "exp_group s =
     (case s of
        [] \<Rightarrow> []
      | c # r \<Rightarrow>
          (let sgn = (case r of x # _ \<Rightarrow> if x = 43 \<or> x = 45 then [x] else [] | [] \<Rightarrow> []);
               ds = takeWhile is_digit (drop (length sgn) r)
           in if (c = 101 \<or> c = 69) \<and> ds \<noteq> [] then c # sgn @ ds else []))"

definition starts_with :: "pstr \<Rightarrow> pstr \<Rightarrow> bool" where
  "starts_with w s \<longleftrightarrow> take (length w) s = w"

definition parse_number :: "(pstr \<Rightarrow> real) \<Rightarrow> pstr \<Rightarrow> (json \<times> pstr) result" where
  "parse_number fp s =
     (let sgn = (if starts_with [45] s then [45] else []);
          s1 = drop (length sgn) s;
          i = int_group s1; s2 = drop (length i) s1;
          f = frac_group s2; s3 = drop (length f) s2;
          x = exp_group s3; s4 = drop (length x) s3
      in if i \<noteq> [] then
           Inr (if f = [] \<and> x = []
                then JInt (if sgn = [] then int (digits_value i) else - int (digits_value i))
                else JFloat (fp (sgn @ i @ f @ x)), s4)
         else if starts_with (code_points ''NaN'') s then Inr (JFloat (fp (code_points ''NaN'')), drop 3 s)
         else if starts_with (code_points ''Infinity'') s
           then Inr (JFloat (fp (code_points ''Infinity'')), drop 8 s)
         else if starts_with (code_points ''-Infinity'') s
           then Inr (JFloat (fp (code_points ''-Infinity'')), drop 9 s)
         else Inl ValueError)"

section \<open>Parsing\<close>

fun parse_value :: "(pstr \<Rightarrow> real) \<Rightarrow> nat \<Rightarrow> pstr \<Rightarrow> (json \<times> pstr) result"
  and parse_members :: "(pstr \<Rightarrow> real) \<Rightarrow> nat \<Rightarrow> pstr \<Rightarrow> ((pstr \<times> json) list \<times> pstr) result"
  and parse_elements :: "(pstr \<Rightarrow> real) \<Rightarrow> nat \<Rightarrow> pstr \<Rightarrow> (json list \<times> pstr) result" where
  "parse_value fp 0 s = Inl RuntimeError"
| "parse_value fp (Suc n) s =
     (case s of
        [] \<Rightarrow> Inl ValueError
      | c # r \<Rightarrow>
          (if c = 34 then rbind (scan_str r) (\<lambda>(t, r1). Inr (JStr t, r1))
           else if c = 123 then
             rbind (next_char r) (\<lambda>(x, r1).
               if x = 125 then Inr (JDict [], r1)
               else if x = 34 then
                 rbind (parse_members fp n r1)
                   (\<lambda>(kvs, r2). Inr (JDict (foldl (\<lambda>d (k, v). AList.update k v d) [] kvs), r2))
               else Inl ValueError)
           else if c = 91 then
             rbind (next_char r) (\<lambda>(x, r1).
               if x = 93 then Inr (JList [], r1)
               else rbind (parse_elements fp n (x # r1)) (\<lambda>(vs, r2). Inr (JList vs, r2)))
           else if starts_with (code_points ''null'') s then Inr (JNull, drop 4 s)
           else if starts_with (code_points ''true'') s then Inr (JBool True, drop 4 s)
           else if starts_with (code_points ''false'') s then Inr (JBool False, drop 5 s)
           else parse_number fp s))"
| "parse_members fp 0 s = Inl RuntimeError"
| "parse_members fp (Suc n) s =
     rbind (scan_str s) (\<lambda>(k, r).
     rbind (expect 58 (skip_ws r)) (\<lambda>r1.
     rbind (parse_value fp n (skip_ws r1)) (\<lambda>(v, r2).
     rbind (next_char r2) (\<lambda>(x, r3).
       if x = 125 then Inr ([(k, v)], r3)
       else if x = 44 then
         rbind (expect 34 (skip_ws r3)) (\<lambda>r4.
         rbind (parse_members fp n r4) (\<lambda>(kvs, r5). Inr ((k, v) # kvs, r5)))
       else Inl ValueError))))"
| "parse_elements fp 0 s = Inl RuntimeError"
| "parse_elements fp (Suc n) s =
     rbind (parse_value fp n s) (\<lambda>(v, r).
     rbind (next_char r) (\<lambda>(x, r1).
       if x = 93 then Inr ([v], r1)
       else if x = 44 then
         rbind (parse_elements fp n (skip_ws r1)) (\<lambda>(vs, r2). Inr (v # vs, r2))
       else Inl ValueError))"

definition loads :: "(pstr \<Rightarrow> real) \<Rightarrow> pstr \<Rightarrow> json result" where
  "loads fp s =
     (if starts_with [65279] s then Inl ValueError
      else
        rbind (parse_value fp (2 * length s + 2) (skip_ws s)) (\<lambda>(v, r).
          if skip_ws r = [] then Inr v else Inl ValueError))"

end
