(* ===== verification/Json_Props.thy ===== *)
theory Json_Props
  imports Json
begin

text \<open>
  The parser consumes text at every step and its fuel never runs out; what \<open>dumps\<close> writes
  for a flat object, \<open>loads\<close> reads back.
\<close>

section \<open>Consumption and fuel\<close>

lemma rbind_Inr: "rbind r f = Inr y \<longleftrightarrow> (\<exists>x. r = Inr x \<and> f x = Inr y)"
  by (cases r) simp_all

lemma rbind_Inl: "rbind r f = Inl e \<longleftrightarrow> r = Inl e \<or> (\<exists>x. r = Inr x \<and> f x = Inl e)"
  by (cases r) simp_all

lemma length_skip_ws: "length (skip_ws s) \<le> length s"
  by (simp add: skip_ws_def length_dropWhile_le)

lemma skip_ws_Cons: "skip_ws s = x # r \<Longrightarrow> length r < length s"
  using length_skip_ws [of s] by simp

lemma scan_str_shorter: "scan_str s = Inr (t, r) \<Longrightarrow> length r < length s"
proof (induction s arbitrary: t rule: scan_str.induct)
  case (2 c s)
  have c: "cons_scan x y = Inr (t, r) \<longleftrightarrow> (\<exists>t'. y = Inr (t', r) \<and> t = x # t')" for x y
    by (cases y) (auto simp: cons_scan_def)
  from 2 show ?case
    by (fastforce simp: c split: if_splits sum.splits dest: escape_shorter)
qed simp

lemma expect_Inr: "expect c s = Inr r \<longleftrightarrow> s = c # r"
  by (auto simp: expect_def split: list.split)

lemma next_char_Inr: "next_char s = Inr (x, r) \<longleftrightarrow> skip_ws s = x # r"
  by (auto simp: next_char_def split: list.split)

lemma next_char_shorter: "next_char s = Inr (x, r) \<Longrightarrow> length r < length s"
  by (simp add: next_char_Inr skip_ws_Cons)

lemma int_group_length: "length (int_group s) \<le> length s"
  by (auto simp: int_group_def length_takeWhile_le le_SucI split: list.split)

lemma parse_number_shorter: "parse_number fp s = Inr (v, r) \<Longrightarrow> length r < length s"
proof -
  assume p: "parse_number fp s = Inr (v, r)"
  have w: "starts_with w s \<Longrightarrow> length w \<le> length s" for w
    by (metis length_take min.cobounded1 starts_with_def)
  let ?s1 = "drop (length (if starts_with [45] s then [45 :: nat] else [])) s"
  have drop_less: "length (drop k s1) < length s" if "0 < k" "s1 \<noteq> []" "length s1 \<le> length s" for k and s1 :: pstr
    using that by (cases s1) auto
  have "int_group ?s1 \<noteq> [] \<Longrightarrow> ?s1 \<noteq> []" by (auto simp: int_group_def split: list.splits)
  then have "int_group ?s1 \<noteq> [] \<Longrightarrow> length (drop (length (int_group ?s1)) ?s1) < length s"
    by (intro drop_less) auto
  with p w [of "code_points ''NaN''"] w [of "code_points ''Infinity''"] w [of "code_points ''-Infinity''"]
  show ?thesis by (auto simp: parse_number_def Let_def code_points_def split: if_splits)
qed

lemma parse_value_obj_shorter:
  assumes "\<And>t kvs r. parse_members fp n t = Inr (kvs, r) \<Longrightarrow> length r < length t"
    and "\<And>t vs r. parse_elements fp n t = Inr (vs, r) \<Longrightarrow> length r < length t"
    and p: "parse_value fp (Suc n) s = Inr (v, r)"
  shows "length r < length s"
proof -
  have w: "starts_with x s \<Longrightarrow> length x \<le> length s" for x
    by (metis length_take min.cobounded1 starts_with_def)
  obtain c s' where s: "s = c # s'" using p by (cases s) auto
  consider (str) "c = 34" | (obj) "c = 123" | (arr) "c = 91" | (other) "c \<notin> {34, 123, 91}" by blast
  then show ?thesis
  proof cases
    case str
    with p s show ?thesis by (auto simp: rbind_Inr dest!: scan_str_shorter)
  next
    case obj
    with p s obtain x r1 where n: "next_char s' = Inr (x, r1)"
      and c: "r = r1 \<or> (\<exists>kvs. parse_members fp n r1 = Inr (kvs, r))"
      by (auto simp: rbind_Inr split: if_splits)
    with assms(1) [of r1 _ r] next_char_shorter [OF n] s show ?thesis by auto
  next
    case arr
    with p s obtain x r1 where n: "next_char s' = Inr (x, r1)"
      and c: "r = r1 \<or> (\<exists>vs. parse_elements fp n (x # r1) = Inr (vs, r))"
      by (auto simp: rbind_Inr split: if_splits)
    with assms(2) [of "x # r1" _ r] next_char_shorter [OF n] s show ?thesis by fastforce
  next
    case other
    with p s w [of "code_points ''null''"] w [of "code_points ''true''"] w [of "code_points ''false''"]
      parse_number_shorter [of fp s v r]
    show ?thesis by (auto simp: code_points_def split: if_splits)
  qed
qed

lemma parse_members_Inr:
  assumes "parse_members fp (Suc n) s = Inr (kvs, r)"
  obtains k r0 r1 v r2 x r3 where "scan_str s = Inr (k, r0)" and "skip_ws r0 = 58 # r1"
    and "parse_value fp n (skip_ws r1) = Inr (v, r2)" and "next_char r2 = Inr (x, r3)"
    and "r = r3 \<or> (\<exists>r4 kvs'. skip_ws r3 = 34 # r4 \<and> parse_members fp n r4 = Inr (kvs', r))"
  using assms by (auto simp: rbind_Inr expect_Inr split: if_splits)

lemma parse_elements_Inr:
  assumes "parse_elements fp (Suc n) s = Inr (vs, r)"
  obtains v r0 x r1 where "parse_value fp n s = Inr (v, r0)" and "next_char r0 = Inr (x, r1)"
    and "r = r1 \<or> (\<exists>vs'. parse_elements fp n (skip_ws r1) = Inr (vs', r))"
  using assms by (auto simp: rbind_Inr split: if_splits)

lemma parse_shorter:
  "(\<forall>s v r. parse_value fp n s = Inr (v, r) \<longrightarrow> length r < length s) \<and>
   (\<forall>s kvs r. parse_members fp n s = Inr (kvs, r) \<longrightarrow> length r < length s) \<and>
   (\<forall>s vs r. parse_elements fp n s = Inr (vs, r) \<longrightarrow> length r < length s)"
proof (induction n)
  case (Suc n)
  have m: "length r < length s" if "parse_members fp (Suc n) s = Inr (kvs, r)" for s kvs r
  proof -
    from that obtain k r0 r1 v r2 x r3 where p: "scan_str s = Inr (k, r0)" "skip_ws r0 = 58 # r1"
      "parse_value fp n (skip_ws r1) = Inr (v, r2)" "next_char r2 = Inr (x, r3)"
      and c: "r = r3 \<or> (\<exists>r4 kvs'. skip_ws r3 = 34 # r4 \<and> parse_members fp n r4 = Inr (kvs', r))"
      by (rule parse_members_Inr)
    have "length r2 < length (skip_ws r1)" using Suc p(3) by blast
    then have "length r3 < length s"
      using scan_str_shorter [OF p(1)] skip_ws_Cons [OF p(2)] next_char_shorter [OF p(4)]
        length_skip_ws [of r1] by linarith
    with c Suc show ?thesis by (metis less_trans skip_ws_Cons)
  qed
  have e: "length r < length s" if "parse_elements fp (Suc n) s = Inr (vs, r)" for s vs r
  proof -
    from that obtain v r0 x r1 where p: "parse_value fp n s = Inr (v, r0)" "next_char r0 = Inr (x, r1)"
      and c: "r = r1 \<or> (\<exists>vs'. parse_elements fp n (skip_ws r1) = Inr (vs', r))"
      by (rule parse_elements_Inr)
    have "length r0 < length s" using Suc p(1) by blast
    then have "length r1 < length s" using next_char_shorter [OF p(2)] by linarith
    with c Suc length_skip_ws [of r1] show ?thesis by (metis less_le_trans less_trans)
  qed
  from m e Suc parse_value_obj_shorter [of fp n] show ?case by blast
qed simp

lemma scan_str_error: "scan_str s = Inl e \<Longrightarrow> e = ValueError"
proof (induction s rule: scan_str.induct)
  case (2 c s)
  have c: "cons_scan x y = Inl e \<longleftrightarrow> y = Inl e" for x y by (cases y) (auto simp: cons_scan_def)
  have h: "hex4 s' = Inl e \<Longrightarrow> e = ValueError" for s'
    by (auto simp: hex4_def split: list.splits option.splits)
  then have "unicode_escape s' = Inl e \<Longrightarrow> e = ValueError" for s'
    by (auto simp: unicode_escape_def rbind_Inl split: if_splits)
  then have "escape s' = Inl e \<Longrightarrow> e = ValueError" for s'
    by (auto simp: escape_def split: list.splits if_splits option.splits)
  with 2 show ?case by (auto simp: c split: if_splits sum.splits)
qed simp

lemma next_char_error: "next_char s = Inl e \<Longrightarrow> e = ValueError"
  by (auto simp: next_char_def split: list.splits)

lemma expect_error: "expect c s = Inl e \<Longrightarrow> e = ValueError"
  by (auto simp: expect_def split: list.splits if_splits)

lemma parse_number_error: "parse_number fp s = Inl e \<Longrightarrow> e = ValueError"
  by (auto simp: parse_number_def Let_def split: if_splits)

lemmas parse_errors = scan_str_error next_char_error expect_error parse_number_error

lemma parse_fuel:
  "(\<forall>s e. 2 * length s + 1 \<le> n \<longrightarrow> parse_value fp n s = Inl e \<longrightarrow> e = ValueError) \<and>
   (\<forall>s e. 2 * length s + 1 \<le> n \<longrightarrow> parse_members fp n s = Inl e \<longrightarrow> e = ValueError) \<and>
   (\<forall>s e. 2 * length s + 2 \<le> n \<longrightarrow> parse_elements fp n s = Inl e \<longrightarrow> e = ValueError)"
proof (induction n)
  case (Suc n)
  have v: "e = ValueError" if l: "2 * length s + 1 \<le> Suc n" and p: "parse_value fp (Suc n) s = Inl e" for s e
  proof (cases s)
    case Nil
    with p show ?thesis by simp
  next
    case (Cons c s')
    have m: "parse_members fp n r1 = Inl e \<Longrightarrow> e = ValueError" if "next_char s' = Inr (x, r1)" for x r1
    proof -
      have "2 * length r1 + 1 \<le> n" using next_char_shorter [OF that] l Cons by simp
      with Suc show "parse_members fp n r1 = Inl e \<Longrightarrow> e = ValueError" by blast
    qed
    have el: "parse_elements fp n (x # r1) = Inl e \<Longrightarrow> e = ValueError" if "next_char s' = Inr (x, r1)" for x r1
    proof -
      have "2 * length (x # r1) + 2 \<le> n" using next_char_shorter [OF that] l Cons by simp
      with Suc show "parse_elements fp n (x # r1) = Inl e \<Longrightarrow> e = ValueError" by blast
    qed
    from p Cons m el show ?thesis
      by (auto simp: rbind_Inl split: if_splits dest: parse_errors)
  qed
  have m: "e = ValueError" if l: "2 * length s + 1 \<le> Suc n" and p: "parse_members fp (Suc n) s = Inl e" for s e
  proof -
    have v': "parse_value fp n (skip_ws r1) = Inl e \<Longrightarrow> e = ValueError"
      if "scan_str s = Inr (k, r)" "skip_ws r = 58 # r1" for k r r1
    proof -
      have "2 * length (skip_ws r1) + 1 \<le> n"
        using scan_str_shorter [OF that(1)] skip_ws_Cons [OF that(2)] length_skip_ws [of r1] l by linarith
      with Suc show "parse_value fp n (skip_ws r1) = Inl e \<Longrightarrow> e = ValueError" by blast
    qed
    have m': "parse_members fp n r4 = Inl e \<Longrightarrow> e = ValueError"
      if "scan_str s = Inr (k, r)" "skip_ws r = 58 # r1" "parse_value fp n (skip_ws r1) = Inr (w, r2)"
        "next_char r2 = Inr (x, r3)" "skip_ws r3 = 34 # r4" for k r r1 w r2 x r3 r4
    proof -
      have "length r2 < length (skip_ws r1)" using parse_shorter that(3) by blast
      then have "2 * length r4 + 1 \<le> n"
        using scan_str_shorter [OF that(1)] skip_ws_Cons [OF that(2)] length_skip_ws [of r1]
          next_char_shorter [OF that(4)] skip_ws_Cons [OF that(5)] l by linarith
      with Suc show "parse_members fp n r4 = Inl e \<Longrightarrow> e = ValueError" by blast
    qed
    from p v' m' show ?thesis
      by (auto simp: rbind_Inl expect_Inr split: if_splits dest: parse_errors)
  qed
  have el: "e = ValueError" if l: "2 * length s + 2 \<le> Suc n" and p: "parse_elements fp (Suc n) s = Inl e" for s e
  proof -
    have "parse_value fp n s = Inl e \<Longrightarrow> e = ValueError" using Suc l by simp
    moreover have "parse_elements fp n (skip_ws r1) = Inl e \<Longrightarrow> e = ValueError"
      if "parse_value fp n s = Inr (w, r)" "next_char r = Inr (x, r1)" for w r x r1
    proof -
      have "length r < length s" using parse_shorter that(1) by blast
      then have "2 * length (skip_ws r1) + 2 \<le> n"
        using next_char_shorter [OF that(2)] length_skip_ws [of r1] l by linarith
      with Suc show "parse_elements fp n (skip_ws r1) = Inl e \<Longrightarrow> e = ValueError" by blast
    qed
    ultimately show ?thesis using p
      by (auto simp: rbind_Inl split: if_splits dest: parse_errors)
  qed
  from v m el show ?case by blast
qed simp

lemma loads_error: "loads fp s = Inl e \<Longrightarrow> e = ValueError"
proof -
  assume l: "loads fp s = Inl e"
  have "2 * length (skip_ws s) + 1 \<le> 2 * length s + 2" using length_skip_ws [of s] by linarith
  then have "parse_value fp (2 * length s + 2) (skip_ws s) = Inl e \<Longrightarrow> e = ValueError"
    using parse_fuel by blast
  with l show ?thesis by (auto simp: loads_def rbind_Inl split: if_splits)
qed

section \<open>Reading back what was written\<close>

lemma is_digit_48 [simp]: "is_digit (48 + n) \<longleftrightarrow> n < 10"
  by (auto simp: is_digit_def)

lemma nat_digits_digits: "list_all is_digit (nat_digits n)"
  by (induction n rule: nat_digits.induct) (simp add: nat_digits.simps)

lemma nat_digits_value: "digits_value (nat_digits n) = n"
proof (induction n rule: nat_digits.induct)
  case (1 n)
  have a: "digits_value (xs @ [d]) = 10 * digits_value xs + (d - 48)" for xs d
    by (simp add: digits_value_def)
  show ?case
  proof (cases "n < 10")
    case True
    then show ?thesis by (simp add: nat_digits.simps [of n] digits_value_def)
  next
    case False
    with 1 show ?thesis by (simp add: nat_digits.simps [of n] a)
  qed
qed

lemma nat_digits_head: "\<exists>d ds. nat_digits n = d # ds \<and> is_digit d \<and> (d = 48 \<longrightarrow> ds = [])"
proof (induction n rule: nat_digits.induct)
  case (1 n)
  show ?case
  proof (cases "n < 10")
    case True
    then show ?thesis by (simp add: nat_digits.simps [of n])
  next
    case False
    with 1 obtain d ds where d: "nat_digits (n div 10) = d # ds" "is_digit d" "d = 48 \<longrightarrow> ds = []" by blast
    have "d \<noteq> 48"
    proof
      assume "d = 48"
      with d have "nat_digits (n div 10) = [48]" by simp
      with nat_digits_value [of "n div 10"] have "n div 10 = 0" by (simp add: digits_value_def)
      with False show False by simp
    qed
    with d False show ?thesis by (simp add: nat_digits.simps [of n])
  qed
qed

text \<open>What may follow a number.\<close>

definition number_end :: "pstr \<Rightarrow> bool" where
  "number_end s \<longleftrightarrow> (case s of [] \<Rightarrow> True | c # _ \<Rightarrow> \<not> is_digit c \<and> c \<noteq> 46 \<and> c \<noteq> 101 \<and> c \<noteq> 69)"

lemma takeWhile_end: "list_all is_digit ds \<Longrightarrow> number_end rest \<Longrightarrow> takeWhile is_digit (ds @ rest) = ds"
  by (induction ds) (auto simp: number_end_def split: list.splits)

lemma int_group_digits:
  assumes "number_end rest"
  shows "int_group (nat_digits n @ rest) = nat_digits n"
proof -
  obtain d ds where d: "nat_digits n = d # ds" "is_digit d" "d = 48 \<longrightarrow> ds = []"
    using nat_digits_head by blast
  have "takeWhile is_digit (nat_digits n @ rest) = nat_digits n"
    by (rule takeWhile_end [OF nat_digits_digits assms])
  with d show ?thesis by (auto simp: int_group_def)
qed

lemma end_groups: "number_end rest \<Longrightarrow> frac_group rest = [] \<and> exp_group rest = []"
  by (auto simp: number_end_def frac_group_def exp_group_def Let_def split: list.splits)

lemma parse_int_text:
  assumes "number_end rest"
  shows "parse_number fp (int_text k @ rest) = Inr (JInt k, rest)"
proof (cases "k < 0")
  case True
  have "nat_digits (nat (- k)) \<noteq> []" using nat_digits_head [of "nat (- k)"] by auto
  with True assms show ?thesis
    by (simp add: parse_number_def int_text_def starts_with_def int_group_digits end_groups nat_digits_value Let_def)
next
  case False
  obtain d ds where d: "nat_digits (nat k) = d # ds" "is_digit d" using nat_digits_head by blast
  then have "\<not> starts_with [45] (nat_digits (nat k) @ rest)" by (auto simp: starts_with_def is_digit_def)
  with False d(1) assms int_group_digits [OF assms, of "nat k"] nat_digits_value [of "nat k"] show ?thesis
    by (simp add: parse_number_def int_text_def end_groups Let_def)
qed

lemma hex_val_digit: "n < 16 \<Longrightarrow> hex_val (hex_digit n) = Some n"
  by (auto simp: hex_val_def hex_digit_def)

lemma scan_escaped: "scan_str (escape_char c @ s) = cons_scan c (scan_str s)"
proof -
  consider "c = 34" | "c = 92" | "c = 8" | "c = 12" | "c = 10" | "c = 13" | "c = 9"
    | (ctrl) "c < 32" "c \<notin> {8, 9, 10, 12, 13}" | (plain) "32 \<le> c" "c \<noteq> 34" "c \<noteq> 92" by fastforce
  then show ?thesis
  proof cases
    case ctrl
    have "hex_val 48 = Some 0" by (simp add: hex_val_def)
    moreover have "hex_val (hex_digit (c div 16)) = Some (c div 16)" "hex_val (hex_digit (c mod 16)) = Some (c mod 16)"
      using ctrl by (simp_all add: hex_val_digit)
    moreover have "c div 16 * 16 + c mod 16 = c" by simp
    ultimately have "hex4 ([48, 48, hex_digit (c div 16), hex_digit (c mod 16)] @ s) = Inr (c, s)"
      by (simp add: hex4_def)
    with ctrl show ?thesis by (simp add: escape_char_def escape_def unicode_escape_def)
  qed (simp_all add: escape_char_def escape_def short_escape_def)
qed

lemma scan_string_text: "scan_str (concat (map escape_char s) @ 34 # rest) = Inr (s, rest)"
  by (induction s) (simp_all add: scan_escaped cons_scan_def)

text \<open>
  The assumption on floats, for the float at hand: its text is a number that \<open>float\<close> reads
  back, with a fraction or an exponent so that it is not taken for an integer.
\<close>

definition float_ok :: "(real \<Rightarrow> pstr) \<Rightarrow> (pstr \<Rightarrow> real) \<Rightarrow> real \<Rightarrow> bool" where
  "float_ok fr fp x \<longleftrightarrow> list_all utf8_ok (fr x) \<and> (case fr x of [] \<Rightarrow> False | c # _ \<Rightarrow> is_digit c \<or> c = 45) \<and>
     (\<forall>rest. number_end rest \<longrightarrow> parse_number fp (fr x @ rest) = Inr (JFloat x, rest))"

fun scalar_ok :: "(real \<Rightarrow> pstr) \<Rightarrow> (pstr \<Rightarrow> real) \<Rightarrow> json \<Rightarrow> bool" where
  "scalar_ok fr fp (JFloat x) = float_ok fr fp x"
| "scalar_ok fr fp (JList vs) = False"
| "scalar_ok fr fp (JDict kvs) = False"
| "scalar_ok fr fp v = True"

lemma parse_number_start:
  assumes "is_digit c \<or> c = 45"
  shows "parse_value fp (Suc n) (c # s) = parse_number fp (c # s)"
  using assms by (auto simp: starts_with_def code_points_def is_digit_def)

lemma parse_scalar:
  assumes "scalar_ok fr fp v" and "number_end rest"
  shows "parse_value fp (Suc n) (dumps fr v @ rest) = Inr (v, rest)"
proof (cases v)
  case (JInt k)
  obtain d ds where d: "int_text k = d # ds" "is_digit d \<or> d = 45"
    using nat_digits_head [of "nat k"] by (cases "k < 0") (auto simp: int_text_def)
  with JInt parse_int_text [OF assms(2), of fp k] parse_number_start [of d fp n "ds @ rest"] show ?thesis
    by simp
next
  case (JFloat x)
  with assms obtain c s where c: "fr x = c # s" "is_digit c \<or> c = 45"
    "parse_number fp (fr x @ rest) = Inr (JFloat x, rest)"
    by (auto simp: float_ok_def split: list.splits)
  with JFloat parse_number_start [of c fp n "s @ rest"] show ?thesis by simp
next
  case (JStr s)
  then show ?thesis by (simp add: string_text_def scan_string_text)
next
  case (JBool b)
  then show ?thesis by (cases b) (simp_all add: code_points_def starts_with_def)
qed (use assms in \<open>simp_all add: code_points_def starts_with_def\<close>)

lemma dumps_head:
  assumes "scalar_ok fr fp v"
  shows "skip_ws (dumps fr v @ rest) = dumps fr v @ rest"
proof -
  obtain c s where "dumps fr v = c # s" "\<not> is_ws c"
  proof (cases v)
    case (JInt k)
    then show ?thesis using that nat_digits_head [of "nat k"] nat_digits_head [of "nat (- k)"]
      by (cases "k < 0") (auto simp: int_text_def is_ws_def is_digit_def)
  next
    case (JFloat x)
    then show ?thesis using that assms
      by (auto simp: float_ok_def is_ws_def is_digit_def split: list.splits)
  next
    case (JBool b)
    then show ?thesis using that by (cases b) (simp_all add: code_points_def is_ws_def)
  qed (use assms that in \<open>simp_all add: code_points_def is_ws_def string_text_def\<close>)
  then show ?thesis by (simp add: skip_ws_def)
qed

abbreviation member_text :: "(real \<Rightarrow> pstr) \<Rightarrow> pstr \<times> json \<Rightarrow> pstr" where
  "member_text fr \<equiv> (\<lambda>(k, v). string_text k @ [58, 32] @ dumps fr v)"

definition flat_ok :: "(real \<Rightarrow> pstr) \<Rightarrow> (pstr \<Rightarrow> real) \<Rightarrow> (pstr \<times> json) list \<Rightarrow> bool" where
  "flat_ok fr fp kvs \<longleftrightarrow> list_all (\<lambda>(k, v). scalar_ok fr fp v) kvs"

lemma expect_58: "expect c (c # s) = Inr s"
  by (simp add: expect_def)

lemma parse_members_text:
  assumes "flat_ok fr fp kvs" and "kvs \<noteq> []" and "2 * length kvs \<le> n"
  shows "parse_members fp n (tl (comma_sep (map (member_text fr) kvs)) @ 125 # rest) = Inr (kvs, rest)"
  using assms
proof (induction kvs arbitrary: n)
  case (Cons kv kvs)
  obtain k v where kv: "kv = (k, v)" by fastforce
  obtain m where n: "n = Suc (Suc m)" using Cons.prems(3) by (cases n; cases "n - 1") auto
  have sc: "scalar_ok fr fp v" using Cons.prems(1) kv by (simp add: flat_ok_def)
  have step: "parse_members fp n (concat (map escape_char k) @ 34 # 58 # 32 # dumps fr v @ y # tail) =
      (if y = 125 then Inr ([(k, v)], tail)
       else if y = 44 then rbind (expect 34 (skip_ws tail)) (\<lambda>r4.
         rbind (parse_members fp (Suc m) r4) (\<lambda>(kvs, r5). Inr ((k, v) # kvs, r5)))
       else Inl ValueError)" if y: "y = 125 \<or> y = 44" for y tail
  proof -
    have e: "number_end (y # tail)" using y by (auto simp: number_end_def is_digit_def)
    have w: "skip_ws (32 # dumps fr v @ y # tail) = dumps fr v @ y # tail"
      using dumps_head [OF sc, of "y # tail"] by (simp add: skip_ws_def is_ws_def)
    have c: "skip_ws (58 # s) = 58 # s" for s by (simp add: skip_ws_def is_ws_def)
    have x: "next_char (y # tail) = Inr (y, tail)" using y by (auto simp: next_char_def skip_ws_def is_ws_def)
    show ?thesis
      unfolding n parse_members.simps(2) scan_string_text rbind_simps prod.case c
      by (simp add: expect_58 w parse_scalar [OF sc e] x del: parse_value.simps parse_members.simps)
  qed
  show ?case
  proof (cases kvs)
    case Nil
    with step [of 125 rest] kv show ?thesis by (simp add: string_text_def)
  next
    case (Cons kv2 kvs2)
    have fl: "flat_ok fr fp kvs" using Cons.prems(1) by (simp add: flat_ok_def)
    obtain k2 v2 where kv2: "kv2 = (k2, v2)" by fastforce
    let ?t = "comma_sep (map (member_text fr) kvs)"
    have t: "?t = 34 # tl ?t" using Cons kv2 by (cases kvs2) (simp_all add: string_text_def)
    have ex: "expect 34 (skip_ws (32 # ?t @ 125 # rest)) = Inr (tl ?t @ 125 # rest)"
      by (subst t) (simp add: skip_ws_def is_ws_def expect_def)
    have ih: "parse_members fp (Suc m) (tl ?t @ 125 # rest) = Inr (kvs, rest)"
      by (rule Cons.IH [OF fl]) (use Cons Cons.prems n in auto)
    have eq: "tl (comma_sep (map (member_text fr) (kv # kvs))) @ 125 # rest =
        concat (map escape_char k) @ 34 # 58 # 32 # dumps fr v @ 44 # 32 # ?t @ 125 # rest"
      using Cons kv by (simp add: string_text_def)
    have "parse_members fp n (concat (map escape_char k) @ 34 # 58 # 32 # dumps fr v @ 44 # 32 # ?t @ 125 # rest)
      = rbind (expect 34 (skip_ws (32 # ?t @ 125 # rest))) (\<lambda>r4.
         rbind (parse_members fp (Suc m) r4) (\<lambda>(kvs, r5). Inr ((k, v) # kvs, r5)))"
      using step [of 44 "32 # ?t @ 125 # rest"] by (simp del: parse_members.simps comma_sep.simps)
    then show ?thesis unfolding eq ex rbind_simps ih by (simp add: kv)
  qed
qed simp

lemma foldl_update_distinct:
  "distinct (dict_keys (d @ kvs)) \<Longrightarrow> foldl (\<lambda>d (k, v). AList.update k v d) d kvs = d @ kvs"
proof (induction kvs arbitrary: d)
  case (Cons kv kvs)
  obtain k v where kv: "kv = (k, v)" by fastforce
  have "\<not> dict_mem k d" using Cons.prems kv by (auto simp: dict_mem_keys)
  then have "AList.update k v d = d @ [(k, v)]" by (rule update_append)
  with Cons.IH [of "d @ [(k, v)]"] Cons.prems kv show ?case by simp
qed simp

lemma comma_sep_length: "list_all (\<lambda>x. 2 \<le> length x) xs \<Longrightarrow> 2 * length xs \<le> length (comma_sep xs)"
  by (induction xs rule: comma_sep.induct) auto

lemma loads_dumps_flat:
  assumes "flat_ok fr fp kvs" and "distinct (dict_keys kvs)"
  shows "loads fp (dumps fr (JDict kvs)) = Inr (JDict kvs)"
proof (cases "kvs = []")
  case True
  have "parse_value fp (Suc 5) [123, 125] = Inr (JDict [], [])"
    unfolding parse_value.simps by (simp add: next_char_def skip_ws_def is_ws_def)
  with True show ?thesis
    by (simp add: loads_def starts_with_def skip_ws_def is_ws_def del: parse_value.simps)
next
  case False
  let ?t = "comma_sep (map (member_text fr) kvs)"
  obtain k v kvs' where kvs: "kvs = (k, v) # kvs'" using False by (cases kvs) auto
  have t: "?t = 34 # tl ?t" using kvs by (cases kvs') (simp_all add: string_text_def)
  have "2 * length kvs \<le> length ?t"
    using comma_sep_length [of "map (member_text fr) kvs"]
    by (simp add: list_all_iff string_text_def split_beta)
  then have len: "2 * length kvs \<le> 2 * length (dumps fr (JDict kvs)) + 1" by simp
  have m: "parse_members fp (2 * length (dumps fr (JDict kvs)) + 1) (tl ?t @ 125 # []) = Inr (kvs, [])"
    by (rule parse_members_text [OF assms(1) False len])
  have nc: "next_char (?t @ [125]) = Inr (34, tl ?t @ [125])"
    by (subst t) (simp add: next_char_def skip_ws_def is_ws_def)
  have "parse_value fp (Suc (2 * length (dumps fr (JDict kvs)) + 1)) (123 # ?t @ [125]) = Inr (JDict kvs, [])"
    using m nc foldl_update_distinct [of "[]" kvs] assms(2) by (simp del: parse_members.simps)
  then show ?thesis
    by (simp add: loads_def starts_with_def skip_ws_def is_ws_def)
qed

text \<open>The text is valid for UTF-8 when its strings are.\<close>

lemma utf8_ok_ascii [simp]: "c < 128 \<Longrightarrow> utf8_ok c"
  by (simp add: utf8_ok_def)

lemma nat_digits_utf8: "list_all utf8_ok (nat_digits n)"
  using nat_digits_digits [of n] by (auto simp: list_all_iff is_digit_def)

lemma escape_char_utf8: "list_all utf8_ok (escape_char c) = utf8_ok c"
  by (auto simp: escape_char_def hex_digit_def)

lemma string_text_utf8: "list_all utf8_ok (string_text s) = list_all utf8_ok s"
  by (induction s) (auto simp: string_text_def escape_char_utf8)

fun strings_ok :: "json \<Rightarrow> bool" where
  "strings_ok (JStr s) = list_all utf8_ok s"
| "strings_ok v = True"

lemma scalar_text_utf8:
  assumes "scalar_ok fr fp v"
  shows "list_all utf8_ok (dumps fr v) = strings_ok v"
proof (cases v)
  case (JInt k)
  then show ?thesis by (simp add: int_text_def nat_digits_utf8)
next
  case (JBool b)
  then show ?thesis by (cases b) (simp_all add: code_points_def)
qed (use assms in \<open>simp_all add: code_points_def string_text_utf8 float_ok_def\<close>)

lemma comma_sep_utf8: "list_all utf8_ok (comma_sep xs) = list_all (list_all utf8_ok) xs"
  by (induction xs rule: comma_sep.induct) auto

lemma dumps_flat_utf8:
  assumes "flat_ok fr fp kvs"
  shows "list_all utf8_ok (dumps fr (JDict kvs)) =
    list_all (\<lambda>(k, v). list_all utf8_ok k \<and> strings_ok v) kvs"
proof -
  have "list_all utf8_ok (member_text fr kv) = (case kv of (k, v) \<Rightarrow> list_all utf8_ok k \<and> strings_ok v)"
    if "kv \<in> set kvs" for kv
    using that assms scalar_text_utf8 [of fr fp "snd kv"]
    by (auto simp: flat_ok_def list_all_iff [of "\<lambda>(k, v). scalar_ok fr fp v"] string_text_utf8
        split: prod.splits)
  then have "list_all (list_all utf8_ok) (map (member_text fr) kvs) =
      list_all (\<lambda>(k, v). list_all utf8_ok k \<and> strings_ok v) kvs"
    unfolding list_all_iff [of "list_all utf8_ok"] list_all_iff [of "\<lambda>(k, v). list_all utf8_ok k \<and> strings_ok v"]
    by simp
  then show ?thesis by (simp add: comma_sep_utf8)
qed

end
