(* ===== verification/Chat_Codec.thy ===== *)
theory Chat_Codec
  imports Framing Json_Props
begin

text \<open>
  \<open>photontcp/app/codec.py\<close>: the chat wire format. \<open>fr\<close> and \<open>fp\<close> are the text of a float and
  its parsing (see \<open>Json\<close>). \<open>_decode_body\<close> does not check the types of the three fields, so a
  decoded message carries JSON values.
\<close>

definition LENGTH_SIZE :: nat where "LENGTH_SIZE = calcsize ''>I''"

definition MAX_MESSAGE_BYTES :: nat where "MAX_MESSAGE_BYTES = 2 ^ 20"

record ChatMessage =
  cm_msg_id :: json
  cm_timestamp :: json
  cm_text :: json

definition chat_object :: "ChatMessage \<Rightarrow> (pstr \<times> json) list" where
  "chat_object msg =
     [(code_points ''msg_id'', cm_msg_id msg), (code_points ''timestamp'', cm_timestamp msg),
      (code_points ''text'', cm_text msg)]"

definition encode_message :: "(real \<Rightarrow> pstr) \<Rightarrow> ChatMessage \<Rightarrow> bytes result" where
  "encode_message fr msg =
     rbind (utf8_encode (dumps fr (JDict (chat_object msg)))) (\<lambda>body.
       if length body > MAX_MESSAGE_BYTES then Inl ValueError
       else rbind (struct_pack ''>I'' [int (length body)]) (\<lambda>prefix. Inr (prefix @ body)))"

definition get_field :: "string \<Rightarrow> (pstr \<times> json) list \<Rightarrow> json result" where
  "get_field k d = (case map_of d (code_points k) of None \<Rightarrow> Inl KeyError | Some v \<Rightarrow> Inr v)"

text \<open>Every exception of the parse is a \<open>ValueError\<close>; so is the \<open>KeyError\<close> of a missing field.\<close>

definition decode_body :: "(pstr \<Rightarrow> real) \<Rightarrow> bytes \<Rightarrow> ChatMessage result" where
  "decode_body fp body =
     (case rbind (utf8_decode body) (loads fp) of
        Inl e \<Rightarrow> Inl e
      | Inr (JDict obj) \<Rightarrow>
          (case rbind (get_field ''msg_id'' obj) (\<lambda>i. rbind (get_field ''timestamp'' obj) (\<lambda>t.
                rbind (get_field ''text'' obj) (\<lambda>x.
                  Inr \<lparr>cm_msg_id = i, cm_timestamp = t, cm_text = x\<rparr>))) of
             Inl e \<Rightarrow> Inl ValueError
           | Inr m \<Rightarrow> Inr m)
      | Inr _ \<Rightarrow> Inl ValueError)"

section \<open>The reassembler\<close>

definition length_prefix :: "bytes \<Rightarrow> nat" where
  "length_prefix buf = nat (be_decode (take LENGTH_SIZE buf))"

text \<open>The loop of \<open>StreamReassembler.feed\<close> on its buffer.\<close>

function chat_loop :: "(pstr \<Rightarrow> real) \<Rightarrow> bytes \<Rightarrow> ChatMessage list result \<times> bytes" where
  "chat_loop fp buf =
     (if length buf < LENGTH_SIZE then (Inr [], buf)
      else
        (let len = length_prefix buf; frame_end = LENGTH_SIZE + len in
         if len > MAX_MESSAGE_BYTES then (Inl ValueError, buf)
         else if length buf < frame_end then (Inr [], buf)
         else
           (case decode_body fp (drop LENGTH_SIZE (take frame_end buf)) of
              Inl e \<Rightarrow> (Inl e, buf)
            | Inr m \<Rightarrow> cons_frame m (chat_loop fp (drop frame_end buf)))))"
  by pat_completeness auto
termination
  by (relation "measure (\<lambda>(fp, buf). length buf)")
    (auto simp: LENGTH_SIZE_def calcsize_def)

declare chat_loop.simps [simp del]

definition chat_feed :: "(pstr \<Rightarrow> real) \<Rightarrow> bytes \<Rightarrow> bytes \<Rightarrow> ChatMessage list result \<times> bytes" where
  "chat_feed fp buf data = chat_loop fp (buf @ data)"

section \<open>The reassembler as an instance of the interface\<close>

lemma LENGTH_SIZE_4: "LENGTH_SIZE = 4"
  by (simp add: LENGTH_SIZE_def calcsize_def)

definition chat_step :: "(pstr \<Rightarrow> real) \<Rightarrow> bytes \<Rightarrow> ChatMessage frame_step" where
  "chat_step fp buf =
     (if length buf < LENGTH_SIZE then Wait
      else if length_prefix buf > MAX_MESSAGE_BYTES then Bad ValueError
      else if length buf < LENGTH_SIZE + length_prefix buf then Wait
      else
        (case decode_body fp (drop LENGTH_SIZE (take (LENGTH_SIZE + length_prefix buf) buf)) of
           Inl e \<Rightarrow> Bad e | Inr m \<Rightarrow> Frame m (LENGTH_SIZE + length_prefix buf)))"

lemma length_prefix_append: "LENGTH_SIZE \<le> length buf \<Longrightarrow> length_prefix (buf @ rest) = length_prefix buf"
  by (simp add: length_prefix_def)

interpretation chat: reassembler "chat_step fp" "chat_loop fp" "chat_feed fp"
proof
  fix buf data rest m n e
  show "chat_loop fp buf = (case chat_step fp buf of Wait \<Rightarrow> (Inr [], buf) | Bad e \<Rightarrow> (Inl e, buf)
      | Frame m n \<Rightarrow> cons_frame m (chat_loop fp (drop n buf)))"
    by (subst chat_loop.simps) (simp add: chat_step_def Let_def split: sum.split)
  show "chat_feed fp buf data = chat_loop fp (buf @ data)" by (simp add: chat_feed_def)
  show "chat_step fp buf = Frame m n \<Longrightarrow> 0 < n \<and> n \<le> length buf"
    by (auto simp: chat_step_def LENGTH_SIZE_4 split: if_splits sum.splits)
  show "chat_step fp buf = Frame m n \<Longrightarrow> chat_step fp (buf @ rest) = Frame m n"
    by (auto simp: chat_step_def length_prefix_append split: if_splits sum.splits)
  show "chat_step fp buf = Bad e \<Longrightarrow> chat_step fp (buf @ rest) = Bad e"
    by (auto simp: chat_step_def length_prefix_append split: if_splits sum.splits)
qed

section \<open>Round trip\<close>

text \<open>A message as \<open>send_message\<close> makes it, with a float whose text \<open>float\<close> reads back.\<close>

definition chat_message :: "int \<Rightarrow> time \<Rightarrow> pstr \<Rightarrow> ChatMessage" where
  "chat_message i t s = \<lparr>cm_msg_id = JInt i, cm_timestamp = JFloat t, cm_text = JStr s\<rparr>"

definition message_ok :: "(real \<Rightarrow> pstr) \<Rightarrow> (pstr \<Rightarrow> real) \<Rightarrow> ChatMessage \<Rightarrow> bool" where
  "message_ok fr fp m \<longleftrightarrow> flat_ok fr fp (chat_object m)"

lemma chat_keys: "distinct (dict_keys (chat_object m))"
  by (simp add: chat_object_def code_points_def)

lemma get_chat_fields:
  "get_field ''msg_id'' (chat_object m) = Inr (cm_msg_id m)"
  "get_field ''timestamp'' (chat_object m) = Inr (cm_timestamp m)"
  "get_field ''text'' (chat_object m) = Inr (cm_text m)"
  by (simp_all add: get_field_def chat_object_def code_points_def)

lemma utf8_encode_Inr: "utf8_encode s = Inr b \<Longrightarrow> utf8_decode b = Inr s"
  by (simp add: utf8_encode_def utf8_decode_encode split: if_splits)

lemma utf8_char_ascii: "c < 128 \<Longrightarrow> utf8_char c = [of_nat c]"
  by (simp add: utf8_char_def)

lemma utf8_encode_ascii: "list_all (\<lambda>c. c < 128) s \<Longrightarrow> utf8_encode s = Inr (map of_nat s)"
  by (induction s) (auto simp: utf8_encode_def utf8_char_ascii split: if_splits)

lemma decode_body_text:
  assumes "message_ok fr fp m" and "utf8_encode (dumps fr (JDict (chat_object m))) = Inr body"
  shows "decode_body fp body = Inr m"
  using assms loads_dumps_flat [of fr fp "chat_object m"] chat_keys [of m] utf8_encode_Inr [OF assms(2)]
  by (simp add: decode_body_def message_ok_def get_chat_fields del: dumps.simps)

lemma pack_prefix: "n < 2 ^ 32 \<Longrightarrow> struct_pack ''>I'' [int n] = Inr (be_encode 4 (int n))"
  by (simp add: struct_pack_def fits_def)

lemma prefix_of_pack:
  "n < 2 ^ 32 \<Longrightarrow> length_prefix (be_encode 4 (int n) @ rest) = n"
  by (simp add: length_prefix_def LENGTH_SIZE_4 be_decode_encode fits_def)

lemma chat_step_encoded:
  assumes "message_ok fr fp m" and "encode_message fr m = Inr bs"
  shows "chat_step fp (bs @ rest) = Frame m (length bs)"
proof -
  from assms(2) obtain body where body: "utf8_encode (dumps fr (JDict (chat_object m))) = Inr body"
    and len: "length body \<le> MAX_MESSAGE_BYTES" and bs: "bs = be_encode 4 (int (length body)) @ body"
    by (auto simp: encode_message_def rbind_Inr pack_prefix MAX_MESSAGE_BYTES_def
        simp del: dumps.simps split: if_splits)
  have p: "length_prefix (bs @ rest) = length body"
    unfolding bs append_assoc by (rule prefix_of_pack) (use len in \<open>simp add: MAX_MESSAGE_BYTES_def\<close>)
  have "drop LENGTH_SIZE (take (LENGTH_SIZE + length body) (bs @ rest)) = body"
    by (simp add: bs LENGTH_SIZE_4)
  then show ?thesis
    using len decode_body_text [OF assms(1) body] unfolding chat_step_def p
    by (simp add: bs LENGTH_SIZE_4)
qed

end
