(* ===== verification/Chat.thy ===== *)
theory Chat
  imports Session_Api Chat_Codec
begin

text \<open>
  \<open>photontcp/app/chat.py\<close>: \<open>ChatSession\<close> on one stream of the session it is given (any
  \<open>session_ops\<close>; the clock is the session's). A conversation of two endpoints delivers the
  messages of each side to the other in order when the streams deliver bytes in order.
\<close>

record ChatSession =
  ch_stream_id :: int
  ch_next_msg_id :: int
  ch_reassembler :: bytes
  ch_received :: "ChatMessage list"

definition ChatSession_init :: "int \<Rightarrow> ChatSession" where
  "ChatSession_init stream_id =
     \<lparr>ch_stream_id = stream_id, ch_next_msg_id = 1, ch_reassembler = [], ch_received = []\<rparr>"

definition chat_state :: "'s session_ops \<Rightarrow> 's \<Rightarrow> SessionState" where
  "chat_state api s = so_state api s"

definition chat_is_established :: "'s session_ops \<Rightarrow> 's \<Rightarrow> bool" where
  "chat_is_established api s = so_established api s"

definition chat_is_closed :: "'s session_ops \<Rightarrow> 's \<Rightarrow> bool" where
  "chat_is_closed api s \<longleftrightarrow> so_state api s = CLOSED"

definition chat_received :: "ChatSession \<Rightarrow> ChatMessage list" where
  "chat_received c = ch_received c"

definition chat_connect :: "'s session_ops \<Rightarrow> 's \<Rightarrow> SessionEvent list result \<times> 's" where
  "chat_connect api s = so_connect api s"

definition chat_close :: "'s session_ops \<Rightarrow> 's \<Rightarrow> SessionEvent list result \<times> 's" where
  "chat_close api s = so_close api s"

definition send_message ::
  "(real \<Rightarrow> pstr) \<Rightarrow> 's session_ops \<Rightarrow> pstr \<Rightarrow> ChatSession \<Rightarrow> 's \<Rightarrow> int result \<times> ChatSession \<times> 's" where
  "send_message fr api text c s =
     (let (now, s1) = so_now api s;
          msg = \<lparr>cm_msg_id = JInt (ch_next_msg_id c), cm_timestamp = JFloat now, cm_text = JStr text\<rparr>
      in case encode_message fr msg of
           Inl e \<Rightarrow> (Inl e, c, s1)
         | Inr frame \<Rightarrow>
             (case so_send_on api (ch_stream_id c) frame s1 of
                (Inl e, s2) \<Rightarrow> (Inl e, c, s2)
              | (Inr _, s2) \<Rightarrow>
                  (Inr (ch_next_msg_id c), c\<lparr>ch_next_msg_id := ch_next_msg_id c + 1\<rparr>, s2)))"

text \<open>
  \<open>pump\<close>: the chunks are taken from the session before they are fed; when \<open>feed\<close> raises, the
  messages of this call and the chunks not yet fed are dropped.
\<close>

definition chat_pump ::
  "(pstr \<Rightarrow> real) \<Rightarrow> 's session_ops \<Rightarrow> ChatSession \<Rightarrow> 's \<Rightarrow> (ChatMessage list result \<times> ChatSession \<times> 's) option" where
  "chat_pump fp api c s =
     Option.bind (so_pump api s) (\<lambda>(r, s1).
       case r of
         Inl e \<Rightarrow> Some (Inl e, c, s1)
       | Inr _ \<Rightarrow>
           (let (chunks, s2) = so_recv_on api (ch_stream_id c) s1;
                (res, buf) = feed_chunks (chat_feed fp) (ch_reassembler c) chunks;
                c1 = c\<lparr>ch_reassembler := buf\<rparr>
            in case res of
                 Inl e \<Rightarrow> Some (Inl e, c1, s2)
               | Inr new \<Rightarrow> Some (Inr new, c1\<lparr>ch_received := ch_received c1 @ new\<rparr>, s2)))"

lemma chat_pump_Inr:
  assumes "chat_pump fp api c s = Some (Inr ms, c', s')"
  obtains evs s1 where "so_pump api s = Some (Inr evs, s1)"
proof (cases "so_pump api s")
  case None
  with assms show ?thesis by (simp add: chat_pump_def)
next
  case (Some p)
  then show ?thesis using assms that by (cases p; cases "fst p") (auto simp: chat_pump_def)
qed

section \<open>Over the session contract\<close>

context session_contract
begin

text \<open>A send refused by the session does not use up a message id.\<close>

lemma refused_send:
  assumes "\<not> so_established api s"
  shows "\<exists>e s1. send_message fr api text c s = (Inl e, c, s1) \<and> pending t s1 = pending t s"
proof -
  obtain now s1 where n: "so_now api s = (now, s1)" by fastforce
  with assms now_established [of s] now_pending [of t s]
  have "\<not> so_established api s1" and "pending t s1 = pending t s" by simp_all
  then show ?thesis using n by (auto simp: send_message_def send_refused split: sum.split)
qed

text \<open>
  A pump feeds exactly the chunks that were pending after the session's own pump, leaves none of
  its stream and keeps those of the other streams.
\<close>

lemma chat_pump_takes_all:
  assumes "chat_pump fp api c s = Some (Inr ms, c', s')"
  shows "\<exists>evs s1. so_pump api s = Some (Inr evs, s1) \<and>
    feed_chunks (chat_feed fp) (ch_reassembler c) (pending (ch_stream_id c) s1) = (Inr ms, ch_reassembler c') \<and>
    ch_received c' = ch_received c @ ms \<and> pending (ch_stream_id c) s' = [] \<and>
    (t = ch_stream_id c \<or> pending t s' = pending t s1)"
proof -
  from assms obtain evs s1 where p: "so_pump api s = Some (Inr evs, s1)" by (rule chat_pump_Inr)
  obtain chunks s2 where r: "so_recv_on api (ch_stream_id c) s1 = (chunks, s2)" by fastforce
  obtain res buf where f: "feed_chunks (chat_feed fp) (ch_reassembler c) chunks = (res, buf)" by fastforce
  from assms p r f show ?thesis
    using recv_pending [OF r, of t] recv_pending [OF r, of "ch_stream_id c"]
    by (cases res) (auto simp: chat_pump_def)
qed

end

context kept
begin

lemma send_message_kept:
  assumes "J s" and "send_message fr api msg c s = (r, c', s')"
  shows "J s'"
proof -
  obtain now s1 where n: "so_now api s = (now, s1)" by fastforce
  with now_kept [OF assms(1)] have "J s1" by simp
  from send_kept [OF this] n assms(2) \<open>J s1\<close> show ?thesis
    by (auto simp: send_message_def split: sum.splits prod.splits) (metis snd_conv)+
qed

lemma chat_pump_kept:
  assumes "J s" and "chat_pump fp api c s = Some (r, c', s')"
  shows "J s'"
proof -
  obtain q s1 where p: "so_pump api s = Some (q, s1)"
    using assms(2) by (auto simp: chat_pump_def bind_eq_Some_conv)
  then have j: "J s1" by (rule pump_kept [OF assms(1)])
  with recv_kept [OF j, of "ch_stream_id c"] p assms(2) show ?thesis
    by (cases q) (auto simp: chat_pump_def Let_def split: prod.splits sum.splits)
qed

end

section \<open>A conversation\<close>

text \<open>
  Two endpoints over a common state. A run stops (is \<open>None\<close>) at a call that raises or does not
  return; otherwise it gives the messages each side has sent and the final states. \<open>Elsewhere\<close>
  is anything else that happens to the sessions between the calls.
\<close>

datatype 's talk = SayA pstr | SayB pstr | PumpA | PumpB | Elsewhere "'s \<Rightarrow> 's"

record 's Conversation =
  cv_a :: ChatSession
  cv_b :: ChatSession
  cv_said_a :: "ChatMessage list"
  cv_said_b :: "ChatMessage list"
  cv_log :: "'s StreamLog"

definition new_conversation :: "int \<Rightarrow> 's \<Rightarrow> 's Conversation" where
  "new_conversation sid s =
     \<lparr>cv_a = ChatSession_init sid, cv_b = ChatSession_init sid, cv_said_a = [], cv_said_b = [],
      cv_log = new_log s\<rparr>"

definition said :: "'s session_ops \<Rightarrow> pstr \<Rightarrow> ChatSession \<Rightarrow> 's \<Rightarrow> ChatMessage" where
  "said api text c s = chat_message (ch_next_msg_id c) (fst (so_now api s)) text"

fun chat_act ::
  "(real \<Rightarrow> pstr) \<Rightarrow> (pstr \<Rightarrow> real) \<Rightarrow> int \<Rightarrow> 's session_ops \<Rightarrow> 's session_ops \<Rightarrow> 's talk
    \<Rightarrow> 's Conversation \<Rightarrow> 's Conversation option" where
  "chat_act fr fp sid api_a api_b (SayA text) v =
     (case send_message fr (log_a sid api_a) text (cv_a v) (cv_log v) of
        (Inl e, _, _) \<Rightarrow> None
      | (Inr _, c, l) \<Rightarrow>
          Some (v\<lparr>cv_a := c, cv_log := l, cv_said_a := cv_said_a v @ [said (log_a sid api_a) text (cv_a v) (cv_log v)]\<rparr>))"
| "chat_act fr fp sid api_a api_b (SayB text) v =
     (case send_message fr (log_b sid api_b) text (cv_b v) (cv_log v) of
        (Inl e, _, _) \<Rightarrow> None
      | (Inr _, c, l) \<Rightarrow>
          Some (v\<lparr>cv_b := c, cv_log := l, cv_said_b := cv_said_b v @ [said (log_b sid api_b) text (cv_b v) (cv_log v)]\<rparr>))"
| "chat_act fr fp sid api_a api_b PumpA v =
     (case chat_pump fp (log_a sid api_a) (cv_a v) (cv_log v) of
        Some (Inr _, c, l) \<Rightarrow> Some (v\<lparr>cv_a := c, cv_log := l\<rparr>) | _ \<Rightarrow> None)"
| "chat_act fr fp sid api_a api_b PumpB v =
     (case chat_pump fp (log_b sid api_b) (cv_b v) (cv_log v) of
        Some (Inr _, c, l) \<Rightarrow> Some (v\<lparr>cv_b := c, cv_log := l\<rparr>) | _ \<Rightarrow> None)"
| "chat_act fr fp sid api_a api_b (Elsewhere f) v =
     Some (v\<lparr>cv_log := (cv_log v)\<lparr>lg_state := f (lg_state (cv_log v))\<rparr>\<rparr>)"

fun chat_run ::
  "(real \<Rightarrow> pstr) \<Rightarrow> (pstr \<Rightarrow> real) \<Rightarrow> int \<Rightarrow> 's session_ops \<Rightarrow> 's session_ops \<Rightarrow> 's talk list
    \<Rightarrow> 's Conversation \<Rightarrow> 's Conversation option" where
  "chat_run fr fp sid api_a api_b [] v = Some v"
| "chat_run fr fp sid api_a api_b (x # xs) v =
     Option.bind (chat_act fr fp sid api_a api_b x v) (chat_run fr fp sid api_a api_b xs)"

text \<open>One side: what it has said is framed in what it has sent; what it received is decoded.\<close>

definition frame_of :: "(real \<Rightarrow> pstr) \<Rightarrow> ChatMessage \<Rightarrow> bytes" where
  "frame_of fr m = (case encode_message fr m of Inr b \<Rightarrow> b | Inl e \<Rightarrow> [])"

definition speaks :: "(real \<Rightarrow> pstr) \<Rightarrow> int \<Rightarrow> ChatSession \<Rightarrow> ChatMessage list \<Rightarrow> bytes \<Rightarrow> bool" where
  "speaks fr sid c ms out \<longleftrightarrow>
     ch_stream_id c = sid \<and> ch_next_msg_id c = int (length ms) + 1 \<and> out = concat (map (frame_of fr) ms) \<and>
     list_all (\<lambda>m. \<not> isl (encode_message fr m)) ms \<and>
     map cm_msg_id ms = map (\<lambda>i. JInt (int i)) [1..<Suc (length ms)]"

definition listens :: "(pstr \<Rightarrow> real) \<Rightarrow> ChatSession \<Rightarrow> bytes list \<Rightarrow> bool" where
  "listens fp c got \<longleftrightarrow> chat_loop fp (concat got) = (Inr (ch_received c), ch_reassembler c)"

lemma send_speaks:
  assumes "speaks fr sid c ms out"
    and "send_message fr (logged ns ng sid api) text c l = (Inr i, c', l')"
  shows "\<exists>s f. l' = ns f (l\<lparr>lg_state := s\<rparr>) \<and> i = ch_next_msg_id c \<and>
    speaks fr sid c' (ms @ [said (logged ns ng sid api) text c l]) (out @ f) \<and>
    ch_received c' = ch_received c \<and> ch_reassembler c' = ch_reassembler c"
proof -
  let ?m = "said (logged ns ng sid api) text c l"
  obtain now s1 where n: "so_now api (lg_state l) = (now, s1)" by fastforce
  have m: "?m = \<lparr>cm_msg_id = JInt (ch_next_msg_id c), cm_timestamp = JFloat now, cm_text = JStr text\<rparr>"
    by (simp add: said_def chat_message_def logged_simps n)
  from assms(2) obtain f where f: "encode_message fr ?m = Inr f"
    by (auto simp: send_message_def logged_simps n m split: sum.splits)
  obtain q s2 where q: "so_send_on api sid f s1 = (q, s2)" by fastforce
  have sid: "ch_stream_id c = sid" using assms(1) by (simp add: speaks_def)
  have "q = Inr ()" "l' = ns f (l\<lparr>lg_state := s2\<rparr>)" "i = ch_next_msg_id c"
    "c' = c\<lparr>ch_next_msg_id := ch_next_msg_id c + 1\<rparr>"
    using assms(2) f q sid
    by (auto simp: send_message_def logged_simps n m split: sum.splits prod.splits)
  moreover have "speaks fr sid (c\<lparr>ch_next_msg_id := ch_next_msg_id c + 1\<rparr>) (ms @ [?m]) (out @ f)"
    using assms(1) f by (simp add: speaks_def frame_of_def m)
  ultimately show ?thesis by auto
qed

lemma pump_listens:
  assumes "listens fp c got" and "ch_stream_id c = sid"
    and "chat_pump fp (logged ns ng sid api) c l = Some (Inr new, c', l')"
  shows "\<exists>s cs. l' = ng cs (l\<lparr>lg_state := s\<rparr>) \<and> listens fp c' (got @ cs) \<and>
    ch_stream_id c' = ch_stream_id c \<and> ch_next_msg_id c' = ch_next_msg_id c"
proof -
  from assms(3) obtain evs l1 where "so_pump (logged ns ng sid api) l = Some (Inr evs, l1)" by (rule chat_pump_Inr)
  then obtain s1 where p: "so_pump api (lg_state l) = Some (Inr evs, s1)" by (auto simp: logged_simps)
  obtain cs s2 where r: "so_recv_on api sid s1 = (cs, s2)" by fastforce
  obtain res buf where f: "feed_chunks (chat_feed fp) (ch_reassembler c) cs = (res, buf)" by fastforce
  have l0: "chat_loop fp (concat got) = (Inr (ch_received c), ch_reassembler c)"
    using assms(1) by (simp add: listens_def)
  from assms p r f have res: "res = Inr new" and l': "l' = ng cs (l\<lparr>lg_state := s2\<rparr>)"
    and c': "c' = c\<lparr>ch_reassembler := buf, ch_received := ch_received c @ new\<rparr>"
    by (cases res; auto simp: chat_pump_def logged_simps)+
  from chat.feed_chunks_loop [OF chat.loop_rest [OF l0] f] res
  have "chat_loop fp (ch_reassembler c @ concat cs) = (Inr new, buf)" by simp
  with l0 chat.loop_append [of fp "concat got" "concat cs"]
  have "chat_loop fp (concat got @ concat cs) = (Inr (ch_received c @ new), buf)" by simp
  with l' c' show ?thesis by (auto simp: listens_def)
qed

definition conv_ok :: "(real \<Rightarrow> pstr) \<Rightarrow> (pstr \<Rightarrow> real) \<Rightarrow> int \<Rightarrow> 's Conversation \<Rightarrow> bool" where
  "conv_ok fr fp sid v \<longleftrightarrow>
     speaks fr sid (cv_a v) (cv_said_a v) (lg_sent_a (cv_log v)) \<and>
     speaks fr sid (cv_b v) (cv_said_b v) (lg_sent_b (cv_log v)) \<and>
     listens fp (cv_a v) (lg_got_a (cv_log v)) \<and> listens fp (cv_b v) (lg_got_b (cv_log v))"

lemma conv_ok_init: "conv_ok fr fp sid (new_conversation sid s)"
  by (simp add: conv_ok_def new_conversation_def speaks_def listens_def ChatSession_init_def new_log_def
      chat_loop.simps LENGTH_SIZE_4)

lemma chat_act_ok:
  assumes "conv_ok fr fp sid v" and "chat_act fr fp sid api_a api_b x v = Some v'"
  shows "conv_ok fr fp sid v'"
proof (cases x)
  case (SayA t)
  with assms(2) obtain i c l where r: "send_message fr (log_a sid api_a) t (cv_a v) (cv_log v) = (Inr i, c, l)"
    and v': "v' = v\<lparr>cv_a := c, cv_log := l, cv_said_a := cv_said_a v @ [said (log_a sid api_a) t (cv_a v) (cv_log v)]\<rparr>"
    by (auto split: prod.splits sum.splits)
  from assms(1) have s: "speaks fr sid (cv_a v) (cv_said_a v) (lg_sent_a (cv_log v))" by (simp add: conv_ok_def)
  from send_speaks [OF s r [unfolded log_a_def]] assms(1) v' show ?thesis
    by (auto simp: conv_ok_def listens_def log_a_def)
next
  case (SayB t)
  with assms(2) obtain i c l where r: "send_message fr (log_b sid api_b) t (cv_b v) (cv_log v) = (Inr i, c, l)"
    and v': "v' = v\<lparr>cv_b := c, cv_log := l, cv_said_b := cv_said_b v @ [said (log_b sid api_b) t (cv_b v) (cv_log v)]\<rparr>"
    by (auto split: prod.splits sum.splits)
  from assms(1) have s: "speaks fr sid (cv_b v) (cv_said_b v) (lg_sent_b (cv_log v))" by (simp add: conv_ok_def)
  from send_speaks [OF s r [unfolded log_b_def]] assms(1) v' show ?thesis
    by (auto simp: conv_ok_def listens_def log_b_def)
next
  case PumpA
  with assms(2) obtain new c l where r: "chat_pump fp (log_a sid api_a) (cv_a v) (cv_log v) = Some (Inr new, c, l)"
    and v': "v' = v\<lparr>cv_a := c, cv_log := l\<rparr>"
    by (auto split: option.splits prod.splits sum.splits)
  from assms(1) have s: "listens fp (cv_a v) (lg_got_a (cv_log v))" "ch_stream_id (cv_a v) = sid"
    by (simp_all add: conv_ok_def speaks_def)
  from pump_listens [OF s r [unfolded log_a_def]] assms(1) v' show ?thesis
    by (auto simp: conv_ok_def speaks_def)
next
  case PumpB
  with assms(2) obtain new c l where r: "chat_pump fp (log_b sid api_b) (cv_b v) (cv_log v) = Some (Inr new, c, l)"
    and v': "v' = v\<lparr>cv_b := c, cv_log := l\<rparr>"
    by (auto split: option.splits prod.splits sum.splits)
  from assms(1) have s: "listens fp (cv_b v) (lg_got_b (cv_log v))" "ch_stream_id (cv_b v) = sid"
    by (simp_all add: conv_ok_def speaks_def)
  from pump_listens [OF s r [unfolded log_b_def]] assms(1) v' show ?thesis
    by (auto simp: conv_ok_def speaks_def)
next
  case (Elsewhere f)
  with assms show ?thesis by (auto simp: conv_ok_def)
qed

lemma chat_run_ok:
  "chat_run fr fp sid api_a api_b xs v = Some v' \<Longrightarrow> conv_ok fr fp sid v \<Longrightarrow> conv_ok fr fp sid v'"
  by (induction xs arbitrary: v) (auto simp: bind_eq_Some_conv dest: chat_act_ok)

lemma heard_in_order:
  assumes "speaks fr sid c ms out" and "listens fp d got"
    and "take (length (concat got)) out = concat got" and "list_all (message_ok fr fp) ms"
  shows "take (length (ch_received d)) ms = ch_received d \<and> (concat got = out \<longrightarrow> ch_received d = ms)"
proof -
  have "chat_step fp (frame_of fr m @ rest) = Frame m (length (frame_of fr m))" if "m \<in> set ms" for m rest
    using that assms(1,4) chat_step_encoded [of fr fp m "frame_of fr m" rest]
    by (auto simp: speaks_def list_all_iff frame_of_def split: sum.split)
  then have "chat_loop fp (concat (map (frame_of fr) ms) @ []) = append_frames ms (chat_loop fp [])"
    by (rule chat.loop_frames)
  then have out: "chat_loop fp out = (Inr ms, [])"
    using assms(1) by (simp add: speaks_def chat_loop.simps [of fp "[]"] LENGTH_SIZE_4)
  have "out = concat got @ drop (length (concat got)) out"
    using append_take_drop_id [of "length (concat got)" out] assms(3) by simp
  with out chat.loop_prefix [of fp "concat got" "drop (length (concat got)) out" ms "[]"] assms(2)
  obtain ns where "ms = ch_received d @ ns" by (auto simp: listens_def)
  moreover have "concat got = out \<Longrightarrow> ch_received d = ms" using out assms(2) by (simp add: listens_def)
  ultimately show ?thesis by simp
qed

section \<open>What every conversation keeps\<close>

locale kept_pair =
  a: kept J "log_a sid api_a" + b: kept J "log_b sid api_b"
  for J :: "'s StreamLog \<Rightarrow> bool" and sid :: int and api_a api_b :: "'s session_ops"
begin

definition harmless :: "'s talk \<Rightarrow> bool" where
  "harmless x \<longleftrightarrow> (case x of Elsewhere f \<Rightarrow> \<forall>l. J l \<longrightarrow> J (l\<lparr>lg_state := f (lg_state l)\<rparr>) | _ \<Rightarrow> True)"

lemma chat_act_kept:
  assumes "J (cv_log v)" and "harmless x" and "chat_act fr fp sid api_a api_b x v = Some v'"
  shows "J (cv_log v')"
  using assms
  by (cases x)
    (auto simp: harmless_def split: prod.splits sum.splits option.splits
      dest: a.send_message_kept b.send_message_kept a.chat_pump_kept b.chat_pump_kept)

lemma chat_run_kept:
  "J (cv_log v) \<Longrightarrow> list_all harmless acts \<Longrightarrow> chat_run fr fp sid api_a api_b acts v = Some v' \<Longrightarrow> J (cv_log v')"
  by (induction acts arbitrary: v) (auto simp: bind_eq_Some_conv dest: chat_act_kept)

end

end
