(* ===== verification/Chat_Props.thy ===== *)
theory Chat_Props
  imports Chat Session_Props
begin

text \<open>
  What the chat application promises: messages arrive in order and unchanged, however the
  stream cuts its bytes; a refused send burns no message id; a bad frame stops the reassembler.
\<close>

text \<open>
  Two chat endpoints over sessions whose streams deliver bytes in order (\<open>stream_ok\<close>), in any
  interleaving of sends, pumps and other session activity: each side has received a prefix of
  the messages the other sent, unchanged and in order, all of them once all bytes have been
  taken; and the message ids are \<open>1, 2, 3, \<dots>\<close>.
\<close>

lemma chat_in_order:
  assumes "chat_run fr fp sid api_a api_b acts (new_conversation sid s) = Some v"
    and "stream_ok (cv_log v)"
    and "list_all (message_ok fr fp) (cv_said_a v @ cv_said_b v)"
  shows "take (length (ch_received (cv_b v))) (cv_said_a v) = ch_received (cv_b v) \<and>
    take (length (ch_received (cv_a v))) (cv_said_b v) = ch_received (cv_a v) \<and>
    (if concat (lg_got_b (cv_log v)) = lg_sent_a (cv_log v) then ch_received (cv_b v) = cv_said_a v else True) \<and>
    (if concat (lg_got_a (cv_log v)) = lg_sent_b (cv_log v) then ch_received (cv_a v) = cv_said_b v else True) \<and>
    map cm_msg_id (cv_said_a v) = map (\<lambda>i. JInt (int i)) [1..<Suc (length (cv_said_a v))] \<and>
    map cm_msg_id (cv_said_b v) = map (\<lambda>i. JInt (int i)) [1..<Suc (length (cv_said_b v))]"
proof -
  have "conv_ok fr fp sid v" using chat_run_ok [OF assms(1) conv_ok_init] .
  then have a: "speaks fr sid (cv_a v) (cv_said_a v) (lg_sent_a (cv_log v))"
    and b: "speaks fr sid (cv_b v) (cv_said_b v) (lg_sent_b (cv_log v))"
    and la: "listens fp (cv_a v) (lg_got_a (cv_log v))" and lb: "listens fp (cv_b v) (lg_got_b (cv_log v))"
    by (simp_all add: conv_ok_def)
  from assms(2) have sa: "take (length (concat (lg_got_b (cv_log v)))) (lg_sent_a (cv_log v)) = concat (lg_got_b (cv_log v))"
    and sb: "take (length (concat (lg_got_a (cv_log v)))) (lg_sent_b (cv_log v)) = concat (lg_got_a (cv_log v))"
    by (simp_all add: stream_ok_def)
  show ?thesis
    using heard_in_order [OF a lb sa] heard_in_order [OF b la sb] assms(3) a b by (auto simp: speaks_def)
qed

definition half_text :: "real \<Rightarrow> pstr" where
  "half_text x = code_points ''0.0''"

definition half_parse :: "pstr \<Rightarrow> real" where
  "half_parse t = 0"

lemma half_float_ok: "float_ok half_text half_parse 0"
proof -
  have "parse_number half_parse (code_points ''0.0'' @ rest) = Inr (JFloat 0, rest)" if "number_end rest" for rest
  proof -
    have "takeWhile is_digit (48 # rest) = [48]"
      using takeWhile_end [of "[48]" rest] that by (simp add: is_digit_def)
    then have "frac_group (46 # 48 # rest) = [46, 48]" by (simp add: frac_group_def)
    then show ?thesis
      using end_groups [OF that]
      by (simp add: parse_number_def code_points_def starts_with_def int_group_def Let_def half_parse_def)
  qed
  then show ?thesis by (simp add: float_ok_def half_text_def code_points_def is_digit_def list_all_iff)
qed

text \<open>A run of two calls: one side says \<open>hi\<close>, the other pumps.\<close>

abbreviation hi_message :: ChatMessage where
  "hi_message \<equiv> chat_message 1 0 (code_points ''hi'')"

lemma hi_ok: "message_ok half_text half_parse hi_message"
  by (simp add: message_ok_def flat_ok_def chat_object_def chat_message_def half_float_ok)

lemma hi_encodes: "\<exists>f. encode_message half_text hi_message = Inr f \<and> f \<noteq> [] \<and> length f < 68"
proof -
  have "list_all (\<lambda>c. c < 128) (dumps half_text (JDict (chat_object hi_message))) \<and>
      length (dumps half_text (JDict (chat_object hi_message))) < 64"
    by (simp add: chat_object_def chat_message_def code_points_def half_text_def string_text_def
        escape_char_def int_text_def nat_digits.simps)
  moreover have "be_encode 4 n \<noteq> []" for n
    by (metis length_be_encode list.size(3) zero_neq_numeral)
  ultimately show ?thesis
    by (simp add: encode_message_def utf8_encode_ascii MAX_MESSAGE_BYTES_def pack_prefix del: dumps.simps be_encode.simps)
qed

lemma hi_loop:
  assumes "encode_message half_text hi_message = Inr f"
  shows "chat_loop half_parse f = (Inr [hi_message], [])"
proof -
  have "chat_loop half_parse (f @ []) = cons_frame hi_message (chat_loop half_parse [])"
    using chat_step_encoded [OF hi_ok assms, of "[]"] chat.loop_step [of half_parse f] by simp
  then show ?thesis by (simp add: chat_loop.simps [of half_parse "[]"] LENGTH_SIZE_4)
qed

lemma hi_run:
  "\<exists>v. chat_run half_text half_parse 1 ideal_a ideal_b [SayA (code_points ''hi''), PumpB]
      (new_conversation 1 ideal_start) = Some v \<and> stream_ok (cv_log v) \<and> cv_said_a v = [hi_message] \<and>
      cv_said_b v = [] \<and> ch_received (cv_b v) = [hi_message]"
proof -
  obtain f where f: "encode_message half_text hi_message = Inr f" using hi_encodes by blast
  note l = hi_loop [OF f]
  show ?thesis
    using f l
    by (simp add: new_conversation_def new_log_def ChatSession_init_def send_message_def chat_pump_def
        log_a_def log_b_def logged_simps ideal_a_def ideal_b_def ideal_ops_def ideal_start_def on_id_def
        chat_feed_def said_def chat_message_def stream_ok_def)
qed

lemma chat_in_order_witness:
  "\<exists>v. chat_run half_text half_parse 1 ideal_a ideal_b [SayA (code_points ''hi''), PumpB]
      (new_conversation 1 ideal_start) = Some v \<and>
    take (length (ch_received (cv_b v))) (cv_said_a v) = ch_received (cv_b v) \<and>
    ch_received (cv_b v) = [hi_message]"
proof -
  obtain v where v: "chat_run half_text half_parse 1 ideal_a ideal_b [SayA (code_points ''hi''), PumpB]
      (new_conversation 1 ideal_start) = Some v" "stream_ok (cv_log v)" "cv_said_a v = [hi_message]"
      "cv_said_b v = []" "ch_received (cv_b v) = [hi_message]"
    using hi_run by blast
  from chat_in_order [OF v(1,2), of] v hi_ok show ?thesis by auto
qed

text \<open>
  A chat frame the reassembler raises on: the messages completed earlier in the same \<open>feed\<close>
  call are not returned, by this call or any later one, the buffer keeps the bad frame at its
  front, and every later \<open>feed\<close> raises the same exception.
\<close>

theorem chat_feed_error_is_final:
  assumes "message_ok fr fp m" and "encode_message fr m = Inr f" and "chat_step fp bad = Bad e"
  shows "chat_feed fp [] (f @ bad) = (Inl e, bad) \<and> chat_feed fp bad later = (Inl e, bad @ later)"
proof -
  have l: "chat_loop fp bad = (Inl e, bad)" using assms(3) chat.loop_step [of fp bad] by simp
  have "chat_loop fp (f @ bad) = cons_frame m (chat_loop fp bad)"
    using chat.loop_step [of fp "f @ bad"] chat_step_encoded [OF assms(1,2), of bad] by simp
  with l have first: "chat_feed fp [] (f @ bad) = (Inl e, bad)" by (simp add: chat_feed_def)
  from chat.feed_stuck [OF first] first show ?thesis by simp
qed

lemma chat_feed_error_is_final_witness:
  "\<exists>f. encode_message half_text hi_message = Inr f \<and>
    chat_feed half_parse [] (f @ [0xFF, 0xFF, 0xFF, 0xFF]) = (Inl ValueError, [0xFF, 0xFF, 0xFF, 0xFF])"
proof -
  obtain f where f: "encode_message half_text hi_message = Inr f" using hi_encodes by blast
  have "chat_step half_parse [0xFF, 0xFF, 0xFF, 0xFF] = Bad ValueError"
    by (simp add: chat_step_def LENGTH_SIZE_4 length_prefix_def be_decode_def MAX_MESSAGE_BYTES_def)
  from chat_feed_error_is_final [OF hi_ok f this] f show ?thesis by blast
qed

text \<open>
  A message sent over a session that is not established: \<open>send_message\<close> raises, the endpoint
  (its next message id among it) is unchanged, and so are the chunks buffered in the session.
\<close>

theorem refused_message_keeps_id:
  assumes "\<not> session_is_established s"
  shows "\<exists>e s1 w1. send_message fr (session_api ops) msg c (s, w) = (Inl e, c, (s1, w1)) \<and>
    buffered t s1 = buffered t s"
proof -
  have "\<not> so_established (session_api ops) (s, w)" using assms by (simp add: session_api_def)
  from session.refused_send [OF this, of fr msg c t] show ?thesis by auto
qed

lemma refused_message_keeps_id_witness:
  "\<exists>e s1 w1. send_message half_text (session_api (loop_ops_a rops))
      (code_points ''hi'') (ChatSession_init 1) (Session_init True 1 0 5 15 32 200 None 1 8, w) =
      (Inl e, ChatSession_init 1, (s1, w1))"
proof -
  have "\<not> session_is_established (Session_init True 1 0 5 15 32 200 None 1 8)"
    by (simp add: session_is_established_def Session_init_def SessionStateMachine_init_def is_established_def)
  from refused_message_keeps_id [OF this, of half_text "loop_ops_a rops" "code_points ''hi''" "ChatSession_init 1" w]
  show ?thesis by blast
qed

end
