(* ===== verification/File_Codec.thy ===== *)
theory File_Codec
  imports Chat_Codec
begin

text \<open>
  \<open>photontcp/app/file_codec.py\<close>: the frames of the file transfer. The length prefix counts the
  type byte and the body. \<open>sha256_hex\<close> is in \<open>Sha256\<close>.
\<close>

definition MAX_FRAME_BYTES :: nat where "MAX_FRAME_BYTES = 2 ^ 24"

datatype FileFrameType = OFFER | ACCEPT | REJECT | CHUNK | DONE | FILE_ACK | FILE_NACK

fun file_type_value :: "FileFrameType \<Rightarrow> int" where
  "file_type_value OFFER = 0"
| "file_type_value ACCEPT = 1"
| "file_type_value REJECT = 2"
| "file_type_value CHUNK = 3"
| "file_type_value DONE = 4"
| "file_type_value FILE_ACK = 5"
| "file_type_value FILE_NACK = 6"

text \<open>\<open>IntEnum\<close> members compare as their values.\<close>

instantiation FileFrameType :: linorder
begin

definition less_eq_FileFrameType :: "FileFrameType \<Rightarrow> FileFrameType \<Rightarrow> bool" where
  "less_eq_FileFrameType a b \<longleftrightarrow> file_type_value a \<le> file_type_value b"

definition less_FileFrameType :: "FileFrameType \<Rightarrow> FileFrameType \<Rightarrow> bool" where
  "less_FileFrameType a b \<longleftrightarrow> file_type_value a < file_type_value b"

lemma file_type_value_inj: "file_type_value a = file_type_value b \<Longrightarrow> a = b"
  by (cases a; cases b) simp_all

instance
  by standard (auto simp: less_eq_FileFrameType_def less_FileFrameType_def intro: file_type_value_inj)

end

text \<open>The call \<open>FileFrameType(v)\<close>.\<close>

definition FileFrameType_of :: "int \<Rightarrow> FileFrameType result" where
  "FileFrameType_of v =
     (case List.find (\<lambda>t. file_type_value t = v) [OFFER, ACCEPT, REJECT, CHUNK, DONE, FILE_ACK, FILE_NACK] of
        None \<Rightarrow> Inl ValueError | Some t \<Rightarrow> Inr t)"

record FileFrame =
  ff_type :: FileFrameType
  ff_body :: bytes

definition encode_frame :: "FileFrameType \<Rightarrow> bytes \<Rightarrow> bytes result" where
  "encode_frame ty body =
     (let len = 1 + length body in
      if len > MAX_FRAME_BYTES then Inl ValueError
      else rbind (struct_pack ''>I'' [int len]) (\<lambda>prefix.
        Inr (prefix @ [word_of_int (file_type_value ty)] @ body)))"

definition encode_control :: "(real \<Rightarrow> pstr) \<Rightarrow> FileFrameType \<Rightarrow> (pstr \<times> json) list \<Rightarrow> bytes result" where
  "encode_control fr ty obj =
     rbind (utf8_encode (dumps fr (JDict obj))) (\<lambda>body. encode_frame ty body)"

definition decode_control :: "(pstr \<Rightarrow> real) \<Rightarrow> bytes \<Rightarrow> ((pstr \<times> json) list) result" where
  "decode_control fp body =
     (case rbind (utf8_decode body) (loads fp) of
        Inl e \<Rightarrow> Inl e
      | Inr (JDict obj) \<Rightarrow> Inr obj
      | Inr _ \<Rightarrow> Inl ValueError)"

section \<open>The reassembler\<close>

text \<open>The loop of \<open>FileFrameReassembler.feed\<close> on its buffer.\<close>

function file_loop :: "bytes \<Rightarrow> FileFrame list result \<times> bytes" where
  "file_loop buf =
     (if length buf < LENGTH_SIZE then (Inr [], buf)
      else
        (let len = length_prefix buf; frame_end = LENGTH_SIZE + len in
         if len < 1 then (Inl ValueError, buf)
         else if len > MAX_FRAME_BYTES then (Inl ValueError, buf)
         else if length buf < frame_end then (Inr [], buf)
         else
           (case FileFrameType_of (uint (buf ! LENGTH_SIZE)) of
              Inl e \<Rightarrow> (Inl ValueError, buf)
            | Inr ty \<Rightarrow>
                cons_frame \<lparr>ff_type = ty, ff_body = drop (LENGTH_SIZE + 1) (take frame_end buf)\<rparr>
                  (file_loop (drop frame_end buf)))))"
  by pat_completeness auto
termination
  by (relation "measure length") (auto simp: LENGTH_SIZE_4)

declare file_loop.simps [simp del]

definition file_feed :: "bytes \<Rightarrow> bytes \<Rightarrow> FileFrame list result \<times> bytes" where
  "file_feed buf data = file_loop (buf @ data)"

definition file_step :: "bytes \<Rightarrow> FileFrame frame_step" where
  "file_step buf =
     (if length buf < LENGTH_SIZE then Wait
      else if length_prefix buf < 1 \<or> length_prefix buf > MAX_FRAME_BYTES then Bad ValueError
      else if length buf < LENGTH_SIZE + length_prefix buf then Wait
      else
        (case FileFrameType_of (uint (buf ! LENGTH_SIZE)) of
           Inl e \<Rightarrow> Bad ValueError
         | Inr ty \<Rightarrow> Frame \<lparr>ff_type = ty,
               ff_body = drop (LENGTH_SIZE + 1) (take (LENGTH_SIZE + length_prefix buf) buf)\<rparr>
             (LENGTH_SIZE + length_prefix buf)))"

interpretation file_frames: reassembler file_step file_loop file_feed
proof
  fix buf data rest m n e
  show "file_loop buf = (case file_step buf of Wait \<Rightarrow> (Inr [], buf) | Bad e \<Rightarrow> (Inl e, buf)
      | Frame m n \<Rightarrow> cons_frame m (file_loop (drop n buf)))"
    by (subst file_loop.simps) (simp add: file_step_def Let_def split: sum.split)
  show "file_feed buf data = file_loop (buf @ data)" by (simp add: file_feed_def)
  show "file_step buf = Frame m n \<Longrightarrow> 0 < n \<and> n \<le> length buf"
    by (auto simp: file_step_def LENGTH_SIZE_4 split: if_splits sum.splits)
  have nth: "(buf @ rest) ! LENGTH_SIZE = buf ! LENGTH_SIZE"
    if "\<not> length buf < LENGTH_SIZE + length_prefix buf" "\<not> length_prefix buf < 1"
    using that by (simp add: nth_append)
  show "file_step buf = Frame m n \<Longrightarrow> file_step (buf @ rest) = Frame m n"
    by (auto simp: file_step_def length_prefix_append nth split: if_splits sum.splits)
  show "file_step buf = Bad e \<Longrightarrow> file_step (buf @ rest) = Bad e"
    by (auto simp: file_step_def length_prefix_append nth split: if_splits sum.splits)
qed

section \<open>Round trips\<close>

lemma FileFrameType_of_value: "FileFrameType_of (file_type_value t) = Inr t"
  by (cases t) (simp_all add: FileFrameType_of_def)

lemma uint_type_byte: "uint (word_of_int (file_type_value t) :: byte) = file_type_value t"
  by (cases t) (simp_all add: uint_word_of_int)

definition frame_bytes :: "FileFrame \<Rightarrow> bytes" where
  "frame_bytes f = be_encode 4 (1 + int (length (ff_body f))) @ word_of_int (file_type_value (ff_type f)) # ff_body f"

definition frame_ok :: "FileFrame \<Rightarrow> bool" where
  "frame_ok f \<longleftrightarrow> length (ff_body f) < MAX_FRAME_BYTES"

lemma encode_frame_eq:
  "encode_frame ty body =
     (if length body < MAX_FRAME_BYTES then Inr (frame_bytes \<lparr>ff_type = ty, ff_body = body\<rparr>) else Inl ValueError)"
  using pack_prefix [of "Suc (length body)"]
  by (auto simp: encode_frame_def frame_bytes_def Let_def MAX_FRAME_BYTES_def)

lemma file_step_frame:
  assumes "frame_ok f"
  shows "file_step (frame_bytes f @ rest) = Frame f (length (frame_bytes f))"
proof -
  have p: "length_prefix (frame_bytes f @ rest) = Suc (length (ff_body f))"
    using prefix_of_pack [of "Suc (length (ff_body f))"] assms
    by (simp add: frame_bytes_def frame_ok_def MAX_FRAME_BYTES_def)
  have "(frame_bytes f @ rest) ! LENGTH_SIZE = word_of_int (file_type_value (ff_type f))"
    "length (frame_bytes f) = 5 + length (ff_body f)"
    "drop (LENGTH_SIZE + 1) (take (LENGTH_SIZE + Suc (length (ff_body f))) (frame_bytes f @ rest)) = ff_body f"
    by (simp_all add: LENGTH_SIZE_4 frame_bytes_def nth_append)
  with assms show ?thesis
    by (simp add: file_step_def p frame_ok_def uint_type_byte FileFrameType_of_value LENGTH_SIZE_4)
qed

lemma decode_control_text:
  assumes "flat_ok fr fp obj" and "distinct (dict_keys obj)"
    and "utf8_encode (dumps fr (JDict obj)) = Inr body"
  shows "decode_control fp body = Inr obj"
  using loads_dumps_flat [OF assms(1,2)] utf8_encode_Inr [OF assms(3)]
  by (simp add: decode_control_def del: dumps.simps)

end
