(* ===== verification/Sha256.thy ===== *)
theory Sha256
  imports Utf8 Py_Struct
begin

text \<open>
  \<open>hashlib.sha256(data).hexdigest()\<close> as \<open>app/file_codec.py\<close> uses it: FIPS 180-4, executable.
\<close>

unbundle bit_operations_syntax

type_synonym w32 = "32 word"

definition rotr :: "nat \<Rightarrow> w32 \<Rightarrow> w32" where
  "rotr n x = drop_bit n x OR push_bit (32 - n) x"

definition sha_k :: "w32 list" where
  "sha_k = [
      0x428A2F98, 0x71374491, 0xB5C0FBCF, 0xE9B5DBA5, 0x3956C25B, 0x59F111F1, 0x923F82A4, 0xAB1C5ED5,
      0xD807AA98, 0x12835B01, 0x243185BE, 0x550C7DC3, 0x72BE5D74, 0x80DEB1FE, 0x9BDC06A7, 0xC19BF174,
      0xE49B69C1, 0xEFBE4786, 0x0FC19DC6, 0x240CA1CC, 0x2DE92C6F, 0x4A7484AA, 0x5CB0A9DC, 0x76F988DA,
      0x983E5152, 0xA831C66D, 0xB00327C8, 0xBF597FC7, 0xC6E00BF3, 0xD5A79147, 0x06CA6351, 0x14292967,
      0x27B70A85, 0x2E1B2138, 0x4D2C6DFC, 0x53380D13, 0x650A7354, 0x766A0ABB, 0x81C2C92E, 0x92722C85,
      0xA2BFE8A1, 0xA81A664B, 0xC24B8B70, 0xC76C51A3, 0xD192E819, 0xD6990624, 0xF40E3585, 0x106AA070,
      0x19A4C116, 0x1E376C08, 0x2748774C, 0x34B0BCB5, 0x391C0CB3, 0x4ED8AA4A, 0x5B9CCA4F, 0x682E6FF3,
      0x748F82EE, 0x78A5636F, 0x84C87814, 0x8CC70208, 0x90BEFFFA, 0xA4506CEB, 0xBEF9A3F7, 0xC67178F2]"

definition sha_init :: "w32 list" where
  "sha_init = [
      0x6A09E667, 0xBB67AE85, 0x3C6EF372, 0xA54FF53A, 0x510E527F, 0x9B05688C, 0x1F83D9AB, 0x5BE0CD19]"

text \<open>One bit, zeros up to 56 modulo 64 bytes, and the length in bits in eight bytes.\<close>

definition sha_pad :: "bytes \<Rightarrow> bytes" where
  "sha_pad m =
     m @ [0x80] @ replicate ((119 - length m mod 64) mod 64) 0 @ be_encode 8 (8 * int (length m))"

definition word_be :: "bytes \<Rightarrow> w32" where
  "word_be bs = word_of_int (be_decode bs)"

definition big_sigma0 :: "w32 \<Rightarrow> w32" where
  "big_sigma0 x = rotr 2 x XOR rotr 13 x XOR rotr 22 x"

definition big_sigma1 :: "w32 \<Rightarrow> w32" where
  "big_sigma1 x = rotr 6 x XOR rotr 11 x XOR rotr 25 x"

definition small_sigma0 :: "w32 \<Rightarrow> w32" where
  "small_sigma0 x = rotr 7 x XOR rotr 18 x XOR drop_bit 3 x"

definition small_sigma1 :: "w32 \<Rightarrow> w32" where
  "small_sigma1 x = rotr 17 x XOR rotr 19 x XOR drop_bit 10 x"

text \<open>The message schedule: 16 words of the block and 48 derived ones.\<close>

fun sha_extend :: "nat \<Rightarrow> w32 list \<Rightarrow> w32 list" where
  "sha_extend 0 ws = ws"
| "sha_extend (Suc n) ws =
     (let t = length ws;
          w = small_sigma1 (ws ! (t - 2)) + ws ! (t - 7) + small_sigma0 (ws ! (t - 15)) + ws ! (t - 16)
      in sha_extend n (ws @ [w]))"

definition sha_schedule :: "bytes \<Rightarrow> w32 list" where
  "sha_schedule block = sha_extend 48 (map word_be (py_slices 4 block))"

fun sha_round :: "w32 list \<Rightarrow> w32 \<times> w32 \<Rightarrow> w32 list" where
  "sha_round [a, b, c, d, e, f, g, h] (k, w) =
     (let t1 = h + big_sigma1 e + ((e AND f) XOR (NOT e AND g)) + k + w;
          t2 = big_sigma0 a + ((a AND b) XOR (a AND c) XOR (b AND c))
      in [t1 + t2, a, b, c, d + t1, e, f, g])"
| "sha_round s kw = s"

definition sha_block :: "w32 list \<Rightarrow> bytes \<Rightarrow> w32 list" where
  "sha_block s block = map2 (+) s (foldl sha_round s (zip sha_k (sha_schedule block)))"

definition sha256 :: "bytes \<Rightarrow> bytes" where
  "sha256 m = concat (map (\<lambda>w. be_encode 4 (uint w)) (foldl sha_block sha_init (py_slices 64 (sha_pad m))))"

definition hex_byte :: "byte \<Rightarrow> pstr" where
  "hex_byte b =
     (let d = (\<lambda>n. if n < 10 then 48 + n else 87 + n) in [d (unat b div 16), d (unat b mod 16)])"

definition sha256_hex :: "bytes \<Rightarrow> pstr" where
  "sha256_hex data = concat (map hex_byte (sha256 data))"

section \<open>Shape\<close>

lemma length_sha_round [simp]: "length (sha_round s kw) = length s"
  by (induction s kw rule: sha_round.induct) (simp_all add: Let_def)

lemma length_sha_rounds: "length (foldl sha_round s kws) = length s"
  by (induction kws arbitrary: s) simp_all

lemma length_sha_block [simp]: "length (sha_block s b) = length s"
  by (simp add: sha_block_def length_sha_rounds)

lemma length_sha_blocks: "length (foldl sha_block s bs) = length s"
  by (induction bs arbitrary: s) simp_all

lemma length_concat_const: "(\<And>x. x \<in> set xs \<Longrightarrow> length (f x) = n) \<Longrightarrow> length (concat (map f xs)) = n * length xs"
  by (induction xs) simp_all

lemma length_sha256: "length (sha256 m) = 32"
  by (simp add: sha256_def length_concat_const [where n = 4] length_sha_blocks sha_init_def)

lemma length_sha256_hex: "length (sha256_hex m) = 64"
  by (simp add: sha256_hex_def hex_byte_def Let_def length_concat_const [where n = 2] length_sha256)

lemma sha_pad_blocks: "length (sha_pad m) mod 64 = 0"
proof -
  have "((119 - r) mod 64 + r + 9) mod 64 = 0" if "r < 64" for r :: nat
    using that by (cases "r \<le> 55") (auto simp: mod_if)
  then have "((119 - length m mod 64) mod 64 + length m mod 64 + 9) mod 64 = 0" by simp
  then have "((119 - length m mod 64) mod 64 + length m + 9) mod 64 = 0"
    by (metis (no_types) mod_add_cong mod_mod_trivial)
  then show ?thesis by (simp add: sha_pad_def add_ac)
qed

end
