(* ===== verification/File_Transfer.thy ===== *)
theory File_Transfer
  imports Session_Api File_Codec Sha256
begin

text \<open>
  \<open>photontcp/app/file.py\<close>: the file sender and the file receiver, each on one stream of the
  session it is given.
\<close>

definition FILE_STREAM_ID :: int where "FILE_STREAM_ID = 2"

datatype FileTransferState = FIdle | Offered | Sending | DoneSent | Receiving | Complete | Failed

record FileSender =
  fs_name :: pstr
  fs_data :: bytes
  fs_stream_id :: int
  fs_chunk_size :: int
  fs_state :: FileTransferState
  fs_reassembler :: bytes

definition FileSender_init :: "pstr \<Rightarrow> bytes \<Rightarrow> int \<Rightarrow> int \<Rightarrow> FileSender result" where
  "FileSender_init name data stream_id chunk_size =
     (if chunk_size \<le> 0 then Inl ValueError
      else Inr \<lparr>fs_name = name, fs_data = data, fs_stream_id = stream_id,
        fs_chunk_size = chunk_size, fs_state = FIdle, fs_reassembler = []\<rparr>)"

record FileReceiver =
  fr_stream_id :: int
  fr_auto_accept :: bool
  fr_state :: FileTransferState
  fr_reassembler :: bytes
  fr_buffer :: bytes
  fr_name :: "pstr option"
  fr_expected_size :: "int option"
  fr_expected_sha :: "pstr option"
  fr_verified :: bool

definition FileReceiver_init :: "int \<Rightarrow> bool \<Rightarrow> FileReceiver" where
  "FileReceiver_init stream_id auto_accept =
     \<lparr>fr_stream_id = stream_id, fr_auto_accept = auto_accept, fr_state = FIdle, fr_reassembler = [],
      fr_buffer = [], fr_name = None, fr_expected_size = None, fr_expected_sha = None,
      fr_verified = False\<rparr>"

section \<open>The loop of both pumps\<close>

text \<open>
  \<open>for chunk in chunks: for frame in reassembler.feed(chunk): handle(frame)\<close>. The handler is a
  method of the endpoint \<open>'e\<close>; its buffer is threaded beside it. A raise leaves the rest of the
  frames and chunks unhandled.
\<close>

type_synonym ('e, 's) handler = "FileFrame \<Rightarrow> 'e \<Rightarrow> 's \<Rightarrow> (unit result \<times> 'e \<times> 's) option"

fun each_frame :: "('e, 's) handler \<Rightarrow> FileFrame list \<Rightarrow> 'e \<Rightarrow> 's \<Rightarrow> (unit result \<times> 'e \<times> 's) option" where
  "each_frame h [] e s = Some (Inr (), e, s)"
| "each_frame h (f # fs) e s =
     Option.bind (h f e s) (\<lambda>(r, e1, s1).
       case r of Inl x \<Rightarrow> Some (Inl x, e1, s1) | Inr _ \<Rightarrow> each_frame h fs e1 s1)"

fun each_chunk ::
  "('e, 's) handler \<Rightarrow> bytes \<Rightarrow> bytes list \<Rightarrow> 'e \<Rightarrow> 's \<Rightarrow> (unit result \<times> bytes \<times> 'e \<times> 's) option" where
  "each_chunk h buf [] e s = Some (Inr (), buf, e, s)"
| "each_chunk h buf (c # cs) e s =
     (case file_feed buf c of
        (Inl x, b) \<Rightarrow> Some (Inl x, b, e, s)
      | (Inr fs, b) \<Rightarrow>
          Option.bind (each_frame h fs e s) (\<lambda>(r, e1, s1).
            case r of Inl x \<Rightarrow> Some (Inl x, b, e1, s1) | Inr _ \<Rightarrow> each_chunk h b cs e1 s1))"

section \<open>The sender\<close>

definition offer_object :: "FileSender \<Rightarrow> (pstr \<times> json) list" where
  "offer_object f =
     [(code_points ''name'', JStr (fs_name f)), (code_points ''size'', JInt (int (length (fs_data f)))),
      (code_points ''sha256'', JStr (sha256_hex (fs_data f)))]"

definition fs_is_complete :: "FileSender \<Rightarrow> bool" where
  "fs_is_complete f \<longleftrightarrow> fs_state f = Complete"

definition fs_is_failed :: "FileSender \<Rightarrow> bool" where
  "fs_is_failed f \<longleftrightarrow> fs_state f = Failed"

definition fs_progress :: "'s session_ops \<Rightarrow> FileSender \<Rightarrow> 's \<Rightarrow> real" where
  "fs_progress api f s =
     (if length (fs_data f) = 0 then 1
      else min (real (so_acked api s (fs_stream_id f)) / real (length (fs_data f))) 1)"

definition fs_start ::
  "(real \<Rightarrow> pstr) \<Rightarrow> 's session_ops \<Rightarrow> FileSender \<Rightarrow> 's \<Rightarrow> unit result \<times> FileSender \<times> 's" where
  "fs_start fr api f s =
     (if fs_state f \<noteq> FIdle then (Inl RuntimeError, f, s)
      else
        (case encode_control fr OFFER (offer_object f) of
           Inl e \<Rightarrow> (Inl e, f, s)
         | Inr offer \<Rightarrow>
             (case so_send_on api (fs_stream_id f) offer s of
                (Inl e, s1) \<Rightarrow> (Inl e, f, s1)
              | (Inr _, s1) \<Rightarrow> (Inr (), f\<lparr>fs_state := Offered\<rparr>, s1))))"

text \<open>The \<open>while offset < size\<close> loop; with a step of 0 it would not end, which is \<open>None\<close>.\<close>

partial_function (option) send_chunks ::
  "'s session_ops \<Rightarrow> int \<Rightarrow> nat \<Rightarrow> bytes \<Rightarrow> nat \<Rightarrow> 's \<Rightarrow> (unit result \<times> 's) option" where
  "send_chunks api sid step data offset s =
     (if offset < length data then
        (let piece = take step (drop offset data) in
         case encode_frame CHUNK piece of
           Inl e \<Rightarrow> Some (Inl e, s)
         | Inr frame \<Rightarrow>
             (case so_send_on api sid frame s of
                (Inl e, s1) \<Rightarrow> Some (Inl e, s1)
              | (Inr _, s1) \<Rightarrow> send_chunks api sid step data (offset + length piece) s1))
      else Some (Inr (), s))"

definition send_all_chunks_and_done ::
  "(real \<Rightarrow> pstr) \<Rightarrow> 's session_ops \<Rightarrow> FileSender \<Rightarrow> 's \<Rightarrow> (unit result \<times> FileSender \<times> 's) option" where
  "send_all_chunks_and_done fr api f s =
     Option.bind (send_chunks api (fs_stream_id f) (nat (fs_chunk_size f)) (fs_data f) 0 s) (\<lambda>(r, s1).
       case r of
         Inl e \<Rightarrow> Some (Inl e, f, s1)
       | Inr _ \<Rightarrow>
           (case encode_control fr DONE [] of
              Inl e \<Rightarrow> Some (Inl e, f, s1)
            | Inr done_frame \<Rightarrow>
                (case so_send_on api (fs_stream_id f) done_frame s1 of
                   (Inl e, s2) \<Rightarrow> Some (Inl e, f, s2)
                 | (Inr _, s2) \<Rightarrow> Some (Inr (), f\<lparr>fs_state := DoneSent\<rparr>, s2))))"

definition fs_handle_frame :: "(real \<Rightarrow> pstr) \<Rightarrow> 's session_ops \<Rightarrow> (FileSender, 's) handler" where
  "fs_handle_frame fr api frame f s =
     (if ff_type frame = ACCEPT then
        (if fs_state f = Offered then send_all_chunks_and_done fr api (f\<lparr>fs_state := Sending\<rparr>) s
         else Some (Inr (), f, s))
      else if ff_type frame = REJECT then
        Some (Inr (), if fs_state f = Offered then f\<lparr>fs_state := Failed\<rparr> else f, s)
      else if ff_type frame = FILE_ACK then
        Some (Inr (), if fs_state f = DoneSent then f\<lparr>fs_state := Complete\<rparr> else f, s)
      else if ff_type frame = FILE_NACK then
        Some (Inr (), if fs_state f = DoneSent then f\<lparr>fs_state := Failed\<rparr> else f, s)
      else Some (Inr (), f, s))"

definition fs_pump ::
  "(real \<Rightarrow> pstr) \<Rightarrow> 's session_ops \<Rightarrow> FileSender \<Rightarrow> 's \<Rightarrow> (FileTransferState result \<times> FileSender \<times> 's) option" where
  "fs_pump fr api f s =
     Option.bind (so_pump api s) (\<lambda>(r, s1).
       case r of
         Inl e \<Rightarrow> Some (Inl e, f, s1)
       | Inr _ \<Rightarrow>
           (let (chunks, s2) = so_recv_on api (fs_stream_id f) s1 in
            Option.bind (each_chunk (fs_handle_frame fr api) (fs_reassembler f) chunks f s2)
              (\<lambda>(r2, buf, f1, s3).
                Some (map_sum id (\<lambda>_. fs_state f1) r2, f1\<lparr>fs_reassembler := buf\<rparr>, s3))))"

section \<open>The receiver\<close>

definition fr_is_complete :: "FileReceiver \<Rightarrow> bool" where
  "fr_is_complete f \<longleftrightarrow> fr_state f = Complete"

definition fr_is_failed :: "FileReceiver \<Rightarrow> bool" where
  "fr_is_failed f \<longleftrightarrow> fr_state f = Failed"

definition fr_progress :: "FileReceiver \<Rightarrow> real" where
  "fr_progress f =
     (case fr_expected_size f of
        None \<Rightarrow> 0
      | Some n \<Rightarrow> if n = 0 then 1 else min (real (length (fr_buffer f)) / of_int n) 1)"

definition file_bytes :: "FileReceiver \<Rightarrow> bytes option" where
  "file_bytes f = (if fr_state f = Complete then Some (fr_buffer f) else None)"

definition send_control ::
  "(real \<Rightarrow> pstr) \<Rightarrow> 's session_ops \<Rightarrow> int \<Rightarrow> FileFrameType \<Rightarrow> (pstr \<times> json) list \<Rightarrow> 's \<Rightarrow> unit result \<times> 's" where
  "send_control fr api sid ty obj s =
     (case encode_control fr ty obj of Inl e \<Rightarrow> (Inl e, s) | Inr frame \<Rightarrow> so_send_on api sid frame s)"

text \<open>
  \<open>_offer_is_valid\<close>: whether the body is a well-formed offer, and the receiver with its metadata
  captured. A JSON number with a fraction is a \<open>float\<close> and a JSON boolean a \<open>bool\<close>; neither is an
  acceptable size.
\<close>

definition offer_is_valid :: "(pstr \<Rightarrow> real) \<Rightarrow> bytes \<Rightarrow> FileReceiver \<Rightarrow> bool \<times> FileReceiver" where
  "offer_is_valid fp body f =
     (case decode_control fp body of
        Inl e \<Rightarrow> (False, f)
      | Inr meta \<Rightarrow>
          (case (map_of meta (code_points ''name''), map_of meta (code_points ''size''),
                 map_of meta (code_points ''sha256'')) of
             (Some (JStr name), Some (JInt sz), Some (JStr sha)) \<Rightarrow>
               if sz < 0 then (False, f)
               else (True, f\<lparr>fr_name := Some name, fr_expected_size := Some sz, fr_expected_sha := Some sha\<rparr>)
           | _ \<Rightarrow> (False, f)))"

definition reject_offer ::
  "(real \<Rightarrow> pstr) \<Rightarrow> 's session_ops \<Rightarrow> FileReceiver \<Rightarrow> 's \<Rightarrow> unit result \<times> FileReceiver \<times> 's" where
  "reject_offer fr api f s =
     (case send_control fr api (fr_stream_id f) REJECT [] s of
        (Inl e, s1) \<Rightarrow> (Inl e, f, s1)
      | (Inr _, s1) \<Rightarrow> (Inr (), f\<lparr>fr_state := Failed\<rparr>, s1))"

definition handle_offer ::
  "(real \<Rightarrow> pstr) \<Rightarrow> (pstr \<Rightarrow> real) \<Rightarrow> 's session_ops \<Rightarrow> bytes \<Rightarrow> FileReceiver \<Rightarrow> 's
    \<Rightarrow> unit result \<times> FileReceiver \<times> 's" where
  "handle_offer fr fp api body f s =
     (let (ok, f1) = offer_is_valid fp body f in
      if \<not> ok then reject_offer fr api f1 s
      else if fr_auto_accept f1 then
        (case send_control fr api (fr_stream_id f1) ACCEPT [] s of
           (Inl e, s1) \<Rightarrow> (Inl e, f1, s1)
         | (Inr _, s1) \<Rightarrow> (Inr (), f1\<lparr>fr_state := Receiving\<rparr>, s1))
      else (Inr (), f1, s))"

definition ok_object :: "bool \<Rightarrow> (pstr \<times> json) list" where
  "ok_object b = [(code_points ''ok'', JBool b)]"

definition handle_done ::
  "(real \<Rightarrow> pstr) \<Rightarrow> 's session_ops \<Rightarrow> FileReceiver \<Rightarrow> 's \<Rightarrow> unit result \<times> FileReceiver \<times> 's" where
  "handle_done fr api f s =
     (if Some (sha256_hex (fr_buffer f)) = fr_expected_sha f then
        (let f1 = f\<lparr>fr_verified := True\<rparr> in
         case send_control fr api (fr_stream_id f) FILE_ACK (ok_object True) s of
           (Inl e, s1) \<Rightarrow> (Inl e, f1, s1)
         | (Inr _, s1) \<Rightarrow> (Inr (), f1\<lparr>fr_state := Complete\<rparr>, s1))
      else
        (let f1 = f\<lparr>fr_verified := False\<rparr> in
         case send_control fr api (fr_stream_id f) FILE_NACK (ok_object False) s of
           (Inl e, s1) \<Rightarrow> (Inl e, f1, s1)
         | (Inr _, s1) \<Rightarrow> (Inr (), f1\<lparr>fr_state := Failed\<rparr>, s1)))"

definition fr_handle_frame ::
  "(real \<Rightarrow> pstr) \<Rightarrow> (pstr \<Rightarrow> real) \<Rightarrow> 's session_ops \<Rightarrow> (FileReceiver, 's) handler" where
  "fr_handle_frame fr fp api frame f s =
     Some (if ff_type frame = OFFER then
             (if fr_state f = FIdle then handle_offer fr fp api (ff_body frame) f s else (Inr (), f, s))
           else if ff_type frame = CHUNK then
             (Inr (), if fr_state f = Receiving then f\<lparr>fr_buffer := fr_buffer f @ ff_body frame\<rparr> else f, s)
           else if ff_type frame = DONE then
             (if fr_state f = Receiving then handle_done fr api f s else (Inr (), f, s))
           else (Inr (), f, s))"

definition fr_pump ::
  "(real \<Rightarrow> pstr) \<Rightarrow> (pstr \<Rightarrow> real) \<Rightarrow> 's session_ops \<Rightarrow> FileReceiver \<Rightarrow> 's
    \<Rightarrow> (FileTransferState result \<times> FileReceiver \<times> 's) option" where
  "fr_pump fr fp api f s =
     Option.bind (so_pump api s) (\<lambda>(r, s1).
       case r of
         Inl e \<Rightarrow> Some (Inl e, f, s1)
       | Inr _ \<Rightarrow>
           (let (chunks, s2) = so_recv_on api (fr_stream_id f) s1 in
            Option.bind (each_chunk (fr_handle_frame fr fp api) (fr_reassembler f) chunks f s2)
              (\<lambda>(r2, buf, f1, s3).
                Some (map_sum id (\<lambda>_. fr_state f1) r2, f1\<lparr>fr_reassembler := buf\<rparr>, s3))))"

end
