(* ===== verification/File_Run.thy ===== *)
theory File_Run
  imports File_Transfer
begin

text \<open>
  A file transfer between two endpoints over a common state, and its invariants: the sender has
  sent a prefix of the frames of the transfer, the receiver has done what the frames it has
  decoded say.
\<close>

section \<open>The frames of a transfer\<close>

lemma encode_controlE:
  assumes "encode_control fr ty obj = Inr b"
  obtains body where "utf8_encode (dumps fr (JDict obj)) = Inr body"
    and "b = frame_bytes \<lparr>ff_type = ty, ff_body = body\<rparr>" and "frame_ok \<lparr>ff_type = ty, ff_body = body\<rparr>"
  using assms that
  by (auto simp: encode_control_def rbind_Inr encode_frame_eq frame_ok_def simp del: dumps.simps split: if_splits)

definition control_frame :: "(real \<Rightarrow> pstr) \<Rightarrow> FileFrameType \<Rightarrow> (pstr \<times> json) list \<Rightarrow> FileFrame" where
  "control_frame fr ty obj =
     \<lparr>ff_type = ty, ff_body = projr (utf8_encode (dumps fr (JDict obj)))\<rparr>"

lemma encode_control_frame:
  assumes "encode_control fr ty obj = Inr b"
  shows "b = frame_bytes (control_frame fr ty obj)" and "frame_ok (control_frame fr ty obj)"
    and "flat_ok fr fp obj \<Longrightarrow> distinct (dict_keys obj) \<Longrightarrow> decode_control fp (ff_body (control_frame fr ty obj)) = Inr obj"
  using assms decode_control_text [of fr fp obj]
  by (auto simp: control_frame_def simp del: dumps.simps elim!: encode_controlE)

definition chunk_frame :: "bytes \<Rightarrow> FileFrame" where
  "chunk_frame piece = \<lparr>ff_type = CHUNK, ff_body = piece\<rparr>"

definition pieces :: "FileSender \<Rightarrow> bytes list" where
  "pieces f = py_slices (nat (fs_chunk_size f)) (fs_data f)"

definition transfer_frames :: "(real \<Rightarrow> pstr) \<Rightarrow> FileSender \<Rightarrow> FileFrame list" where
  "transfer_frames fr f =
     control_frame fr OFFER (offer_object f) # map chunk_frame (pieces f) @ [control_frame fr DONE []]"

lemma control_frame_type [simp]: "ff_type (control_frame fr ty obj) = ty"
  by (simp add: control_frame_def)

lemma offer_ok: "flat_ok fr fp (offer_object f)" "distinct (dict_keys (offer_object f))"
  by (simp_all add: offer_object_def flat_ok_def code_points_def)

section \<open>The chunk loop\<close>

fun send_pieces :: "'s session_ops \<Rightarrow> int \<Rightarrow> bytes list \<Rightarrow> 's \<Rightarrow> unit result \<times> 's" where
  "send_pieces api sid [] s = (Inr (), s)"
| "send_pieces api sid (p # ps) s =
     (case encode_frame CHUNK p of
        Inl e \<Rightarrow> (Inl e, s)
      | Inr frame \<Rightarrow>
          (case so_send_on api sid frame s of
             (Inl e, s1) \<Rightarrow> (Inl e, s1) | (Inr _, s1) \<Rightarrow> send_pieces api sid ps s1))"

text \<open>The loop over offsets sends the slices of the data and always ends.\<close>

lemma send_chunks_slices:
  assumes "0 < step"
  shows "send_chunks api sid step data offset s = Some (send_pieces api sid (py_slices step (drop offset data)) s)"
proof (induction "length data - offset" arbitrary: offset s rule: less_induct)
  case less
  show ?case
  proof (cases "offset < length data")
    case False
    with assms show ?thesis by (simp add: send_chunks.simps [of api sid step data offset s])
  next
    case True
    let ?p = "take step (drop offset data)"
    have e: "py_slices step (drop offset data) = ?p # py_slices step (drop step (drop offset data))"
      using True assms by (intro py_slices_step) auto
    have lt: "length data - (offset + length ?p) < length data - offset" using True assms by simp
    have d: "drop (offset + length ?p) data = drop step (drop offset data)"
      by (cases "step \<le> length data - offset") (simp_all add: add.commute)
    have "send_chunks api sid step data (offset + length ?p) s1 =
        Some (send_pieces api sid (py_slices step (drop step (drop offset data))) s1)" for s1
      using less [OF lt, of s1] unfolding d .
    with True e show ?thesis
      by (simp add: send_chunks.simps [of api sid step data offset s] Let_def split: sum.split prod.split del: length_take)
  qed
qed

lemma send_pieces_logged:
  assumes "send_pieces (log_a sid api) sid ps l = (Inr (), l')"
  shows "\<exists>s. l' = l\<lparr>lg_state := s, lg_sent_a := lg_sent_a l @ concat (map (\<lambda>p. frame_bytes (chunk_frame p)) ps)\<rparr>
    \<and> list_all (\<lambda>p. frame_ok (chunk_frame p)) ps"
  using assms
proof (induction ps arbitrary: l)
  case Nil
  then show ?case by (auto intro: exI [of _ "lg_state l'"])
next
  case (Cons p ps)
  let ?f = "frame_bytes (chunk_frame p)"
  from Cons.prems have ok: "length p < MAX_FRAME_BYTES"
    by (auto simp: encode_frame_eq split: if_splits)
  then have e: "encode_frame CHUNK p = Inr ?f" by (simp add: encode_frame_eq chunk_frame_def)
  obtain r s1 where q: "so_send_on api sid ?f (lg_state l) = (r, s1)" by fastforce
  from Cons.prems e q have r: "r = Inr ()" by (cases r) (auto simp: log_a_def logged_simps)
  with Cons.prems e q have "send_pieces (log_a sid api) sid ps
      (l\<lparr>lg_state := s1, lg_sent_a := lg_sent_a l @ ?f\<rparr>) = (Inr (), l')"
    by (simp add: log_a_def logged_simps)
  from Cons.IH [OF this] ok show ?case by (auto simp: frame_ok_def chunk_frame_def)
qed

section \<open>Runs\<close>

text \<open>
  As for the chat, a run stops at a call that raises or does not return. \<open>FElsewhere\<close> is any
  other activity of the two sessions and the channel.
\<close>

datatype 's transfer_act = Start | SenderPump | ReceiverPump | FElsewhere "'s \<Rightarrow> 's"

record 's Transfer =
  tr_sender :: FileSender
  tr_receiver :: FileReceiver
  tr_log :: "'s StreamLog"

definition new_transfer :: "FileSender \<Rightarrow> bool \<Rightarrow> 's \<Rightarrow> 's Transfer" where
  "new_transfer f auto_accept s =
     \<lparr>tr_sender = f, tr_receiver = FileReceiver_init (fs_stream_id f) auto_accept, tr_log = new_log s\<rparr>"

fun transfer_step ::
  "(real \<Rightarrow> pstr) \<Rightarrow> (pstr \<Rightarrow> real) \<Rightarrow> 's session_ops \<Rightarrow> 's session_ops \<Rightarrow> 's transfer_act
    \<Rightarrow> 's Transfer \<Rightarrow> 's Transfer option" where
  "transfer_step fr fp api_a api_b Start t =
     (case fs_start fr (log_a (fs_stream_id (tr_sender t)) api_a) (tr_sender t) (tr_log t) of
        (Inl e, _, _) \<Rightarrow> None
      | (Inr _, f, l) \<Rightarrow> Some (t\<lparr>tr_sender := f, tr_log := l\<rparr>))"
| "transfer_step fr fp api_a api_b SenderPump t =
     (case fs_pump fr (log_a (fs_stream_id (tr_sender t)) api_a) (tr_sender t) (tr_log t) of
        Some (Inr _, f, l) \<Rightarrow> Some (t\<lparr>tr_sender := f, tr_log := l\<rparr>) | _ \<Rightarrow> None)"
| "transfer_step fr fp api_a api_b ReceiverPump t =
     (case fr_pump fr fp (log_b (fr_stream_id (tr_receiver t)) api_b) (tr_receiver t) (tr_log t) of
        Some (Inr _, f, l) \<Rightarrow> Some (t\<lparr>tr_receiver := f, tr_log := l\<rparr>) | _ \<Rightarrow> None)"
| "transfer_step fr fp api_a api_b (FElsewhere g) t =
     Some (t\<lparr>tr_log := (tr_log t)\<lparr>lg_state := g (lg_state (tr_log t))\<rparr>\<rparr>)"

fun transfer_run ::
  "(real \<Rightarrow> pstr) \<Rightarrow> (pstr \<Rightarrow> real) \<Rightarrow> 's session_ops \<Rightarrow> 's session_ops \<Rightarrow> 's transfer_act list
    \<Rightarrow> 's Transfer \<Rightarrow> 's Transfer option" where
  "transfer_run fr fp api_a api_b [] t = Some t"
| "transfer_run fr fp api_a api_b (x # xs) t =
     Option.bind (transfer_step fr fp api_a api_b x t) (transfer_run fr fp api_a api_b xs)"

end
