(* ===== verification/File_Inv.thy ===== *)
theory File_Inv
  imports File_Run
begin

text \<open>Invariants of a transfer, and what they say when the sender is complete.\<close>

section \<open>Loops over frames and chunks\<close>

lemma each_frame_run:
  assumes "\<And>f e s e1 s1 hist. I hist e s \<Longrightarrow> h f e s = Some (Inr (), e1, s1) \<Longrightarrow> I (hist @ [f]) e1 s1"
    and "each_frame h fs e s = Some (Inr (), e', s')" and "I hist e s"
  shows "I (hist @ fs) e' s'"
  using assms(2,3)
proof (induction fs arbitrary: hist e s)
  case (Cons f fs)
  obtain r e1 s1 where h: "h f e s = Some (r, e1, s1)" using Cons.prems(1) by (cases "h f e s") auto
  with Cons.prems(1) have r: "r = Inr ()" by (cases r) auto
  with Cons.prems h have "each_frame h fs e1 s1 = Some (Inr (), e', s')" by simp
  from Cons.IH [OF this assms(1) [OF Cons.prems(2) h [unfolded r]]] show ?case by simp
qed simp

lemma each_chunk_run:
  assumes "\<And>f e s e1 s1 hist. I hist e s \<Longrightarrow> h f e s = Some (Inr (), e1, s1) \<Longrightarrow> I (hist @ [f]) e1 s1"
    and "each_chunk h buf cs e s = Some (Inr (), buf', e', s')"
    and "file_loop (concat got) = (Inr hist, buf)" and "I hist e s"
  shows "\<exists>hist'. file_loop (concat (got @ cs)) = (Inr hist', buf') \<and> I hist' e' s'"
  using assms(2-4)
proof (induction cs arbitrary: got buf hist e s)
  case (Cons c cs)
  obtain q b where q: "file_loop (buf @ c) = (q, b)" by fastforce
  with Cons.prems(1) obtain fs where fs: "q = Inr fs"
    by (cases q) (auto simp: file_frames.feed_loop)
  obtain r e1 s1 where r: "each_frame h fs e s = Some (r, e1, s1)"
    using Cons.prems(1) q fs by (cases "each_frame h fs e s") (auto simp: file_frames.feed_loop)
  with Cons.prems(1) q fs have ok: "r = Inr ()" by (cases r) (auto simp: file_frames.feed_loop)
  with Cons.prems(1) q fs r have rest: "each_chunk h b cs e1 s1 = Some (Inr (), buf', e', s')"
    by (simp add: file_frames.feed_loop)
  have l: "file_loop (concat (got @ [c])) = (Inr (hist @ fs), b)"
    using Cons.prems(2) q fs file_frames.loop_append [of "concat got" c] by simp
  have "I (hist @ fs) e1 s1"
    by (rule each_frame_run [where I = I and h = h, OF assms(1) r [unfolded ok] Cons.prems(3)])
  from Cons.IH [OF rest l this] show ?case by simp
qed auto

section \<open>The sender\<close>

definition offered :: "(real \<Rightarrow> pstr) \<Rightarrow> FileSender \<Rightarrow> bool" where
  "offered fr f0 \<longleftrightarrow> \<not> isl (encode_control fr OFFER (offer_object f0))"

definition sent_upto :: "(real \<Rightarrow> pstr) \<Rightarrow> FileSender \<Rightarrow> nat \<Rightarrow> bytes \<Rightarrow> bool" where
  "sent_upto fr f0 n out \<longleftrightarrow>
     out = concat (map frame_bytes (take n (transfer_frames fr f0))) \<and>
     list_all frame_ok (take n (transfer_frames fr f0)) \<and> (0 < n \<longrightarrow> offered fr f0)"

definition same_sender :: "FileSender \<Rightarrow> FileSender \<Rightarrow> bool" where
  "same_sender f0 f \<longleftrightarrow> fs_name f = fs_name f0 \<and> fs_data f = fs_data f0 \<and>
     fs_stream_id f = fs_stream_id f0 \<and> fs_chunk_size f = fs_chunk_size f0"

definition sends_only :: "'s StreamLog \<Rightarrow> 's StreamLog \<Rightarrow> bool" where
  "sends_only l0 l \<longleftrightarrow> lg_got_a l = lg_got_a l0 \<and> lg_sent_b l = lg_sent_b l0 \<and> lg_got_b l = lg_got_b l0"

text \<open>
  What the sender is after the frames \<open>hist\<close>: its fixed fields are the initial ones, what it has
  sent is nothing, the offer or the whole transfer, and it is complete only if an ACK came.
\<close>

definition sender_after ::
  "(real \<Rightarrow> pstr) \<Rightarrow> FileSender \<Rightarrow> 's StreamLog \<Rightarrow> FileFrame list \<Rightarrow> FileSender \<Rightarrow> 's StreamLog \<Rightarrow> bool" where
  "sender_after fr f0 l0 hist f l \<longleftrightarrow>
     same_sender f0 f \<and> sends_only l0 l \<and>
     (\<exists>n. sent_upto fr f0 n (lg_sent_a l) \<and> (fs_state f = FIdle \<longrightarrow> n = 0) \<and> (fs_state f = Offered \<longrightarrow> n = 1)) \<and>
     (fs_state f = Complete \<longrightarrow> FILE_ACK \<in> ff_type ` set hist) \<and>
     fs_state f \<noteq> Sending \<and> fs_state f \<noteq> Receiving"

lemma sent_all:
  assumes "0 < fs_chunk_size f0" and "sent_upto fr f0 1 (lg_sent_a l)" and f: "same_sender f0 f"
    and "send_all_chunks_and_done fr (log_a (fs_stream_id f0) api) f l = Some (Inr (), f', l')"
  shows "f' = f\<lparr>fs_state := DoneSent\<rparr> \<and> sends_only l l' \<and>
    sent_upto fr f0 (length (transfer_frames fr f0)) (lg_sent_a l')"
proof -
  let ?sid = "fs_stream_id f0" and ?api = "log_a (fs_stream_id f0) api"
  have sc: "send_chunks ?api ?sid (nat (fs_chunk_size f)) (fs_data f) 0 l =
      Some (send_pieces ?api ?sid (pieces f0) l)"
    using send_chunks_slices [of "nat (fs_chunk_size f)" ?api ?sid "fs_data f" 0 l] assms(1) f
    by (simp add: same_sender_def pieces_def)
  have sid: "fs_stream_id f = ?sid" using f by (simp add: same_sender_def)
  obtain r l1 where p: "send_pieces ?api ?sid (pieces f0) l = (r, l1)" by fastforce
  with sc sid assms(4) have r: "r = Inr ()"
    by (cases r) (auto simp: send_all_chunks_and_done_def)
  with p send_pieces_logged obtain s where
    l1: "l1 = l\<lparr>lg_state := s, lg_sent_a := lg_sent_a l @ concat (map (\<lambda>p. frame_bytes (chunk_frame p)) (pieces f0))\<rparr>"
    and ok: "list_all (\<lambda>p. frame_ok (chunk_frame p)) (pieces f0)" by metis
  from assms(4) sc p r sid obtain d where d: "encode_control fr DONE [] = Inr d"
    by (auto simp: send_all_chunks_and_done_def split: sum.splits)
  obtain q s2 where q: "so_send_on api ?sid d (lg_state l1) = (q, s2)" by fastforce
  have res: "f' = f\<lparr>fs_state := DoneSent\<rparr>" "l' = l1\<lparr>lg_state := s2, lg_sent_a := lg_sent_a l1 @ d\<rparr>"
    using assms(4) sc p r d q sid
    by (auto simp: send_all_chunks_and_done_def log_a_def logged_simps split: sum.splits)
  have "sent_upto fr f0 (length (transfer_frames fr f0)) (lg_sent_a l')"
    using assms(2) encode_control_frame [OF d] ok unfolding res(2) l1 sent_upto_def
    by (simp add: transfer_frames_def comp_def list_all_iff)
  with res l1 show ?thesis by (simp add: sends_only_def)
qed

lemma sender_handles:
  assumes "0 < fs_chunk_size f0" and "sender_after fr f0 l0 hist f l"
    and "fs_handle_frame fr (log_a (fs_stream_id f0) api) x f l = Some (Inr (), f', l')"
  shows "sender_after fr f0 l0 (hist @ [x]) f' l'"
proof (cases "ff_type x = ACCEPT \<and> fs_state f = Offered")
  case True
  from True assms(2) have s1: "sent_upto fr f0 1 (lg_sent_a l)" by (auto simp: sender_after_def)
  let ?f = "f\<lparr>fs_state := Sending\<rparr>"
  have same: "same_sender f0 ?f" using assms(2) by (simp add: sender_after_def same_sender_def)
  have r: "send_all_chunks_and_done fr (log_a (fs_stream_id f0) api) ?f l = Some (Inr (), f', l')"
    using assms(3) True by (simp add: fs_handle_frame_def)
  from sent_all [OF assms(1) s1 same r] assms(2) show ?thesis
    by (auto simp: sender_after_def sends_only_def same_sender_def)
next
  case False
  with assms(2,3) show ?thesis
    by (auto simp: sender_after_def same_sender_def fs_handle_frame_def split: if_splits)
qed

section \<open>The receiver\<close>

definition accept_bytes :: "(real \<Rightarrow> pstr) \<Rightarrow> bytes" where
  "accept_bytes fr = frame_bytes (control_frame fr ACCEPT [])"

definition ack_bytes :: "(real \<Rightarrow> pstr) \<Rightarrow> bytes" where
  "ack_bytes fr = frame_bytes (control_frame fr FILE_ACK (ok_object True))"

text \<open>
  What the receiver is after the frames \<open>hist\<close>, as long as they are a prefix of the transfer of
  \<open>f0\<close>: idle before the offer, then receiving with the pieces so far, then complete with the file.
\<close>

definition receiver_at :: "(real \<Rightarrow> pstr) \<Rightarrow> FileSender \<Rightarrow> nat \<Rightarrow> FileReceiver \<Rightarrow> bytes \<Rightarrow> bool" where
  "receiver_at fr f0 n r out \<longleftrightarrow>
     (if n = 0 \<or> \<not> fr_auto_accept r then
        fr_state r = FIdle \<and> fr_buffer r = [] \<and> out = []
      else
        fr_name r = Some (fs_name f0) \<and> fr_expected_sha r = Some (sha256_hex (fs_data f0)) \<and>
        fr_expected_size r = Some (int (length (fs_data f0))) \<and>
        fr_buffer r = concat (take (n - 1) (pieces f0)) \<and>
        (if n < length (transfer_frames fr f0) then
           fr_state r = Receiving \<and> out = accept_bytes fr \<and> frame_ok (control_frame fr ACCEPT [])
         else
           fr_state r = Complete \<and> fr_verified r \<and> out = accept_bytes fr @ ack_bytes fr \<and>
           frame_ok (control_frame fr ACCEPT []) \<and> frame_ok (control_frame fr FILE_ACK (ok_object True))))"

definition receiver_after ::
  "(real \<Rightarrow> pstr) \<Rightarrow> FileSender \<Rightarrow> bool \<Rightarrow> 's StreamLog \<Rightarrow> FileFrame list \<Rightarrow> FileReceiver \<Rightarrow> 's StreamLog \<Rightarrow> bool" where
  "receiver_after fr f0 auto l0 hist r l \<longleftrightarrow>
     fr_stream_id r = fs_stream_id f0 \<and> fr_auto_accept r = auto \<and>
     lg_got_a l = lg_got_a l0 \<and> lg_got_b l = lg_got_b l0 \<and> lg_sent_a l = lg_sent_a l0 \<and>
     ((hist = [] \<or> offered fr f0) \<and> take (length hist) (transfer_frames fr f0) = hist \<longrightarrow>
        receiver_at fr f0 (length hist) r (lg_sent_b l))"

lemma send_control_logged:
  assumes "send_control fr (log_b sid api) sid ty obj l = (Inr (), l')"
  shows "\<exists>s. l' = l\<lparr>lg_state := s, lg_sent_b := lg_sent_b l @ frame_bytes (control_frame fr ty obj)\<rparr> \<and>
    frame_ok (control_frame fr ty obj)"
proof -
  from assms obtain b where b: "encode_control fr ty obj = Inr b"
    by (auto simp: send_control_def split: sum.splits)
  obtain q s where q: "so_send_on api sid b (lg_state l) = (q, s)" by fastforce
  from assms b q encode_control_frame [OF b] show ?thesis
    by (cases q) (auto simp: send_control_def log_b_def logged_simps)
qed

lemma send_control_keeps:
  assumes "send_control fr (log_b sid api) sid ty obj l = (r, l')"
  shows "lg_got_a l' = lg_got_a l \<and> lg_got_b l' = lg_got_b l \<and> lg_sent_a l' = lg_sent_a l"
  using assms by (auto simp: send_control_def log_b_def logged_simps split: sum.splits if_splits)

lemma receiver_keeps:
  assumes "fr_handle_frame fr fp (log_b (fr_stream_id r) api) x r l = Some (q, r', l')"
  shows "fr_stream_id r' = fr_stream_id r \<and> fr_auto_accept r' = fr_auto_accept r \<and>
    lg_got_a l' = lg_got_a l \<and> lg_got_b l' = lg_got_b l \<and> lg_sent_a l' = lg_sent_a l"
proof -
  have o: "fr_stream_id (snd (offer_is_valid fp body r)) = fr_stream_id r \<and>
      fr_auto_accept (snd (offer_is_valid fp body r)) = fr_auto_accept r" for body
    by (auto simp: offer_is_valid_def split: sum.split option.split json.split)
  show ?thesis
    using assms o
    by (auto simp: fr_handle_frame_def handle_offer_def reject_offer_def handle_done_def Let_def split_beta
        split: if_splits sum.splits prod.splits dest: send_control_keeps) (metis prod.collapse send_control_keeps)+
qed

lemma length_transfer: "length (transfer_frames fr f) = length (pieces f) + 2"
  by (simp add: transfer_frames_def)

lemma concat_pieces: "0 < fs_chunk_size f \<Longrightarrow> concat (pieces f) = fs_data f"
  by (simp add: pieces_def concat_py_slices)

lemma offer_captured:
  assumes "offered fr f0"
  shows "offer_is_valid fp (ff_body (control_frame fr OFFER (offer_object f0))) r =
    (True, r\<lparr>fr_name := Some (fs_name f0), fr_expected_size := Some (int (length (fs_data f0))),
      fr_expected_sha := Some (sha256_hex (fs_data f0))\<rparr>)"
proof -
  obtain b where b: "encode_control fr OFFER (offer_object f0) = Inr b"
    using assms by (cases "encode_control fr OFFER (offer_object f0)") (auto simp: offered_def)
  have "decode_control fp (ff_body (control_frame fr OFFER (offer_object f0))) = Inr (offer_object f0)"
    using encode_control_frame(3) [OF b offer_ok] by simp
  then show ?thesis by (simp add: offer_is_valid_def offer_object_def code_points_def)
qed

text \<open>One lemma per kind of frame, for a receiver that has handled the frames before it.\<close>

lemma receiver_offer:
  assumes "offered fr f0" and "receiver_at fr f0 0 r (lg_sent_b l)"
    and "fr_handle_frame fr fp (log_b (fr_stream_id r) api) (control_frame fr OFFER (offer_object f0)) r l
      = Some (Inr (), r', l')"
  shows "receiver_at fr f0 1 r' (lg_sent_b l')"
proof -
  let ?r = "r\<lparr>fr_name := Some (fs_name f0), fr_expected_size := Some (int (length (fs_data f0))),
      fr_expected_sha := Some (sha256_hex (fs_data f0))\<rparr>"
  have idle: "fr_state r = FIdle" "fr_buffer r = []" "lg_sent_b l = []"
    using assms(2) by (simp_all add: receiver_at_def)
  have h: "handle_offer fr fp (log_b (fr_stream_id r) api) (ff_body (control_frame fr OFFER (offer_object f0))) r l
      = (Inr (), r', l')"
    using assms(3) idle by (simp add: fr_handle_frame_def)
  show ?thesis
  proof (cases "fr_auto_accept r")
    case False
    with h idle show ?thesis by (auto simp: handle_offer_def offer_captured [OF assms(1)] receiver_at_def)
  next
    case True
    obtain q l1 where q: "send_control fr (log_b (fr_stream_id r) api) (fr_stream_id r) ACCEPT [] l = (q, l1)"
      by fastforce
    with h True have r': "q = Inr ()" "r' = ?r\<lparr>fr_state := Receiving\<rparr>" "l' = l1"
      by (cases q; auto simp: handle_offer_def offer_captured [OF assms(1)])+
    with q send_control_logged [of fr "fr_stream_id r" api ACCEPT "[]" l l1]
    have "lg_sent_b l' = accept_bytes fr" "frame_ok (control_frame fr ACCEPT [])"
      by (auto simp: idle accept_bytes_def)
    with r' idle True show ?thesis by (simp add: receiver_at_def length_transfer)
  qed
qed

lemma receiver_chunk:
  assumes "receiver_at fr f0 (Suc n) r (lg_sent_b l)" and "n < length (pieces f0)"
    and "fr_handle_frame fr fp (log_b (fr_stream_id r) api) (chunk_frame (pieces f0 ! n)) r l = Some (Inr (), r', l')"
  shows "receiver_at fr f0 (Suc (Suc n)) r' (lg_sent_b l')"
  using assms
  by (cases "fr_auto_accept r")
    (auto simp: receiver_at_def fr_handle_frame_def chunk_frame_def length_transfer take_Suc_conv_app_nth)

lemma receiver_done:
  assumes "0 < fs_chunk_size f0" and "receiver_at fr f0 (Suc (length (pieces f0))) r (lg_sent_b l)"
    and "fr_handle_frame fr fp (log_b (fr_stream_id r) api) (control_frame fr DONE []) r l = Some (Inr (), r', l')"
  shows "receiver_at fr f0 (Suc (Suc (length (pieces f0)))) r' (lg_sent_b l')"
proof (cases "fr_auto_accept r")
  case False
  with assms show ?thesis by (auto simp: receiver_at_def fr_handle_frame_def)
next
  case True
  with assms(2) have st: "fr_state r = Receiving" "fr_buffer r = fs_data f0" "lg_sent_b l = accept_bytes fr"
    "fr_expected_sha r = Some (sha256_hex (fs_data f0))"
    by (simp_all add: receiver_at_def length_transfer concat_pieces [OF assms(1)])
  let ?r = "r\<lparr>fr_verified := True\<rparr>"
  obtain q l1 where q: "send_control fr (log_b (fr_stream_id r) api) (fr_stream_id r) FILE_ACK (ok_object True) l = (q, l1)"
    by fastforce
  with assms(3) st have r': "q = Inr ()" "r' = ?r\<lparr>fr_state := Complete\<rparr>" "l' = l1"
    by (cases q; auto simp: fr_handle_frame_def handle_done_def)+
  with q send_control_logged [of fr "fr_stream_id r" api FILE_ACK "ok_object True" l l1]
  have "lg_sent_b l' = accept_bytes fr @ ack_bytes fr" "frame_ok (control_frame fr FILE_ACK (ok_object True))"
    by (auto simp: st ack_bytes_def)
  with r' assms(2) True show ?thesis
    by (simp add: receiver_at_def length_transfer concat_pieces [OF assms(1)])
qed

lemma receiver_step:
  assumes "0 < fs_chunk_size f0" and "offered fr f0" and "receiver_at fr f0 n r (lg_sent_b l)"
    and "n < length (transfer_frames fr f0)"
    and "fr_handle_frame fr fp (log_b (fr_stream_id r) api) (transfer_frames fr f0 ! n) r l = Some (Inr (), r', l')"
  shows "receiver_at fr f0 (Suc n) r' (lg_sent_b l')"
proof -
  consider "n = 0" | m where "n = Suc m" "m < length (pieces f0)" | "n = Suc (length (pieces f0))"
    using assms(4) by (cases n) (auto simp: length_transfer less_Suc_eq)
  then show ?thesis
  proof cases
    case 1
    with receiver_offer [OF assms(2), of r l fp api r' l'] assms(3,5) show ?thesis
      by (simp add: transfer_frames_def)
  next
    case 2
    then have "transfer_frames fr f0 ! n = chunk_frame (pieces f0 ! m)"
      by (simp add: transfer_frames_def nth_append)
    with receiver_chunk [of fr f0 m r l fp api r' l'] assms(3,5) 2 show ?thesis by simp
  next
    case 3
    then have "transfer_frames fr f0 ! n = control_frame fr DONE []"
      by (simp add: transfer_frames_def nth_append)
    with receiver_done [OF assms(1), of fr r l fp api r' l'] assms(3,5) 3 show ?thesis by simp
  qed
qed

lemma receiver_handles:
  assumes "0 < fs_chunk_size f0" and "receiver_after fr f0 auto l0 hist r l"
    and "fr_handle_frame fr fp (log_b (fs_stream_id f0) api) x r l = Some (Inr (), r', l')"
  shows "receiver_after fr f0 auto l0 (hist @ [x]) r' l'"
proof -
  have sid: "fr_stream_id r = fs_stream_id f0" using assms(2) by (simp add: receiver_after_def)
  note h = assms(3) [folded sid]
  have "receiver_at fr f0 (length (hist @ [x])) r' (lg_sent_b l')"
    if o: "offered fr f0" and p: "take (length (hist @ [x])) (transfer_frames fr f0) = hist @ [x]"
  proof -
    have n: "length hist < length (transfer_frames fr f0)"
      using arg_cong [OF p, of length] by simp
    with p have "take (length hist) (transfer_frames fr f0) = hist" "transfer_frames fr f0 ! length hist = x"
      by (simp_all add: take_Suc_conv_app_nth)
    with receiver_step [OF assms(1) o _ n, of r l fp api r' l'] assms(2) h o show ?thesis
      by (simp add: receiver_after_def)
  qed
  with assms(2) receiver_keeps [OF h] show ?thesis by (simp add: receiver_after_def)
qed

end
