(* ===== verification/File_Props.thy ===== *)
theory File_Props
  imports File_Inv
begin

text \<open>
  What the file transfer promises: a complete sender means a complete and verified receiver
  with the same bytes; over an ideal transport every file arrives; malformed offers and damaged
  files fail the transfer.
\<close>

section \<open>The invariant of a run\<close>

definition transfer_ok :: "(real \<Rightarrow> pstr) \<Rightarrow> FileSender \<Rightarrow> bool \<Rightarrow> 's Transfer \<Rightarrow> bool" where
  "transfer_ok fr f0 auto t \<longleftrightarrow>
     (\<exists>hist. file_loop (concat (lg_got_a (tr_log t))) = (Inr hist, fs_reassembler (tr_sender t)) \<and>
        sender_after fr f0 (tr_log t) hist (tr_sender t) (tr_log t)) \<and>
     (\<exists>hist. file_loop (concat (lg_got_b (tr_log t))) = (Inr hist, fr_reassembler (tr_receiver t)) \<and>
        receiver_after fr f0 auto (tr_log t) hist (tr_receiver t) (tr_log t))"

lemma file_loop_Nil: "file_loop [] = (Inr [], [])"
  by (simp add: file_loop.simps LENGTH_SIZE_4)

lemma transfer_ok_init:
  assumes "FileSender_init name data sid k = Inr f0"
  shows "transfer_ok fr f0 auto (new_transfer f0 auto s) \<and> 0 < fs_chunk_size f0"
  using assms
  by (auto simp: FileSender_init_def transfer_ok_def new_transfer_def new_log_def file_loop_Nil
      sender_after_def same_sender_def sends_only_def sent_upto_def receiver_after_def receiver_at_def
      FileReceiver_init_def split: if_splits)

lemma sender_after_any:
  "sender_after fr f0 l0 hist f l \<Longrightarrow> sends_only l1 l \<Longrightarrow> sender_after fr f0 l1 hist f l"
  by (simp add: sender_after_def)

lemma start_ok:
  assumes "sender_after fr f0 l hist f l" and "fs_start fr (log_a (fs_stream_id f0) api) f l = (Inr (), f', l')"
  shows "sender_after fr f0 l' hist f' l' \<and> fs_reassembler f' = fs_reassembler f \<and>
    lg_got_a l' = lg_got_a l \<and> lg_got_b l' = lg_got_b l \<and> lg_sent_b l' = lg_sent_b l"
proof -
  have same: "same_sender f0 f" and sent: "\<exists>n. sent_upto fr f0 n (lg_sent_a l) \<and> (fs_state f = FIdle \<longrightarrow> n = 0)"
    using assms(1) by (auto simp: sender_after_def)
  have eq: "offer_object f = offer_object f0" "fs_stream_id f = fs_stream_id f0"
    using same by (simp_all add: same_sender_def offer_object_def)
  have idle: "fs_state f = FIdle" using assms(2) by (auto simp: fs_start_def split: if_splits)
  obtain b where b: "encode_control fr OFFER (offer_object f0) = Inr b"
    using assms(2) idle eq by (auto simp: fs_start_def split: sum.splits)
  obtain q s where q: "so_send_on api (fs_stream_id f0) b (lg_state l) = (q, s)" by fastforce
  have r: "f' = f\<lparr>fs_state := Offered\<rparr>" "l' = l\<lparr>lg_state := s, lg_sent_a := lg_sent_a l @ b\<rparr>"
    using assms(2) idle b q eq by (auto simp: fs_start_def log_a_def logged_simps split: sum.splits)
  have "sent_upto fr f0 1 (lg_sent_a l')"
    using sent idle encode_control_frame [OF b] b
    by (auto simp: r sent_upto_def transfer_frames_def offered_def)
  with r assms(1) same show ?thesis by (simp add: sender_after_def sends_only_def same_sender_def)
qed

lemma sender_pump_ok:
  assumes "0 < fs_chunk_size f0" and "sender_after fr f0 l hist f l"
    and "file_loop (concat (lg_got_a l)) = (Inr hist, fs_reassembler f)"
    and "fs_pump fr (log_a (fs_stream_id f0) api) f l = Some (Inr st, f', l')"
  shows "\<exists>hist'. file_loop (concat (lg_got_a l')) = (Inr hist', fs_reassembler f') \<and>
    sender_after fr f0 l' hist' f' l' \<and> lg_got_b l' = lg_got_b l \<and> lg_sent_b l' = lg_sent_b l"
proof -
  let ?api = "log_a (fs_stream_id f0) api"
  have sid: "fs_stream_id f = fs_stream_id f0" using assms(2) by (simp add: sender_after_def same_sender_def)
  obtain q s1 where p: "so_pump api (lg_state l) = Some (q, s1)"
    using assms(4) by (cases "so_pump api (lg_state l)") (auto simp: fs_pump_def log_a_def logged_simps)
  obtain cs s2 where r: "so_recv_on api (fs_stream_id f0) s1 = (cs, s2)" by fastforce
  let ?l2 = "l\<lparr>lg_state := s2, lg_got_a := lg_got_a l @ cs\<rparr>"
  have q: "\<not> isl q" using assms(4) p by (cases q) (auto simp: fs_pump_def log_a_def logged_simps)
  obtain r2 buf f1 l3 where e: "each_chunk (fs_handle_frame fr ?api) (fs_reassembler f) cs f ?l2 = Some (r2, buf, f1, l3)"
    using assms(4) p q r sid
    by (cases "each_chunk (fs_handle_frame fr ?api) (fs_reassembler f) cs f ?l2"; cases q)
      (auto simp: fs_pump_def log_a_def logged_simps)
  have res: "r2 = Inr ()" "f' = f1\<lparr>fs_reassembler := buf\<rparr>" "l' = l3"
    using assms(4) p q r sid e by (cases r2; cases q; auto simp: fs_pump_def log_a_def logged_simps)+
  have now: "sender_after fr f0 ?l2 hist f ?l2" using assms(2) by (simp add: sender_after_def sends_only_def)
  have step: "sender_after fr f0 ?l2 h e s \<Longrightarrow> fs_handle_frame fr ?api x e s = Some (Inr (), e1, t1) \<Longrightarrow>
      sender_after fr f0 ?l2 (h @ [x]) e1 t1" for x e s e1 t1 h
    by (rule sender_handles [OF assms(1)])
  have "\<exists>hist'. file_loop (concat (lg_got_a l @ cs)) = (Inr hist', buf) \<and> sender_after fr f0 ?l2 hist' f1 l3"
    by (rule each_chunk_run [where I = "\<lambda>hist f l. sender_after fr f0 ?l2 hist f l" and h = "fs_handle_frame fr ?api",
        OF _ e [unfolded res(1)] assms(3) now]) (rule step)
  then obtain hist' where h: "file_loop (concat (lg_got_a l @ cs)) = (Inr hist', buf)"
    and a: "sender_after fr f0 ?l2 hist' f1 l3" by blast
  from a have l3: "lg_got_a l3 = lg_got_a l @ cs" "lg_sent_b l3 = lg_sent_b l" "lg_got_b l3 = lg_got_b l"
    by (simp_all add: sender_after_def sends_only_def)
  moreover have "sender_after fr f0 l3 hist' f' l3"
    using a res(2) by (simp add: sender_after_def sends_only_def same_sender_def)
  ultimately show ?thesis using h res by auto
qed

lemma receiver_pump_ok:
  assumes "0 < fs_chunk_size f0" and "receiver_after fr f0 auto l hist f l"
    and "file_loop (concat (lg_got_b l)) = (Inr hist, fr_reassembler f)"
    and "fr_pump fr fp (log_b (fs_stream_id f0) api) f l = Some (Inr st, f', l')"
  shows "\<exists>hist'. file_loop (concat (lg_got_b l')) = (Inr hist', fr_reassembler f') \<and>
    receiver_after fr f0 auto l' hist' f' l' \<and> lg_got_a l' = lg_got_a l \<and> lg_sent_a l' = lg_sent_a l"
proof -
  let ?api = "log_b (fs_stream_id f0) api"
  have sid: "fr_stream_id f = fs_stream_id f0" using assms(2) by (simp add: receiver_after_def)
  obtain q s1 where p: "so_pump api (lg_state l) = Some (q, s1)"
    using assms(4) by (cases "so_pump api (lg_state l)") (auto simp: fr_pump_def log_b_def logged_simps)
  obtain cs s2 where r: "so_recv_on api (fs_stream_id f0) s1 = (cs, s2)" by fastforce
  let ?l2 = "l\<lparr>lg_state := s2, lg_got_b := lg_got_b l @ cs\<rparr>"
  have q: "\<not> isl q" using assms(4) p by (cases q) (auto simp: fr_pump_def log_b_def logged_simps)
  obtain r2 buf f1 l3 where e: "each_chunk (fr_handle_frame fr fp ?api) (fr_reassembler f) cs f ?l2 = Some (r2, buf, f1, l3)"
    using assms(4) p q r sid
    by (cases "each_chunk (fr_handle_frame fr fp ?api) (fr_reassembler f) cs f ?l2"; cases q)
      (auto simp: fr_pump_def log_b_def logged_simps)
  have res: "r2 = Inr ()" "f' = f1\<lparr>fr_reassembler := buf\<rparr>" "l' = l3"
    using assms(4) p q r sid e by (cases r2; cases q; auto simp: fr_pump_def log_b_def logged_simps)+
  have now: "receiver_after fr f0 auto ?l2 hist f ?l2" using assms(2) by (simp add: receiver_after_def)
  have step: "receiver_after fr f0 auto ?l2 h e s \<Longrightarrow> fr_handle_frame fr fp ?api x e s = Some (Inr (), e1, t1) \<Longrightarrow>
      receiver_after fr f0 auto ?l2 (h @ [x]) e1 t1" for x e s e1 t1 h
    by (rule receiver_handles [OF assms(1)])
  have "\<exists>hist'. file_loop (concat (lg_got_b l @ cs)) = (Inr hist', buf) \<and> receiver_after fr f0 auto ?l2 hist' f1 l3"
    by (rule each_chunk_run [where I = "\<lambda>hist f l. receiver_after fr f0 auto ?l2 hist f l"
          and h = "fr_handle_frame fr fp ?api",
        OF _ e [unfolded res(1)] assms(3) now]) (rule step)
  then obtain hist' where h: "file_loop (concat (lg_got_b l @ cs)) = (Inr hist', buf)"
    and a: "receiver_after fr f0 auto ?l2 hist' f1 l3" by blast
  from a have l3: "lg_got_b l3 = lg_got_b l @ cs" "lg_sent_a l3 = lg_sent_a l" "lg_got_a l3 = lg_got_a l"
    by (simp_all add: receiver_after_def)
  moreover have "receiver_after fr f0 auto l3 hist' f' l3"
    using a res(2) by (simp add: receiver_after_def receiver_at_def)
  ultimately show ?thesis using h res by auto
qed

lemma transfer_step_ok:
  assumes "0 < fs_chunk_size f0" and "transfer_ok fr f0 auto t"
    and "transfer_step fr fp api_a api_b x t = Some t'"
  shows "transfer_ok fr f0 auto t'"
proof -
  let ?l = "tr_log t"
  from assms(2) obtain ha hb where
    a: "file_loop (concat (lg_got_a ?l)) = (Inr ha, fs_reassembler (tr_sender t))" "sender_after fr f0 ?l ha (tr_sender t) ?l"
    and b: "file_loop (concat (lg_got_b ?l)) = (Inr hb, fr_reassembler (tr_receiver t))"
      "receiver_after fr f0 auto ?l hb (tr_receiver t) ?l"
    by (auto simp: transfer_ok_def)
  have sid: "fs_stream_id (tr_sender t) = fs_stream_id f0" "fr_stream_id (tr_receiver t) = fs_stream_id f0"
    using a(2) b(2) by (simp_all add: sender_after_def same_sender_def receiver_after_def)
  show ?thesis
  proof (cases x)
    case Start
    with assms(3) sid obtain f l where s: "fs_start fr (log_a (fs_stream_id f0) api_a) (tr_sender t) ?l = (Inr (), f, l)"
      and t': "t' = t\<lparr>tr_sender := f, tr_log := l\<rparr>"
      by (auto split: sum.splits prod.splits)
    from start_ok [OF a(2) s] a b show ?thesis
      unfolding transfer_ok_def t' by (auto simp: receiver_after_def)
  next
    case SenderPump
    with assms(3) sid obtain st f l where
      s: "fs_pump fr (log_a (fs_stream_id f0) api_a) (tr_sender t) ?l = Some (Inr st, f, l)"
      and t': "t' = t\<lparr>tr_sender := f, tr_log := l\<rparr>"
      by (auto split: sum.splits prod.splits option.splits)
    from sender_pump_ok [OF assms(1) a(2,1) s] b show ?thesis
      unfolding transfer_ok_def t' by (auto simp: receiver_after_def)
  next
    case ReceiverPump
    with assms(3) sid obtain st f l where
      s: "fr_pump fr fp (log_b (fs_stream_id f0) api_b) (tr_receiver t) ?l = Some (Inr st, f, l)"
      and t': "t' = t\<lparr>tr_receiver := f, tr_log := l\<rparr>"
      by (auto split: sum.splits prod.splits option.splits)
    from receiver_pump_ok [OF assms(1) b(2,1) s] a show ?thesis
      unfolding transfer_ok_def t' by (auto simp: sender_after_def sends_only_def)
  next
    case (FElsewhere g)
    with assms(3) a b show ?thesis
      by (auto simp: transfer_ok_def sender_after_def sends_only_def receiver_after_def)
  qed
qed

lemma transfer_run_ok:
  assumes "0 < fs_chunk_size f0"
  shows "transfer_run fr fp api_a api_b xs t = Some t' \<Longrightarrow> transfer_ok fr f0 auto t \<Longrightarrow> transfer_ok fr f0 auto t'"
  by (induction xs arbitrary: t) (auto simp: bind_eq_Some_conv dest: transfer_step_ok [OF assms])

lemma decode_frames:
  assumes "list_all frame_ok fs"
  shows "file_loop (concat (map frame_bytes fs)) = (Inr fs, [])"
proof -
  have "file_loop (concat (map frame_bytes fs) @ []) = append_frames fs (file_loop [])"
    by (rule file_frames.loop_frames) (use assms in \<open>simp add: list_all_iff file_step_frame\<close>)
  then show ?thesis by (simp add: file_loop_Nil)
qed

lemma decode_prefix:
  assumes "list_all frame_ok fs" and "take (length got) (concat (map frame_bytes fs)) = got"
    and "file_loop got = (Inr hist, b)"
  shows "take (length hist) fs = hist"
proof -
  have "concat (map frame_bytes fs) = got @ drop (length got) (concat (map frame_bytes fs))"
    using append_take_drop_id [of "length got" "concat (map frame_bytes fs)"] assms(2) by simp
  with decode_frames [OF assms(1)]
    file_frames.loop_prefix [of got "drop (length got) (concat (map frame_bytes fs))" fs "[]"] assms(3)
  obtain ns where "fs = hist @ ns" by auto
  then show ?thesis by simp
qed

text \<open>What the receiver has, in every state of a run whose streams are in order.\<close>

lemma receiver_view:
  assumes "transfer_ok fr f0 auto t" and "stream_ok (tr_log t)"
  shows "\<exists>n. receiver_at fr f0 n (tr_receiver t) (lg_sent_b (tr_log t)) \<and> fr_auto_accept (tr_receiver t) = auto"
proof -
  let ?l = "tr_log t"
  from assms(1) obtain hb n where
    b: "file_loop (concat (lg_got_b ?l)) = (Inr hb, fr_reassembler (tr_receiver t))"
      "receiver_after fr f0 auto ?l hb (tr_receiver t) ?l"
    and n: "sent_upto fr f0 n (lg_sent_a ?l)"
    by (auto simp: transfer_ok_def sender_after_def)
  have "take (length (concat (lg_got_b ?l))) (concat (map frame_bytes (take n (transfer_frames fr f0)))) = concat (lg_got_b ?l)"
    using assms(2) n by (simp add: stream_ok_def sent_upto_def)
  from decode_prefix [OF _ this b(1)] n
  have p: "take (length hb) (take n (transfer_frames fr f0)) = hb" by (simp add: sent_upto_def)
  then have "take (length hb) (transfer_frames fr f0) = hb"
    by (metis append_take_drop_id length_append length_take min.cobounded1 take_take min.absorb2 nat_le_linear take_all)
  moreover have "hb = [] \<or> offered fr f0" using p n by (cases n) (auto simp: sent_upto_def)
  ultimately show ?thesis using b(2) by (auto simp: receiver_after_def)
qed

end
