(* ===== verification/File_Ideal.thy ===== *)
theory File_Ideal
  imports File_Props
begin

text \<open>The transfer over the ideal transport: five pumps bring any file across.\<close>

section \<open>Control frames always encode\<close>

lemma encode_control_ascii:
  assumes "list_all (\<lambda>c. c < 128) (dumps fr (JDict obj))" and "length (dumps fr (JDict obj)) < MAX_FRAME_BYTES"
  shows "encode_control fr ty obj = Inr (frame_bytes (control_frame fr ty obj)) \<and> frame_ok (control_frame fr ty obj)"
  using assms
  by (simp add: encode_control_def utf8_encode_ascii encode_frame_eq control_frame_def frame_ok_def del: dumps.simps)

lemma encode_empty:
  "encode_control fr ty [] = Inr (frame_bytes (control_frame fr ty []))" "frame_ok (control_frame fr ty [])"
  using encode_control_ascii [of fr "[]" ty] by (simp_all add: MAX_FRAME_BYTES_def)

lemma encode_ok_object:
  "encode_control fr ty (ok_object b) = Inr (frame_bytes (control_frame fr ty (ok_object b)))"
  "frame_ok (control_frame fr ty (ok_object b))"
  using encode_control_ascii [of fr "ok_object b" ty]
  by (cases b; simp add: ok_object_def code_points_def string_text_def escape_char_def MAX_FRAME_BYTES_def)+

section \<open>Frames that arrive one to a chunk\<close>

lemma feed_frame: "frame_ok f \<Longrightarrow> file_feed [] (frame_bytes f) = (Inr [f], [])"
  using decode_frames [of "[f]"] by (simp add: file_feed_def)

lemma each_chunk_frames:
  "list_all frame_ok fs \<Longrightarrow> each_frame h fs e s = Some (Inr (), e', s') \<Longrightarrow>
    each_chunk h [] (map frame_bytes fs) e s = Some (Inr (), [], e', s')"
proof (induction fs arbitrary: e s)
  case (Cons f fs)
  obtain r e1 s1 where h: "h f e s = Some (r, e1, s1)" using Cons.prems(2) by (cases "h f e s") auto
  with Cons.prems(2) have "r = Inr ()" by (cases r) auto
  with Cons h show ?case by (simp add: feed_frame)
qed simp

lemma each_frame_append:
  "each_frame h (xs @ ys) e s =
     Option.bind (each_frame h xs e s) (\<lambda>(r, e1, s1). case r of Inl x \<Rightarrow> Some (Inl x, e1, s1) | Inr _ \<Rightarrow> each_frame h ys e1 s1)"
proof (induction xs arbitrary: e s)
  case (Cons x xs)
  show ?case
  proof (cases "h x e s")
    case (Some p)
    then show ?thesis using Cons by (cases p; cases "fst p") auto
  qed simp
qed simp

lemma receive_chunks:
  "fr_state r = Receiving \<Longrightarrow>
    each_frame (fr_handle_frame fr fp api) (map chunk_frame ps) r l =
      Some (Inr (), r\<lparr>fr_buffer := fr_buffer r @ concat ps\<rparr>, l)"
  by (induction ps arbitrary: r) (simp_all add: fr_handle_frame_def chunk_frame_def)

lemma ideal_send_pieces:
  assumes "id_up (lg_state l)" and "list_all (\<lambda>p. frame_ok (chunk_frame p)) ps"
  shows "send_pieces (log_a sid ideal_a) sid ps l =
    (Inr (), l\<lparr>lg_state := (lg_state l)\<lparr>id_to_b := id_to_b (lg_state l) @ map (\<lambda>p. (sid, frame_bytes (chunk_frame p))) ps\<rparr>,
      lg_sent_a := lg_sent_a l @ concat (map (\<lambda>p. frame_bytes (chunk_frame p)) ps)\<rparr>)"
  using assms
proof (induction ps arbitrary: l)
  case (Cons p ps)
  have "encode_frame CHUNK p = Inr (frame_bytes (chunk_frame p))"
    using Cons.prems by (simp add: encode_frame_eq chunk_frame_def frame_ok_def)
  with Cons show ?case
    by (simp add: log_a_def logged_simps ideal_a_def ideal_ops_def)
qed simp

section \<open>The five steps\<close>

definition start_and_pumps :: "Ideal transfer_act list" where
  "start_and_pumps = [Start, ReceiverPump, SenderPump, ReceiverPump, SenderPump]"

definition offer_frame :: "(real \<Rightarrow> pstr) \<Rightarrow> FileSender \<Rightarrow> FileFrame" where
  "offer_frame fr f = control_frame fr OFFER (offer_object f)"

definition after_offer :: "FileSender \<Rightarrow> FileReceiver" where
  "after_offer f = (FileReceiver_init (fs_stream_id f) True)\<lparr>fr_state := Receiving,
     fr_name := Some (fs_name f), fr_expected_size := Some (int (length (fs_data f))),
     fr_expected_sha := Some (sha256_hex (fs_data f))\<rparr>"

definition data_frames :: "(real \<Rightarrow> pstr) \<Rightarrow> FileSender \<Rightarrow> FileFrame list" where
  "data_frames fr f = map chunk_frame (pieces f) @ [control_frame fr DONE []]"

text \<open>The states of the log after each step.\<close>

definition ideal_log :: "(int \<times> bytes) list \<Rightarrow> (int \<times> bytes) list \<Rightarrow> bytes \<Rightarrow> bytes list \<Rightarrow> bytes \<Rightarrow> bytes list \<Rightarrow> Ideal StreamLog" where
  "ideal_log to_a to_b sa ga sb gb =
     \<lparr>lg_state = \<lparr>id_up = True, id_to_a = to_a, id_to_b = to_b\<rparr>, lg_sent_a = sa, lg_got_a = ga, lg_sent_b = sb, lg_got_b = gb\<rparr>"

lemmas ideal_run_defs = log_a_def log_b_def logged_simps ideal_a_def ideal_b_def ideal_ops_def ideal_log_def on_id_def

lemma ideal_start_step:
  assumes "offered fr f" and "fs_state f = FIdle"
  shows "fs_start fr (log_a (fs_stream_id f) ideal_a) f (ideal_log [] [] [] [] [] []) =
    (Inr (), f\<lparr>fs_state := Offered\<rparr>, ideal_log [] [(fs_stream_id f, frame_bytes (offer_frame fr f))]
      (frame_bytes (offer_frame fr f)) [] [] [])"
proof -
  obtain b where b: "encode_control fr OFFER (offer_object f) = Inr b"
    using assms(1) by (cases "encode_control fr OFFER (offer_object f)") (auto simp: offered_def)
  with encode_control_frame(1) [OF b] assms(2) show ?thesis
    by (simp add: fs_start_def offer_frame_def ideal_run_defs)
qed

lemma offer_frame_ok: "offered fr f \<Longrightarrow> frame_ok (offer_frame fr f)"
  using encode_control_frame(2) [of fr OFFER "offer_object f"]
  by (cases "encode_control fr OFFER (offer_object f)") (auto simp: offered_def offer_frame_def)

lemma ideal_receive_offer:
  assumes "offered fr f"
  shows "fr_pump fr fp (log_b (fs_stream_id f) ideal_b) (FileReceiver_init (fs_stream_id f) True)
      (ideal_log [] [(fs_stream_id f, frame_bytes (offer_frame fr f))] sa [] [] []) =
    Some (Inr Receiving, after_offer f,
      ideal_log [(fs_stream_id f, accept_bytes fr)] [] sa [] (accept_bytes fr) [frame_bytes (offer_frame fr f)])"
proof -
  have h: "each_frame (fr_handle_frame fr fp (log_b (fs_stream_id f) ideal_b)) [offer_frame fr f]
      (FileReceiver_init (fs_stream_id f) True) (ideal_log [] [] sa [] [] [frame_bytes (offer_frame fr f)]) =
    Some (Inr (), after_offer f, ideal_log [(fs_stream_id f, accept_bytes fr)] [] sa [] (accept_bytes fr) [frame_bytes (offer_frame fr f)])"
    using offer_captured [OF assms, of fp]
    by (simp add: fr_handle_frame_def offer_frame_def FileReceiver_init_def handle_offer_def send_control_def
        encode_empty after_offer_def accept_bytes_def ideal_run_defs)
  from each_chunk_frames [OF _ h] offer_frame_ok [OF assms] show ?thesis
    by (simp add: fr_pump_def ideal_run_defs FileReceiver_init_def after_offer_def)
qed

lemma ideal_send_data:
  assumes "0 < fs_chunk_size f" and "list_all (\<lambda>p. frame_ok (chunk_frame p)) (pieces f)"
    and "fs_reassembler f = []"
  shows "fs_pump fr (log_a (fs_stream_id f) ideal_a) (f\<lparr>fs_state := Offered\<rparr>)
      (ideal_log [(fs_stream_id f, accept_bytes fr)] [] sa [] sb gb) =
    Some (Inr DoneSent, f\<lparr>fs_state := DoneSent\<rparr>,
      ideal_log [] (map (\<lambda>x. (fs_stream_id f, frame_bytes x)) (data_frames fr f))
        (sa @ concat (map frame_bytes (data_frames fr f))) [accept_bytes fr] sb gb)"
proof -
  let ?f = "f\<lparr>fs_state := Offered\<rparr>" and ?l = "ideal_log [] [] sa [accept_bytes fr] sb gb"
  have c: "send_chunks (log_a (fs_stream_id f) ideal_a) (fs_stream_id f) (nat (fs_chunk_size f)) (fs_data f) 0 ?l =
      Some (Inr (), ideal_log [] (map (\<lambda>p. (fs_stream_id f, frame_bytes (chunk_frame p))) (pieces f))
        (sa @ concat (map (\<lambda>p. frame_bytes (chunk_frame p)) (pieces f))) [accept_bytes fr] sb gb)"
    using send_chunks_slices [of "nat (fs_chunk_size f)" "log_a (fs_stream_id f) ideal_a" "fs_stream_id f" "fs_data f" 0 ?l]
      ideal_send_pieces [of ?l "pieces f" "fs_stream_id f"] assms(1,2)
    by (simp add: pieces_def ideal_log_def)
  have h: "each_frame (fs_handle_frame fr (log_a (fs_stream_id f) ideal_a)) [control_frame fr ACCEPT []] ?f ?l =
    Some (Inr (), f\<lparr>fs_state := DoneSent\<rparr>,
      ideal_log [] (map (\<lambda>x. (fs_stream_id f, frame_bytes x)) (data_frames fr f))
        (sa @ concat (map frame_bytes (data_frames fr f))) [accept_bytes fr] sb gb)"
    using c
    by (simp add: fs_handle_frame_def send_all_chunks_and_done_def encode_empty data_frames_def comp_def)
      (simp add: ideal_run_defs)
  from each_chunk_frames [OF _ h] encode_empty(2) [of fr ACCEPT] assms(3) show ?thesis
    by (simp add: fs_pump_def ideal_run_defs accept_bytes_def)
qed

lemma ideal_receive_data:
  assumes "0 < fs_chunk_size f" and "list_all (\<lambda>p. frame_ok (chunk_frame p)) (pieces f)"
  shows "fr_pump fr fp (log_b (fs_stream_id f) ideal_b) (after_offer f)
      (ideal_log [] (map (\<lambda>x. (fs_stream_id f, frame_bytes x)) (data_frames fr f)) sa ga sb gb) =
    Some (Inr Complete, (after_offer f)\<lparr>fr_buffer := fs_data f, fr_verified := True, fr_state := Complete\<rparr>,
      ideal_log [(fs_stream_id f, ack_bytes fr)] [] sa ga (sb @ ack_bytes fr) (gb @ map frame_bytes (data_frames fr f)))"
proof -
  let ?l = "ideal_log [] [] sa ga sb (gb @ map frame_bytes (data_frames fr f))"
  have h: "each_frame (fr_handle_frame fr fp (log_b (fs_stream_id f) ideal_b)) (data_frames fr f) (after_offer f) ?l =
    Some (Inr (), (after_offer f)\<lparr>fr_buffer := fs_data f, fr_verified := True, fr_state := Complete\<rparr>,
      ideal_log [(fs_stream_id f, ack_bytes fr)] [] sa ga (sb @ ack_bytes fr) (gb @ map frame_bytes (data_frames fr f)))"
    by (simp add: data_frames_def each_frame_append receive_chunks after_offer_def FileReceiver_init_def
        concat_pieces [OF assms(1)] fr_handle_frame_def handle_done_def send_control_def encode_ok_object
        ack_bytes_def ideal_run_defs)
  have "list_all frame_ok (data_frames fr f)"
    using assms(2) encode_empty(2) by (simp add: data_frames_def list_all_iff)
  from each_chunk_frames [OF this h] show ?thesis
    by (simp add: fr_pump_def ideal_run_defs after_offer_def FileReceiver_init_def comp_def)
qed

lemma ideal_finish:
  assumes "fs_reassembler f = []"
  shows "fs_pump fr (log_a (fs_stream_id f) ideal_a) (f\<lparr>fs_state := DoneSent\<rparr>)
      (ideal_log [(fs_stream_id f, ack_bytes fr)] [] sa ga sb gb) =
    Some (Inr Complete, f\<lparr>fs_state := Complete\<rparr>, ideal_log [] [] sa (ga @ [ack_bytes fr]) sb gb)"
proof -
  have h: "each_frame (fs_handle_frame fr (log_a (fs_stream_id f) ideal_a)) [control_frame fr FILE_ACK (ok_object True)]
      (f\<lparr>fs_state := DoneSent\<rparr>) (ideal_log [] [] sa (ga @ [ack_bytes fr]) sb gb) =
    Some (Inr (), f\<lparr>fs_state := Complete\<rparr>, ideal_log [] [] sa (ga @ [ack_bytes fr]) sb gb)"
    by (simp add: fs_handle_frame_def)
  from each_chunk_frames [OF _ h] encode_ok_object(2) [of fr FILE_ACK True] assms show ?thesis
    by (simp add: fs_pump_def ideal_run_defs ack_bytes_def)
qed

end
