(* ===== verification/File_Claims.thy ===== *)
theory File_Claims
  imports File_Ideal
begin

text \<open>The properties of the file transfer.\<close>

lemma run_ok:
  assumes "FileSender_init name data sid k = Inr f0"
    and "transfer_run fr fp api_a api_b acts (new_transfer f0 auto s) = Some t"
  shows "transfer_ok fr f0 auto t \<and> 0 < fs_chunk_size f0 \<and> fs_name f0 = name \<and> fs_data f0 = data"
  using transfer_ok_init [OF assms(1), of fr auto s] transfer_run_ok [OF _ assms(2), of f0 auto] assms(1)
  by (auto simp: FileSender_init_def split: if_splits)

text \<open>
  The completion handshake. In any run of the two endpoints over sessions whose streams
  deliver bytes in order, whatever else happens to the sessions: once the sender is COMPLETE, the
  receiver is COMPLETE and verified, and it holds the sender's bytes under the sender's file name.
\<close>

lemma complete_sender_means_delivered:
  assumes "FileSender_init name data sid k = Inr f0"
    and "transfer_run fr fp api_a api_b acts (new_transfer f0 auto s) = Some t"
    and "stream_ok (tr_log t)" and "fs_is_complete (tr_sender t)"
  shows "fr_is_complete (tr_receiver t) \<and> file_bytes (tr_receiver t) = Some data \<and>
    fr_verified (tr_receiver t) \<and> fr_name (tr_receiver t) = Some name"
proof -
  let ?l = "tr_log t" and ?r = "tr_receiver t"
  from run_ok [OF assms(1,2)] have ok: "transfer_ok fr f0 auto t" and k: "0 < fs_chunk_size f0"
    and f0: "fs_name f0 = name" "fs_data f0 = data" by blast+
  from ok assms(4) obtain ha where ha: "file_loop (concat (lg_got_a ?l)) = (Inr ha, fs_reassembler (tr_sender t))"
    and ack: "FILE_ACK \<in> ff_type ` set ha"
    by (auto simp: transfer_ok_def sender_after_def fs_is_complete_def)
  obtain n where n: "receiver_at fr f0 n ?r (lg_sent_b ?l)" using receiver_view [OF ok assms(3)] by blast
  have p: "take (length (concat (lg_got_a ?l))) (lg_sent_b ?l) = concat (lg_got_a ?l)"
    using assms(3) by (simp add: stream_ok_def)
  show ?thesis
  proof (cases "fr_auto_accept ?r \<and> length (transfer_frames fr f0) \<le> n \<and> n \<noteq> 0")
    case True
    then have "length (pieces f0) \<le> n - 1" by (auto simp: length_transfer)
    then have "take (n - 1) (pieces f0) = pieces f0" by simp
    with True n f0 show ?thesis
      by (simp add: receiver_at_def length_transfer concat_pieces [OF k] fr_is_complete_def file_bytes_def)
  next
    case False
    define fs where "fs = (if n = 0 \<or> \<not> fr_auto_accept ?r then [] else [control_frame fr ACCEPT []])"
    have "list_all frame_ok fs" "lg_sent_b ?l = concat (map frame_bytes fs)"
      using n False by (auto simp: receiver_at_def fs_def accept_bytes_def split: if_splits)
    with decode_prefix [of fs "concat (lg_got_a ?l)" ha] ha p have "take (length ha) fs = ha" by simp
    then have "set ha \<subseteq> set fs" by (metis set_take_subset)
    with ack show ?thesis by (auto simp: fs_def split: if_splits)
  qed
qed

lemma ideal_run:
  assumes "FileSender_init name data sid k = Inr f" and "offered fr f" and "k < int MAX_FRAME_BYTES"
  shows "\<exists>t. transfer_run fr fp ideal_a ideal_b start_and_pumps (new_transfer f True ideal_start) = Some t \<and>
    fs_is_complete (tr_sender t) \<and> file_bytes (tr_receiver t) = Some data \<and> fr_verified (tr_receiver t) \<and>
    stream_ok (tr_log t)"
proof -
  have f: "fs_state f = FIdle" "fs_reassembler f = []" "0 < fs_chunk_size f" "fs_chunk_size f = k" "fs_data f = data"
    using assms(1) by (auto simp: FileSender_init_def split: if_splits)
  have ok: "list_all (\<lambda>p. frame_ok (chunk_frame p)) (pieces f)"
    using py_slices_bounds [of "nat k" data] assms(3) f
    by (fastforce simp: list_all_iff pieces_def frame_ok_def chunk_frame_def)
  let ?sid = "fs_stream_id f" and ?r0 = "FileReceiver_init (fs_stream_id f) True"
  have start: "new_transfer f True ideal_start = \<lparr>tr_sender = f, tr_receiver = ?r0, tr_log = ideal_log [] [] [] [] [] []\<rparr>"
    by (simp add: new_transfer_def new_log_def ideal_log_def ideal_start_def)
  have sid: "fr_stream_id ?r0 = ?sid" "fr_stream_id (after_offer f) = ?sid"
    by (simp_all add: FileReceiver_init_def after_offer_def)
  show ?thesis
    unfolding start start_and_pumps_def
    by (simp add: ideal_start_step [OF assms(2) f(1)] ideal_receive_offer [OF assms(2)]
        ideal_send_data [OF f(3) ok f(2)] ideal_receive_data [OF f(3) ok] ideal_finish [OF f(2)] sid)
      (simp add: fs_is_complete_def file_bytes_def f(5) stream_ok_def ideal_log_def)
qed

text \<open>
  C24. Over the ideal transport, any file whose offer can be encoded and whose chunks fit a frame
  is transferred by \<open>start\<close> and four pumps: both endpoints are COMPLETE, the receiver holds the
  file, its digest verified, and the streams were in order.
\<close>

theorem file_arrives:
  assumes "FileSender_init name data sid k = Inr f" and "offered fr f" and "k < int MAX_FRAME_BYTES"
  shows "\<exists>t. transfer_run fr fp ideal_a ideal_b start_and_pumps (new_transfer f True ideal_start) = Some t \<and>
    fs_is_complete (tr_sender t) \<and> file_bytes (tr_receiver t) = Some data \<and> fr_verified (tr_receiver t) \<and>
    stream_ok (tr_log t)"
  using assms by (rule ideal_run)

text \<open>A sender whose offer is plain ASCII.\<close>

definition demo_sender :: FileSender where
  "demo_sender = projr (FileSender_init (code_points ''a'') [1, 2, 3] 2 2)"

lemma demo_init: "FileSender_init (code_points ''a'') [1, 2, 3] 2 2 = Inr demo_sender"
  by (simp add: demo_sender_def FileSender_init_def)

lemma sha256_hex_ascii: "list_all (\<lambda>c. c < 128 \<and> 47 < c \<and> c \<noteq> 92) (sha256_hex m)"
proof -
  have "list_all (\<lambda>c. c < 128 \<and> 47 < c \<and> c \<noteq> 92) (hex_byte b)" for b
  proof -
    have "unat b div 16 < 16" using byte_lt [of b] by (simp add: less_mult_imp_div_less)
    moreover have "unat b mod 16 < 16" by simp
    ultimately show ?thesis unfolding hex_byte_def Let_def list.pred_inject by auto
  qed
  then show ?thesis by (simp add: sha256_hex_def list_all_iff)
qed

lemma demo_offer_text:
  "list_all (\<lambda>c. c < 128) (dumps fr (JDict (offer_object demo_sender))) \<and>
    length (dumps fr (JDict (offer_object demo_sender))) < 190"
proof -
  let ?h = "sha256_hex [1, 2, 3]"
  have h: "concat (map escape_char ?h) = ?h"
  proof -
    have "list_all (\<lambda>c. c < 128 \<and> 47 < c \<and> c \<noteq> 92) s \<Longrightarrow> concat (map escape_char s) = s" for s
      by (induction s) (auto simp: escape_char_def)
    then show ?thesis using sha256_hex_ascii by blast
  qed
  have a: "list_all (\<lambda>c. c < 128) ?h" using sha256_hex_ascii [of "[1, 2, 3]"] by (auto simp: list_all_iff)
  then show ?thesis
    by (simp add: demo_sender_def FileSender_init_def offer_object_def code_points_def string_text_def h
        int_text_def nat_digits.simps escape_char_def length_sha256_hex)
qed

lemma demo_offer_encodes:
  "encode_control fr OFFER (offer_object demo_sender) = Inr (frame_bytes (control_frame fr OFFER (offer_object demo_sender)))"
  "frame_ok (control_frame fr OFFER (offer_object demo_sender))"
  using encode_control_ascii [of fr "offer_object demo_sender" OFFER] demo_offer_text [of fr]
  by (simp_all add: MAX_FRAME_BYTES_def del: dumps.simps)

lemma demo_offered: "offered fr demo_sender"
  by (simp add: offered_def demo_offer_encodes)

lemma file_arrives_ideal:
  "\<exists>t. transfer_run (\<lambda>_. []) (\<lambda>_. 0) ideal_a ideal_b start_and_pumps (new_transfer demo_sender True ideal_start) = Some t \<and>
    fs_is_complete (tr_sender t) \<and> stream_ok (tr_log t)"
  using ideal_run [OF demo_init demo_offered, of "\<lambda>_. []" "\<lambda>_. 0"] by (auto simp: MAX_FRAME_BYTES_def)

lemma file_arrives_witness:
  "\<exists>t. transfer_run (\<lambda>_. []) (\<lambda>_. 0) ideal_a ideal_b start_and_pumps (new_transfer demo_sender True ideal_start) = Some t \<and>
    fs_is_complete (tr_sender t) \<and> file_bytes (tr_receiver t) = Some [1, 2, 3]"
  using file_arrives [OF demo_init demo_offered, of "\<lambda>_. []" "\<lambda>_. 0"] by (auto simp: MAX_FRAME_BYTES_def)

lemma complete_sender_means_delivered_witness:
  "\<exists>t. transfer_run (\<lambda>_. []) (\<lambda>_. 0) ideal_a ideal_b start_and_pumps (new_transfer demo_sender True ideal_start) = Some t \<and>
    fr_is_complete (tr_receiver t) \<and> fr_name (tr_receiver t) = Some (code_points ''a'')"
proof -
  obtain t where t: "transfer_run (\<lambda>_. []) (\<lambda>_. 0) ideal_a ideal_b start_and_pumps (new_transfer demo_sender True ideal_start) = Some t"
    "fs_is_complete (tr_sender t)" "stream_ok (tr_log t)"
    using file_arrives_ideal by blast
  from complete_sender_means_delivered [OF demo_init t(1,3,2)] t(1) show ?thesis by blast
qed

text \<open>
  In every state of a run whose streams are in order the receiver holds a prefix of the file,
  it has not failed, and the bytes it reports are the whole file or nothing.
\<close>

lemma receiver_holds_prefix:
  assumes "FileSender_init name data sid k = Inr f0"
    and "transfer_run fr fp api_a api_b acts (new_transfer f0 auto s) = Some t"
    and "stream_ok (tr_log t)"
  shows "take (length (fr_buffer (tr_receiver t))) data = fr_buffer (tr_receiver t) \<and>
    fr_is_failed (tr_receiver t) = False \<and>
    (case file_bytes (tr_receiver t) of None \<Rightarrow> True | Some b \<Rightarrow> b = data)"
proof -
  from run_ok [OF assms(1,2)] have ok: "transfer_ok fr f0 auto t" and k: "0 < fs_chunk_size f0"
    and f0: "fs_data f0 = data" by blast+
  obtain n where n: "receiver_at fr f0 n (tr_receiver t) (lg_sent_b (tr_log t))"
    using receiver_view [OF ok assms(3)] by blast
  have "data = concat (take (n - 1) (pieces f0)) @ concat (drop (n - 1) (pieces f0))"
    using concat_pieces [OF k] f0 by (metis append_take_drop_id concat_append)
  then have p: "take (length (concat (take (n - 1) (pieces f0)))) data = concat (take (n - 1) (pieces f0))"
    by (metis append_eq_conv_conj)
  have "take (n - 1) (pieces f0) = pieces f0" if "length (transfer_frames fr f0) \<le> n"
    using that by (simp add: length_transfer)
  with n p f0 concat_pieces [OF k] show ?thesis
    by (auto simp: receiver_at_def fr_is_failed_def file_bytes_def not_less split: if_splits)
qed

lemma receiver_holds_prefix_witness:
  "\<exists>t. transfer_run (\<lambda>_. []) (\<lambda>_. 0) ideal_a ideal_b start_and_pumps (new_transfer demo_sender True ideal_start) = Some t \<and>
    fr_is_failed (tr_receiver t) = False"
proof -
  obtain t where t: "transfer_run (\<lambda>_. []) (\<lambda>_. 0) ideal_a ideal_b start_and_pumps (new_transfer demo_sender True ideal_start) = Some t"
    "stream_ok (tr_log t)"
    using file_arrives_ideal by blast
  from receiver_holds_prefix [OF demo_init t] t(1) show ?thesis by blast
qed

section \<open>Against any peer\<close>

text \<open>
  The receiver's fields fit together: the metadata are set together and the size is not
  negative, a transfer in progress has an expected digest, and a complete one has matched it.
\<close>

definition receiver_wf :: "FileReceiver \<Rightarrow> bool" where
  "receiver_wf r \<longleftrightarrow>
     (fr_name r = None) = (fr_expected_sha r = None) \<and>
     (fr_expected_size r = None) = (fr_expected_sha r = None) \<and>
     (case fr_expected_size r of None \<Rightarrow> True | Some n \<Rightarrow> 0 \<le> n) \<and>
     fr_state r \<in> {FIdle, Receiving, Complete, Failed} \<and>
     (fr_state r = Receiving \<longrightarrow> fr_expected_sha r \<noteq> None) \<and>
     (fr_state r = Complete \<longrightarrow> fr_verified r \<and> fr_expected_sha r = Some (sha256_hex (fr_buffer r)))"

lemma offer_is_valid_cases:
  "offer_is_valid fp body r = (False, r) \<or>
   (\<exists>name sz sha. 0 \<le> sz \<and> offer_is_valid fp body r =
      (True, r\<lparr>fr_name := Some name, fr_expected_size := Some sz, fr_expected_sha := Some sha\<rparr>))"
proof (cases "decode_control fp body")
  case (Inr meta)
  let ?n = "map_of meta (code_points ''name'')" and ?z = "map_of meta (code_points ''size'')"
    and ?h = "map_of meta (code_points ''sha256'')"
  show ?thesis
  proof (cases "\<exists>name sz sha. ?n = Some (JStr name) \<and> ?z = Some (JInt sz) \<and> ?h = Some (JStr sha) \<and> 0 \<le> sz")
    case True
    then obtain name sz sha where m: "?n = Some (JStr name)" "?z = Some (JInt sz)" "?h = Some (JStr sha)" "0 \<le> sz" by blast
    with Inr have "offer_is_valid fp body r =
        (True, r\<lparr>fr_name := Some name, fr_expected_size := Some sz, fr_expected_sha := Some sha\<rparr>)"
      by (simp add: offer_is_valid_def)
    with m(4) show ?thesis by blast
  next
    case False
    with Inr show ?thesis unfolding offer_is_valid_def by (simp split: option.split json.split) fastforce
  qed
qed (simp add: offer_is_valid_def)

lemma receiver_wf_frame:
  assumes "receiver_wf r" and "fr_handle_frame fr fp api x r s = Some (q, r', s')"
  shows "receiver_wf r'"
proof (cases "ff_type x = OFFER \<and> fr_state r = FIdle")
  case True
  with assms(2) have h: "handle_offer fr fp api (ff_body x) r s = (q, r', s')" by (simp add: fr_handle_frame_def)
  from offer_is_valid_cases [of fp "ff_body x" r] show ?thesis
  proof (elim disjE exE conjE)
    assume "offer_is_valid fp (ff_body x) r = (False, r)"
    with h assms(1) True show ?thesis
      by (auto simp: handle_offer_def reject_offer_def receiver_wf_def split: sum.splits prod.splits)
  next
    fix name sz sha
    assume "0 \<le> sz" "offer_is_valid fp (ff_body x) r =
      (True, r\<lparr>fr_name := Some name, fr_expected_size := Some sz, fr_expected_sha := Some sha\<rparr>)"
    with h assms(1) True show ?thesis
      by (auto simp: handle_offer_def receiver_wf_def split: sum.splits prod.splits if_splits)
  qed
next
  case False
  with assms show ?thesis
    by (auto simp: fr_handle_frame_def handle_done_def receiver_wf_def Let_def
        split: if_splits sum.splits prod.splits)
qed

lemma receiver_wf_frames:
  "receiver_wf r \<Longrightarrow> each_frame (fr_handle_frame fr fp api) fs r s = Some (q, r', s') \<Longrightarrow> receiver_wf r'"
proof (induction fs arbitrary: r s)
  case (Cons f fs)
  obtain q1 r1 s1 where h: "fr_handle_frame fr fp api f r s = Some (q1, r1, s1)"
    by (cases "fr_handle_frame fr fp api f r s") (auto simp: fr_handle_frame_def)
  with receiver_wf_frame [OF Cons.prems(1) h] Cons show ?case by (cases q1) auto
qed simp

lemma receiver_wf_chunks:
  "receiver_wf r \<Longrightarrow> each_chunk (fr_handle_frame fr fp api) buf cs r s = Some (q, b, r', s') \<Longrightarrow> receiver_wf r'"
proof (induction cs arbitrary: buf r s)
  case (Cons c cs)
  obtain x b1 where x: "file_feed buf c = (x, b1)" by fastforce
  show ?case
  proof (cases x)
    case (Inl e)
    with Cons.prems x show ?thesis by simp
  next
    case (Inr fs)
    obtain q1 r1 s1 where h: "each_frame (fr_handle_frame fr fp api) fs r s = Some (q1, r1, s1)"
      using Cons.prems x Inr by (cases "each_frame (fr_handle_frame fr fp api) fs r s") auto
    with receiver_wf_frames [OF Cons.prems(1) h] Cons x Inr show ?thesis by (cases q1) auto
  qed
qed simp

text \<open>
  C25. Whatever bytes the peer sends, in whatever chunks, and also when the call raises: a receiver's
  pump keeps its fields consistent. The metadata are set together with a non-negative size, and the
  receiver is COMPLETE only with a buffer whose SHA-256 is the offered one.
\<close>

theorem receiver_stays_wf:
  assumes "receiver_wf r" and "fr_pump fr fp api r s = Some (q, r', s')"
  shows "receiver_wf r'"
proof -
  obtain p s1 where p: "so_pump api s = Some (p, s1)" using assms(2) by (cases "so_pump api s") (auto simp: fr_pump_def)
  obtain cs s2 where c: "so_recv_on api (fr_stream_id r) s1 = (cs, s2)" by fastforce
  show ?thesis
  proof (cases p)
    case (Inl e)
    with assms p show ?thesis by (simp add: fr_pump_def)
  next
    case (Inr evs)
    then obtain q1 b r1 s3 where e: "each_chunk (fr_handle_frame fr fp api) (fr_reassembler r) cs r s2 = Some (q1, b, r1, s3)"
      and r': "r' = r1\<lparr>fr_reassembler := b\<rparr>"
      using assms(2) p c
      by (cases "each_chunk (fr_handle_frame fr fp api) (fr_reassembler r) cs r s2") (auto simp: fr_pump_def)
    from receiver_wf_chunks [OF assms(1) e] show ?thesis by (simp add: r' receiver_wf_def)
  qed
qed

lemma receiver_stays_wf_witness:
  "\<exists>q r s. fr_pump (\<lambda>_. []) (\<lambda>_. 0) ideal_b (FileReceiver_init 2 True)
      (ideal_start\<lparr>id_to_b := [(2, [0, 0, 0, 1, 9])]\<rparr>) = Some (q, r, s) \<and> isl q \<and> receiver_wf r"
proof -
  have "file_feed [] [0, 0, 0, 1, 9] = (Inl ValueError, [0, 0, 0, 1, 9])"
    by (simp add: file_feed_def file_loop.simps LENGTH_SIZE_4 length_prefix_def be_decode_def MAX_FRAME_BYTES_def
        FileFrameType_of_def)
  then have p: "fr_pump (\<lambda>_. []) (\<lambda>_. 0) ideal_b (FileReceiver_init 2 True) (ideal_start\<lparr>id_to_b := [(2, [0, 0, 0, 1, 9])]\<rparr>) =
      Some (Inl ValueError, (FileReceiver_init 2 True)\<lparr>fr_reassembler := [0, 0, 0, 1, 9]\<rparr>, ideal_start)"
    by (simp add: fr_pump_def ideal_b_def ideal_ops_def on_id_def ideal_start_def FileReceiver_init_def)
  have "receiver_wf (FileReceiver_init 2 True)" by (simp add: receiver_wf_def FileReceiver_init_def)
  from receiver_stays_wf [OF this p] p show ?thesis by auto
qed

text \<open>
  Progress is a fraction: the sender's always, the receiver's whenever its fields are
  consistent; it is 1 for an empty file.
\<close>

theorem progress_bounds:
  assumes "receiver_wf r"
  shows "0 \<le> fs_progress api f s \<and> fs_progress api f s \<le> 1 \<and> 0 \<le> fr_progress r \<and> fr_progress r \<le> 1 \<and>
    (if fs_data f = [] then fs_progress api f s = 1 else True)"
  using assms by (auto simp: fs_progress_def fr_progress_def receiver_wf_def split: option.splits)

lemma progress_bounds_witness:
  "fr_progress (FileReceiver_init 2 True) \<le> 1 \<and> fs_progress ideal_a demo_sender ideal_start \<le> 1"
proof -
  have "receiver_wf (FileReceiver_init 2 True)" by (simp add: receiver_wf_def FileReceiver_init_def)
  from progress_bounds [OF this, of ideal_a demo_sender ideal_start] show ?thesis by simp
qed

text \<open>
  C26. A chunk too large for a frame (\<open>chunk_size\<close> is only checked to be positive): the ACCEPT that
  starts the transfer raises out of \<open>pump\<close> and leaves the sender in SENDING, where no frame moves
  it any more: neither COMPLETE nor FAILED is ever reached.
\<close>

theorem oversized_chunk_sticks:
  assumes "int MAX_FRAME_BYTES \<le> fs_chunk_size f" and "MAX_FRAME_BYTES \<le> length (fs_data f)"
    and "fs_state f = Offered" and "ff_type x = ACCEPT"
  shows "fs_handle_frame fr api x f s = Some (Inl ValueError, f\<lparr>fs_state := Sending\<rparr>, s) \<and>
    fs_handle_frame fr api y (f\<lparr>fs_state := Sending\<rparr>) s1 = Some (Inr (), f\<lparr>fs_state := Sending\<rparr>, s1)"
proof -
  let ?k = "nat (fs_chunk_size f)"
  have m: "(0 :: nat) < MAX_FRAME_BYTES" by (simp add: MAX_FRAME_BYTES_def)
  have k: "MAX_FRAME_BYTES \<le> ?k" using assms(1) by simp
  have d: "fs_data f \<noteq> []" using assms(2) m by auto
  have "py_slices ?k (fs_data f) = take ?k (fs_data f) # py_slices ?k (drop ?k (fs_data f))"
    using k m d by (intro py_slices_step) auto
  moreover have "encode_frame CHUNK (take ?k (fs_data f)) = Inl ValueError"
    using k assms(2) by (simp add: encode_frame_eq)
  ultimately have "send_pieces api (fs_stream_id f) (py_slices ?k (fs_data f)) s = (Inl ValueError, s)" by simp
  with send_chunks_slices [of ?k api "fs_stream_id f" "fs_data f" 0 s] k m
  have "send_chunks api (fs_stream_id f) ?k (fs_data f) 0 s = Some (Inl ValueError, s)" by simp
  with assms(3,4) show ?thesis
    by (simp add: fs_handle_frame_def send_all_chunks_and_done_def)
qed

definition big_sender :: FileSender where
  "big_sender = \<lparr>fs_name = [], fs_data = replicate MAX_FRAME_BYTES 0, fs_stream_id = 2,
     fs_chunk_size = int MAX_FRAME_BYTES, fs_state = Offered, fs_reassembler = []\<rparr>"

lemma oversized_chunk_sticks_witness:
  "fs_handle_frame (\<lambda>_. []) ideal_a (control_frame (\<lambda>_. []) ACCEPT []) big_sender ideal_start =
    Some (Inl ValueError, big_sender\<lparr>fs_state := Sending\<rparr>, ideal_start)"
proof -
  have "int MAX_FRAME_BYTES \<le> fs_chunk_size big_sender" "MAX_FRAME_BYTES \<le> length (fs_data big_sender)"
    "fs_state big_sender = Offered"
    by (simp_all add: big_sender_def)
  from oversized_chunk_sticks [OF this, of "control_frame (\<lambda>_. []) ACCEPT []" "\<lambda>_. []" ideal_a ideal_start] show ?thesis
    by (simp only: control_frame_type simp_thms)
qed

text \<open>
  Reassembly does not depend on how the stream cuts its bytes: a reassembler fed any chunks
  whose concatenation is the encoding of some frames returns exactly these frames, in order,
  and keeps an empty buffer.
\<close>

theorem frames_reassemble:
  assumes "list_all frame_ok fs" and "concat cs = concat (map frame_bytes fs)"
  shows "feed_chunks file_feed [] cs = (Inr fs, [])"
  using file_frames.feed_chunks_frames [of fs frame_bytes "[]" cs] assms file_step_frame
  by (simp add: list_all_iff file_step_def LENGTH_SIZE_4)

lemma frames_reassemble_witness:
  "feed_chunks file_feed [] [[0, 0], [0, 3, 3, 7], [8, 0, 0, 0, 1], [4]] =
    (Inr [\<lparr>ff_type = CHUNK, ff_body = [7, 8]\<rparr>, \<lparr>ff_type = DONE, ff_body = []\<rparr>], [])"
proof (rule frames_reassemble)
  have "be_encode 4 (v :: int) = [word_of_int (v div 16777216), word_of_int (v div 65536), word_of_int (v div 256), word_of_int v]" for v
    by (simp add: numeral_eq_Suc div_mult2_eq [symmetric] flip: zdiv_zmult2_eq)
  then show "concat [[0, 0], [0, 3, 3, 7], [8, 0, 0, 0, 1], [4]] =
      concat (map frame_bytes [\<lparr>ff_type = CHUNK, ff_body = [7, 8]\<rparr>, \<lparr>ff_type = DONE, ff_body = []\<rparr>])"
    by (simp add: frame_bytes_def)
qed (simp add: frame_ok_def MAX_FRAME_BYTES_def)

end
