(* ===== verification/Base64.thy ===== *)
theory Base64
  imports Utf8
begin

text \<open>
  The part of Python's \<open>base64\<close> module the QR codec uses: \<open>b64encode(data).decode("ascii")\<close>
  and \<open>b64decode(text, validate=True)\<close> (the strict mode of \<open>binascii.a2b_base64\<close>). Texts are
  lists of code points; \<open>binascii.Error\<close> is a \<open>ValueError\<close>.
\<close>

definition b64_char :: "nat \<Rightarrow> nat" where
  "b64_char n = (if n < 26 then 65 + n else if n < 52 then 71 + n else if n < 62 then n - 4
     else if n = 62 then 43 else 47)"

definition b64_val :: "nat \<Rightarrow> nat option" where
  "b64_val c = (if 65 \<le> c \<and> c \<le> 90 then Some (c - 65) else if 97 \<le> c \<and> c \<le> 122 then Some (c - 71)
     else if 48 \<le> c \<and> c \<le> 57 then Some (c + 4) else if c = 43 then Some 62
     else if c = 47 then Some 63 else None)"

fun b64encode :: "bytes \<Rightarrow> pstr" where
  "b64encode [] = []"
| "b64encode [x] = [b64_char (unat x div 4), b64_char (unat x mod 4 * 16), 61, 61]"
| "b64encode [x, y] =
     [b64_char (unat x div 4), b64_char (unat x mod 4 * 16 + unat y div 16), b64_char (unat y mod 16 * 4), 61]"
| "b64encode (x # y # z # rest) =
     b64_char (unat x div 4) # b64_char (unat x mod 4 * 16 + unat y div 16)
       # b64_char (unat y mod 16 * 4 + unat z div 64) # b64_char (unat z mod 64) # b64encode rest"

text \<open>A group of four characters; padding is allowed in the last group only.\<close>

definition b64_group :: "nat \<Rightarrow> nat \<Rightarrow> nat \<Rightarrow> nat \<Rightarrow> bool \<Rightarrow> bytes option" where
  "b64_group a b c d fin =
     (case (b64_val a, b64_val b) of
        (Some p, Some q) \<Rightarrow>
          (if c = 61 \<and> d = 61 \<and> fin then Some [of_nat (p * 4 + q div 16)]
           else case b64_val c of
             None \<Rightarrow> None
           | Some r \<Rightarrow>
               (if d = 61 \<and> fin then Some [of_nat (p * 4 + q div 16), of_nat (q mod 16 * 16 + r div 4)]
                else case b64_val d of
                  None \<Rightarrow> None
                | Some s \<Rightarrow> Some [of_nat (p * 4 + q div 16), of_nat (q mod 16 * 16 + r div 4), of_nat (r mod 4 * 64 + s)]))
      | _ \<Rightarrow> None)"

fun b64decode :: "pstr \<Rightarrow> bytes result" where
  "b64decode [] = Inr []"
| "b64decode (a # b # c # d # rest) =
     (case b64_group a b c d (rest = []) of
        None \<Rightarrow> Inl ValueError
      | Some xs \<Rightarrow> (case b64decode rest of Inl e \<Rightarrow> Inl e | Inr ys \<Rightarrow> Inr (xs @ ys)))"
| "b64decode _ = Inl ValueError"

section \<open>Round trip\<close>

lemma b64_val_char: "n < 64 \<Longrightarrow> b64_val (b64_char n) = Some n"
  by (auto simp: b64_val_def b64_char_def)

lemma b64_char_range: "n < 64 \<Longrightarrow> b64_char n \<noteq> 61 \<and> b64_char n < 128"
  by (auto simp: b64_char_def)

lemma byte_split: "unat (x :: byte) div 4 < 64" "unat x mod 4 < 4" "unat x div 16 < 16" "unat x div 64 < 4"
  using byte_lt [of x] by (auto simp: less_mult_imp_div_less)

lemma six_bits: "unat (x :: byte) mod 4 * 16 + unat (y :: byte) div 16 < 64"
  "unat (y :: byte) mod 16 * 4 + unat (z :: byte) div 64 < 64" "unat (x :: byte) mod 4 * 16 < 64"
  "unat (y :: byte) mod 16 * 4 < 64"
proof -
  have "unat x mod 4 < 4" "unat y mod 16 < 16" by simp_all
  with byte_split [of y] byte_split [of z]
  show "unat x mod 4 * 16 + unat y div 16 < 64" "unat y mod 16 * 4 + unat z div 64 < 64"
    "unat x mod 4 * 16 < 64" "unat y mod 16 * 4 < 64" by linarith+
qed

lemma high_bits: "unat (y :: byte) div 16 mod 16 = unat y div 16" "unat (z :: byte) div 64 mod 4 = unat z div 64"
  using byte_split [of y] byte_split [of z] by simp_all

lemma byte_join: "(of_nat (unat x div 4 * 4 + unat x mod 4) :: byte) = x"
  "(of_nat (unat x div 16 * 16 + unat x mod 16) :: byte) = x"
  "(of_nat (unat x div 64 * 64 + unat x mod 64) :: byte) = x"
  by (simp_all only: div_mult_mod_eq) simp_all

lemma group_three:
  "b64_group (b64_char (unat x div 4)) (b64_char (unat x mod 4 * 16 + unat y div 16))
      (b64_char (unat y mod 16 * 4 + unat z div 64)) (b64_char (unat z mod 64)) fin = Some [x, y, z]"
proof -
  have r: "unat x div 4 < 64" "unat x mod 4 * 16 + unat y div 16 < 64" "unat y mod 16 * 4 + unat z div 64 < 64"
    "unat z mod 64 < 64"
    using byte_split [of x] six_bits by simp_all
  have d: "(unat x mod 4 * 16 + unat y div 16) div 16 = unat x mod 4"
    "(unat x mod 4 * 16 + unat y div 16) mod 16 = unat y div 16"
    "(unat y mod 16 * 4 + unat z div 64) div 4 = unat y mod 16"
    "(unat y mod 16 * 4 + unat z div 64) mod 4 = unat z div 64"
    using byte_split [of y] byte_split [of z] by simp_all
  show ?thesis
    using r b64_char_range [OF r(3)] b64_char_range [OF r(4)]
    by (simp add: b64_group_def b64_val_char d high_bits byte_join del: of_nat_add of_nat_mult)
qed

lemma group_two:
  "b64_group (b64_char (unat x div 4)) (b64_char (unat x mod 4 * 16 + unat y div 16))
      (b64_char (unat y mod 16 * 4)) 61 True = Some [x, y]"
proof -
  have r: "unat x div 4 < 64" "unat x mod 4 * 16 + unat y div 16 < 64" "unat y mod 16 * 4 < 64"
    using byte_split [of x] six_bits by simp_all
  have d: "(unat x mod 4 * 16 + unat y div 16) div 16 = unat x mod 4"
    "(unat x mod 4 * 16 + unat y div 16) mod 16 = unat y div 16"
    using byte_split [of y] by simp_all
  show ?thesis
    using r b64_char_range [OF r(3)]
    by (simp add: b64_group_def b64_val_char d high_bits byte_join del: of_nat_add of_nat_mult)
qed

lemma group_one: "b64_group (b64_char (unat x div 4)) (b64_char (unat x mod 4 * 16)) 61 61 True = Some [x]"
proof -
  have r: "unat x div 4 < 64" "unat x mod 4 * 16 < 64" using byte_split [of x] six_bits(3) [of x] by simp_all
  then show ?thesis by (simp add: b64_group_def b64_val_char high_bits byte_join del: of_nat_add of_nat_mult)
qed

lemma b64decode_encode: "b64decode (b64encode data) = Inr data"
proof (induction data rule: b64encode.induct)
  case (2 x)
  show ?case using group_one [of x] by simp
next
  case (3 x y)
  show ?case using group_two [of x y] by simp
next
  case (4 x y z rest)
  then show ?case by (simp add: group_three)
qed simp

lemma length_b64encode: "length (b64encode data) = 4 * ((length data + 2) div 3)"
proof (induction data rule: b64encode.induct)
  case (4 x y z rest)
  have "(length rest + 3 + 2) div 3 = Suc ((length rest + 2) div 3)" by presburger
  with 4 show ?case by (simp add: add_ac)
qed simp_all

lemma b64encode_ascii: "list_all (\<lambda>c. c < 128) (b64encode data)"
proof -
  have *: "b64_char n < 128" for n by (auto simp: b64_char_def)
  show ?thesis by (induction data rule: b64encode.induct) (simp_all add: *)
qed

lemma b64encode_inj: "b64encode x = b64encode y \<Longrightarrow> x = y"
  by (metis b64decode_encode sum.inject(2))

end
