(* ===== verification/Qr_Encode.thy ===== *)
theory Qr_Encode
  imports Base64
begin

text \<open>
  \<open>photontcp/qr/encode.py\<close>. An image is a list of rows of pixels. \<open>segno.make\<close> (with
  \<open>micro=False\<close>) is a parameter: the module matrix of a text at an error level, or \<open>None\<close> when
  it raises \<open>DataOverflowError\<close>.
\<close>

type_synonym image = "byte list list"
type_synonym matrix = "bool list list"
type_synonym qr_maker = "string \<Rightarrow> pstr \<Rightarrow> matrix option"

definition set_pixel :: "image \<Rightarrow> nat \<Rightarrow> nat \<Rightarrow> byte \<Rightarrow> image" where
  "set_pixel grid y x v = grid[y := (grid ! y)[x := v]]"

text \<open>The two loops over the modules; only dark ones are written.\<close>

fun fill_row :: "nat \<Rightarrow> nat \<Rightarrow> nat \<Rightarrow> bool list \<Rightarrow> image \<Rightarrow> image" where
  "fill_row border r c [] grid = grid"
| "fill_row border r c (m # ms) grid =
     fill_row border r (Suc c) ms (if m then set_pixel grid (border + r) (border + c) 0 else grid)"

fun fill_rows :: "nat \<Rightarrow> nat \<Rightarrow> matrix \<Rightarrow> image \<Rightarrow> image" where
  "fill_rows border r [] grid = grid"
| "fill_rows border r (row # rows) grid = fill_rows border (Suc r) rows (fill_row border r 0 row grid)"

text \<open>\<open>np.kron(grid, np.ones((scale, scale)))\<close>.\<close>

definition kron_ones :: "nat \<Rightarrow> image \<Rightarrow> image" where
  "kron_ones s grid = concat (map (\<lambda>row. replicate s (concat (map (replicate s) row))) grid)"

definition qr_encode_frame :: "qr_maker \<Rightarrow> bytes \<Rightarrow> int \<Rightarrow> int \<Rightarrow> string \<Rightarrow> image result" where
  "qr_encode_frame segno data scale border error =
     (if scale < 1 then Inl ValueError
      else if border < 0 then Inl ValueError
      else
        (case segno error (b64encode data) of
           None \<Rightarrow> Inl QRCapacityError
         | Some rows \<Rightarrow>
             (let modules = length rows; full = modules + 2 * nat border;
                  grid = replicate full (replicate full 255)
              in Inr (kron_ones (nat scale) (fill_rows (nat border) 0 rows grid)))))"

section \<open>Pixels\<close>

definition shape :: "nat \<Rightarrow> image \<Rightarrow> bool" where
  "shape n g \<longleftrightarrow> length g = n \<and> (\<forall>row \<in> set g. length row = n)"

definition square :: "matrix \<Rightarrow> bool" where
  "square rows \<longleftrightarrow> (\<forall>row \<in> set rows. length row = length rows)"

lemma shape_set_pixel:
  assumes "shape n g"
  shows "shape n (set_pixel g y x v)"
proof (cases "y < length g")
  case True
  with assms have "length ((g ! y)[x := v]) = n" by (auto simp: shape_def)
  with assms set_update_subset_insert [of g y "(g ! y)[x := v]"] show ?thesis
    by (auto simp: shape_def set_pixel_def)
qed (use assms in \<open>simp add: set_pixel_def shape_def list_update_beyond\<close>)

lemma set_pixel_nth:
  assumes "shape n g" and "i < n" and "j < n" and "y < n" and "x < n"
  shows "set_pixel g y x v ! i ! j = (if i = y \<and> j = x then v else g ! i ! j)"
proof -
  have "length (g ! y) = n" using assms by (auto simp: shape_def)
  with assms show ?thesis by (auto simp: set_pixel_def shape_def nth_list_update)
qed

lemma shape_fill_row: "shape n g \<Longrightarrow> shape n (fill_row b r c ms g)"
  by (induction ms arbitrary: c g) (simp_all add: shape_set_pixel)

lemma fill_row_nth:
  assumes "shape n g" and "i < n" and "j < n" and "b + r < n" and "b + c + length ms \<le> n"
  shows "fill_row b r c ms g ! i ! j =
    (if i = b + r \<and> b + c \<le> j \<and> j < b + c + length ms \<and> ms ! (j - (b + c)) then 0 else g ! i ! j)"
  using assms
proof (induction ms arbitrary: c g)
  case (Cons m ms)
  let ?g = "if m then set_pixel g (b + r) (b + c) 0 else g"
  have s: "shape n ?g" using Cons.prems(1) by (simp add: shape_set_pixel)
  have g: "?g ! i ! j = (if m \<and> i = b + r \<and> j = b + c then 0 else g ! i ! j)"
    using Cons.prems by (simp add: set_pixel_nth [of n])
  have "fill_row b r (Suc c) ms ?g ! i ! j =
      (if i = b + r \<and> b + Suc c \<le> j \<and> j < b + Suc c + length ms \<and> ms ! (j - (b + Suc c)) then 0 else ?g ! i ! j)"
    using Cons.prems by (intro Cons.IH [OF s]) simp_all
  moreover have "(m # ms) ! (j - (b + c)) = ms ! (j - (b + Suc c))" if "b + Suc c \<le> j"
    using that by (simp add: nth_Cons')
  moreover have "j = b + c \<or> b + Suc c \<le> j" if "b + c \<le> j" using that by linarith
  ultimately show ?case unfolding g by (auto simp del: fill_row.simps simp: fill_row.simps(2) [of b r c m ms g])
qed auto

lemma fill_rows_nth:
  assumes "shape n g" and "i < n" and "j < n" and "b + r + length rows \<le> n"
    and "\<And>row. row \<in> set rows \<Longrightarrow> b + length row \<le> n"
  shows "fill_rows b r rows g ! i ! j =
    (if b + r \<le> i \<and> i < b + r + length rows \<and> b \<le> j \<and> j < b + length (rows ! (i - (b + r)))
       \<and> rows ! (i - (b + r)) ! (j - b) then 0 else g ! i ! j)"
  using assms
proof (induction rows arbitrary: r g)
  case (Cons row rows)
  let ?g = "fill_row b r 0 row g"
  have g: "?g ! i ! j = (if i = b + r \<and> b \<le> j \<and> j < b + length row \<and> row ! (j - b) then 0 else g ! i ! j)"
    using fill_row_nth [OF Cons.prems(1-3), of b r 0 row] Cons.prems(4,5) by simp
  have "fill_rows b (Suc r) rows ?g ! i ! j =
    (if b + Suc r \<le> i \<and> i < b + Suc r + length rows \<and> b \<le> j \<and> j < b + length (rows ! (i - (b + Suc r)))
       \<and> rows ! (i - (b + Suc r)) ! (j - b) then 0 else ?g ! i ! j)"
    using Cons.prems by (intro Cons.IH [OF shape_fill_row [OF Cons.prems(1)]]) auto
  moreover have "(row # rows) ! (i - (b + r)) = rows ! (i - (b + Suc r))" if "b + Suc r \<le> i"
    using that by (simp add: nth_Cons')
  moreover have "i = b + r \<or> b + Suc r \<le> i" if "b + r \<le> i" using that by linarith
  ultimately show ?case unfolding g by auto
qed auto

lemma shape_fill_rows: "shape n g \<Longrightarrow> shape n (fill_rows b r rows g)"
  by (induction rows arbitrary: r g) (simp_all add: shape_fill_row)

lemma concat_replicate_nth:
  assumes "0 < s" and "k < s * length xs"
  shows "concat (map (\<lambda>x. replicate s (f x)) xs) ! k = f (xs ! (k div s))"
  using assms
proof (induction xs arbitrary: k)
  case (Cons x xs)
  show ?case
  proof (cases "k < s")
    case True
    then show ?thesis by (simp add: nth_append)
  next
    case False
    with Cons.prems have "k - s < s * length xs" by simp
    with Cons.IH [of "k - s"] Cons.prems False show ?thesis
      by (simp add: nth_append le_div_geq)
  qed
qed simp

lemma length_concat_replicate: "length (concat (map (\<lambda>x. replicate s (f x)) xs)) = s * length xs"
  by (induction xs) simp_all

lemma kron_nth:
  assumes "shape n g" and "0 < s" and "y < s * n" and "x < s * n"
  shows "kron_ones s g ! y ! x = g ! (y div s) ! (x div s)"
proof -
  have "length g = n" using assms(1) by (simp add: shape_def)
  then have y: "y < s * length g" "y div s < length g" using assms by (simp_all add: less_mult_imp_div_less mult.commute)
  then have row: "length (g ! (y div s)) = n" using assms(1) by (auto simp: shape_def)
  have "kron_ones s g ! y = concat (map (replicate s) (g ! (y div s)))"
    unfolding kron_ones_def by (rule concat_replicate_nth [OF assms(2) y(1)])
  with concat_replicate_nth [OF assms(2), of x "g ! (y div s)" "\<lambda>v. v"] row assms(4) show ?thesis by simp
qed

lemma shape_kron: "shape n g \<Longrightarrow> shape (s * n) (kron_ones s g)"
  using length_concat_replicate [where f = "\<lambda>v. v"]
  by (auto simp: shape_def kron_ones_def length_concat_replicate)

end
