(* ===== verification/Qr_Decode.thy ===== *)
theory Qr_Decode
  imports Base64
begin

text \<open>
  \<open>photontcp/qr/decode.py\<close>: the registry of decoder backends and the \<open>cv2\<close> backend with its
  cascade of image variants and its alternate detector. OpenCV is a parameter: a record of the
  functions the module calls, on any type of images and detectors, each of which may raise.
  A detector has no state here, so the per-thread caches of detector objects are left out;
  the two cached probes (\<open>_cv2_missing\<close>, \<open>_alt_kind\<close>) are kept.
\<close>

section \<open>The environment\<close>

record ('i, 'd) cv2_module =
  cv_is_color :: "'i \<Rightarrow> bool"
  cv_to_gray :: "'i \<Rightarrow> 'i result"
  cv_threshold :: "'i \<Rightarrow> 'i result"
  cv_filter2D :: "'i \<Rightarrow> 'i result"
  cv_resize :: "'i \<Rightarrow> nat \<Rightarrow> 'i result"
  cv_QRCodeDetector :: 'd
  cv_detect :: "'d \<Rightarrow> 'i \<Rightarrow> (pstr \<times> bool) result"
  cv_wechat :: "('i \<Rightarrow> (pstr list) option result) option"
  cv_aruco :: "('i \<Rightarrow> (pstr \<times> bool) result) option"

text \<open>What \<open>import cv2\<close> gives at the moment: the module, or \<open>None\<close> when it raises.\<close>

type_synonym ('i, 'd) env = "('i, 'd) cv2_module option"

datatype AltKind = Wechat | Aruco

record Flags =
  fl_cv2_missing :: bool
  fl_alt_kind :: "AltKind option option"

definition initial_flags :: Flags where
  "initial_flags = \<lparr>fl_cv2_missing = False, fl_alt_kind = None\<rparr>"

definition require_cv2 :: "('i, 'd) env \<Rightarrow> Flags \<Rightarrow> ('i, 'd) cv2_module option \<times> Flags" where
  "require_cv2 env fl =
     (if fl_cv2_missing fl then (None, fl)
      else case env of None \<Rightarrow> (None, fl\<lparr>fl_cv2_missing := True\<rparr>) | Some cv2 \<Rightarrow> (Some cv2, fl))"

definition reset_decoder_backend_probe :: "Flags \<Rightarrow> Flags" where
  "reset_decoder_backend_probe fl = fl\<lparr>fl_cv2_missing := False, fl_alt_kind := None\<rparr>"

section \<open>The cv2 backend\<close>

text \<open>The alternate detector of the build; \<open>cv_wechat\<close> and \<open>cv_aruco\<close> are \<open>None\<close> when the class is missing or cannot be constructed.\<close>

definition resolve_alt_kind :: "('i, 'd) env \<Rightarrow> Flags \<Rightarrow> AltKind option \<times> Flags" where
  "resolve_alt_kind env fl =
     (case require_cv2 env fl of
        (None, fl1) \<Rightarrow> (None, fl1)
      | (Some cv2, fl1) \<Rightarrow>
          ((if cv_wechat cv2 \<noteq> None then Some Wechat
            else if cv_aruco cv2 \<noteq> None then Some Aruco else None), fl1))"

definition alt_kind_cached :: "('i, 'd) env \<Rightarrow> Flags \<Rightarrow> AltKind option \<times> Flags" where
  "alt_kind_cached env fl =
     (case fl_alt_kind fl of
        Some kind \<Rightarrow> (kind, fl)
      | None \<Rightarrow> (let (kind, fl1) = resolve_alt_kind env fl in (kind, fl1\<lparr>fl_alt_kind := Some kind\<rparr>)))"

text \<open>
  The variant generator as the list of what its steps give. A step whose OpenCV call raises ends
  it: the exception leaves the generator, and with it the loop that consumes it.
\<close>

definition preprocessed :: "('i, 'd) cv2_module \<Rightarrow> 'i \<Rightarrow> 'i result list" where
  "preprocessed cv2 img =
     (case cv_threshold cv2 img of
        Inl e \<Rightarrow> [Inl e]
      | Inr otsu \<Rightarrow>
          Inr otsu #
          (case cv_filter2D cv2 img of
             Inl e \<Rightarrow> [Inl e]
           | Inr sharpened \<Rightarrow>
               (case cv_threshold cv2 sharpened of
                  Inl e \<Rightarrow> [Inl e]
                | Inr sharp_otsu \<Rightarrow>
                    Inr sharp_otsu #
                    [cv_resize cv2 base factor. base \<leftarrow> [otsu, sharp_otsu], factor \<leftarrow> [2, 3]])))"

definition decode_variants :: "('i, 'd) cv2_module option \<Rightarrow> 'i \<Rightarrow> 'i result list" where
  "decode_variants cv2 img =
     Inr img # (case cv2 of None \<Rightarrow> [] | Some m \<Rightarrow> preprocessed m img)"

text \<open>The first text of the list that base64-decodes; empty texts are skipped.\<close>

fun first_payload :: "pstr list \<Rightarrow> bytes option" where
  "first_payload [] = None"
| "first_payload (t # ts) =
     (if t = [] then first_payload ts
      else case b64decode t of Inr b \<Rightarrow> Some b | Inl e \<Rightarrow> first_payload ts)"

text \<open>The loop over the variants, for a detector that gives candidate texts.\<close>

fun try_variants :: "('i \<Rightarrow> (pstr list) result) \<Rightarrow> 'i result list \<Rightarrow> bytes option result" where
  "try_variants detect [] = Inr None"
| "try_variants detect (Inl e # vs) = Inl e"
| "try_variants detect (Inr v # vs) =
     (case detect v of
        Inl e \<Rightarrow> if e = Cv2Error then try_variants detect vs else Inl e
      | Inr texts \<Rightarrow>
          (case first_payload texts of Some b \<Rightarrow> Inr (Some b) | None \<Rightarrow> try_variants detect vs))"

text \<open>\<open>(text, points, _)\<close>: a candidate only with a text and points.\<close>

definition text_candidates :: "(pstr \<times> bool) result \<Rightarrow> (pstr list) result" where
  "text_candidates r = map_sum id (\<lambda>(t, pts). if t \<noteq> [] \<and> pts then [t] else []) r"

definition wechat_candidates :: "(pstr list) option result \<Rightarrow> (pstr list) result" where
  "wechat_candidates r = map_sum id (\<lambda>x. case x of None \<Rightarrow> [] | Some ts \<Rightarrow> ts) r"

definition alt_detect :: "('i, 'd) cv2_module \<Rightarrow> AltKind \<Rightarrow> 'i \<Rightarrow> (pstr list) result" where
  "alt_detect cv2 kind v =
     (case kind of
        Wechat \<Rightarrow> (case cv_wechat cv2 of None \<Rightarrow> Inl TypeError | Some f \<Rightarrow> wechat_candidates (f v))
      | Aruco \<Rightarrow> (case cv_aruco cv2 of None \<Rightarrow> Inl TypeError | Some f \<Rightarrow> text_candidates (f v)))"

text \<open>
  The detector objects of the thread, created on first use. A detector without state is its
  class; the alternate one is its kind and the module that runs it.
\<close>

definition thread_detector :: "('i, 'd) env \<Rightarrow> Flags \<Rightarrow> 'd option \<times> Flags" where
  "thread_detector env fl =
     (case require_cv2 env fl of
        (None, fl1) \<Rightarrow> (None, fl1)
      | (Some m, fl1) \<Rightarrow> (Some (cv_QRCodeDetector m), fl1))"

definition thread_alt_detector ::
  "('i, 'd) env \<Rightarrow> Flags \<Rightarrow> (AltKind \<times> ('i, 'd) cv2_module) option \<times> Flags" where
  "thread_alt_detector env fl =
     (case alt_kind_cached env fl of
        (None, fl1) \<Rightarrow> (None, fl1)
      | (Some kind, fl1) \<Rightarrow>
          (case require_cv2 env fl1 of
             (None, fl2) \<Rightarrow> (None, fl2)
           | (Some m, fl2) \<Rightarrow> (Some (kind, m), fl2)))"

definition alt_decode :: "('i, 'd) env \<Rightarrow> Flags \<Rightarrow> 'i \<Rightarrow> bytes option result \<times> Flags" where
  "alt_decode env fl img =
     (case thread_alt_detector env fl of
        (None, fl1) \<Rightarrow> (Inr None, fl1)
      | (Some (kind, detector), fl1) \<Rightarrow>
          (case require_cv2 env fl1 of
             (None, fl2) \<Rightarrow> (Inr None, fl2)
           | (Some m, fl2) \<Rightarrow> (try_variants (alt_detect detector kind) (decode_variants (Some m) img), fl2)))"

definition cv2_decode :: "('i, 'd) env \<Rightarrow> Flags \<Rightarrow> 'd option \<Rightarrow> 'i \<Rightarrow> bytes option result \<times> Flags" where
  "cv2_decode env fl detector img =
     (case require_cv2 env fl of
        (None, fl1) \<Rightarrow> (Inr None, fl1)
      | (Some m, fl1) \<Rightarrow>
          (case (case detector of None \<Rightarrow> thread_detector env fl1 | Some d \<Rightarrow> (Some d, fl1)) of
             (None, fl2) \<Rightarrow> (Inr None, fl2)
           | (Some d, fl2) \<Rightarrow>
               (case (if cv_is_color m img then cv_to_gray m img else Inr img) of
                  Inl e \<Rightarrow> (if e = Cv2Error then Inr None else Inl e, fl2)
                | Inr gray \<Rightarrow>
                    (case try_variants (\<lambda>v. text_candidates (cv_detect m d v)) (decode_variants (Some m) gray) of
                       Inl e \<Rightarrow> (Inl e, fl2)
                     | Inr (Some b) \<Rightarrow> (Inr (Some b), fl2)
                     | Inr None \<Rightarrow> alt_decode env fl2 gray))))"

section \<open>The backend registry\<close>

text \<open>A backend says whether it takes a \<open>detector\<close> argument; a factory may find it unavailable (\<open>None\<close>) or raise.\<close>

type_synonym ('i, 'd) backend = "bool \<times> (('i, 'd) env \<Rightarrow> Flags \<Rightarrow> 'd option \<Rightarrow> 'i \<Rightarrow> bytes option result \<times> Flags)"
type_synonym ('i, 'd) factory = "('i, 'd) env \<Rightarrow> Flags \<Rightarrow> ('i, 'd) backend option result \<times> Flags"

record ('i, 'd) Registry =
  rg_factories :: "(string, ('i, 'd) factory) dict"
  rg_selected :: "string option"
  rg_flags :: Flags

definition cv2_backend_factory :: "('i, 'd) factory" where
  "cv2_backend_factory env fl =
     (let (cv2, fl1) = require_cv2 env fl in
      (Inr (case cv2 of None \<Rightarrow> None | Some _ \<Rightarrow> Some (True, cv2_decode)), fl1))"

definition register_decoder_backend ::
  "string \<Rightarrow> ('i, 'd) factory \<Rightarrow> ('i, 'd) Registry \<Rightarrow> unit result \<times> ('i, 'd) Registry" where
  "register_decoder_backend name factory rg =
     (if name = [] then (Inl ValueError, rg)
      else (Inr (), rg\<lparr>rg_factories := AList.update name factory (rg_factories rg),
        rg_flags := reset_decoder_backend_probe (rg_flags rg)\<rparr>))"

definition set_decoder_backend :: "string option \<Rightarrow> ('i, 'd) Registry \<Rightarrow> unit result \<times> ('i, 'd) Registry" where
  "set_decoder_backend name rg =
     (case name of
        Some n \<Rightarrow>
          if \<not> dict_mem n (rg_factories rg) then (Inl ValueError, rg)
          else (Inr (), rg\<lparr>rg_selected := name, rg_flags := reset_decoder_backend_probe (rg_flags rg)\<rparr>)
      | None \<Rightarrow> (Inr (), rg\<lparr>rg_selected := None, rg_flags := reset_decoder_backend_probe (rg_flags rg)\<rparr>))"

text \<open>The registry at import: the \<open>cv2\<close> backend alone, no selection.\<close>

definition initial_registry :: "('i, 'd) Registry" where
  "initial_registry =
     snd (register_decoder_backend ''cv2'' cv2_backend_factory
       \<lparr>rg_factories = [], rg_selected = None, rg_flags = initial_flags\<rparr>)"

definition resolve_one :: "('i, 'd) env \<Rightarrow> string \<Rightarrow> ('i, 'd) Registry \<Rightarrow> ('i, 'd) backend option \<times> ('i, 'd) Registry" where
  "resolve_one env name rg =
     (case map_of (rg_factories rg) name of
        None \<Rightarrow> (None, rg)
      | Some factory \<Rightarrow>
          (let (r, fl) = factory env (rg_flags rg); rg1 = rg\<lparr>rg_flags := fl\<rparr> in
           case r of Inl e \<Rightarrow> (None, rg1) | Inr b \<Rightarrow> (b, rg1)))"

fun probe_names ::
  "('i, 'd) env \<Rightarrow> string list \<Rightarrow> ('i, 'd) Registry \<Rightarrow> (string \<times> ('i, 'd) backend) option \<times> ('i, 'd) Registry" where
  "probe_names env [] rg = (None, rg)"
| "probe_names env (n # ns) rg =
     (case resolve_one env n rg of
        (Some b, rg1) \<Rightarrow> (Some (n, b), rg1)
      | (None, rg1) \<Rightarrow> probe_names env ns rg1)"

definition resolve_backend ::
  "('i, 'd) env \<Rightarrow> ('i, 'd) Registry \<Rightarrow> (string \<times> ('i, 'd) backend) option \<times> ('i, 'd) Registry" where
  "resolve_backend env rg =
     (case rg_selected rg of
        Some n \<Rightarrow> (let (b, rg1) = resolve_one env n rg in (map_option (Pair n) b, rg1))
      | None \<Rightarrow> probe_names env (dict_keys (rg_factories rg)) rg)"

definition active_decoder_backend :: "('i, 'd) env \<Rightarrow> ('i, 'd) Registry \<Rightarrow> string option \<times> ('i, 'd) Registry" where
  "active_decoder_backend env rg = (let (r, rg1) = resolve_backend env rg in (map_option fst r, rg1))"

definition qr_decode_frame ::
  "('i, 'd) env \<Rightarrow> 'i option \<Rightarrow> 'd option \<Rightarrow> ('i, 'd) Registry \<Rightarrow> bytes option \<times> ('i, 'd) Registry" where
  "qr_decode_frame env frame detector rg =
     (case frame of
        None \<Rightarrow> (None, rg)
      | Some img \<Rightarrow>
          (case resolve_backend env rg of
             (None, rg1) \<Rightarrow> (None, rg1)
           | (Some (_, accepts_detector, run), rg1) \<Rightarrow>
               (let (r, fl) = run env (rg_flags rg1) (if accepts_detector then detector else None) img
                in (case r of Inl e \<Rightarrow> None | Inr b \<Rightarrow> b, rg1\<lparr>rg_flags := fl\<rparr>))))"

end
