(* ===== verification/Qr_Props.thy ===== *)
theory Qr_Props
  imports Qr_Encode Qr_Decode
begin

text \<open>
  What the QR codec promises: the pixels of an encoded frame, the round trip through a detector
  that reads the symbol, nothing decoded that no detector read, and what a failing image
  operation does to the cascade.
\<close>

section \<open>Encoding\<close>

text \<open>The image of a module matrix.\<close>

definition render :: "nat \<Rightarrow> nat \<Rightarrow> matrix \<Rightarrow> image" where
  "render scale border rows =
     (let full = length rows + 2 * border
      in kron_ones scale (fill_rows border 0 rows (replicate full (replicate full 255))))"

lemma encode_render:
  "qr_encode_frame segno data scale border error = Inr img \<longleftrightarrow>
     1 \<le> scale \<and> 0 \<le> border \<and>
     (\<exists>rows. segno error (b64encode data) = Some rows \<and> img = render (nat scale) (nat border) rows)"
  by (auto simp: qr_encode_frame_def render_def Let_def split: option.splits)

lemma render_shape: "shape (s * (length rows + 2 * b)) (render s b rows)"
  unfolding render_def Let_def
  by (rule shape_kron, rule shape_fill_rows) (simp add: shape_def)

lemma render_nth:
  assumes "square rows" and "0 < s" and "y < s * (length rows + 2 * b)" and "x < s * (length rows + 2 * b)"
  shows "render s b rows ! y ! x =
    (let r = y div s; c = x div s in
     if b \<le> r \<and> r < b + length rows \<and> b \<le> c \<and> c < b + length rows \<and> rows ! (r - b) ! (c - b) then 0 else 255)"
proof -
  let ?n = "length rows + 2 * b"
  let ?g = "replicate ?n (replicate ?n (255 :: byte))"
  have g: "shape ?n ?g" by (simp add: shape_def)
  have d: "y div s < ?n" "x div s < ?n" using assms(2-4) by (simp_all add: less_mult_imp_div_less mult.commute)
  have len: "length (rows ! (y div s - b)) = length rows" if "b \<le> y div s" "y div s < b + length rows"
    using assms(1) that by (auto simp: square_def)
  have "fill_rows b 0 rows ?g ! (y div s) ! (x div s) =
    (if b + 0 \<le> y div s \<and> y div s < b + 0 + length rows \<and> b \<le> x div s
        \<and> x div s < b + length (rows ! (y div s - (b + 0))) \<and> rows ! (y div s - (b + 0)) ! (x div s - b)
     then 0 else ?g ! (y div s) ! (x div s))"
    using assms(1) by (intro fill_rows_nth [OF g d]) (auto simp: square_def)
  moreover have "render s b rows ! y ! x = fill_rows b 0 rows ?g ! (y div s) ! (x div s)"
    unfolding render_def Let_def by (rule kron_nth [OF shape_fill_rows [OF g] assms(2-4)])
  ultimately show ?thesis using d len by (auto simp: Let_def)
qed

section \<open>Decoding\<close>

lemma first_payload_sound:
  "first_payload ts = Some b \<Longrightarrow> b \<noteq> [] \<and> (\<exists>t \<in> set ts. b64decode t = Inr b)"
proof (induction ts)
  case (Cons t ts)
  have ne: "b64decode t \<noteq> Inr []" if "t \<noteq> []"
    using that
    by (cases t rule: b64decode.cases) (auto simp: b64_group_def split: option.splits sum.splits if_splits)
  with Cons show ?case by (auto split: if_splits sum.splits)
qed simp

lemma try_variants_sound:
  "try_variants detect vs = Inr (Some b) \<Longrightarrow>
   b \<noteq> [] \<and> (\<exists>v texts t. Inr v \<in> set vs \<and> detect v = Inr texts \<and> t \<in> set texts \<and> b64decode t = Inr b)"
proof (induction detect vs rule: try_variants.induct)
  case (3 detect v vs)
  show ?case
  proof (cases "detect v")
    case (Inl e)
    with 3 show ?thesis by (auto split: if_splits)
  next
    case (Inr texts)
    show ?thesis
    proof (cases "first_payload texts")
      case None
      with 3 Inr show ?thesis by auto
    next
      case (Some p)
      with 3(3) Inr first_payload_sound [OF Some] show ?thesis by auto
    qed
  qed
qed auto

text \<open>What makes the cascade go on to the next variant.\<close>

definition unreadable :: "(pstr list) result \<Rightarrow> bool" where
  "unreadable r \<longleftrightarrow> (case r of Inl e \<Rightarrow> e = Cv2Error | Inr texts \<Rightarrow> first_payload texts = None)"

definition skipped :: "('i \<Rightarrow> (pstr list) result) \<Rightarrow> 'i result \<Rightarrow> bool" where
  "skipped detect p \<longleftrightarrow> (case p of Inl e \<Rightarrow> False | Inr u \<Rightarrow> unreadable (detect u))"

lemma try_variants_skip:
  "list_all (skipped detect) pre \<Longrightarrow> try_variants detect (pre @ vs) = try_variants detect vs"
proof (induction pre)
  case (Cons p pre)
  then obtain u where "p = Inr u" and "unreadable (detect u)" by (cases p) (auto simp: skipped_def)
  with Cons show ?case by (auto simp: unreadable_def split: sum.splits)
qed simp

section \<open>The cv2 backend of the shipped registry\<close>

abbreviation shipped :: "Flags \<Rightarrow> ('i, 'd) Registry" where
  "shipped fl \<equiv> \<lparr>rg_factories = [(''cv2'', cv2_backend_factory)], rg_selected = None, rg_flags = fl\<rparr>"

lemma initial_registry: "initial_registry = shipped initial_flags"
  by (simp add: initial_registry_def register_decoder_backend_def reset_decoder_backend_probe_def initial_flags_def)

text \<open>The cached probes tell the truth about the environment.\<close>

definition alt_kind :: "('i, 'd) cv2_module \<Rightarrow> AltKind option" where
  "alt_kind m = (if cv_wechat m \<noteq> None then Some Wechat else if cv_aruco m \<noteq> None then Some Aruco else None)"

definition flags_ok :: "('i, 'd) env \<Rightarrow> Flags \<Rightarrow> bool" where
  "flags_ok env fl \<longleftrightarrow>
     (case env of
        None \<Rightarrow> True
      | Some m \<Rightarrow> \<not> fl_cv2_missing fl \<and> (fl_alt_kind fl = None \<or> fl_alt_kind fl = Some (alt_kind m)))"

lemma flags_ok_initial: "flags_ok env initial_flags"
  by (simp add: flags_ok_def initial_flags_def split: option.split)

lemma no_cv2: "fst (qr_decode_frame None img det (shipped fl)) = None"
  by (cases img)
    (auto simp: qr_decode_frame_def resolve_backend_def resolve_one_def cv2_backend_factory_def require_cv2_def)

text \<open>The decode without its caches: the cascade, then the alternate detector over the same variants.\<close>

definition alt_reads :: "('i, 'd) cv2_module \<Rightarrow> 'i \<Rightarrow> bytes option result" where
  "alt_reads m gray =
     (case alt_kind m of
        None \<Rightarrow> Inr None
      | Some k \<Rightarrow> try_variants (alt_detect m k) (decode_variants (Some m) gray))"

definition gray_reads :: "('i, 'd) cv2_module \<Rightarrow> 'd option \<Rightarrow> 'i \<Rightarrow> bytes option result" where
  "gray_reads m det gray =
     (let d = (case det of None \<Rightarrow> cv_QRCodeDetector m | Some d \<Rightarrow> d) in
      case try_variants (\<lambda>v. text_candidates (cv_detect m d v)) (decode_variants (Some m) gray) of
        Inr None \<Rightarrow> alt_reads m gray
      | r \<Rightarrow> r)"

definition to_gray :: "('i, 'd) cv2_module \<Rightarrow> 'i \<Rightarrow> 'i result" where
  "to_gray m img = (if cv_is_color m img then cv_to_gray m img else Inr img)"

definition reads :: "('i, 'd) env \<Rightarrow> 'd option \<Rightarrow> 'i \<Rightarrow> bytes option" where
  "reads env det img =
     (case env of
        None \<Rightarrow> None
      | Some m \<Rightarrow>
          (case to_gray m img of
             Inl e \<Rightarrow> None
           | Inr gray \<Rightarrow> (case gray_reads m det gray of Inl e \<Rightarrow> None | Inr b \<Rightarrow> b)))"

lemma require_present: "flags_ok (Some m) fl \<Longrightarrow> require_cv2 (Some m) fl = (Some m, fl)"
  by (simp add: flags_ok_def require_cv2_def)

lemma alt_decode_reads:
  assumes "flags_ok (Some m) fl"
  shows "\<exists>fl1. alt_decode (Some m) fl gray = (alt_reads m gray, fl1) \<and> flags_ok (Some m) fl1"
proof -
  let ?fl = "case fl_alt_kind fl of Some _ \<Rightarrow> fl | None \<Rightarrow> fl\<lparr>fl_alt_kind := Some (alt_kind m)\<rparr>"
  have c: "alt_kind_cached (Some m) fl = (alt_kind m, ?fl)"
    using assms
    by (auto simp: alt_kind_cached_def resolve_alt_kind_def require_present alt_kind_def flags_ok_def
        split: option.splits)
  have ok: "flags_ok (Some m) ?fl" using assms by (auto simp: flags_ok_def split: option.split)
  from c ok show ?thesis
    by (cases "alt_kind m") (auto simp: alt_decode_def thread_alt_detector_def alt_reads_def require_present)
qed

lemma cv2_decode_reads:
  assumes "flags_ok (Some m) fl"
  shows "\<exists>r fl1. cv2_decode (Some m) fl det img = (r, fl1) \<and> flags_ok (Some m) fl1 \<and>
    (case r of Inl e \<Rightarrow> None | Inr b \<Rightarrow> b) = reads (Some m) det img"
proof -
  let ?d = "case det of None \<Rightarrow> cv_QRCodeDetector m | Some d \<Rightarrow> d"
  have d: "(case det of None \<Rightarrow> thread_detector (Some m) fl | Some d \<Rightarrow> (Some d, fl)) = (Some ?d, fl)"
    by (simp add: thread_detector_def require_present [OF assms] split: option.split)
  show ?thesis
  proof (cases "to_gray m img")
    case (Inl e)
    with assms d show ?thesis
      by (auto simp: cv2_decode_def require_present reads_def to_gray_def [symmetric])
  next
    case (Inr gray)
    let ?t = "try_variants (\<lambda>v. text_candidates (cv_detect m ?d v)) (decode_variants (Some m) gray)"
    obtain fl1 where a: "alt_decode (Some m) fl gray = (alt_reads m gray, fl1)" "flags_ok (Some m) fl1"
      using alt_decode_reads [OF assms] by blast
    have "cv2_decode (Some m) fl det img =
        (gray_reads m det gray, if ?t = Inr None then fl1 else fl)"
      using Inr d a(1)
      by (auto simp: cv2_decode_def require_present [OF assms] gray_reads_def to_gray_def [symmetric] Let_def
          split: sum.split option.split)
    with Inr a(2) assms show ?thesis by (auto simp: reads_def)
  qed
qed

lemma decode_reads:
  assumes "flags_ok env fl"
  shows "\<exists>fl1. qr_decode_frame env (Some img) det (shipped fl) = (reads env det img, shipped fl1) \<and> flags_ok env fl1"
proof (cases env)
  case None
  then show ?thesis
    using no_cv2 [of "Some img" det fl]
    by (auto simp: reads_def flags_ok_def qr_decode_frame_def resolve_backend_def resolve_one_def
        cv2_backend_factory_def require_cv2_def)
next
  case (Some m)
  with assms obtain r fl1 where c: "cv2_decode (Some m) fl det img = (r, fl1)" "flags_ok (Some m) fl1"
      "(case r of Inl e \<Rightarrow> None | Inr b \<Rightarrow> b) = reads (Some m) det img"
    using cv2_decode_reads by metis
  with assms Some show ?thesis
    by (auto simp: qr_decode_frame_def resolve_backend_def resolve_one_def cv2_backend_factory_def require_present)
qed

text \<open>\<open>decode_frame\<close> over a sequence of images, in one environment.\<close>

fun decode_all ::
  "('i, 'd) env \<Rightarrow> ('i \<times> 'd option) list \<Rightarrow> ('i, 'd) Registry \<Rightarrow> bytes option list \<times> ('i, 'd) Registry" where
  "decode_all env [] rg = ([], rg)"
| "decode_all env ((img, det) # rest) rg =
     (let (r, rg1) = qr_decode_frame env (Some img) det rg; (rs, rg2) = decode_all env rest rg1 in (r # rs, rg2))"

lemma decode_all_reads:
  "flags_ok env fl \<Longrightarrow> fst (decode_all env xs (shipped fl)) = map (\<lambda>(img, det). reads env det img) xs"
proof (induction xs arbitrary: fl)
  case (Cons x xs)
  obtain img det where x: "x = (img, det)" by fastforce
  from decode_reads [OF Cons.prems, of img det] obtain fl1
    where d: "qr_decode_frame env (Some img) det (shipped fl) = (reads env det img, shipped fl1)"
      and ok: "flags_ok env fl1" by blast
  from Cons.IH [OF ok] show ?case by (simp add: x d split_beta Let_def)
qed simp

section \<open>A maker and a reader that read each other\<close>

text \<open>A maker that draws each character of the text as a bar of its length, and the reader of such symbols.\<close>

definition bars_segno :: qr_maker where
  "bars_segno error t =
     (let n = length t + 128 in Some (map (\<lambda>i. map (\<lambda>j. i < length t \<and> j \<le> t ! i) [0..<n]) [0..<n]))"

definition bars_read :: "nat \<Rightarrow> nat \<Rightarrow> image \<Rightarrow> bytes option" where
  "bars_read s b img =
     (let n = length img div s - 2 * b;
          bars = map (\<lambda>i. length (filter (\<lambda>j. img ! ((b + i) * s) ! ((b + j) * s) = 0) [0..<n])) [0..<n]
      in case b64decode (map (\<lambda>c. c - 1) (takeWhile (\<lambda>c. 0 < c) bars)) of Inl e \<Rightarrow> None | Inr d \<Rightarrow> Some d)"

lemma bar_length: "length (filter (\<lambda>j. j \<le> c) [0..<n]) = min n (Suc c)"
  by (induction n) auto

lemma bars_text:
  "takeWhile (\<lambda>c. 0 < c) (map (\<lambda>i. if i < length t then Suc (t ! i) else 0) [0..<length t + m]) = map Suc t"
proof -
  have s: "[0..<length t + m] = [0..<length t] @ [length t..<length t + m]"
    by (rule upt_add_eq_append) simp
  have a: "map (\<lambda>i. if i < length t then Suc (t ! i) else 0) [0..<length t] = map Suc t"
    by (rule nth_equalityI) simp_all
  have b: "map (\<lambda>i. if i < length t then Suc (t ! i) else 0) [length t..<length t + m] = map (\<lambda>_. 0) [length t..<length t + m]"
    by simp
  show ?thesis unfolding s map_append a b by (subst takeWhile_append2) (auto simp: takeWhile_eq_Nil_iff hd_map)
qed

lemma bars_made: "1 \<le> scale \<Longrightarrow> 0 \<le> border \<Longrightarrow> \<exists>img. qr_encode_frame bars_segno f scale border error = Inr img"
  by (simp add: encode_render bars_segno_def Let_def del: b64encode.simps)

lemma bars_read_back:
  assumes "qr_encode_frame bars_segno f scale border error = Inr img"
  shows "bars_read (nat scale) (nat border) img = Some f"
proof -
  let ?t = "b64encode f" and ?s = "nat scale" and ?b = "nat border"
  let ?n = "length ?t + 128"
  let ?rows = "map (\<lambda>i. map (\<lambda>j. i < length ?t \<and> j \<le> ?t ! i) [0..<?n]) [0..<?n]"
  let ?img = "render ?s ?b ?rows"
  have e: "img = ?img" "1 \<le> scale"
    using assms by (simp_all add: encode_render bars_segno_def Let_def del: b64encode.simps)
  have sq: "square ?rows" and s: "0 < ?s" using e(2) by (auto simp: square_def)
  have n: "length ?img div ?s - 2 * ?b = ?n" using render_shape [of ?s ?rows ?b] s by (simp add: shape_def)
  have pix: "?img ! ((?b + i) * ?s) ! ((?b + j) * ?s) = 0 \<longleftrightarrow> i < length ?t \<and> j \<le> ?t ! i" if "i < ?n" "j < ?n" for i j
  proof -
    have "(?b + i) * ?s < ?s * (length ?rows + 2 * ?b)" "(?b + j) * ?s < ?s * (length ?rows + 2 * ?b)"
      using that s by (simp_all add: mult.commute)
    from render_nth [OF sq s this] that s show ?thesis by (simp add: Let_def)
  qed
  have c: "?t ! i < ?n" if "i < length ?t" for i
    using b64encode_ascii [of f] that by (auto simp: list_all_iff trans_less_add2)
  have "length (filter (\<lambda>j. ?img ! ((?b + i) * ?s) ! ((?b + j) * ?s) = 0) [0..<?n]) = (if i < length ?t then Suc (?t ! i) else 0)"
    if "i < ?n" for i
  proof -
    have "filter (\<lambda>j. ?img ! ((?b + i) * ?s) ! ((?b + j) * ?s) = 0) [0..<?n] = filter (\<lambda>j. i < length ?t \<and> j \<le> ?t ! i) [0..<?n]"
      using pix [OF that] by (intro filter_cong) auto
    then show ?thesis using c [of i] by (cases "i < length ?t") (simp_all add: bar_length min_absorb2)
  qed
  then have "map (\<lambda>i. length (filter (\<lambda>j. ?img ! ((?b + i) * ?s) ! ((?b + j) * ?s) = 0) [0..<?n])) [0..<?n] =
      map (\<lambda>i. if i < length ?t then Suc (?t ! i) else 0) [0..<?n]" by (intro map_cong) simp_all
  then show ?thesis
    unfolding e(1) bars_read_def Let_def n by (simp only: bars_text) (simp add: comp_def b64decode_encode)
qed

section \<open>Properties\<close>

text \<open>
  C28. A frame that fits a symbol of \<open>n\<close> modules becomes a square image of side \<open>(n + 2 * border) * scale\<close>;
  a pixel is 0 (black) exactly when it lies in the block of a dark module, and 255 everywhere else,
  the quiet zone included.
\<close>

theorem qr_pixels:
  assumes "qr_encode_frame segno data scale border error = Inr img"
    and "segno error (b64encode data) = Some rows" and "square rows"
  shows "let side = nat scale * (length rows + 2 * nat border) in
    length img = side \<and> list_all (\<lambda>row. length row = side) img \<and>
    list_all (\<lambda>y. list_all (\<lambda>x. img ! y ! x =
      (let r = y div nat scale; c = x div nat scale; b = nat border; n = length rows
       in if b \<le> r \<and> r < b + n \<and> b \<le> c \<and> c < b + n \<and> rows ! (r - b) ! (c - b) then 0 else 255)) [0..<side]) [0..<side]"
proof -
  from assms(1,2) have r: "img = render (nat scale) (nat border) rows" "0 < nat scale"
    by (auto simp: encode_render)
  show ?thesis
    using render_shape [of "nat scale" rows "nat border"] render_nth [OF assms(3) r(2)]
    by (simp add: shape_def list_all_iff r(1) Let_def)
qed

definition small_segno :: qr_maker where
  "small_segno error t = (if length t \<le> 8 then Some [[True, False], [False, True]] else None)"

lemma qr_pixels_witness:
  "\<exists>img. qr_encode_frame small_segno [7] 2 1 ''m'' = Inr img \<and> length img = 8 \<and> img ! 3 ! 2 = 0 \<and> img ! 3 ! 4 = 255"
proof -
  obtain img where i: "qr_encode_frame small_segno [7] 2 1 ''m'' = Inr img"
    by (simp add: qr_encode_frame_def small_segno_def Let_def)
  have "small_segno ''m'' (b64encode [7]) = Some [[True, False], [False, True]]" by (simp add: small_segno_def)
  from qr_pixels [OF i this] i show ?thesis by (simp add: square_def Let_def list_all_iff)
qed

text \<open>
  C27. What was encoded, if not empty, is what \<open>decode_frame\<close> of the shipped backend gives for the gray
  image, once the detector reads the text of
  the symbol from some image of the cascade and every image tried before was skipped: the detector
  raised an OpenCV error, found nothing, or read a text that is not base64.
\<close>

theorem qr_round_trip:
  assumes "qr_encode_frame segno data scale border error = Inr img" and "data \<noteq> []"
    and "cv_is_color m img = False"
    and "decode_variants (Some m) img = pre @ Inr v # post"
    and "list_all (skipped (\<lambda>u. text_candidates (cv_detect m (cv_QRCodeDetector m) u))) pre"
    and "cv_detect m (cv_QRCodeDetector m) v = Inr (b64encode data, True)"
  shows "fst (qr_decode_frame (Some m) (Some img) None initial_registry) = Some data"
proof -
  have ne: "b64encode data \<noteq> []" using assms(2) by (cases data rule: b64encode.cases) simp_all
  have "try_variants (\<lambda>u. text_candidates (cv_detect m (cv_QRCodeDetector m) u)) (pre @ Inr v # post) = Inr (Some data)"
    using try_variants_skip [OF assms(5), of "Inr v # post"] assms(6) ne
    by (simp add: text_candidates_def b64decode_encode)
  then have "reads (Some m) None img = Some data"
    using assms(3,4) by (simp add: reads_def to_gray_def gray_reads_def)
  with decode_reads [OF flags_ok_initial, of "Some m" img None] show ?thesis by (auto simp: initial_registry)
qed

definition demo_cv2 :: "(image \<Rightarrow> image result) \<Rightarrow> (image \<Rightarrow> (pstr \<times> bool) result) \<Rightarrow> pstr \<Rightarrow> (image, unit) cv2_module" where
  "demo_cv2 thr detect alt =
     \<lparr>cv_is_color = (\<lambda>i. False), cv_to_gray = Inr, cv_threshold = thr, cv_filter2D = Inr,
      cv_resize = (\<lambda>i n. Inr i), cv_QRCodeDetector = (), cv_detect = (\<lambda>d. detect), cv_wechat = None,
      cv_aruco = Some (\<lambda>i. Inr (alt, True))\<rparr>"

lemma qr_round_trip_witness:
  "\<exists>img. qr_encode_frame small_segno [7] 2 1 ''m'' = Inr img \<and>
    fst (qr_decode_frame (Some (demo_cv2 (\<lambda>i. Inr []) (\<lambda>i. if i = [] then Inr (b64encode [7], True) else Inl Cv2Error) []))
      (Some img) None initial_registry) = Some [7]"
proof -
  let ?m = "demo_cv2 (\<lambda>i. Inr []) (\<lambda>i. if i = [] then Inr (b64encode [7], True) else Inl Cv2Error) []"
  obtain img where i: "qr_encode_frame small_segno [7] 2 1 ''m'' = Inr img"
    by (simp add: qr_encode_frame_def small_segno_def Let_def)
  then have ne: "img \<noteq> []"
    by (auto simp: qr_encode_frame_def small_segno_def Let_def kron_ones_def set_pixel_def)
  have v: "decode_variants (Some ?m) img =
      [Inr img] @ Inr [] # [Inr [], Inr [], Inr [], Inr [], Inr []]"
    by (simp add: decode_variants_def preprocessed_def demo_cv2_def)
  have "fst (qr_decode_frame (Some ?m) (Some img) None initial_registry) = Some [7]"
    by (rule qr_round_trip [OF i _ _ v])
      (use ne in \<open>simp_all add: demo_cv2_def skipped_def unreadable_def text_candidates_def\<close>)
  with i show ?thesis by blast
qed

text \<open>
  \<open>decode_frame\<close> needs OpenCV, never gives the empty frame, and invents nothing: what it gives is the base64 decoding of a text that the primary or the alternate detector read from
  one of the variants of the (gray) image.
\<close>

theorem decoded_was_read:
  "case fst (qr_decode_frame env (Some img) det initial_registry) of
     None \<Rightarrow> True
   | Some b \<Rightarrow> b \<noteq> [] \<and> (\<exists>m gray v texts t. env = Some m \<and> to_gray m img = Inr gray \<and>
       Inr v \<in> set (decode_variants (Some m) gray) \<and> t \<in> set texts \<and> b64decode t = Inr b \<and>
       ((\<exists>d. text_candidates (cv_detect m d v) = Inr texts) \<or> (\<exists>k. alt_detect m k v = Inr texts)))"
proof -
  have r: "fst (qr_decode_frame env (Some img) det initial_registry) = reads env det img"
    using decode_reads [OF flags_ok_initial, of env img det] by (auto simp: initial_registry)
  show ?thesis
  proof (cases "reads env det img")
    case (Some b)
    then obtain m gray where m: "env = Some m" "to_gray m img = Inr gray" "gray_reads m det gray = Inr (Some b)"
      by (auto simp: reads_def split: option.splits sum.splits)
    let ?d = "case det of None \<Rightarrow> cv_QRCodeDetector m | Some d \<Rightarrow> d"
    from m(3) consider
        "try_variants (\<lambda>v. text_candidates (cv_detect m ?d v)) (decode_variants (Some m) gray) = Inr (Some b)"
      | k where "try_variants (alt_detect m k) (decode_variants (Some m) gray) = Inr (Some b)"
      by (auto simp: gray_reads_def Let_def alt_reads_def split: sum.splits option.splits)
    then show ?thesis
    proof cases
      case 1
      from try_variants_sound [OF this] m(1,2) r Some show ?thesis by auto
    next
      case 2
      from try_variants_sound [OF this] m(1,2) r Some show ?thesis by simp blast
    qed
  qed (simp add: r)
qed

text \<open>
  An OpenCV error of an image operation, as opposed to one of the detector, ends the decode: the
  raw image was not readable and Otsu's threshold raises, so the frame is lost, although the
  alternate detector is there and may read the raw image; it is never asked.
\<close>

theorem preprocessing_error_aborts:
  assumes "cv_is_color m img = False"
    and "unreadable (text_candidates (cv_detect m (cv_QRCodeDetector m) img))"
    and "cv_threshold m img = Inl e"
  shows "fst (qr_decode_frame (Some m) (Some img) None initial_registry) = None"
proof -
  have "try_variants (\<lambda>u. text_candidates (cv_detect m (cv_QRCodeDetector m) u)) ([Inr img] @ [Inl e]) = Inl e"
    using assms(2) by (subst try_variants_skip) (simp_all add: skipped_def)
  then have "reads (Some m) None img = None"
    using assms(1,3) by (simp add: reads_def to_gray_def gray_reads_def decode_variants_def preprocessed_def)
  with decode_reads [OF flags_ok_initial, of "Some m" img None] show ?thesis by (auto simp: initial_registry)
qed

lemma preprocessing_error_aborts_witness:
  "let m = demo_cv2 (\<lambda>i. Inl Cv2Error) (\<lambda>i. Inr ([], False)) (b64encode [7]) in
   fst (qr_decode_frame (Some m) (Some [[0]]) None initial_registry) = None \<and>
   alt_detect m Aruco [[0]] = Inr [b64encode [7]]"
proof -
  let ?m = "demo_cv2 (\<lambda>i. Inl Cv2Error) (\<lambda>i. Inr ([], False)) (b64encode [7])"
  have "fst (qr_decode_frame (Some ?m) (Some [[0]]) None initial_registry) = None"
    by (rule preprocessing_error_aborts [of _ _ Cv2Error])
      (simp_all add: demo_cv2_def unreadable_def text_candidates_def)
  then show ?thesis by (simp add: demo_cv2_def alt_detect_def text_candidates_def Let_def)
qed

text \<open>
  The cached probes of the decoder are unobservable while the environment stands: in a sequence of
  calls each result is that of the cascade without caches, independent of the calls before it.
\<close>

theorem decode_is_stateless:
  "fst (decode_all env xs initial_registry) = map (\<lambda>(img, det). reads env det img) xs"
  using decode_all_reads [OF flags_ok_initial] by (simp add: initial_registry)

end
