(* ===== verification/Devices.thy ===== *)
theory Devices
  imports Qr_Encode
begin

text \<open>
  \<open>photontcp/optical/devices.py\<close>: the display and camera interfaces and the in-memory pair. An
  array object is its identity and its pixels; the queue between a display and its camera is
  beside both, as they share it.
\<close>

type_synonym array = "nat \<times> image"

text \<open>\<open>DisplaySink\<close>, \<open>CameraSource\<close> and the monotonic clock of the process, over a world of any type.
  A camera gives array objects, an identity with pixels of any representation.\<close>

record ('w, 'i) device_ops =
  dv_show :: "image \<Rightarrow> 'w \<Rightarrow> unit result \<times> 'w"
  dv_read :: "time \<Rightarrow> 'w \<Rightarrow> (nat \<times> 'i) option result \<times> 'w"
  dv_close_display :: "'w \<Rightarrow> 'w"
  dv_close_camera :: "'w \<Rightarrow> 'w"
  dv_monotonic :: "'w \<Rightarrow> time \<times> 'w"
  dv_sleep :: "time \<Rightarrow> 'w \<Rightarrow> 'w"

section \<open>The in-memory display and camera\<close>

record MemoryDisplay =
  md_closed :: bool

record MemoryCamera =
  mc_repeat_last :: bool
  mc_last :: "array option"
  mc_closed :: bool

definition MemoryDisplay_init :: MemoryDisplay where
  "MemoryDisplay_init = \<lparr>md_closed = False\<rparr>"

definition display_show :: "MemoryDisplay \<Rightarrow> array \<Rightarrow> array list \<Rightarrow> array list" where
  "display_show d img sink = (if md_closed d then sink else sink @ [img])"

definition display_close :: "MemoryDisplay \<Rightarrow> MemoryDisplay" where
  "display_close d = d\<lparr>md_closed := True\<rparr>"

definition MemoryCamera_init :: "bool \<Rightarrow> MemoryCamera" where
  "MemoryCamera_init repeat_last = \<lparr>mc_repeat_last = repeat_last, mc_last = None, mc_closed = False\<rparr>"

definition MIN_REPEAT_WAIT :: time where "MIN_REPEAT_WAIT = 1 / 1000"

text \<open>The wait of a \<open>read\<close>: \<open>None\<close> is the blocking \<open>get\<close> without a timeout.\<close>

definition camera_wait :: "MemoryCamera \<Rightarrow> time option \<Rightarrow> time option" where
  "camera_wait c timeout =
     (if timeout = None \<and> \<not> mc_repeat_last c then None
      else if mc_repeat_last c \<and> (timeout = None \<or> timeout = Some 0) then Some MIN_REPEAT_WAIT
      else Some (case timeout of None \<Rightarrow> 0 | Some t \<Rightarrow> t))"

text \<open>
  \<open>read\<close> when no frame arrives while it waits. A blocking \<open>get\<close> on the empty queue does not
  return (\<open>None\<close>); \<open>Queue.get\<close> raises for a negative timeout.
\<close>

definition camera_read ::
  "MemoryCamera \<Rightarrow> time option \<Rightarrow> array list \<Rightarrow> (array option result \<times> MemoryCamera \<times> array list) option" where
  "camera_read c timeout source =
     (if mc_closed c then Some (Inr None, c, source)
      else if (case camera_wait c timeout of None \<Rightarrow> False | Some t \<Rightarrow> t < 0) then Some (Inl ValueError, c, source)
      else
        (case source of
           img # rest \<Rightarrow> Some (Inr (Some img), c\<lparr>mc_last := Some img\<rparr>, rest)
         | [] \<Rightarrow>
             (case camera_wait c timeout of
                None \<Rightarrow> None
              | Some _ \<Rightarrow> Some (Inr (if mc_repeat_last c then mc_last c else None), c, []))))"

definition camera_close :: "MemoryCamera \<Rightarrow> MemoryCamera" where
  "camera_close c = c\<lparr>mc_closed := True\<rparr>"

section \<open>A one-way link\<close>

record MemLink =
  ml_queue :: "array list"
  ml_display :: MemoryDisplay
  ml_camera :: MemoryCamera

definition memory_device_pair :: "bool \<Rightarrow> MemLink" where
  "memory_device_pair repeat_last =
     \<lparr>ml_queue = [], ml_display = MemoryDisplay_init, ml_camera = MemoryCamera_init repeat_last\<rparr>"

definition link_show :: "array \<Rightarrow> MemLink \<Rightarrow> MemLink" where
  "link_show img l = l\<lparr>ml_queue := display_show (ml_display l) img (ml_queue l)\<rparr>"

text \<open>With a timeout \<open>camera_read\<close> always returns.\<close>

definition link_read :: "time \<Rightarrow> MemLink \<Rightarrow> array option result \<times> MemLink" where
  "link_read t l =
     (case camera_read (ml_camera l) (Some t) (ml_queue l) of
        None \<Rightarrow> (Inr None, l)
      | Some (r, c, q) \<Rightarrow> (r, l\<lparr>ml_camera := c, ml_queue := q\<rparr>))"

lemma camera_read_returns: "camera_read c (Some t) q \<noteq> None"
  by (auto simp: camera_read_def camera_wait_def split: list.split option.split)

lemma link_read_cases:
  assumes "\<not> mc_closed (ml_camera l)" and "0 < t"
  shows "link_read t l =
    (case ml_queue l of
       [] \<Rightarrow> (Inr (if mc_repeat_last (ml_camera l) then mc_last (ml_camera l) else None), l)
     | img # rest \<Rightarrow>
         (Inr (Some img), l\<lparr>ml_camera := (ml_camera l)\<lparr>mc_last := Some img\<rparr>, ml_queue := rest\<rparr>))"
  using assms by (cases l) (auto simp: link_read_def camera_read_def camera_wait_def split: list.split)

end
