(* ===== verification/Optical.thy ===== *)
theory Optical
  imports Devices Channel
begin

text \<open>
  \<open>photontcp/optical/channel.py\<close>: a channel over a display and a camera. The capture thread is a
  value, \<open>CaptureThread\<close>, and one iteration of its loop is the step \<open>capture_step\<close>; the calls of
  the other threads come between iterations in any order. \<open>decode\<close> is \<open>decode_frame\<close> with the
  channel's detector, a function since its caches are unobservable (\<open>decode_is_stateless\<close>).
\<close>

definition NONCE_BYTES :: nat where "NONCE_BYTES = 2"
definition DEDUP_DEPTH :: nat where "DEDUP_DEPTH = 8"
definition MIN_POLL_INTERVAL :: time where "MIN_POLL_INTERVAL = 1 / 1000"

section \<open>State\<close>

text \<open>The variables of the capture loop: the identity of the last array, the window and its mirror.\<close>

record CaptureLocals =
  cl_last_decoded :: "nat option"
  cl_recent :: "bytes list"
  cl_recent_set :: "bytes set"

definition capture_start :: CaptureLocals where
  "capture_start = \<lparr>cl_last_decoded = None, cl_recent = [], cl_recent_set = {}\<rparr>"

text \<open>\<open>Ended\<close>: the loop was left by \<open>close\<close> or by an exception of the camera.\<close>

datatype CaptureThread = NotStarted | Running CaptureLocals | Ended

record OpticalChannel =
  oc_scale :: int
  oc_border :: int
  oc_error :: string
  oc_poll_interval :: time
  oc_hold :: time
  oc_last_show :: "time option"
  oc_send_nonce :: int
  oc_inbox :: "bytes list"
  oc_closed :: bool
  oc_thread :: CaptureThread

definition OpticalChannel_init :: "int \<Rightarrow> int \<Rightarrow> string \<Rightarrow> time \<Rightarrow> time \<Rightarrow> OpticalChannel" where
  "OpticalChannel_init scale border error poll_interval hold =
     \<lparr>oc_scale = scale, oc_border = border, oc_error = error,
      oc_poll_interval = max poll_interval MIN_POLL_INTERVAL, oc_hold = max hold 0,
      oc_last_show = None, oc_send_nonce = 0, oc_inbox = [], oc_closed = False, oc_thread = NotStarted\<rparr>"

section \<open>Operations\<close>

definition optical_start :: "OpticalChannel \<Rightarrow> OpticalChannel" where
  "optical_start ch =
     (if oc_closed ch then ch
      else if oc_thread ch \<noteq> NotStarted then ch
      else ch\<lparr>oc_thread := Running capture_start\<rparr>)"

definition pace :: "('w, 'i) device_ops \<Rightarrow> OpticalChannel \<Rightarrow> 'w \<Rightarrow> 'w" where
  "pace dev ch w =
     (case oc_last_show ch of
        None \<Rightarrow> w
      | Some last_show \<Rightarrow>
          if 0 < oc_hold ch then
            (let (t, w1) = dv_monotonic dev w; elapsed = t - last_show
             in if elapsed < oc_hold ch then dv_sleep dev (oc_hold ch - elapsed) w1 else w1)
          else w)"

definition channel_frame :: "OpticalChannel \<Rightarrow> bytes \<Rightarrow> bytes" where
  "channel_frame ch frame = be_encode NONCE_BYTES (oc_send_nonce ch) @ frame"

definition optical_send ::
  "qr_maker \<Rightarrow> ('w, 'i) device_ops \<Rightarrow> OpticalChannel \<Rightarrow> bytes \<Rightarrow> 'w \<Rightarrow> unit result \<times> OpticalChannel \<times> 'w" where
  "optical_send segno dev ch frame w =
     (if oc_closed ch then (Inr (), ch, w)
      else
        (case qr_encode_frame segno (channel_frame ch frame) (oc_scale ch) (oc_border ch) (oc_error ch) of
           Inl e \<Rightarrow> (Inl e, ch, w)
         | Inr img \<Rightarrow>
             (case dv_show dev img (pace dev ch w) of
                (Inl e, w1) \<Rightarrow> (Inl e, ch, w1)
              | (Inr _, w1) \<Rightarrow>
                  (let (shown, w2) = (if 0 < oc_hold ch then (let (t, w2) = dv_monotonic dev w1 in (Some t, w2))
                        else (oc_last_show ch, w1))
                   in (Inr (), ch\<lparr>oc_last_show := shown,
                         oc_send_nonce := (oc_send_nonce ch + 1) mod 256 ^ NONCE_BYTES\<rparr>, w2)))))"

text \<open>A poll, as for the loopback channel: the call starts the capture thread and takes what the inbox has.\<close>

definition optical_recv :: "OpticalChannel \<Rightarrow> bytes option \<times> OpticalChannel" where
  "optical_recv ch =
     (if oc_closed ch then (None, ch)
      else
        (let ch1 = optical_start ch in
         case oc_inbox ch1 of [] \<Rightarrow> (None, ch1) | f # rest \<Rightarrow> (Some f, ch1\<lparr>oc_inbox := rest\<rparr>)))"

text \<open>Recording a delivered frame in the deque of depth \<open>DEDUP_DEPTH\<close> and in the set beside it.\<close>

definition remember :: "bytes \<Rightarrow> CaptureLocals \<Rightarrow> CaptureLocals" where
  "remember f cl =
     (let full = (length (cl_recent cl) = DEDUP_DEPTH);
          kept = (if full then cl_recent_set cl - {hd (cl_recent cl)} else cl_recent_set cl)
      in cl\<lparr>cl_recent := (if full then tl (cl_recent cl) else cl_recent cl) @ [f], cl_recent_set := insert f kept\<rparr>)"

text \<open>What the loop does with an image: the payload it delivers, if any.\<close>

definition capture_image ::
  "('i \<Rightarrow> bytes option) \<Rightarrow> nat \<times> 'i \<Rightarrow> CaptureLocals \<Rightarrow> bytes option \<times> CaptureLocals" where
  "capture_image decode img cl =
     (if cl_last_decoded cl = Some (fst img) then (None, cl)
      else
        (let cl1 = cl\<lparr>cl_last_decoded := Some (fst img)\<rparr> in
         case decode (snd img) of
           None \<Rightarrow> (None, cl1)
         | Some f \<Rightarrow>
             if length f < NONCE_BYTES then (None, cl1)
             else if f \<in> cl_recent_set cl1 then (None, cl1)
             else (Some (drop NONCE_BYTES f), remember f cl1)))"

definition capture_step ::
  "('i \<Rightarrow> bytes option) \<Rightarrow> ('w, 'i) device_ops \<Rightarrow> OpticalChannel \<Rightarrow> 'w \<Rightarrow> OpticalChannel \<times> 'w" where
  "capture_step decode dev ch w =
     (case oc_thread ch of
        Running cl \<Rightarrow>
          if oc_closed ch then (ch\<lparr>oc_thread := Ended\<rparr>, w)
          else
            (case dv_read dev (oc_poll_interval ch) w of
               (Inl e, w1) \<Rightarrow> (ch\<lparr>oc_thread := Ended\<rparr>, w1)
             | (Inr None, w1) \<Rightarrow> (ch, w1)
             | (Inr (Some img), w1) \<Rightarrow>
                 (let (payload, cl1) = capture_image decode img cl
                  in (ch\<lparr>oc_thread := Running cl1, oc_inbox := oc_inbox ch @ opt_list payload\<rparr>, w1)))
      | _ \<Rightarrow> (ch, w))"

text \<open>\<open>close\<close>: the flag is set, the thread joined (it ends at its next check), the devices closed.\<close>

definition optical_close :: "('w, 'i) device_ops \<Rightarrow> OpticalChannel \<Rightarrow> 'w \<Rightarrow> OpticalChannel \<times> 'w" where
  "optical_close dev ch w =
     (ch\<lparr>oc_closed := True, oc_thread := (case oc_thread ch of NotStarted \<Rightarrow> NotStarted | _ \<Rightarrow> Ended)\<rparr>,
      dv_close_camera dev (dv_close_display dev w))"

section \<open>The in-memory pair\<close>

record Bench =
  bn_ab :: MemLink
  bn_ba :: MemLink
  bn_fresh :: nat
  bn_clock :: time

definition bench_ops ::
  "(Bench \<Rightarrow> MemLink) \<Rightarrow> (MemLink \<Rightarrow> Bench \<Rightarrow> Bench) \<Rightarrow> (Bench \<Rightarrow> MemLink) \<Rightarrow> (MemLink \<Rightarrow> Bench \<Rightarrow> Bench)
    \<Rightarrow> (Bench, image) device_ops" where
  "bench_ops out set_out inn set_inn =
     \<lparr>dv_show = (\<lambda>img w. (Inr (), set_out (link_show (bn_fresh w, img) (out w)) (w\<lparr>bn_fresh := Suc (bn_fresh w)\<rparr>))),
      dv_read = (\<lambda>t w. let (r, l) = link_read t (inn w) in (r, set_inn l w)),
      dv_close_display = (\<lambda>w. set_out ((out w)\<lparr>ml_display := display_close (ml_display (out w))\<rparr>) w),
      dv_close_camera = (\<lambda>w. set_inn ((inn w)\<lparr>ml_camera := camera_close (ml_camera (inn w))\<rparr>) w),
      dv_monotonic = (\<lambda>w. (bn_clock w, w)),
      dv_sleep = (\<lambda>t w. w\<lparr>bn_clock := bn_clock w + t\<rparr>)\<rparr>"

definition devices_a :: "(Bench, image) device_ops" where
  "devices_a = bench_ops bn_ab (\<lambda>l w. w\<lparr>bn_ab := l\<rparr>) bn_ba (\<lambda>l w. w\<lparr>bn_ba := l\<rparr>)"

definition devices_b :: "(Bench, image) device_ops" where
  "devices_b = bench_ops bn_ba (\<lambda>l w. w\<lparr>bn_ba := l\<rparr>) bn_ab (\<lambda>l w. w\<lparr>bn_ab := l\<rparr>)"

record OpticalPair =
  op_a :: OpticalChannel
  op_b :: OpticalChannel
  op_bench :: Bench

definition optical_pair :: "bool \<Rightarrow> int \<Rightarrow> int \<Rightarrow> string \<Rightarrow> time \<Rightarrow> time \<Rightarrow> OpticalPair" where
  "optical_pair repeat_last scale border error poll_interval hold =
     (let ch = OpticalChannel_init scale border error poll_interval hold
      in \<lparr>op_a = ch, op_b = ch,
          op_bench = \<lparr>bn_ab = memory_device_pair repeat_last, bn_ba = memory_device_pair repeat_last,
            bn_fresh = 0, bn_clock = 0\<rparr>\<rparr>)"

definition pair_send_a :: "qr_maker \<Rightarrow> OpticalPair \<Rightarrow> bytes \<Rightarrow> unit result \<times> OpticalPair" where
  "pair_send_a segno p f =
     (let (r, ch, w) = optical_send segno devices_a (op_a p) f (op_bench p)
      in (r, p\<lparr>op_a := ch, op_bench := w\<rparr>))"

definition pair_send_b :: "qr_maker \<Rightarrow> OpticalPair \<Rightarrow> bytes \<Rightarrow> unit result \<times> OpticalPair" where
  "pair_send_b segno p f =
     (let (r, ch, w) = optical_send segno devices_b (op_b p) f (op_bench p)
      in (r, p\<lparr>op_b := ch, op_bench := w\<rparr>))"

definition pair_capture_a :: "(image \<Rightarrow> bytes option) \<Rightarrow> OpticalPair \<Rightarrow> OpticalPair" where
  "pair_capture_a decode p =
     (let (ch, w) = capture_step decode devices_a (op_a p) (op_bench p) in p\<lparr>op_a := ch, op_bench := w\<rparr>)"

definition pair_capture_b :: "(image \<Rightarrow> bytes option) \<Rightarrow> OpticalPair \<Rightarrow> OpticalPair" where
  "pair_capture_b decode p =
     (let (ch, w) = capture_step decode devices_b (op_b p) (op_bench p) in p\<lparr>op_b := ch, op_bench := w\<rparr>)"

definition pair_recv_a :: "OpticalPair \<Rightarrow> bytes option \<times> OpticalPair" where
  "pair_recv_a p = (let (r, ch) = optical_recv (op_a p) in (r, p\<lparr>op_a := ch\<rparr>))"

definition pair_recv_b :: "OpticalPair \<Rightarrow> bytes option \<times> OpticalPair" where
  "pair_recv_b p = (let (r, ch) = optical_recv (op_b p) in (r, p\<lparr>op_b := ch\<rparr>))"

end
