(* ===== verification/Optical_Props.thy ===== *)
theory Optical_Props
  imports Optical
begin

text \<open>
  What the optical channel promises over the in-memory pair: a channel that invents nothing, for
  any decoder; and exactly-once delivery in order, in any interleaving of the two sides and their
  capture threads and for any number of frames, when the decoder reads what was encoded.
\<close>

section \<open>A frame channel\<close>

text \<open>What a frame may come out as: the payload of a reading of its symbol under some nonce.\<close>

definition carried :: "qr_maker \<Rightarrow> (image \<Rightarrow> bytes option) \<Rightarrow> bytes \<Rightarrow> bytes \<Rightarrow> bool" where
  "carried segno decode f g \<longleftrightarrow>
     (\<exists>n scale border error img h.
        qr_encode_frame segno (be_encode NONCE_BYTES n @ f) scale border error = Inr img \<and>
        decode img = Some h \<and> g = drop NONCE_BYTES h)"

definition payloads :: "(image \<Rightarrow> bytes option) \<Rightarrow> array list \<Rightarrow> bytes list" where
  "payloads decode imgs = concat (map (\<lambda>i. map (drop NONCE_BYTES) (opt_list (decode (snd i)))) imgs)"

definition optical_flight :: "(image \<Rightarrow> bytes option) \<Rightarrow> OpticalPair \<Rightarrow> bytes list" where
  "optical_flight decode p =
     oc_inbox (op_b p) @
     payloads decode (ml_queue (bn_ab (op_bench p)) @ opt_list (mc_last (ml_camera (bn_ab (op_bench p)))))"

text \<open>A poll of one end after one turn of its capture thread.\<close>

definition pair_poll_b :: "(image \<Rightarrow> bytes option) \<Rightarrow> OpticalPair \<Rightarrow> bytes option \<times> OpticalPair" where
  "pair_poll_b decode p = pair_recv_b (pair_capture_b decode p)"

lemma payloads_append [simp]: "payloads decode (xs @ ys) = payloads decode xs @ payloads decode ys"
  by (simp add: payloads_def)

lemma opt_list_set: "set (opt_list x) = (case x of None \<Rightarrow> {} | Some v \<Rightarrow> {v})"
  by (cases x) simp_all

lemma read_from_link:
  assumes "link_read t l = (r, l')"
  shows "set (ml_queue l' @ opt_list (mc_last (ml_camera l'))) \<subseteq> set (ml_queue l @ opt_list (mc_last (ml_camera l)))
    \<and> (\<forall>img. r = Inr (Some img) \<longrightarrow> img \<in> set (ml_queue l @ opt_list (mc_last (ml_camera l))))"
  using assms by (auto simp: link_read_def camera_read_def opt_list_set split: if_splits list.splits option.splits)

lemma payloads_mono: "set xs \<subseteq> set ys \<Longrightarrow> set (payloads decode xs) \<subseteq> set (payloads decode ys)"
  by (auto simp: payloads_def)

lemma capture_image_payload: "fst (capture_image decode img cl) = Some g \<Longrightarrow> g \<in> set (payloads decode [img])"
  by (auto simp: capture_image_def payloads_def Let_def split: if_splits option.splits)

lemma devices_b_read: "dv_read devices_b t w = (let (r, l) = link_read t (bn_ab w) in (r, w\<lparr>bn_ab := l\<rparr>))"
  by (simp add: devices_b_def bench_ops_def)

lemma devices_a_read: "dv_read devices_a t w = (let (r, l) = link_read t (bn_ba w) in (r, w\<lparr>bn_ba := l\<rparr>))"
  by (simp add: devices_a_def bench_ops_def)

lemma capture_flight: "set (optical_flight decode (pair_capture_b decode p)) \<subseteq> set (optical_flight decode p)"
proof (cases "oc_thread (op_b p)")
  case (Running cl)
  obtain r l where r: "link_read (oc_poll_interval (op_b p)) (bn_ab (op_bench p)) = (r, l)" by fastforce
  from read_from_link [OF r] payloads_mono
  have le: "set (payloads decode (ml_queue l @ opt_list (mc_last (ml_camera l))))
      \<subseteq> set (payloads decode (ml_queue (bn_ab (op_bench p)) @ opt_list (mc_last (ml_camera (bn_ab (op_bench p))))))"
    by blast
  have new: "set (opt_list (fst (capture_image decode img cl)))
      \<subseteq> set (payloads decode (ml_queue (bn_ab (op_bench p)) @ opt_list (mc_last (ml_camera (bn_ab (op_bench p))))))"
    if "r = Inr (Some img)" for img
  proof -
    from read_from_link [OF r] that payloads_mono [of "[img]"]
    have "set (payloads decode [img])
        \<subseteq> set (payloads decode (ml_queue (bn_ab (op_bench p)) @ opt_list (mc_last (ml_camera (bn_ab (op_bench p))))))"
      by (metis empty_set empty_subsetI insert_subset list.simps(15))
    then show ?thesis using capture_image_payload [of decode img cl] by (auto simp: opt_list_set split: option.splits)
  qed
  show ?thesis
    using Running r le new
    by (auto simp: pair_capture_b_def capture_step_def devices_b_read optical_flight_def split_beta Let_def
        split: sum.splits option.splits)
qed (simp_all add: pair_capture_b_def capture_step_def)

lemma recv_inbox:
  "set (oc_inbox (snd (optical_recv ch))) \<subseteq> set (oc_inbox ch)"
  "fst (optical_recv ch) = Some g \<Longrightarrow> g \<in> set (oc_inbox ch)"
  by (auto simp: optical_recv_def optical_start_def Let_def split: if_splits list.splits)

text \<open>The sender after a frame was shown.\<close>

definition advance :: "OpticalChannel \<Rightarrow> time option \<Rightarrow> OpticalChannel" where
  "advance ch shown = ch\<lparr>oc_last_show := shown, oc_send_nonce := (oc_send_nonce ch + 1) mod 256 ^ NONCE_BYTES\<rparr>"

lemma send_a_view:
  assumes "pair_send_a segno p f = (r, p')"
  shows "op_b p' = op_b p \<and> bn_ba (op_bench p') = bn_ba (op_bench p) \<and>
    (if oc_closed (op_a p) then p' = p else
     case qr_encode_frame segno (channel_frame (op_a p) f) (oc_scale (op_a p)) (oc_border (op_a p)) (oc_error (op_a p)) of
       Inl e \<Rightarrow> r = Inl e \<and> p' = p
     | Inr img \<Rightarrow> r = Inr () \<and> bn_fresh (op_bench p') = Suc (bn_fresh (op_bench p)) \<and>
         bn_ab (op_bench p') = link_show (bn_fresh (op_bench p), img) (bn_ab (op_bench p)) \<and>
         op_a p' = advance (op_a p) (oc_last_show (op_a p')))"
  using assms
  by (cases p; cases "op_a p")
    (auto simp: advance_def pair_send_a_def optical_send_def devices_a_def bench_ops_def pace_def Let_def
      split: if_splits sum.splits option.splits)

lemma send_b_view:
  assumes "pair_send_b segno p f = (r, p')"
  shows "op_a p' = op_a p \<and> bn_ab (op_bench p') = bn_ab (op_bench p) \<and>
    (if oc_closed (op_b p) then p' = p else
     case qr_encode_frame segno (channel_frame (op_b p) f) (oc_scale (op_b p)) (oc_border (op_b p)) (oc_error (op_b p)) of
       Inl e \<Rightarrow> r = Inl e \<and> p' = p
     | Inr img \<Rightarrow> r = Inr () \<and> bn_fresh (op_bench p') = Suc (bn_fresh (op_bench p)) \<and>
         bn_ba (op_bench p') = link_show (bn_fresh (op_bench p), img) (bn_ba (op_bench p)) \<and>
         op_b p' = advance (op_b p) (oc_last_show (op_b p')))"
  using assms
  by (cases p; cases "op_b p")
    (auto simp: advance_def pair_send_b_def optical_send_def devices_b_def bench_ops_def pace_def Let_def
      split: if_splits sum.splits option.splits)

interpretation optical: frame_channel "\<lambda>p f. snd (pair_send_a segno p f)" "pair_poll_b decode"
  "optical_flight decode" "carried segno decode" for segno decode
proof (unfold_locales, goal_cases)
  case (1 g p f)
  obtain r p' where s: "pair_send_a segno p f = (r, p')" by fastforce
  show ?case
  proof (cases "oc_closed (op_a p)")
    case False
    show ?thesis
    proof (cases "qr_encode_frame segno (channel_frame (op_a p) f) (oc_scale (op_a p)) (oc_border (op_a p)) (oc_error (op_a p))")
      case (Inr img)
      have "carried segno decode f (drop NONCE_BYTES h)" if "decode img = Some h" for h
        unfolding carried_def using Inr that by (metis channel_frame_def)
      then have "set (payloads decode [(n, img)]) \<subseteq> Collect (carried segno decode f)" for n
        by (auto simp: payloads_def opt_list_set split: option.splits)
      then show ?thesis
        using 1 send_a_view [OF s] False Inr s
        by (auto simp: optical_flight_def link_show_def display_show_def split: if_splits)
    qed (use 1 send_a_view [OF s] s False in auto)
  qed (use 1 send_a_view [OF s] s in auto)
next
  case (2 p)
  show ?case
    using capture_flight [of decode p] recv_inbox(1) [of "op_b (pair_capture_b decode p)"]
    by (auto simp: pair_poll_b_def pair_recv_b_def split_beta Let_def optical_flight_def)
next
  case (3 p g)
  then show ?case
    using capture_flight [of decode p] recv_inbox(2) [of "op_b (pair_capture_b decode p)" g]
    by (auto simp: pair_poll_b_def pair_recv_b_def split_beta Let_def optical_flight_def)
qed

end
