(* ===== verification/Optical_Pair.thy ===== *)
theory Optical_Pair
  imports Optical_Props Qr_Props
begin

text \<open>
  The in-memory pair with a decoder that reads what was encoded: exactly-once delivery in order.
  The invariant of one direction relates the sender's nonce, the images on the link, the camera's
  last image, the window of the capture loop and the inbox to the list of frames shown.
\<close>

section \<open>One direction\<close>

definition locals_of :: "OpticalChannel \<Rightarrow> CaptureLocals" where
  "locals_of ch = (case oc_thread ch of Running cl \<Rightarrow> cl | _ \<Rightarrow> capture_start)"

definition encodes :: "qr_maker \<Rightarrow> OpticalChannel \<Rightarrow> bytes \<Rightarrow> image \<Rightarrow> bool" where
  "encodes segno ch f img \<longleftrightarrow> qr_encode_frame segno f (oc_scale ch) (oc_border ch) (oc_error ch) = Inr img"

text \<open>The decoder reads every frame the channel can encode. (The empty frame is never on a channel: the nonce is two bytes.)\<close>

definition reads_back :: "qr_maker \<Rightarrow> (image \<Rightarrow> bytes option) \<Rightarrow> OpticalChannel \<Rightarrow> bool" where
  "reads_back segno decode ch \<longleftrightarrow> (\<forall>f img. f \<noteq> [] \<longrightarrow> encodes segno ch f img \<longrightarrow> decode img = Some f)"

definition sender_ok :: "OpticalChannel \<Rightarrow> bytes list \<Rightarrow> bool" where
  "sender_ok ch C \<longleftrightarrow>
     \<not> oc_closed ch \<and> oc_send_nonce ch = int (length C) mod 65536 \<and>
     (\<forall>i<length C. \<exists>f. C ! i = be_encode 2 (int i mod 65536) @ f)"

definition window_ok :: "CaptureLocals \<Rightarrow> bytes list \<Rightarrow> bool" where
  "window_ok cl D \<longleftrightarrow>
     cl_recent cl = drop (length D - DEDUP_DEPTH) D \<and> cl_recent_set cl = set (cl_recent cl) \<and>
     distinct (cl_recent cl)"

definition images_ok :: "qr_maker \<Rightarrow> OpticalChannel \<Rightarrow> bytes list \<Rightarrow> array list \<Rightarrow> bool" where
  "images_ok segno ch fs q \<longleftrightarrow> list_all2 (\<lambda>f i. encodes segno ch f (snd i)) fs q"

definition link_ids :: "MemLink \<Rightarrow> nat list" where
  "link_ids l = map fst (opt_list (mc_last (ml_camera l)) @ ml_queue l)"

definition receiver_ok :: "OpticalChannel \<Rightarrow> bool" where
  "receiver_ok ch \<longleftrightarrow> \<not> oc_closed ch \<and> oc_thread ch \<noteq> Ended \<and> 0 < oc_poll_interval ch"

text \<open>\<open>C\<close> are the frames shown, \<open>got\<close> the payloads received; the first \<open>k\<close> frames have been captured.\<close>

definition link_ok ::
  "qr_maker \<Rightarrow> OpticalChannel \<Rightarrow> MemLink \<Rightarrow> OpticalChannel \<Rightarrow> nat \<Rightarrow> bytes list \<Rightarrow> bytes list \<Rightarrow> bool" where
  "link_ok segno snd_ch l rcv fresh C got \<longleftrightarrow>
     (let k = length got + length (oc_inbox rcv) in
      sender_ok snd_ch C \<and> receiver_ok rcv \<and>
      \<not> md_closed (ml_display l) \<and> \<not> mc_closed (ml_camera l) \<and>
      k \<le> length C \<and> got @ oc_inbox rcv = map (drop NONCE_BYTES) (take k C) \<and>
      images_ok segno snd_ch (drop k C) (ml_queue l) \<and>
      cl_last_decoded (locals_of rcv) = map_option fst (mc_last (ml_camera l)) \<and>
      sorted_wrt (<) (link_ids l) \<and> list_all (\<lambda>i. i < fresh) (link_ids l) \<and>
      window_ok (locals_of rcv) (take k C))"

text \<open>Nonces: within a window of eight frames no frame repeats, whatever the payloads.\<close>

lemma nonce_inj:
  assumes "be_encode 2 (int i mod 65536) @ f = be_encode 2 (int j mod 65536) @ g"
  shows "i mod 65536 = j mod 65536"
proof -
  have f: "fits 2 (int n mod 65536)" for n by (simp add: fits_def)
  have "a = b" if "length a = length b" "a @ f = b @ g" for a b :: bytes using that by simp
  from this [OF _ assms] have "be_encode 2 (int i mod 65536) = be_encode 2 (int j mod 65536)"
    by (simp only: length_be_encode)
  then have "be_decode (be_encode 2 (int i mod 65536)) = be_decode (be_encode 2 (int j mod 65536))"
    by (rule arg_cong)
  then have "int i mod 65536 = int j mod 65536" unfolding be_decode_encode [OF f] .
  then have "int (i mod 65536) = int (j mod 65536)" by (simp only: zmod_int of_nat_numeral)
  then show ?thesis by (simp only: of_nat_eq_iff)
qed

lemma fresh_in_window:
  assumes "sender_ok ch C" and "k < length C" and "window_ok cl (take k C)"
  shows "C ! k \<notin> cl_recent_set cl"
proof
  assume "C ! k \<in> cl_recent_set cl"
  with assms(2,3) have "C ! k \<in> set (drop (k - 8) (take k C))"
    by (simp add: window_ok_def DEDUP_DEPTH_def min_def)
  then obtain j where j: "j < k - (k - 8)" "C ! k = C ! (k - 8 + j)"
    using assms(2) by (auto simp: in_set_conv_nth)
  let ?i = "k - 8 + j"
  have i: "?i < k" "k < ?i + 9" using j(1) by linarith+
  from assms(1,2) i obtain f g where "C ! ?i = be_encode 2 (int ?i mod 65536) @ f" "C ! k = be_encode 2 (int k mod 65536) @ g"
    unfolding sender_ok_def by (meson less_trans)
  with j(2) nonce_inj [of ?i f k g] have "?i mod 65536 = k mod 65536" by simp
  moreover from i have "0 < k - ?i" "k - ?i < 65536" by linarith+
  ultimately show False
    using mod_eq_dvd_iff_nat [of ?i k 65536] i by (auto dest: nat_dvd_not_less)
qed

lemma window_last [simp]: "window_ok (cl\<lparr>cl_last_decoded := x\<rparr>) D = window_ok cl D"
  by (simp add: window_ok_def)

lemma window_remember:
  assumes "window_ok cl D" and "f \<notin> cl_recent_set cl"
  shows "window_ok (remember f cl) (D @ [f])"
proof -
  let ?n = "length D"
  have r: "cl_recent cl = drop (?n - 8) D" "cl_recent_set cl = set (cl_recent cl)" "distinct (cl_recent cl)"
    using assms(1) unfolding window_ok_def DEDUP_DEPTH_def by blast+
  show ?thesis
  proof (cases "8 \<le> ?n")
    case True
    then have full: "length (cl_recent cl) = 8" using r(1) by simp
    then obtain x xs where c: "cl_recent cl = x # xs" by (cases "cl_recent cl") simp_all
    have "xs = drop (Suc ?n - 8) D"
      using c r(1) True by (metis Suc_diff_le drop_Suc list.sel(3) tl_drop)
    with full c r(2,3) assms(2) True show ?thesis
      by (auto simp: window_ok_def remember_def DEDUP_DEPTH_def)
  next
    case False
    then have "length (cl_recent cl) \<noteq> 8" using r(1) by simp
    with False r assms(2) show ?thesis by (simp add: window_ok_def remember_def DEDUP_DEPTH_def)
  qed
qed

section \<open>The steps keep the invariant\<close>

lemma encodes_advance [simp]: "encodes segno (advance ch x) f img = encodes segno ch f img"
  by (simp add: encodes_def advance_def)

lemma images_advance [simp]: "images_ok segno (advance ch x) fs q = images_ok segno ch fs q"
  by (simp add: images_ok_def)

lemma sender_advance:
  assumes "sender_ok ch C"
  shows "sender_ok (advance ch x) (C @ [channel_frame ch f])"
proof -
  have n: "oc_send_nonce ch = int (length C) mod 65536" using assms by (simp add: sender_ok_def)
  have "\<exists>g. (C @ [channel_frame ch f]) ! i = be_encode 2 (int i mod 65536) @ g" if "i < Suc (length C)" for i
  proof (cases "i < length C")
    case True
    with assms show ?thesis by (simp add: sender_ok_def nth_append)
  next
    case False
    with that have "i = length C" by simp
    then show ?thesis by (simp add: channel_frame_def NONCE_BYTES_def n)
  qed
  moreover have "(oc_send_nonce ch + 1) mod 65536 = int (length (C @ [channel_frame ch f])) mod 65536"
    unfolding n by (simp add: mod_add_right_eq add.commute)
  ultimately show ?thesis using assms by (simp add: sender_ok_def advance_def NONCE_BYTES_def)
qed

lemma link_show_ok:
  assumes "link_ok segno s l r n C got" and "encodes segno s (channel_frame s f) img"
  shows "link_ok segno (advance s x) (link_show (n, img) l) r (Suc n) (C @ [channel_frame s f]) got"
proof -
  let ?k = "length got + length (oc_inbox r)"
  from assms(1) have k: "?k \<le> length C" and s: "sender_ok s C" and open_d: "\<not> md_closed (ml_display l)"
    and q: "images_ok segno s (drop ?k C) (ml_queue l)"
    and ids: "sorted_wrt (<) (link_ids l)" "list_all (\<lambda>i. i < n) (link_ids l)"
    by (simp_all add: link_ok_def Let_def)
  have l': "ml_queue (link_show (n, img) l) = ml_queue l @ [(n, img)]" "ml_camera (link_show (n, img) l) = ml_camera l"
    "ml_display (link_show (n, img) l) = ml_display l"
    using open_d by (simp_all add: link_show_def display_show_def)
  have "link_ids (link_show (n, img) l) = link_ids l @ [n]" by (simp add: link_ids_def l')
  then have "sorted_wrt (<) (link_ids (link_show (n, img) l))"
    and "list_all (\<lambda>i. i < Suc n) (link_ids (link_show (n, img) l))"
    using ids by (auto simp: sorted_wrt_append list_all_iff less_Suc_eq)
  moreover have "images_ok segno s (drop ?k (C @ [channel_frame s f])) (ml_queue l @ [(n, img)])"
    using q k assms(2) by (simp add: images_ok_def list_all2_appendI)
  moreover note sender_advance [OF s, of x f]
  ultimately show ?thesis using assms(1) k l' by (simp add: link_ok_def Let_def)
qed

lemma link_recv_ok:
  assumes "link_ok segno s l r n C got" and "optical_recv r = (x, r')"
  shows "link_ok segno s l r' n C (got @ opt_list x)"
proof -
  have "receiver_ok r" using assms(1) by (simp add: link_ok_def Let_def)
  then have r: "\<not> oc_closed r" "oc_thread r \<noteq> Ended" by (simp_all add: receiver_ok_def)
  have st: "locals_of (optical_start r) = locals_of r" "oc_inbox (optical_start r) = oc_inbox r"
    "receiver_ok (optical_start r)"
    using \<open>receiver_ok r\<close> r by (auto simp: optical_start_def locals_of_def receiver_ok_def split: CaptureThread.split)
  show ?thesis
  proof (cases "oc_inbox r")
    case Nil
    with assms(2) r st have "x = None" "r' = optical_start r" by (simp_all add: optical_recv_def)
    with assms(1) st show ?thesis by (simp add: link_ok_def Let_def)
  next
    case (Cons f rest)
    with assms(2) r st have "x = Some f" "r' = (optical_start r)\<lparr>oc_inbox := rest\<rparr>" by (simp_all add: optical_recv_def)
    moreover from this st have "locals_of r' = locals_of r" "receiver_ok r'"
      by (simp_all add: locals_of_def receiver_ok_def)
    ultimately show ?thesis using assms(1) Cons by (simp add: link_ok_def Let_def)
  qed
qed

text \<open>A turn of the capture thread takes the next image, or does nothing.\<close>

definition captured :: "(image \<Rightarrow> bytes option) \<Rightarrow> OpticalChannel \<Rightarrow> MemLink \<Rightarrow> OpticalChannel \<times> MemLink" where
  "captured decode r l =
     (case oc_thread r of
        Running cl \<Rightarrow>
          (case ml_queue l of
             [] \<Rightarrow> (r, l)
           | img # rest \<Rightarrow>
               (let (payload, cl1) = capture_image decode img cl
                in (r\<lparr>oc_thread := Running cl1, oc_inbox := oc_inbox r @ opt_list payload\<rparr>,
                    l\<lparr>ml_camera := (ml_camera l)\<lparr>mc_last := Some img\<rparr>, ml_queue := rest\<rparr>)))
      | _ \<Rightarrow> (r, l))"

lemma captured_ok:
  assumes "link_ok segno s l r n C got" and "reads_back segno decode s"
    and "captured decode r l = (r', l')"
  shows "link_ok segno s l' r' n C got \<and>
    (oc_thread r \<noteq> NotStarted \<longrightarrow> length (ml_queue l') = length (ml_queue l) - 1)"
proof (cases "oc_thread r")
  case (Running cl)
  show ?thesis
  proof (cases "ml_queue l")
    case Nil
    with Running assms show ?thesis by (simp add: captured_def)
  next
    case (Cons img rest)
    let ?k = "length got + length (oc_inbox r)"
    from assms(1) Running Cons have k: "?k \<le> length C" and s: "sender_ok s C"
      and q: "images_ok segno s (drop ?k C) (img # rest)"
      and last_id: "cl_last_decoded cl = map_option fst (mc_last (ml_camera l))"
      and ids: "sorted_wrt (<) (link_ids l)" "list_all (\<lambda>i. i < n) (link_ids l)"
      and w: "window_ok cl (take ?k C)" and g: "got @ oc_inbox r = map (drop NONCE_BYTES) (take ?k C)"
      by (simp_all add: link_ok_def Let_def locals_of_def)
    from q have "drop ?k C \<noteq> []" by (auto simp: images_ok_def)
    then have lt: "?k < length C" by (simp only: drop_eq_Nil not_le)
    then have d: "drop ?k C = C ! ?k # drop (Suc ?k) C" by (simp add: Cons_nth_drop_Suc)
    from q d have enc: "encodes segno s (C ! ?k) (snd img)" and q': "images_ok segno s (drop (Suc ?k) C) rest"
      by (simp_all add: images_ok_def)
    obtain f where f: "C ! ?k = be_encode 2 (int ?k mod 65536) @ f" using s lt unfolding sender_ok_def by blast
    then have len: "2 \<le> length (C ! ?k)" by (simp only: length_append length_be_encode le_add1)
    then have ne: "C ! ?k \<noteq> []" by (cases "C ! ?k") simp_all
    from enc ne assms(2) have dec: "decode (snd img) = Some (C ! ?k)" by (simp add: reads_back_def)
    have new: "cl_last_decoded cl \<noteq> Some (fst img)"
      using ids(1) last_id Cons by (cases "mc_last (ml_camera l)") (auto simp: link_ids_def)
    let ?cl = "remember (C ! ?k) (cl\<lparr>cl_last_decoded := Some (fst img)\<rparr>)"
    have w1: "window_ok (cl\<lparr>cl_last_decoded := Some (fst img)\<rparr>) (take ?k C)" using w by simp
    have notin: "C ! ?k \<notin> cl_recent_set cl" using fresh_in_window [OF s lt w] .
    then have ci: "capture_image decode img cl = (Some (drop NONCE_BYTES (C ! ?k)), ?cl)"
      using new dec len by (simp add: capture_image_def NONCE_BYTES_def)
    have tk: "take (Suc ?k) C = take ?k C @ [C ! ?k]" using lt by (simp add: take_Suc_conv_app_nth)
    have w2: "window_ok ?cl (take (Suc ?k) C)"
      unfolding tk by (rule window_remember [OF w1]) (simp add: notin)
    from assms(3) Running Cons ci
    have r': "r' = r\<lparr>oc_thread := Running ?cl, oc_inbox := oc_inbox r @ [drop NONCE_BYTES (C ! ?k)]\<rparr>"
      and l': "l' = l\<lparr>ml_camera := (ml_camera l)\<lparr>mc_last := Some img\<rparr>, ml_queue := rest\<rparr>"
      by (simp_all add: captured_def)
    have ids': "sorted_wrt (<) (link_ids l')" "list_all (\<lambda>i. i < n) (link_ids l')"
      using ids Cons by (auto simp: link_ids_def l' sorted_wrt_append)
    have last': "cl_last_decoded ?cl = map_option fst (mc_last (ml_camera l'))"
      by (simp add: remember_def l' Let_def)
    have rc: "receiver_ok r'" using assms(1) by (simp add: link_ok_def Let_def receiver_ok_def r')
    have "link_ok segno s l' r' n C got"
      unfolding link_ok_def Let_def
      using assms(1) s rc lt q' ids' last' w2 g tk by (simp add: link_ok_def Let_def r' l' locals_of_def)
    with Cons show ?thesis by (simp add: l')
  qed
qed (use assms in \<open>simp_all add: captured_def link_ok_def receiver_ok_def Let_def\<close>)

section \<open>Both directions\<close>

datatype opt_op = OpSendA bytes | OpSendB bytes | OpCaptureA | OpCaptureB | OpRecvA | OpRecvB

text \<open>A pair with what its calls have taken and given: the frames whose send returned, and those received.\<close>

record OpticalLog =
  ol_pair :: OpticalPair
  ol_sent_a :: "bytes list"
  ol_sent_b :: "bytes list"
  ol_got_a :: "bytes list"
  ol_got_b :: "bytes list"

definition ok_list :: "unit result \<Rightarrow> bytes \<Rightarrow> bytes list" where
  "ok_list r f = (case r of Inl e \<Rightarrow> [] | Inr _ \<Rightarrow> [f])"

fun optical_step :: "qr_maker \<Rightarrow> (image \<Rightarrow> bytes option) \<Rightarrow> opt_op \<Rightarrow> OpticalLog \<Rightarrow> OpticalLog" where
  "optical_step segno decode (OpSendA f) l =
     (let (r, p) = pair_send_a segno (ol_pair l) f in l\<lparr>ol_pair := p, ol_sent_a := ol_sent_a l @ ok_list r f\<rparr>)"
| "optical_step segno decode (OpSendB f) l =
     (let (r, p) = pair_send_b segno (ol_pair l) f in l\<lparr>ol_pair := p, ol_sent_b := ol_sent_b l @ ok_list r f\<rparr>)"
| "optical_step segno decode OpCaptureA l = l\<lparr>ol_pair := pair_capture_a decode (ol_pair l)\<rparr>"
| "optical_step segno decode OpCaptureB l = l\<lparr>ol_pair := pair_capture_b decode (ol_pair l)\<rparr>"
| "optical_step segno decode OpRecvA l =
     (let (r, p) = pair_recv_a (ol_pair l) in l\<lparr>ol_pair := p, ol_got_a := ol_got_a l @ opt_list r\<rparr>)"
| "optical_step segno decode OpRecvB l =
     (let (r, p) = pair_recv_b (ol_pair l) in l\<lparr>ol_pair := p, ol_got_b := ol_got_b l @ opt_list r\<rparr>)"

definition optical_run :: "qr_maker \<Rightarrow> (image \<Rightarrow> bytes option) \<Rightarrow> opt_op list \<Rightarrow> OpticalPair \<Rightarrow> OpticalLog" where
  "optical_run segno decode ops p =
     fold (optical_step segno decode) ops
       \<lparr>ol_pair = p, ol_sent_a = [], ol_sent_b = [], ol_got_a = [], ol_got_b = []\<rparr>"

definition direction_ok ::
  "qr_maker \<Rightarrow> OpticalChannel \<Rightarrow> MemLink \<Rightarrow> OpticalChannel \<Rightarrow> nat \<Rightarrow> bytes list \<Rightarrow> bytes list \<Rightarrow> bool" where
  "direction_ok segno s l r n sent got \<longleftrightarrow>
     (\<exists>C. link_ok segno s l r n C got \<and> sent = map (drop NONCE_BYTES) C)"

definition pair_ok :: "qr_maker \<Rightarrow> OpticalLog \<Rightarrow> bool" where
  "pair_ok segno l \<longleftrightarrow>
     (let p = ol_pair l; w = op_bench p in
      direction_ok segno (op_a p) (bn_ab w) (op_b p) (bn_fresh w) (ol_sent_a l) (ol_got_b l) \<and>
      direction_ok segno (op_b p) (bn_ba w) (op_a p) (bn_fresh w) (ol_sent_b l) (ol_got_a l))"

text \<open>Each end is the receiver of the other direction; what it does in one role leaves the other alone.\<close>

lemma as_receiver: "link_ok segno s l (advance r x) n C got = link_ok segno s l r n C got"
  by (simp add: link_ok_def receiver_ok_def locals_of_def advance_def)

lemma as_sender: "link_ok segno (s\<lparr>oc_thread := t, oc_inbox := i\<rparr>) l r n C got = link_ok segno s l r n C got"
  by (simp add: link_ok_def sender_ok_def images_ok_def encodes_def)

lemma later_ids: "link_ok segno s l r n C got \<Longrightarrow> link_ok segno s l r (Suc n) C got"
  by (auto simp: link_ok_def Let_def list_all_iff less_Suc_eq)

lemma recv_changes: "snd (optical_recv ch) = ch\<lparr>oc_thread := oc_thread (snd (optical_recv ch)),
    oc_inbox := oc_inbox (snd (optical_recv ch))\<rparr>"
  by (cases ch) (simp add: optical_recv_def optical_start_def Let_def split: list.split)

lemma captured_changes: "fst (captured decode r l) = r\<lparr>oc_thread := oc_thread (fst (captured decode r l)),
    oc_inbox := oc_inbox (fst (captured decode r l))\<rparr>"
  by (cases r) (simp add: captured_def split_beta Let_def split: CaptureThread.split list.split)

lemma same_image: "cl_last_decoded cl = Some (fst img) \<Longrightarrow> capture_image decode img cl = (None, cl)"
  by (simp add: capture_image_def)

lemma capture_link:
  assumes "link_ok segno s l r n C got" and "oc_thread r = Running cl"
    and "link_read (oc_poll_interval r) l = (q, l')"
  shows "(case q of
       Inl e \<Rightarrow> (r\<lparr>oc_thread := Ended\<rparr>, l')
     | Inr None \<Rightarrow> (r, l')
     | Inr (Some img) \<Rightarrow>
         (let (payload, cl1) = capture_image decode img cl
          in (r\<lparr>oc_thread := Running cl1, oc_inbox := oc_inbox r @ opt_list payload\<rparr>, l'))) = captured decode r l"
proof -
  from assms(1) have c: "\<not> mc_closed (ml_camera l)" "0 < oc_poll_interval r"
    and ld: "cl_last_decoded cl = map_option fst (mc_last (ml_camera l))"
    by (simp_all add: link_ok_def receiver_ok_def Let_def locals_of_def assms(2))
  have same: "r\<lparr>oc_thread := Running cl, oc_inbox := oc_inbox r\<rparr> = r" using assms(2) by (cases r) simp
  show ?thesis
    using assms(2,3) same ld
    by (cases "ml_queue l"; cases "mc_last (ml_camera l)")
      (auto simp: link_read_cases [OF c] captured_def same_image split_beta Let_def)
qed

lemma pair_capture_b_captured:
  assumes "link_ok segno s (bn_ab (op_bench p)) (op_b p) n C got"
  shows "pair_capture_b decode p =
    (let (r, l) = captured decode (op_b p) (bn_ab (op_bench p)) in p\<lparr>op_b := r, op_bench := (op_bench p)\<lparr>bn_ab := l\<rparr>\<rparr>)"
proof (cases "oc_thread (op_b p)")
  case (Running cl)
  obtain q l' where q: "link_read (oc_poll_interval (op_b p)) (bn_ab (op_bench p)) = (q, l')" by fastforce
  have "\<not> oc_closed (op_b p)" using assms by (simp add: link_ok_def receiver_ok_def Let_def)
  with capture_link [OF assms Running q, of decode, symmetric] Running q show ?thesis
    by (cases p; cases "op_bench p")
      (auto simp: pair_capture_b_def capture_step_def devices_b_read split_beta Let_def split: sum.split option.split)
qed (cases p; cases "op_bench p"; simp add: pair_capture_b_def capture_step_def captured_def)+

lemma pair_capture_a_captured:
  assumes "link_ok segno s (bn_ba (op_bench p)) (op_a p) n C got"
  shows "pair_capture_a decode p =
    (let (r, l) = captured decode (op_a p) (bn_ba (op_bench p)) in p\<lparr>op_a := r, op_bench := (op_bench p)\<lparr>bn_ba := l\<rparr>\<rparr>)"
proof (cases "oc_thread (op_a p)")
  case (Running cl)
  obtain q l' where q: "link_read (oc_poll_interval (op_a p)) (bn_ba (op_bench p)) = (q, l')" by fastforce
  have "\<not> oc_closed (op_a p)" using assms by (simp add: link_ok_def receiver_ok_def Let_def)
  with capture_link [OF assms Running q, of decode, symmetric] Running q show ?thesis
    by (cases p; cases "op_bench p")
      (auto simp: pair_capture_a_def capture_step_def devices_a_read split_beta Let_def split: sum.split option.split)
qed (cases p; cases "op_bench p"; simp add: pair_capture_a_def capture_step_def captured_def)+

lemma direction_send:
  assumes "direction_ok segno s l r n sent got" and "encodes segno s (channel_frame s f) img"
  shows "direction_ok segno (advance s x) (link_show (n, img) l) r (Suc n) (sent @ [f]) got"
proof -
  from assms(1) obtain C where C: "link_ok segno s l r n C got" "sent = map (drop NONCE_BYTES) C"
    by (auto simp: direction_ok_def)
  have "drop NONCE_BYTES (channel_frame s f) = f" by (simp add: channel_frame_def)
  with link_show_ok [OF C(1) assms(2)] C(2) show ?thesis unfolding direction_ok_def
    by (intro exI [of _ "C @ [channel_frame s f]"]) simp
qed

lemma direction_other:
  assumes "direction_ok segno s l r n sent got"
  shows "direction_ok segno s l (advance r x) (Suc n) sent got"
    and "direction_ok segno (s\<lparr>oc_thread := t, oc_inbox := i\<rparr>) l r n sent got"
  using assms by (auto simp: direction_ok_def as_receiver as_sender intro: later_ids)

lemma direction_recv:
  assumes "direction_ok segno s l r n sent got"
  shows "direction_ok segno s l (snd (optical_recv r)) n sent (got @ opt_list (fst (optical_recv r)))"
proof -
  from assms obtain C where C: "link_ok segno s l r n C got" "sent = map (drop NONCE_BYTES) C"
    by (auto simp: direction_ok_def)
  from link_recv_ok [OF C(1), of "fst (optical_recv r)" "snd (optical_recv r)"] C(2)
  show ?thesis by (auto simp: direction_ok_def)
qed

lemma direction_captured:
  assumes "direction_ok segno s l r n sent got" and "reads_back segno decode s"
  shows "direction_ok segno s (snd (captured decode r l)) (fst (captured decode r l)) n sent got"
proof -
  from assms(1) obtain C where C: "link_ok segno s l r n C got" "sent = map (drop NONCE_BYTES) C"
    by (auto simp: direction_ok_def)
  from captured_ok [OF C(1) assms(2), of "fst (captured decode r l)" "snd (captured decode r l)"] C(2)
  show ?thesis by (auto simp: direction_ok_def)
qed

lemma direction_sent:
  assumes "direction_ok segno s l r n sent got"
  shows "got @ oc_inbox r = take (length sent - length (ml_queue l)) sent \<and> length (ml_queue l) \<le> length sent"
proof -
  from assms obtain C where C: "link_ok segno s l r n C got" "sent = map (drop NONCE_BYTES) C"
    by (auto simp: direction_ok_def)
  let ?k = "length got + length (oc_inbox r)"
  from C(1) have "?k \<le> length C" "length (drop ?k C) = length (ml_queue l)"
    "got @ oc_inbox r = map (drop NONCE_BYTES) (take ?k C)"
    by (auto simp: link_ok_def Let_def images_ok_def dest: list_all2_lengthD)
  moreover from this have "length C - length (ml_queue l) = ?k" by simp
  ultimately show ?thesis using C(2) by (simp add: take_map)
qed

text \<open>The QR parameters and the polling of the ends never change.\<close>

definition same_codec :: "OpticalChannel \<Rightarrow> OpticalChannel \<Rightarrow> bool" where
  "same_codec ch ch' \<longleftrightarrow> oc_scale ch' = oc_scale ch \<and> oc_border ch' = oc_border ch \<and> oc_error ch' = oc_error ch"

lemma reads_back_same: "same_codec ch ch' \<Longrightarrow> reads_back segno decode ch' = reads_back segno decode ch"
  by (simp add: same_codec_def reads_back_def encodes_def)

lemma same_codec_simps [simp]:
  "same_codec ch (advance ch' x) = same_codec ch ch'"
  "same_codec ch (ch'\<lparr>oc_thread := t, oc_inbox := i\<rparr>) = same_codec ch ch'"
  by (simp_all add: same_codec_def advance_def)

definition log_ok :: "qr_maker \<Rightarrow> OpticalChannel \<Rightarrow> OpticalLog \<Rightarrow> bool" where
  "log_ok segno ch l \<longleftrightarrow>
     pair_ok segno l \<and> same_codec ch (op_a (ol_pair l)) \<and> same_codec ch (op_b (ol_pair l))"

lemma step_send_a:
  assumes "log_ok segno ch l"
  shows "log_ok segno ch (optical_step segno decode (OpSendA f) l)"
proof -
  let ?p = "ol_pair l"
  obtain r p' where s: "pair_send_a segno ?p f = (r, p')" by fastforce
  from assms have "\<not> oc_closed (op_a ?p)"
    by (auto simp: log_ok_def pair_ok_def direction_ok_def link_ok_def sender_ok_def Let_def)
  note v = send_a_view [OF s, simplified this if_False]
  show ?thesis
  proof (cases "qr_encode_frame segno (channel_frame (op_a ?p) f) (oc_scale (op_a ?p)) (oc_border (op_a ?p)) (oc_error (op_a ?p))")
    case (Inl e)
    with v s assms show ?thesis by (simp add: ok_list_def)
  next
    case (Inr img)
    then have e: "encodes segno (op_a ?p) (channel_frame (op_a ?p) f) img" by (simp add: encodes_def)
    from v Inr have u: "r = Inr ()" "bn_fresh (op_bench p') = Suc (bn_fresh (op_bench ?p))" "op_b p' = op_b ?p"
      "bn_ab (op_bench p') = link_show (bn_fresh (op_bench ?p), img) (bn_ab (op_bench ?p))"
      "bn_ba (op_bench p') = bn_ba (op_bench ?p)" by simp_all
    from v Inr obtain x where a: "op_a p' = advance (op_a ?p) x" by auto
    from assms have d: "direction_ok segno (op_a ?p) (bn_ab (op_bench ?p)) (op_b ?p) (bn_fresh (op_bench ?p)) (ol_sent_a l) (ol_got_b l)"
      "direction_ok segno (op_b ?p) (bn_ba (op_bench ?p)) (op_a ?p) (bn_fresh (op_bench ?p)) (ol_sent_b l) (ol_got_a l)"
      by (simp_all add: log_ok_def pair_ok_def Let_def)
    from direction_send [OF d(1) e, of x] direction_other(1) [OF d(2), of x]
    show ?thesis using assms s u a by (simp add: log_ok_def pair_ok_def ok_list_def)
  qed
qed

lemma step_send_b:
  assumes "log_ok segno ch l"
  shows "log_ok segno ch (optical_step segno decode (OpSendB f) l)"
proof -
  let ?p = "ol_pair l"
  obtain r p' where s: "pair_send_b segno ?p f = (r, p')" by fastforce
  from assms have "\<not> oc_closed (op_b ?p)"
    by (auto simp: log_ok_def pair_ok_def direction_ok_def link_ok_def sender_ok_def Let_def)
  note v = send_b_view [OF s, simplified this if_False]
  show ?thesis
  proof (cases "qr_encode_frame segno (channel_frame (op_b ?p) f) (oc_scale (op_b ?p)) (oc_border (op_b ?p)) (oc_error (op_b ?p))")
    case (Inl e)
    with v s assms show ?thesis by (simp add: ok_list_def)
  next
    case (Inr img)
    then have e: "encodes segno (op_b ?p) (channel_frame (op_b ?p) f) img" by (simp add: encodes_def)
    from v Inr have u: "r = Inr ()" "bn_fresh (op_bench p') = Suc (bn_fresh (op_bench ?p))" "op_a p' = op_a ?p"
      "bn_ba (op_bench p') = link_show (bn_fresh (op_bench ?p), img) (bn_ba (op_bench ?p))"
      "bn_ab (op_bench p') = bn_ab (op_bench ?p)" by simp_all
    from v Inr obtain x where b: "op_b p' = advance (op_b ?p) x" by auto
    from assms have d: "direction_ok segno (op_a ?p) (bn_ab (op_bench ?p)) (op_b ?p) (bn_fresh (op_bench ?p)) (ol_sent_a l) (ol_got_b l)"
      "direction_ok segno (op_b ?p) (bn_ba (op_bench ?p)) (op_a ?p) (bn_fresh (op_bench ?p)) (ol_sent_b l) (ol_got_a l)"
      by (simp_all add: log_ok_def pair_ok_def Let_def)
    from direction_send [OF d(2) e, of x] direction_other(1) [OF d(1), of x]
    show ?thesis using assms s u b by (simp add: log_ok_def pair_ok_def ok_list_def)
  qed
qed

lemma captured_ch: "\<exists>t i. fst (captured decode r l) = r\<lparr>oc_thread := t, oc_inbox := i\<rparr>"
  using captured_changes by blast

lemma recv_ch: "\<exists>t i. snd (optical_recv ch) = ch\<lparr>oc_thread := t, oc_inbox := i\<rparr>"
  using recv_changes by blast

lemma step_capture_b:
  assumes "log_ok segno ch l" and "reads_back segno decode ch"
  shows "log_ok segno ch (optical_step segno decode OpCaptureB l)"
proof -
  let ?p = "ol_pair l" and ?w = "op_bench (ol_pair l)"
  from assms(1) have d: "direction_ok segno (op_a ?p) (bn_ab ?w) (op_b ?p) (bn_fresh ?w) (ol_sent_a l) (ol_got_b l)"
    "direction_ok segno (op_b ?p) (bn_ba ?w) (op_a ?p) (bn_fresh ?w) (ol_sent_b l) (ol_got_a l)"
    and c: "same_codec ch (op_a ?p)" "same_codec ch (op_b ?p)"
    by (simp_all add: log_ok_def pair_ok_def Let_def)
  from d(1) obtain C where "link_ok segno (op_a ?p) (bn_ab ?w) (op_b ?p) (bn_fresh ?w) C (ol_got_b l)"
    by (auto simp: direction_ok_def)
  note v = pair_capture_b_captured [OF this, of decode]
  obtain r l' where x: "captured decode (op_b ?p) (bn_ab ?w) = (r, l')" by fastforce
  from captured_ch [of decode "op_b ?p" "bn_ab ?w"] x obtain t i where r: "r = (op_b ?p)\<lparr>oc_thread := t, oc_inbox := i\<rparr>"
    by auto
  from direction_captured [OF d(1), of decode] x assms(2) reads_back_same [OF c(1)]
  have "direction_ok segno (op_a ?p) l' r (bn_fresh ?w) (ol_sent_a l) (ol_got_b l)" by simp
  moreover from direction_other(2) [OF d(2)] r
  have "direction_ok segno r (bn_ba ?w) (op_a ?p) (bn_fresh ?w) (ol_sent_b l) (ol_got_a l)" by simp
  moreover have "same_codec ch r" using c(2) r by simp
  ultimately show ?thesis using v x c(1) by (simp add: log_ok_def pair_ok_def)
qed

lemma step_capture_a:
  assumes "log_ok segno ch l" and "reads_back segno decode ch"
  shows "log_ok segno ch (optical_step segno decode OpCaptureA l)"
proof -
  let ?p = "ol_pair l" and ?w = "op_bench (ol_pair l)"
  from assms(1) have d: "direction_ok segno (op_a ?p) (bn_ab ?w) (op_b ?p) (bn_fresh ?w) (ol_sent_a l) (ol_got_b l)"
    "direction_ok segno (op_b ?p) (bn_ba ?w) (op_a ?p) (bn_fresh ?w) (ol_sent_b l) (ol_got_a l)"
    and c: "same_codec ch (op_a ?p)" "same_codec ch (op_b ?p)"
    by (simp_all add: log_ok_def pair_ok_def Let_def)
  from d(2) obtain C where "link_ok segno (op_b ?p) (bn_ba ?w) (op_a ?p) (bn_fresh ?w) C (ol_got_a l)"
    by (auto simp: direction_ok_def)
  note v = pair_capture_a_captured [OF this, of decode]
  obtain r l' where x: "captured decode (op_a ?p) (bn_ba ?w) = (r, l')" by fastforce
  from captured_ch [of decode "op_a ?p" "bn_ba ?w"] x obtain t i where r: "r = (op_a ?p)\<lparr>oc_thread := t, oc_inbox := i\<rparr>"
    by auto
  from direction_captured [OF d(2), of decode] x assms(2) reads_back_same [OF c(2)]
  have "direction_ok segno (op_b ?p) l' r (bn_fresh ?w) (ol_sent_b l) (ol_got_a l)" by simp
  moreover from direction_other(2) [OF d(1)] r
  have "direction_ok segno r (bn_ab ?w) (op_b ?p) (bn_fresh ?w) (ol_sent_a l) (ol_got_b l)" by simp
  moreover have "same_codec ch r" using c(1) r by simp
  ultimately show ?thesis using v x c(2) by (simp add: log_ok_def pair_ok_def)
qed

lemma step_recv_b:
  assumes "log_ok segno ch l"
  shows "log_ok segno ch (optical_step segno decode OpRecvB l)"
proof -
  let ?p = "ol_pair l" and ?w = "op_bench (ol_pair l)"
  from assms have d: "direction_ok segno (op_a ?p) (bn_ab ?w) (op_b ?p) (bn_fresh ?w) (ol_sent_a l) (ol_got_b l)"
    "direction_ok segno (op_b ?p) (bn_ba ?w) (op_a ?p) (bn_fresh ?w) (ol_sent_b l) (ol_got_a l)"
    by (simp_all add: log_ok_def pair_ok_def Let_def)
  from recv_ch obtain t i where r: "snd (optical_recv (op_b ?p)) = (op_b ?p)\<lparr>oc_thread := t, oc_inbox := i\<rparr>" by blast
  from direction_recv [OF d(1)] direction_other(2) [OF d(2), where t = t and i = i] assms show ?thesis
    unfolding r by (simp add: log_ok_def pair_ok_def pair_recv_b_def split_beta r)
qed

lemma step_recv_a:
  assumes "log_ok segno ch l"
  shows "log_ok segno ch (optical_step segno decode OpRecvA l)"
proof -
  let ?p = "ol_pair l" and ?w = "op_bench (ol_pair l)"
  from assms have d: "direction_ok segno (op_a ?p) (bn_ab ?w) (op_b ?p) (bn_fresh ?w) (ol_sent_a l) (ol_got_b l)"
    "direction_ok segno (op_b ?p) (bn_ba ?w) (op_a ?p) (bn_fresh ?w) (ol_sent_b l) (ol_got_a l)"
    by (simp_all add: log_ok_def pair_ok_def Let_def)
  from recv_ch obtain t i where r: "snd (optical_recv (op_a ?p)) = (op_a ?p)\<lparr>oc_thread := t, oc_inbox := i\<rparr>" by blast
  from direction_recv [OF d(2)] direction_other(2) [OF d(1), where t = t and i = i] assms show ?thesis
    unfolding r by (simp add: log_ok_def pair_ok_def pair_recv_a_def split_beta r)
qed

lemmas optical_steps = step_send_a step_send_b step_capture_a step_capture_b step_recv_a step_recv_b

lemma optical_step_ok:
  "log_ok segno ch l \<Longrightarrow> reads_back segno decode ch \<Longrightarrow> log_ok segno ch (optical_step segno decode x l)"
  by (cases x) (simp_all only: optical_steps)

lemma optical_fold_ok:
  "log_ok segno ch l \<Longrightarrow> reads_back segno decode ch \<Longrightarrow> log_ok segno ch (fold (optical_step segno decode) xs l)"
  by (induction xs arbitrary: l) (simp_all add: optical_step_ok del: optical_step.simps)

lemma optical_run_ok:
  assumes "reads_back segno decode (OpticalChannel_init scale border error poll_interval hold)"
  shows "log_ok segno (OpticalChannel_init scale border error poll_interval hold)
    (optical_run segno decode xs (optical_pair repeat_last scale border error poll_interval hold))"
  unfolding optical_run_def
proof (rule optical_fold_ok [OF _ assms])
  show "log_ok segno (OpticalChannel_init scale border error poll_interval hold)
     \<lparr>ol_pair = optical_pair repeat_last scale border error poll_interval hold, ol_sent_a = [], ol_sent_b = [],
      ol_got_a = [], ol_got_b = []\<rparr>"
    by (simp add: log_ok_def pair_ok_def direction_ok_def link_ok_def optical_pair_def OpticalChannel_init_def
        sender_ok_def receiver_ok_def images_ok_def locals_of_def capture_start_def memory_device_pair_def
        MemoryDisplay_init_def MemoryCamera_init_def window_ok_def link_ids_def same_codec_def
        MIN_POLL_INTERVAL_def Let_def)
qed

section \<open>Draining\<close>

definition running :: "OpticalChannel \<Rightarrow> bool" where
  "running ch \<longleftrightarrow> (\<exists>cl. oc_thread ch = Running cl)"

definition waiting_b :: "OpticalLog \<Rightarrow> nat" where
  "waiting_b l = length (ml_queue (bn_ab (op_bench (ol_pair l))))"

lemma log_ok_captured_b:
  assumes "log_ok segno ch l"
  shows "pair_capture_b decode (ol_pair l) =
    (let (r, m) = captured decode (op_b (ol_pair l)) (bn_ab (op_bench (ol_pair l)))
     in (ol_pair l)\<lparr>op_b := r, op_bench := (op_bench (ol_pair l))\<lparr>bn_ab := m\<rparr>\<rparr>)"
proof -
  from assms obtain C where "link_ok segno (op_a (ol_pair l)) (bn_ab (op_bench (ol_pair l))) (op_b (ol_pair l))
      (bn_fresh (op_bench (ol_pair l))) C (ol_got_b l)"
    by (auto simp: log_ok_def pair_ok_def direction_ok_def Let_def)
  then show ?thesis by (rule pair_capture_b_captured)
qed

lemma captures_drain:
  assumes "log_ok segno ch l" and "reads_back segno decode ch" and "running (op_b (ol_pair l))"
  shows "let l' = fold (optical_step segno decode) (replicate n OpCaptureB) l in
    waiting_b l' = waiting_b l - n \<and> ol_sent_a l' = ol_sent_a l"
  using assms
proof (induction n arbitrary: l)
  case (Suc n)
  let ?l = "optical_step segno decode OpCaptureB l"
  have run: "running (op_b (ol_pair ?l))" and w: "waiting_b ?l = waiting_b l - 1"
    using Suc.prems(3) log_ok_captured_b [OF Suc.prems(1), of decode]
    by (auto simp: running_def waiting_b_def captured_def split_beta Let_def split: list.splits)
  from Suc.IH [OF step_capture_b [OF Suc.prems(1,2)] Suc.prems(2) run] w show ?case
    by (simp add: Let_def)
qed simp

lemma polls_drain:
  assumes "log_ok segno ch l"
  shows "let l' = fold (optical_step segno decode) (replicate n OpRecvB) l in
    length (oc_inbox (op_b (ol_pair l'))) = length (oc_inbox (op_b (ol_pair l))) - n \<and>
    waiting_b l' = waiting_b l \<and> ol_sent_a l' = ol_sent_a l"
  using assms
proof (induction n arbitrary: l)
  case (Suc n)
  let ?l = "optical_step segno decode OpRecvB l"
  from Suc.prems have open_b: "\<not> oc_closed (op_b (ol_pair l))"
    by (auto simp: log_ok_def pair_ok_def direction_ok_def link_ok_def receiver_ok_def Let_def)
  then have i: "length (oc_inbox (op_b (ol_pair ?l))) = length (oc_inbox (op_b (ol_pair l))) - 1"
    by (auto simp: pair_recv_b_def optical_recv_def optical_start_def split_beta Let_def split: list.splits)
  have w: "waiting_b ?l = waiting_b l" "ol_sent_a ?l = ol_sent_a l"
    by (simp_all add: waiting_b_def pair_recv_b_def split_beta Let_def)
  from Suc.IH [OF step_recv_b [OF Suc.prems]] i w show ?case by (simp add: Let_def)
qed simp

lemma recv_starts:
  assumes "log_ok segno ch l"
  shows "running (op_b (ol_pair (optical_step segno decode OpRecvB l)))"
proof -
  from assms have "\<not> oc_closed (op_b (ol_pair l))" "oc_thread (op_b (ol_pair l)) \<noteq> Ended"
    by (auto simp: log_ok_def pair_ok_def direction_ok_def link_ok_def receiver_ok_def Let_def)
  then show ?thesis
    by (cases "oc_thread (op_b (ol_pair l))")
      (auto simp: running_def pair_recv_b_def optical_recv_def optical_start_def split_beta Let_def split: list.splits)
qed

section \<open>Properties\<close>

text \<open>
  C9. A pair over the in-memory devices, with a decoder that reads every frame the channel can encode,
  in any interleaving of sends, capture turns and polls of both ends and for any number of frames (the
  nonce wraps): what one end has received, followed by its inbox, is exactly what the other sent, in
  order and once each, up to the images still on the link; a repeated reading of a displayed image
  adds nothing. A frame counts as sent when \<open>send\<close> returned.
\<close>

theorem optical_exactly_once:
  assumes "reads_back segno decode (OpticalChannel_init scale border error poll_interval hold)"
    and "l = optical_run segno decode xs (optical_pair repeat_last scale border error poll_interval hold)"
  shows "let p = ol_pair l; ab = ml_queue (bn_ab (op_bench p)); ba = ml_queue (bn_ba (op_bench p)) in
    ol_got_b l @ oc_inbox (op_b p) = take (length (ol_sent_a l) - length ab) (ol_sent_a l) \<and>
    length ab \<le> length (ol_sent_a l) \<and>
    ol_got_a l @ oc_inbox (op_a p) = take (length (ol_sent_b l) - length ba) (ol_sent_b l) \<and>
    length ba \<le> length (ol_sent_b l)"
proof -
  have "pair_ok segno l" using optical_run_ok [OF assms(1)] by (simp add: assms(2) log_ok_def)
  then show ?thesis by (auto simp: pair_ok_def Let_def dest!: direction_sent)
qed

text \<open>Each image of the maker that draws bars is read back by its reader.\<close>

lemma bars_reads_back:
  "reads_back bars_segno (bars_read 8 4) (OpticalChannel_init 8 4 error poll_interval hold)"
  using bars_read_back [of _ 8 4] by (auto simp: reads_back_def encodes_def OpticalChannel_init_def)

lemma bars_frame:
  obtains img where "qr_encode_frame bars_segno f 8 4 ''m'' = Inr img" and "bars_read 8 4 img = Some f"
proof -
  obtain img where "qr_encode_frame bars_segno f 8 4 ''m'' = Inr img" using bars_made [of 8 4 f "''m''"] by auto
  with bars_read_back [OF this] that show thesis by simp
qed

lemmas optical_calls = optical_run_def optical_pair_def OpticalChannel_init_def pair_send_a_def pair_send_b_def
  pair_recv_a_def pair_recv_b_def pair_capture_a_def pair_capture_b_def optical_send_def optical_recv_def optical_start_def
  capture_step_def capture_image_def capture_start_def remember_def DEDUP_DEPTH_def channel_frame_def NONCE_BYTES_def pace_def
  devices_a_def devices_b_def bench_ops_def ok_list_def link_show_def display_show_def link_read_def camera_read_def camera_wait_def
  memory_device_pair_def MemoryDisplay_init_def MemoryCamera_init_def MIN_POLL_INTERVAL_def numeral_2_eq_2

text \<open>
  The same payload twice from one end, a frame from the other, each displayed image captured more often
  than it was shown.
\<close>

definition busy_ops :: "opt_op list" where
  "busy_ops = [OpRecvB, OpSendA [7], OpCaptureB, OpCaptureB, OpSendA [7], OpRecvA, OpSendB [9], OpCaptureB, OpCaptureA,
     OpCaptureB, OpCaptureA, OpRecvB, OpRecvB, OpRecvB]"

abbreviation bars_pair :: OpticalPair where
  "bars_pair \<equiv> optical_pair True 8 4 ''m'' (1 / 100) 0"

lemma busy_run:
  "let l = optical_run bars_segno (bars_read 8 4) busy_ops bars_pair in
   ol_sent_a l = [[7], [7]] \<and> ol_sent_b l = [[9]] \<and> ol_got_b l = [[7], [7]] \<and>
   ml_queue (bn_ab (op_bench (ol_pair l))) = [] \<and> ml_queue (bn_ba (op_bench (ol_pair l))) = []"
proof -
  obtain i where "qr_encode_frame bars_segno [0, 0, 7] 8 4 ''m'' = Inr i" "bars_read 8 4 i = Some [0, 0, 7]"
    by (rule bars_frame)
  moreover obtain j where "qr_encode_frame bars_segno [0, 1, 7] 8 4 ''m'' = Inr j" "bars_read 8 4 j = Some [0, 1, 7]"
    by (rule bars_frame)
  moreover obtain k where "qr_encode_frame bars_segno [0, 0, 9] 8 4 ''m'' = Inr k" "bars_read 8 4 k = Some [0, 0, 9]"
    by (rule bars_frame)
  ultimately show ?thesis by (simp add: busy_ops_def optical_calls Let_def)
qed

lemma optical_exactly_once_witness:
  "let l = optical_run bars_segno (bars_read 8 4) busy_ops bars_pair in
   ol_sent_a l = [[7], [7]] \<and> ol_got_b l @ oc_inbox (op_b (ol_pair l)) = [[7], [7]] \<and>
   ol_sent_b l = [[9]] \<and> ol_got_a l @ oc_inbox (op_a (ol_pair l)) = [[9]]"
  using optical_exactly_once [OF bars_reads_back refl, of busy_ops True "''m''" "1 / 100" 0] busy_run
  by (simp add: Let_def)

text \<open>
  Every frame sent arrives: after any run, one poll (it starts the capture thread) and as many
  capture turns and polls as frames were sent give the receiver all of them.
\<close>

theorem optical_delivers:
  assumes "reads_back segno decode (OpticalChannel_init scale border error poll_interval hold)"
    and "p0 = optical_pair repeat_last scale border error poll_interval hold"
    and "n = length (ol_sent_a (optical_run segno decode xs p0))"
  shows "ol_got_b (optical_run segno decode (xs @ OpRecvB # replicate n OpCaptureB @ replicate n OpRecvB) p0) =
    ol_sent_a (optical_run segno decode xs p0)"
proof -
  let ?ch = "OpticalChannel_init scale border error poll_interval hold"
  let ?go = "fold (optical_step segno decode)"
  let ?l = "optical_run segno decode xs p0"
  let ?l1 = "optical_step segno decode OpRecvB ?l"
  let ?l2 = "?go (replicate n OpCaptureB) ?l1"
  let ?l3 = "?go (replicate n OpRecvB) ?l2"
  have l0: "log_ok segno ?ch ?l" unfolding assms(2) by (rule optical_run_ok [OF assms(1)])
  have l1: "log_ok segno ?ch ?l1" by (rule step_recv_b [OF l0])
  have l2: "log_ok segno ?ch ?l2" by (rule optical_fold_ok [OF l1 assms(1)])
  have l3: "log_ok segno ?ch ?l3" by (rule optical_fold_ok [OF l2 assms(1)])
  have sent1: "ol_sent_a ?l1 = ol_sent_a ?l" by (simp add: split_beta)
  have bounds: "waiting_b l \<le> length (ol_sent_a l) \<and> length (oc_inbox (op_b (ol_pair l))) \<le> length (ol_sent_a l)
      \<and> ol_got_b l @ oc_inbox (op_b (ol_pair l)) = take (length (ol_sent_a l) - waiting_b l) (ol_sent_a l)"
    if "log_ok segno ?ch l" for l
  proof -
    from that have d: "direction_ok segno (op_a (ol_pair l)) (bn_ab (op_bench (ol_pair l))) (op_b (ol_pair l))
        (bn_fresh (op_bench (ol_pair l))) (ol_sent_a l) (ol_got_b l)"
      by (simp add: log_ok_def pair_ok_def Let_def)
    have "length (ol_got_b l @ oc_inbox (op_b (ol_pair l))) \<le> length (ol_sent_a l)"
      unfolding conjunct1 [OF direction_sent [OF d]] by simp
    then have "length (oc_inbox (op_b (ol_pair l))) \<le> length (ol_sent_a l)" by (simp only: length_append)
    with direction_sent [OF d] show ?thesis by (simp add: waiting_b_def)
  qed
  from captures_drain [OF l1 assms(1) recv_starts [OF l0], of n] bounds [OF l1] sent1 assms(3)
  have w2: "waiting_b ?l2 = 0" "ol_sent_a ?l2 = ol_sent_a ?l" by (simp_all add: Let_def)
  from polls_drain [OF l2, of decode n] bounds [OF l2] w2 assms(3)
  have "waiting_b ?l3 = 0" "ol_sent_a ?l3 = ol_sent_a ?l" "oc_inbox (op_b (ol_pair ?l3)) = []"
    by (simp_all add: Let_def)
  with bounds [OF l3] have "ol_got_b ?l3 = ol_sent_a ?l" by simp
  then show ?thesis by (simp add: optical_run_def del: optical_step.simps)
qed

lemma optical_delivers_witness:
  "ol_got_b (optical_run bars_segno (bars_read 8 4)
      (busy_ops @ OpRecvB # replicate 2 OpCaptureB @ replicate 2 OpRecvB) bars_pair) = [[7], [7]]"
proof -
  have s: "ol_sent_a (optical_run bars_segno (bars_read 8 4) busy_ops bars_pair) = [[7], [7]]"
    using busy_run by (simp add: Let_def)
  then have n: "length (ol_sent_a (optical_run bars_segno (bars_read 8 4) busy_ops bars_pair)) = 2" by simp
  show ?thesis
    using optical_delivers [OF bars_reads_back refl refl, of busy_ops True "''m''" "1 / 100" 0]
    unfolding n unfolding s .
qed

end
