(* ===== verification/Image_Loopback.thy ===== *)
theory Image_Loopback
  imports Loopback Session_Props Qr_Props "HOL-Library.Sublist"
begin

text \<open>
  \<open>photontcp/channel/image_loopback.py\<close>: the loopback pair whose queues carry QR images. The noise
  (loss, duplication, the optional \<open>degrade\<close> function) is applied when a frame is sent; an image
  the decoder cannot read is a lost frame. The random generator is that of \<open>Loopback\<close>.
\<close>

record ImageLoopbackChannel =
  il_loss :: real
  il_dup :: real
  il_scale :: int
  il_border :: int
  il_error :: string
  il_closed :: bool

definition ImageLoopbackChannel_init :: "real \<Rightarrow> real \<Rightarrow> int \<Rightarrow> int \<Rightarrow> string \<Rightarrow> ImageLoopbackChannel" where
  "ImageLoopbackChannel_init loss dup scale border error =
     \<lparr>il_loss = loss, il_dup = dup, il_scale = scale, il_border = border, il_error = error, il_closed = False\<rparr>"

text \<open>A pair: one generator and two queues of images. \<open>degrade\<close>, the same for both ends, is an argument of the sends.\<close>

record 'r image_pair =
  ip_rng :: 'r
  ip_q_ab :: "image list"
  ip_q_ba :: "image list"
  ip_a :: ImageLoopbackChannel
  ip_b :: ImageLoopbackChannel

definition image_pair_init ::
  "'r \<Rightarrow> real \<Rightarrow> real \<Rightarrow> int \<Rightarrow> int \<Rightarrow> string \<Rightarrow> 'r image_pair" where
  "image_pair_init rng loss dup scale border error =
     (let e = ImageLoopbackChannel_init loss dup scale border error
      in \<lparr>ip_rng = rng, ip_q_ab = [], ip_q_ba = [], ip_a = e, ip_b = e\<rparr>)"

definition degraded :: "(image \<Rightarrow> image) option \<Rightarrow> image \<Rightarrow> image" where
  "degraded degrade img = (case degrade of None \<Rightarrow> img | Some d \<Rightarrow> d img)"

text \<open>A send: the result, the images put in the outbox, the generator.\<close>

definition image_send ::
  "qr_maker \<Rightarrow> 'r rng_ops \<Rightarrow> (image \<Rightarrow> image) option \<Rightarrow> ImageLoopbackChannel \<Rightarrow> bytes \<Rightarrow> 'r
    \<Rightarrow> unit result \<times> image list \<times> 'r" where
  "image_send segno ops degrade ch frame r =
     (if il_closed ch then (Inr (), [], r)
      else
        (let (x, r1) = rng_random ops r in
         if x < il_loss ch then (Inr (), [], r1)
         else
           (case qr_encode_frame segno frame (il_scale ch) (il_border ch) (il_error ch) of
              Inl e \<Rightarrow> (Inl e, [], r1)
            | Inr img \<Rightarrow>
                (let img1 = degraded degrade img; (y, r2) = rng_random ops r1
                 in (Inr (), if y < il_dup ch then [img1, img1] else [img1], r2)))))"

text \<open>A poll; an image that does not decode is consumed and gives \<open>None\<close>.\<close>

definition image_recv ::
  "(image \<Rightarrow> bytes option) \<Rightarrow> ImageLoopbackChannel \<Rightarrow> image list \<Rightarrow> bytes option \<times> image list" where
  "image_recv decode ch inbox =
     (if il_closed ch then (None, inbox)
      else case inbox of [] \<Rightarrow> (None, []) | img # rest \<Rightarrow> (decode img, rest))"

definition image_close :: "ImageLoopbackChannel \<Rightarrow> ImageLoopbackChannel" where
  "image_close ch = ch\<lparr>il_closed := True\<rparr>"

definition image_send_ab ::
  "qr_maker \<Rightarrow> (image \<Rightarrow> image) option \<Rightarrow> 'r rng_ops \<Rightarrow> 'r image_pair \<Rightarrow> bytes \<Rightarrow> unit result \<times> 'r image_pair" where
  "image_send_ab segno degrade ops w f =
     (let (res, imgs, r) = image_send segno ops degrade (ip_a w) f (ip_rng w)
      in (res, w\<lparr>ip_q_ab := ip_q_ab w @ imgs, ip_rng := r\<rparr>))"

definition image_recv_b :: "(image \<Rightarrow> bytes option) \<Rightarrow> 'r image_pair \<Rightarrow> bytes option \<times> 'r image_pair" where
  "image_recv_b decode w = (let (f, q) = image_recv decode (ip_b w) (ip_q_ab w) in (f, w\<lparr>ip_q_ab := q\<rparr>))"

definition image_send_ba ::
  "qr_maker \<Rightarrow> (image \<Rightarrow> image) option \<Rightarrow> 'r rng_ops \<Rightarrow> 'r image_pair \<Rightarrow> bytes \<Rightarrow> unit result \<times> 'r image_pair" where
  "image_send_ba segno degrade ops w f =
     (let (res, imgs, r) = image_send segno ops degrade (ip_b w) f (ip_rng w)
      in (res, w\<lparr>ip_q_ba := ip_q_ba w @ imgs, ip_rng := r\<rparr>))"

definition image_recv_a :: "(image \<Rightarrow> bytes option) \<Rightarrow> 'r image_pair \<Rightarrow> bytes option \<times> 'r image_pair" where
  "image_recv_a decode w = (let (f, q) = image_recv decode (ip_a w) (ip_q_ba w) in (f, w\<lparr>ip_q_ba := q\<rparr>))"

section \<open>A frame channel\<close>

definition readings :: "(image \<Rightarrow> bytes option) \<Rightarrow> image list \<Rightarrow> bytes list" where
  "readings decode imgs = concat (map (\<lambda>i. opt_list (decode i)) imgs)"

lemma readings_simps [simp]:
  "readings decode [] = []"
  "readings decode (i # is) = opt_list (decode i) @ readings decode is"
  "readings decode (is @ js) = readings decode is @ readings decode js"
  by (simp_all add: readings_def)

text \<open>What a frame may come out as at the end that reads: a reading of its degraded symbol.\<close>

definition image_carried ::
  "qr_maker \<Rightarrow> (image \<Rightarrow> bytes option) \<Rightarrow> (image \<Rightarrow> image) option \<Rightarrow> ImageLoopbackChannel \<Rightarrow> bytes \<Rightarrow> bytes \<Rightarrow> bool" where
  "image_carried segno decode degrade ch f g \<longleftrightarrow>
     (\<exists>img. qr_encode_frame segno f (il_scale ch) (il_border ch) (il_error ch) = Inr img \<and>
        decode (degraded degrade img) = Some g)"

lemma image_send_emits:
  "\<exists>n g. readings decode (fst (snd (image_send segno ops degrade ch f r))) = replicate n g \<and> n \<le> 2 \<and>
     (n = 0 \<or> image_carried segno decode degrade ch f g)"
proof (cases "qr_encode_frame segno f (il_scale ch) (il_border ch) (il_error ch)")
  case (Inl e)
  then have "fst (snd (image_send segno ops degrade ch f r)) = []" by (simp add: image_send_def split_beta Let_def)
  then show ?thesis by (intro exI [of _ 0]) simp
next
  case (Inr img)
  let ?i = "degraded degrade img"
  have e: "fst (snd (image_send segno ops degrade ch f r)) \<in> {[], [?i], [?i, ?i]}"
    using Inr by (auto simp: image_send_def split_beta Let_def)
  show ?thesis
  proof (cases "decode ?i")
    case None
    with e have "readings decode (fst (snd (image_send segno ops degrade ch f r))) = replicate 0 []" by auto
    then show ?thesis by blast
  next
    case (Some g)
    with Inr have c: "image_carried segno decode degrade ch f g" by (auto simp: image_carried_def)
    from e Some have "readings decode (fst (snd (image_send segno ops degrade ch f r))) \<in>
        {replicate 0 g, replicate 1 g, replicate 2 g}" by (auto simp: numeral_2_eq_2)
    with c show ?thesis by fastforce
  qed
qed

interpretation image_ab: frame_channel "\<lambda>w f. snd (image_send_ab segno degrade ops w f)" "image_recv_b decode"
  "\<lambda>w. readings decode (ip_q_ab w)"
  "\<lambda>f g. \<exists>ch. image_carried segno decode degrade ch f g"
  for segno decode degrade and ops :: "'r rng_ops"
proof (unfold_locales, goal_cases)
  case (1 g w f)
  obtain n h where "readings decode (fst (snd (image_send segno ops degrade (ip_a w) f (ip_rng w)))) = replicate n h"
    "n = 0 \<or> image_carried segno decode degrade (ip_a w) f h"
    using image_send_emits [of decode segno ops degrade "ip_a w" f "ip_rng w"] by blast
  with 1 show ?case by (auto simp: image_send_ab_def split_beta Let_def)
next
  case (2 w)
  show ?case by (auto simp: image_recv_b_def image_recv_def split_beta Let_def split: list.split)
next
  case (3 w g)
  then show ?case by (auto simp: image_recv_b_def image_recv_def split_beta Let_def split: list.splits if_splits)
qed

section \<open>A session on one end\<close>

record 'r image_world =
  iw_pair :: "'r image_pair"
  iw_clock :: ManualClock

definition image_ops_a ::
  "qr_maker \<Rightarrow> (image \<Rightarrow> bytes option) \<Rightarrow> (image \<Rightarrow> image) option \<Rightarrow> 'r rng_ops \<Rightarrow> 'r image_world world_ops" where
  "image_ops_a segno decode degrade rops =
     \<lparr>w_send = (\<lambda>f w. let (r, p) = image_send_ab segno degrade rops (iw_pair w) f in (r, w\<lparr>iw_pair := p\<rparr>)),
      w_recv = (\<lambda>t w. let (r, p) = image_recv_a decode (iw_pair w) in (Inr r, w\<lparr>iw_pair := p\<rparr>)),
      w_now = (\<lambda>w. (clock_now (iw_clock w), w))\<rparr>"

interpretation image_backlog: finite_world "image_ops_a segno decode degrade rops" "\<lambda>w. length (ip_q_ba (iw_pair w))"
  for segno decode degrade and rops :: "'r rng_ops"
  by unfold_locales
    (auto simp: image_ops_a_def image_recv_a_def image_recv_def image_send_ab_def split_beta Let_def
      split: if_splits list.splits)

section \<open>Properties\<close>

lemma doubled_Cons: "concat (map (\<lambda>f. [f, f]) (f # fs)) = [f, f] @ concat (map (\<lambda>f. [f, f]) fs)"
  by simp

lemma replicate_subseq: "n \<le> 2 \<Longrightarrow> subseq (replicate n g) [g, g]"
  by (cases n; cases "n - 1") auto

lemma image_run_subseq:
  assumes "\<And>f img g. qr_encode_frame segno f scale border error = Inr img \<Longrightarrow>
      decode (degraded degrade img) = Some g \<Longrightarrow> g = f"
    and "il_scale (ip_a w) = scale" and "il_border (ip_a w) = border" and "il_error (ip_a w) = error"
    and "chan_run (\<lambda>w f. snd (image_send_ab segno degrade ops w f)) (image_recv_b decode) w xs = (got, w')"
  shows "subseq (got @ readings decode (ip_q_ab w'))
    (readings decode (ip_q_ab w) @ concat (map (\<lambda>f. [f, f]) (sent_frames xs)))"
  using assms(2-)
proof (induction xs arbitrary: w got)
  case (Cons x xs)
  show ?case
  proof (cases x)
    case (ChSend f)
    let ?w = "snd (image_send_ab segno degrade ops w f)"
    obtain n g where n: "readings decode (fst (snd (image_send segno ops degrade (ip_a w) f (ip_rng w)))) = replicate n g"
      "n \<le> 2" "n = 0 \<or> image_carried segno decode degrade (ip_a w) f g"
      using image_send_emits [of decode segno ops degrade "ip_a w" f "ip_rng w"] by blast
    have same: "il_scale (ip_a ?w) = scale" "il_border (ip_a ?w) = border" "il_error (ip_a ?w) = error"
      using Cons.prems(1-3) by (simp_all add: image_send_ab_def split_beta Let_def)
    have q: "readings decode (ip_q_ab ?w) = readings decode (ip_q_ab w) @ replicate n g"
      using n(1) by (simp add: image_send_ab_def split_beta Let_def)
    from n(3) Cons.prems(1-3) assms(1) have "n = 0 \<or> g = f" unfolding image_carried_def by metis
    then have "subseq (replicate n g) [f, f]" using replicate_subseq [OF n(2), of g] by auto
    then have "subseq (readings decode (ip_q_ab ?w) @ concat (map (\<lambda>f. [f, f]) (sent_frames xs)))
        (readings decode (ip_q_ab w) @ [f, f] @ concat (map (\<lambda>f. [f, f]) (sent_frames xs)))"
      unfolding q append_assoc by (intro list_emb_append_mono) simp_all
    moreover from Cons.IH [OF same, of got] Cons.prems(4) ChSend
    have "subseq (got @ readings decode (ip_q_ab w'))
        (readings decode (ip_q_ab ?w) @ concat (map (\<lambda>f. [f, f]) (sent_frames xs)))" by simp
    ultimately show ?thesis unfolding ChSend sent_frames.simps doubled_Cons using subseq_order.order_trans by blast
  next
    case ChRecv
    obtain r w1 where r: "image_recv_b decode w = (r, w1)" by fastforce
    obtain fs w2 where c2: "chan_run (\<lambda>w f. snd (image_send_ab segno degrade ops w f)) (image_recv_b decode) w1 xs = (fs, w2)"
      by fastforce
    have got: "got = opt_list r @ fs" and c: "chan_run (\<lambda>w f. snd (image_send_ab segno degrade ops w f)) (image_recv_b decode) w1 xs = (fs, w')"
      using Cons.prems(4) ChRecv r c2 by (cases r; simp)+
    have same: "ip_a w1 = ip_a w" and q: "readings decode (ip_q_ab w) = opt_list r @ readings decode (ip_q_ab w1)
        \<or> (opt_list r = [] \<and> ip_q_ab w1 = ip_q_ab w)"
      using r by (auto simp: image_recv_b_def image_recv_def split_beta Let_def split: if_splits list.splits)
    from Cons.IH [of w1 fs] Cons.prems(1-3) same c
    have "subseq (fs @ readings decode (ip_q_ab w'))
        (readings decode (ip_q_ab w1) @ concat (map (\<lambda>f. [f, f]) (sent_frames xs)))" by simp
    then show ?thesis using q got ChRecv by (auto simp: subseq_append')
  qed
qed simp

text \<open>
  The image loopback pair with a decoder that gives the encoded bytes or nothing (degraded symbols
  may be unreadable): what one end receives is a subsequence of what the other sent with each frame
  doubled; frames may be lost or come twice, in order, and none is invented or altered.
\<close>

theorem image_frames_in_order:
  assumes "\<And>f img g. qr_encode_frame segno f scale border error = Inr img \<Longrightarrow>
      decode (degraded degrade img) = Some g \<Longrightarrow> g = f"
    and "chan_run (\<lambda>w f. snd (image_send_ab segno degrade ops w f)) (image_recv_b decode)
      (image_pair_init rng loss dup scale border error) xs = (got, w)"
  shows "subseq got (concat (map (\<lambda>f. [f, f]) (sent_frames xs)))"
proof -
  let ?w = "image_pair_init rng loss dup scale border error"
  have "il_scale (ip_a ?w) = scale" "il_border (ip_a ?w) = border" "il_error (ip_a ?w) = error"
    "ip_q_ab ?w = []"
    by (simp_all add: image_pair_init_def ImageLoopbackChannel_init_def Let_def)
  from image_run_subseq [OF assms(1) this(1-3) assms(2)] this(4)
  have "subseq (got @ readings decode (ip_q_ab w)) (concat (map (\<lambda>f. [f, f]) (sent_frames xs)))" by simp
  moreover have "subseq got (got @ readings decode (ip_q_ab w))" by (rule subseq_rev_drop_many) simp
  ultimately show ?thesis using subseq_order.order_trans by blast
qed

definition still_rng :: "real \<Rightarrow> unit rng_ops" where
  "still_rng x = \<lparr>rng_random = (\<lambda>r. (x, r)), rng_randrange = (\<lambda>n r. (0, r)), rng_randint = (\<lambda>a b r. (a, r))\<rparr>"

definition seven_segno :: qr_maker where
  "seven_segno error t = (if t = b64encode [7] then Some [[True]] else None)"

lemma seven_only: "qr_encode_frame seven_segno f scale border error = Inr img \<Longrightarrow> f = [7]"
  by (auto simp: qr_encode_frame_def seven_segno_def split: if_splits option.splits dest: b64encode_inj
      simp del: b64encode.simps)

lemma image_frames_in_order_witness:
  "\<exists>w. chan_run (\<lambda>w f. snd (image_send_ab seven_segno None (still_rng 0) w f)) (image_recv_b (\<lambda>i. Some [7]))
      (image_pair_init () 0 1 8 4 ''m'') [ChSend [7], ChRecv, ChRecv, ChRecv] = ([[7], [7]], w) \<and>
    subseq [[7], [7]] (concat (map (\<lambda>f. [f, f]) (sent_frames [ChSend [7], ChRecv, ChRecv, ChRecv])))"
proof -
  obtain img where e: "qr_encode_frame seven_segno [7] 8 4 ''m'' = Inr img"
    by (simp add: qr_encode_frame_def seven_segno_def Let_def)
  have "\<exists>w. chan_run (\<lambda>w f. snd (image_send_ab seven_segno None (still_rng 0) w f)) (image_recv_b (\<lambda>i. Some [7]))
      (image_pair_init () 0 1 8 4 ''m'') [ChSend [7], ChRecv, ChRecv, ChRecv] = ([[7], [7]], w)"
    using e by (simp add: image_send_ab_def image_send_def image_pair_init_def ImageLoopbackChannel_init_def
        still_rng_def image_recv_b_def image_recv_def Let_def)
  then obtain w where w: "chan_run (\<lambda>w f. snd (image_send_ab seven_segno None (still_rng 0) w f))
      (image_recv_b (\<lambda>i. Some [7])) (image_pair_init () 0 1 8 4 ''m'') [ChSend [7], ChRecv, ChRecv, ChRecv] = ([[7], [7]], w)"
    by blast
  from image_frames_in_order [OF _ w] seven_only w show ?thesis by blast
qed

end
