(* ===== verification/Peer.thy ===== *)
theory Peer
  imports Chat
begin

text \<open>
  \<open>photontcp/optical/peer.py\<close>: \<open>run_peer\<close>, one side of handshake, message exchange and close. The
  channel, the process clock and \<open>ManualClock\<close> are one world of any type; progress events are the
  list of events emitted so far (a callback that raises changes nothing). A value \<open>None\<close> is a
  drive that does not return, because a pump does not.
\<close>

definition ROUND_DT :: time where "ROUND_DT = 6 / 10"
definition HEARTBEAT_INTERVAL :: time where "HEARTBEAT_INTERVAL = 5"
definition IDLE_TIMEOUT :: time where "IDLE_TIMEOUT = 120"
definition MAX_HANDSHAKE_ROUNDS :: nat where "MAX_HANDSHAKE_ROUNDS = 200"
definition MAX_CHAT_ROUNDS :: nat where "MAX_CHAT_ROUNDS = 200"
definition MAX_CLOSE_ROUNDS :: nat where "MAX_CLOSE_ROUNDS = 200"

section \<open>The result and the events\<close>

record PeerResult =
  pr_role :: string
  pr_established :: bool
  pr_messages_match :: bool
  pr_closed :: bool
  pr_wall_seconds :: time
  pr_passed :: bool
  pr_handshake_rounds :: "nat option"
  pr_close_rounds :: "nat option"
  pr_sent :: "pstr list"
  pr_received :: "json list"
  pr_expected :: "pstr list"
  pr_timed_out :: bool

definition PeerResult_init :: "string \<Rightarrow> pstr list \<Rightarrow> PeerResult" where
  "PeerResult_init role expected =
     \<lparr>pr_role = role, pr_established = False, pr_messages_match = False, pr_closed = False,
      pr_wall_seconds = 0, pr_passed = False, pr_handshake_rounds = None, pr_close_rounds = None,
      pr_sent = [], pr_received = [], pr_expected = expected, pr_timed_out = False\<rparr>"

datatype PeerEvent =
    EvStart string bool
  | EvConnect bool
  | EvHandshake bool "nat option"
  | EvSent int pstr
  | EvReceived json json
  | EvMatch nat nat bool
  | EvClosing bool
  | EvClosed bool "nat option"
  | EvError string
  | EvDone PeerResult

section \<open>The world of a drive\<close>

record 'w peer_ops =
  po_world :: "'w world_ops"
  po_perf_counter :: "'w \<Rightarrow> time \<times> 'w"
  po_sleep :: "time \<Rightarrow> 'w \<Rightarrow> 'w"
  po_advance :: "time \<Rightarrow> 'w \<Rightarrow> 'w"
  po_close_channel :: "'w \<Rightarrow> 'w"

text \<open>The variables of a drive: the session and the world, the chat, the result under construction, the events.\<close>

record 'w Drive =
  dr_session :: "Session \<times> 'w"
  dr_chat :: ChatSession
  dr_result :: PeerResult
  dr_events :: "PeerEvent list"

definition peer_emit :: "PeerEvent \<Rightarrow> 'w Drive \<Rightarrow> 'w Drive" where
  "peer_emit e d = d\<lparr>dr_events := dr_events d @ [e]\<rparr>"

definition set_result :: "(PeerResult \<Rightarrow> PeerResult) \<Rightarrow> 'w Drive \<Rightarrow> 'w Drive" where
  "set_result f d = d\<lparr>dr_result := f (dr_result d)\<rparr>"

text \<open>A step of a drive: \<open>None\<close> does not return, \<open>Inl\<close> an exception, \<open>Inr\<close> a value.\<close>

type_synonym ('a, 'w) drive = "'w Drive \<Rightarrow> ('a result \<times> 'w Drive) option"

definition drive_bind :: "('a, 'w) drive \<Rightarrow> ('a \<Rightarrow> ('b, 'w) drive) \<Rightarrow> ('b, 'w) drive" where
  "drive_bind m f d =
     Option.bind (m d) (\<lambda>(r, d1). case r of Inl e \<Rightarrow> Some (Inl e, d1) | Inr x \<Rightarrow> f x d1)"

definition drive_return :: "'a \<Rightarrow> ('a, 'w) drive" where
  "drive_return x d = Some (Inr x, d)"

definition drive_do :: "('w Drive \<Rightarrow> 'w Drive) \<Rightarrow> (unit, 'w) drive" where
  "drive_do f d = Some (Inr (), f d)"

section \<open>One round\<close>

definition peer_round :: "'w peer_ops \<Rightarrow> time \<Rightarrow> time \<Rightarrow> 'w Drive \<Rightarrow> bool \<times> 'w Drive" where
  "peer_round po deadline hold d =
     (let (s, w) = dr_session d; (t, w1) = po_perf_counter po w in
      if deadline < t then (False, set_result (\<lambda>r. r\<lparr>pr_timed_out := True\<rparr>) (d\<lparr>dr_session := (s, w1)\<rparr>))
      else (True, d\<lparr>dr_session := (s, po_sleep po hold (po_advance po ROUND_DT w1))\<rparr>))"

definition peer_pump :: "(pstr \<Rightarrow> real) \<Rightarrow> 'w peer_ops \<Rightarrow> (ChatMessage list, 'w) drive" where
  "peer_pump fp po d =
     map_option (\<lambda>(r, c, s). (r, d\<lparr>dr_chat := c, dr_session := s\<rparr>))
       (chat_pump fp (session_api (po_world po)) (dr_chat d) (dr_session d))"

definition peer_connect :: "'w peer_ops \<Rightarrow> (SessionEvent list, 'w) drive" where
  "peer_connect po d =
     (let (r, s) = chat_connect (session_api (po_world po)) (dr_session d) in Some (r, d\<lparr>dr_session := s\<rparr>))"

definition peer_close :: "'w peer_ops \<Rightarrow> (SessionEvent list, 'w) drive" where
  "peer_close po d =
     (let (r, s) = chat_close (session_api (po_world po)) (dr_session d) in Some (r, d\<lparr>dr_session := s\<rparr>))"

definition peer_send :: "(real \<Rightarrow> pstr) \<Rightarrow> 'w peer_ops \<Rightarrow> pstr \<Rightarrow> (int, 'w) drive" where
  "peer_send fr po msg d =
     (let (r, c, s) = send_message fr (session_api (po_world po)) msg (dr_chat d) (dr_session d)
      in Some (r, d\<lparr>dr_chat := c, dr_session := s\<rparr>))"

section \<open>The three stages\<close>

text \<open>\<open>for rnd in range(rnd, cap + 1)\<close>, with the number of rounds left as the recursion argument.\<close>

fun handshake_loop ::
  "(pstr \<Rightarrow> real) \<Rightarrow> 'w peer_ops \<Rightarrow> time \<Rightarrow> time \<Rightarrow> nat \<Rightarrow> nat \<Rightarrow> (unit, 'w) drive" where
  "handshake_loop fp po deadline hold rnd 0 d = Some (Inr (), d)"
| "handshake_loop fp po deadline hold rnd (Suc left) d =
     (case peer_round po deadline hold d of
        (False, d1) \<Rightarrow> Some (Inr (), d1)
      | (True, d1) \<Rightarrow>
          drive_bind (peer_pump fp po)
            (\<lambda>_ d2. if chat_is_established (session_api (po_world po)) (dr_session d2)
               then Some (Inr (), set_result (\<lambda>r. r\<lparr>pr_established := True, pr_handshake_rounds := Some rnd\<rparr>) d2)
               else handshake_loop fp po deadline hold (Suc rnd) left d2) d1)"

fun close_loop ::
  "(pstr \<Rightarrow> real) \<Rightarrow> 'w peer_ops \<Rightarrow> time \<Rightarrow> time \<Rightarrow> nat \<Rightarrow> nat \<Rightarrow> (unit, 'w) drive" where
  "close_loop fp po deadline hold rnd 0 d = Some (Inr (), d)"
| "close_loop fp po deadline hold rnd (Suc left) d =
     (case peer_round po deadline hold d of
        (False, d1) \<Rightarrow> Some (Inr (), d1)
      | (True, d1) \<Rightarrow>
          drive_bind (peer_pump fp po)
            (\<lambda>_ d2. if chat_is_closed (session_api (po_world po)) (dr_session d2)
               then Some (Inr (), set_result (\<lambda>r. r\<lparr>pr_closed := True, pr_close_rounds := Some rnd\<rparr>) d2)
               else close_loop fp po deadline hold (Suc rnd) left d2) d1)"

text \<open>The exchange: at most one message sent per round, in order, then a pump.\<close>

definition send_next ::
  "(real \<Rightarrow> pstr) \<Rightarrow> 'w peer_ops \<Rightarrow> pstr list \<Rightarrow> (pstr list, 'w) drive" where
  "send_next fr po out d =
     (case out of
        [] \<Rightarrow> Some (Inr [], d)
      | msg # rest \<Rightarrow>
          drive_bind (peer_send fr po msg)
            (\<lambda>i d1. Some (Inr rest,
               peer_emit (EvSent i msg) (set_result (\<lambda>r. r\<lparr>pr_sent := pr_sent r @ [msg]\<rparr>) d1))) d)"

fun chat_rounds ::
  "(real \<Rightarrow> pstr) \<Rightarrow> (pstr \<Rightarrow> real) \<Rightarrow> 'w peer_ops \<Rightarrow> time \<Rightarrow> time \<Rightarrow> nat \<Rightarrow> nat \<Rightarrow> pstr list \<Rightarrow> (unit, 'w) drive" where
  "chat_rounds fr fp po deadline hold 0 expected out d = Some (Inr (), d)"
| "chat_rounds fr fp po deadline hold (Suc left) expected out d =
     (case peer_round po deadline hold d of
        (False, d1) \<Rightarrow> Some (Inr (), d1)
      | (True, d1) \<Rightarrow>
          drive_bind (send_next fr po out)
            (\<lambda>rest. drive_bind (peer_pump fp po)
               (\<lambda>new d2.
                  let d3 = fold (\<lambda>m. peer_emit (EvReceived (cm_msg_id m) (cm_text m))) new d2 in
                  if rest = [] \<and> expected \<le> length (chat_received (dr_chat d3)) then Some (Inr (), d3)
                  else chat_rounds fr fp po deadline hold left expected rest d3)) d1)"

section \<open>The drive\<close>

definition note_match :: "pstr list \<Rightarrow> 'w Drive \<Rightarrow> 'w Drive" where
  "note_match expected d =
     (let received = map cm_text (chat_received (dr_chat d)); ok = (received = map JStr expected)
      in peer_emit (EvMatch (length received) (length expected) ok)
           (set_result (\<lambda>r. r\<lparr>pr_received := received, pr_messages_match := ok\<rparr>) d))"

definition note_handshake :: "'w Drive \<Rightarrow> 'w Drive" where
  "note_handshake d =
     (let r = dr_result d; d1 = peer_emit (EvHandshake (pr_established r) (pr_handshake_rounds r)) d
      in if pr_established r then d1 else peer_emit (EvError ''handshake'') d1)"

definition note_closed :: "'w Drive \<Rightarrow> 'w Drive" where
  "note_closed d =
     (let r = dr_result d; d1 = peer_emit (EvClosed (pr_closed r) (pr_close_rounds r)) d
      in if pr_closed r then d1 else peer_emit (EvError ''close'') d1)"

text \<open>\<open>_drive\<close> after the handshake: the exchange and the close.\<close>

definition drive_rest ::
  "(real \<Rightarrow> pstr) \<Rightarrow> (pstr \<Rightarrow> real) \<Rightarrow> 'w peer_ops \<Rightarrow> bool \<Rightarrow> time \<Rightarrow> time \<Rightarrow> pstr list \<Rightarrow> pstr list \<Rightarrow> (unit, 'w) drive" where
  "drive_rest fr fp po is_initiator deadline hold out expected =
     drive_bind (chat_rounds fr fp po deadline hold MAX_CHAT_ROUNDS (length expected) out)
       (\<lambda>_. drive_bind (drive_do (note_match expected))
       (\<lambda>_. drive_bind (if is_initiator then peer_close po else drive_return [])
       (\<lambda>_. drive_bind (drive_do (peer_emit (EvClosing is_initiator)))
       (\<lambda>_. drive_bind (close_loop fp po deadline hold 1 MAX_CLOSE_ROUNDS)
       (\<lambda>_. drive_do note_closed)))))"

definition drive ::
  "(real \<Rightarrow> pstr) \<Rightarrow> (pstr \<Rightarrow> real) \<Rightarrow> 'w peer_ops \<Rightarrow> bool \<Rightarrow> time \<Rightarrow> time \<Rightarrow> pstr list \<Rightarrow> pstr list \<Rightarrow> (unit, 'w) drive" where
  "drive fr fp po is_initiator deadline hold out expected =
     drive_bind (if is_initiator then peer_connect po else drive_return [])
       (\<lambda>_. drive_bind (drive_do (peer_emit (EvConnect is_initiator)))
       (\<lambda>_. drive_bind (handshake_loop fp po deadline hold 1 MAX_HANDSHAKE_ROUNDS)
       (\<lambda>_. drive_bind (drive_do note_handshake)
       (\<lambda>_ d. if pr_established (dr_result d)
              then drive_rest fr fp po is_initiator deadline hold out expected d
              else Some (Inr (), d)))))"

text \<open>\<open>_finish\<close>.\<close>

definition peer_finish :: "'w peer_ops \<Rightarrow> time \<Rightarrow> 'w Drive \<Rightarrow> PeerResult \<times> 'w Drive" where
  "peer_finish po started d =
     (let (s, w) = dr_session d; (t, w1) = po_perf_counter po w;
          r = dr_result d;
          r1 = r\<lparr>pr_wall_seconds := t - started,
                 pr_passed := pr_established r \<and> pr_messages_match r \<and> pr_closed r\<rparr>
      in (r1, peer_emit (EvDone r1) (d\<lparr>dr_session := (s, w1), dr_result := r1\<rparr>)))"

definition peer_session :: "bool \<Rightarrow> Session" where
  "peer_session is_initiator =
     Session_init is_initiator (if is_initiator then 1 else 0) (if is_initiator then 1000 else 5000)
       HEARTBEAT_INTERVAL IDLE_TIMEOUT DEFAULT_ARQ_WINDOW_SIZE DEFAULT_ARQ_MAX_PAYLOAD None
       DEFAULT_CONTROL_RTO DEFAULT_MAX_CONTROL_RETRIES"

definition run_peer ::
  "(real \<Rightarrow> pstr) \<Rightarrow> (pstr \<Rightarrow> real) \<Rightarrow> 'w peer_ops \<Rightarrow> string \<Rightarrow> pstr list list \<Rightarrow> time \<Rightarrow> time \<Rightarrow> bool \<Rightarrow> 'w
    \<Rightarrow> (PeerResult result \<times> PeerEvent list \<times> 'w) option" where
  "run_peer fr fp po role messages timeout hold close_channel w =
     (if role \<notin> {''sender'', ''receiver''} \<or> hold \<le> 0 \<or> length messages < 2 then Some (Inl ValueError, [], w)
      else
        (let is_initiator = (role = ''sender'');
             out = (if is_initiator then messages ! 0 else messages ! 1);
             expected = (if is_initiator then messages ! 1 else messages ! 0);
             (started, w1) = po_perf_counter po w;
             d0 = \<lparr>dr_session = (peer_session is_initiator, w1), dr_chat = ChatSession_init DEFAULT_STREAM_ID,
                   dr_result = PeerResult_init role expected, dr_events = [EvStart role is_initiator]\<rparr>
         in map_option
              (\<lambda>(r, d).
                 let d1 = (if close_channel
                     then d\<lparr>dr_session := (fst (dr_session d), po_close_channel po (snd (dr_session d)))\<rparr> else d)
                 in case r of
                      Inl e \<Rightarrow> (Inl e, dr_events d1, snd (dr_session d1))
                    | Inr _ \<Rightarrow>
                        (let (result, d2) = peer_finish po started d1
                         in (Inr result, dr_events d2, snd (dr_session d2))))
              (drive fr fp po is_initiator (started + timeout) hold out expected d0)))"

end
