(* ===== verification/Peer_Props.thy ===== *)
theory Peer_Props
  imports Peer Session_Props Image_Loopback Chat_Props
begin

text \<open>
  What a drive promises: it returns whenever its pumps do, within the round caps, and then its
  last event and its result tell the same verdict.
\<close>

section \<open>Invariants of a drive\<close>

definition leads :: "('w Drive \<Rightarrow> bool) \<Rightarrow> ('a, 'w) drive \<Rightarrow> ('w Drive \<Rightarrow> bool) \<Rightarrow> bool" where
  "leads I m J \<longleftrightarrow> (\<forall>d r d'. I d \<longrightarrow> m d = Some (r, d') \<longrightarrow> J d')"

abbreviation keeps :: "('w Drive \<Rightarrow> bool) \<Rightarrow> ('a, 'w) drive \<Rightarrow> bool" where
  "keeps I m \<equiv> leads I m I"

lemmas keeps_def = leads_def

lemma leadsD: "leads I m J \<Longrightarrow> I d \<Longrightarrow> m d = Some (r, d') \<Longrightarrow> J d'"
  by (auto simp: leads_def)

lemmas keepsD = leadsD

text \<open>An exception leaves with the state of the step that raised it, hence the third premise.\<close>

lemma leads_bind:
  assumes "leads I m J" and "\<And>x. leads J (f x) K" and "\<And>d. J d \<Longrightarrow> K d"
  shows "leads I (drive_bind m f) K"
  unfolding leads_def drive_bind_def
proof (intro allI impI)
  fix d r d'
  assume I: "I d" and m: "Option.bind (m d) (\<lambda>(r, d1). case r of Inl e \<Rightarrow> Some (Inl e, d1) | Inr x \<Rightarrow> f x d1) = Some (r, d')"
  then obtain q d1 where q: "m d = Some (q, d1)" by (auto simp: bind_eq_Some_conv)
  with I assms(1) have "J d1" by (rule_tac leadsD)
  with m q assms(2,3) show "K d'" by (cases q) (auto dest: leadsD)
qed

lemma keeps_bind: "keeps I m \<Longrightarrow> (\<And>x. keeps I (f x)) \<Longrightarrow> keeps I (drive_bind m f)"
  by (rule leads_bind)

lemma keeps_do: "(\<And>d. I d \<Longrightarrow> I (f d)) \<Longrightarrow> keeps I (drive_do f)"
  by (simp add: keeps_def drive_do_def)

lemma keeps_return: "keeps I (drive_return x)"
  by (simp add: keeps_def drive_return_def)

text \<open>An invariant of the result and the events is kept by everything that touches only the session and the chat.\<close>

definition noted :: "(PeerResult \<Rightarrow> PeerEvent list \<Rightarrow> bool) \<Rightarrow> 'w Drive \<Rightarrow> bool" where
  "noted P d \<longleftrightarrow> P (dr_result d) (dr_events d)"

lemma keeps_calls:
  "keeps (noted P) (peer_pump fp po)" "keeps (noted P) (peer_connect po)"
  "keeps (noted P) (peer_close po)" "keeps (noted P) (peer_send fr po t)"
  by (auto simp: keeps_def noted_def peer_pump_def peer_connect_def peer_close_def peer_send_def
      split_beta Let_def)

definition timeout_blind :: "(PeerResult \<Rightarrow> PeerEvent list \<Rightarrow> bool) \<Rightarrow> bool" where
  "timeout_blind P \<longleftrightarrow> (\<forall>r es. P r es \<longrightarrow> P (r\<lparr>pr_timed_out := True\<rparr>) es)"

lemma peer_round_noted:
  "timeout_blind P \<Longrightarrow> noted P d \<Longrightarrow> noted P (snd (peer_round po deadline hold d))"
  by (auto simp: timeout_blind_def noted_def peer_round_def set_result_def split_beta Let_def)

lemma keeps_handshake:
  assumes "timeout_blind P"
    and "\<And>r es n. P r es \<Longrightarrow> lo \<le> n \<Longrightarrow> n < lo + left \<Longrightarrow>
      P (r\<lparr>pr_established := True, pr_handshake_rounds := Some n\<rparr>) es"
  shows "keeps (noted P) (handshake_loop fp po deadline hold lo left)"
  using assms(2)
proof (induction left arbitrary: lo)
  case 0
  show ?case by (simp add: keeps_def)
next
  case (Suc left)
  have one: "keeps (noted P) (\<lambda>d. if c d then Some (Inr (), set_result (\<lambda>r. r\<lparr>pr_established := True, pr_handshake_rounds := Some lo\<rparr>) d)
      else handshake_loop fp po deadline hold (Suc lo) left d)" for c
    using Suc.IH [of "Suc lo"] Suc.prems [of _ _ lo] Suc.prems
    by (auto simp: keeps_def noted_def set_result_def)
  show ?case
    unfolding keeps_def handshake_loop.simps
    using peer_round_noted [OF assms(1), where po = po and deadline = deadline and hold = hold]
      keepsD [OF keeps_bind [OF keeps_calls(1) one]]
    by (force split: prod.splits bool.splits)
qed

lemma keeps_close_loop:
  assumes "timeout_blind P"
    and "\<And>r es n. P r es \<Longrightarrow> lo \<le> n \<Longrightarrow> n < lo + left \<Longrightarrow>
      P (r\<lparr>pr_closed := True, pr_close_rounds := Some n\<rparr>) es"
  shows "keeps (noted P) (close_loop fp po deadline hold lo left)"
  using assms(2)
proof (induction left arbitrary: lo)
  case 0
  show ?case by (simp add: keeps_def)
next
  case (Suc left)
  have one: "keeps (noted P) (\<lambda>d. if c d then Some (Inr (), set_result (\<lambda>r. r\<lparr>pr_closed := True, pr_close_rounds := Some lo\<rparr>) d)
      else close_loop fp po deadline hold (Suc lo) left d)" for c
    using Suc.IH [of "Suc lo"] Suc.prems [of _ _ lo] Suc.prems
    by (auto simp: keeps_def noted_def set_result_def)
  show ?case
    unfolding keeps_def close_loop.simps
    using peer_round_noted [OF assms(1), where po = po and deadline = deadline and hold = hold]
      keepsD [OF keeps_bind [OF keeps_calls(1) one]]
    by (force split: prod.splits bool.splits)
qed

section \<open>The tale of a drive\<close>

definition rounds_ok :: "bool \<Rightarrow> nat \<Rightarrow> nat option \<Rightarrow> bool" where
  "rounds_ok b cap n \<longleftrightarrow> (case n of None \<Rightarrow> \<not> b | Some k \<Rightarrow> b \<and> 1 \<le> k \<and> k \<le> cap)"

definition is_done :: "PeerEvent \<Rightarrow> bool" where
  "is_done e = (case e of EvDone r \<Rightarrow> True | _ \<Rightarrow> False)"

text \<open>What the result and the events say during a drive; \<open>rest\<close> are the messages still to send.\<close>

definition tale :: "string \<Rightarrow> pstr list \<Rightarrow> pstr list \<Rightarrow> pstr list \<Rightarrow> PeerResult \<Rightarrow> PeerEvent list \<Rightarrow> bool" where
  "tale role out expected rest r es \<longleftrightarrow>
     es \<noteq> [] \<and> hd es = EvStart role (role = ''sender'') \<and> filter is_done es = [] \<and>
     pr_role r = role \<and> pr_expected r = expected \<and>
     rounds_ok (pr_established r) MAX_HANDSHAKE_ROUNDS (pr_handshake_rounds r) \<and>
     rounds_ok (pr_closed r) MAX_CLOSE_ROUNDS (pr_close_rounds r) \<and>
     (pr_messages_match r \<longrightarrow> pr_received r = map JStr expected) \<and> pr_sent r @ rest = out"

definition told :: "string \<Rightarrow> pstr list \<Rightarrow> pstr list \<Rightarrow> PeerResult \<Rightarrow> PeerEvent list \<Rightarrow> bool" where
  "told role out expected r es \<longleftrightarrow> (\<exists>rest. tale role out expected rest r es)"

lemma told_tale: "noted (tale role out expected rest) d \<Longrightarrow> noted (told role out expected) d"
  by (auto simp: noted_def told_def)

lemma tale_blind: "timeout_blind (tale role out expected rest)" "timeout_blind (told role out expected)"
  by (auto simp: timeout_blind_def tale_def told_def)

lemma tale_emit:
  "noted (tale role out expected rest) d \<Longrightarrow> \<not> is_done e \<Longrightarrow> noted (tale role out expected rest) (peer_emit e d)"
  by (simp add: noted_def tale_def peer_emit_def)

lemma told_emit:
  "noted (told role out expected) d \<Longrightarrow> \<not> is_done e \<Longrightarrow> noted (told role out expected) (peer_emit e d)"
  unfolding noted_def told_def using tale_emit [unfolded noted_def] by blast

lemma tale_received:
  "noted (tale role out expected rest) d \<Longrightarrow>
   noted (tale role out expected rest) (fold (\<lambda>m. peer_emit (EvReceived (cm_msg_id m) (cm_text m))) new d)"
  by (induction new arbitrary: d) (simp_all add: tale_emit is_done_def)

lemma leads_send_next:
  "leads (noted (tale role out expected rest)) (send_next fr po rest) (noted (told role out expected))"
  "noted (tale role out expected rest) d \<Longrightarrow> send_next fr po rest d = Some (Inr rest', d') \<Longrightarrow>
    noted (tale role out expected rest') d'"
proof -
  have *: "case r of Inl e \<Rightarrow> noted (tale role out expected rest) d' | Inr rest' \<Rightarrow> noted (tale role out expected rest') d'"
    if "noted (tale role out expected rest) d" "send_next fr po rest d = Some (r, d')" for d r d'
  proof (cases rest)
    case Nil
    with that show ?thesis by (auto simp: send_next_def)
  next
    case (Cons m ms)
    obtain q d1 where q: "peer_send fr po m d = Some (q, d1)" by (auto simp: peer_send_def split_beta Let_def)
    have "noted (tale role out expected rest) d1" using keepsD [OF keeps_calls(4) that(1) q] .
    with that(2) Cons q show ?thesis
      by (cases q) (auto simp: send_next_def drive_bind_def noted_def tale_def peer_emit_def set_result_def is_done_def)
  qed
  show "leads (noted (tale role out expected rest)) (send_next fr po rest) (noted (told role out expected))"
    unfolding leads_def using * by (fastforce split: sum.splits dest: told_tale)
  show "noted (tale role out expected rest) d \<Longrightarrow> send_next fr po rest d = Some (Inr rest', d') \<Longrightarrow>
      noted (tale role out expected rest') d'"
    using * by fastforce
qed

lemma leads_chat_rounds:
  "leads (noted (tale role out expected rest)) (chat_rounds fr fp po deadline hold left n rest)
     (noted (told role out expected))"
proof (induction left arbitrary: rest)
  case 0
  show ?case by (auto simp: leads_def dest: told_tale)
next
  case (Suc left)
  show ?case
    unfolding leads_def
  proof (intro allI impI)
    fix d r d'
    assume t: "noted (tale role out expected rest) d"
      and run: "chat_rounds fr fp po deadline hold (Suc left) n rest d = Some (r, d')"
    obtain b d1 where b: "peer_round po deadline hold d = (b, d1)" by fastforce
    have t1: "noted (tale role out expected rest) d1"
      using peer_round_noted [OF tale_blind(1) t, of po deadline hold] b by simp
    show "noted (told role out expected) d'"
    proof (cases b)
      case False
      with run b t1 show ?thesis by (auto dest: told_tale)
    next
      case True
      with run b obtain q d2 where s: "send_next fr po rest d1 = Some (q, d2)"
        by (auto simp: drive_bind_def bind_eq_Some_conv)
      show ?thesis
      proof (cases q)
        case (Inl e)
        with run b True s leadsD [OF leads_send_next(1) t1 s] show ?thesis by (auto simp: drive_bind_def)
      next
        case (Inr rest')
        have t2: "noted (tale role out expected rest') d2" using leads_send_next(2) [OF t1] s Inr by blast
        from run b True s Inr obtain q2 d3 where p: "peer_pump fp po d2 = Some (q2, d3)"
          by (auto simp: drive_bind_def bind_eq_Some_conv)
        have t3: "noted (tale role out expected rest') d3" using keepsD [OF keeps_calls(1) t2 p] .
        show ?thesis
        proof (cases q2)
          case (Inl e)
          with run b True s Inr p t3 show ?thesis by (auto simp: drive_bind_def dest: told_tale)
        next
          case (Inr new)
          let ?d4 = "fold (\<lambda>m. peer_emit (EvReceived (cm_msg_id m) (cm_text m))) new d3"
          have t4: "noted (tale role out expected rest') ?d4" by (rule tale_received [OF t3])
          have "d' = ?d4 \<or> chat_rounds fr fp po deadline hold left n rest' ?d4 = Some (r, d')"
            using run b True s \<open>q = Inr rest'\<close> p Inr by (auto simp: drive_bind_def Let_def split: if_splits)
          with t4 leadsD [OF Suc.IH t4] show ?thesis by (auto dest: told_tale)
        qed
      qed
    qed
  qed
qed

lemma told_result:
  assumes "\<And>r es rest. tale role out expected rest r es \<Longrightarrow> tale role out expected rest (f r) es"
  shows "noted (told role out expected) d \<Longrightarrow> noted (told role out expected) (set_result f d)"
  using assms by (auto simp: noted_def told_def set_result_def)

lemma keeps_drive_rest:
  fixes po :: "'w peer_ops"
  shows "leads (noted (tale role out expected out)) (drive_rest fr fp po ini deadline hold out expected)
     (noted (told role out expected))"
proof -
  note did = is_done_def
  have m: "noted (told role out expected) d \<Longrightarrow> noted (told role out expected) (note_match expected d)" for d :: "'w Drive"
    unfolding note_match_def Let_def
    by (rule told_emit [OF told_result]) (auto simp: tale_def did)
  have c: "noted (told role out expected) d \<Longrightarrow> noted (told role out expected) (note_closed d)" for d :: "'w Drive"
    unfolding note_closed_def Let_def by (auto intro!: told_emit simp: did)
  have l: "keeps (noted (told role out expected)) (close_loop fp po deadline hold 1 MAX_CLOSE_ROUNDS)"
    by (rule keeps_close_loop [OF tale_blind(2)]) (auto simp: told_def tale_def rounds_ok_def)
  have e: "keeps (noted (told role out expected)) (drive_do (peer_emit (EvClosing ini)))"
    by (rule keeps_do) (simp add: told_emit did)
  have x: "keeps (noted (told role out expected)) (if ini then peer_close po else drive_return [])"
    by (simp add: keeps_calls keeps_return)
  show ?thesis
    unfolding drive_rest_def
    by (intro leads_bind [OF leads_chat_rounds] keeps_bind keeps_do m c l e x)
qed

lemma drive_told:
  fixes po :: "'w peer_ops"
  shows "leads (noted (tale role out expected out)) (drive fr fp po ini deadline hold out expected)
     (noted (told role out expected))"
proof -
  note did = is_done_def
  have h: "keeps (noted (tale role out expected out)) (handshake_loop fp po deadline hold 1 MAX_HANDSHAKE_ROUNDS)"
    by (rule keeps_handshake [OF tale_blind(1)]) (auto simp: tale_def rounds_ok_def)
  have n: "noted (tale role out expected out) d \<Longrightarrow> noted (tale role out expected out) (note_handshake d)" for d :: "'w Drive"
    unfolding note_handshake_def Let_def by (auto intro!: tale_emit simp: did)
  have nn: "keeps (noted (tale role out expected out)) (drive_do (note_handshake :: 'w Drive \<Rightarrow> 'w Drive))" by (rule keeps_do) (rule n)
  have e: "keeps (noted (tale role out expected out)) (drive_do (peer_emit (EvConnect ini)))"
    by (rule keeps_do) (simp add: tale_emit did)
  have x: "keeps (noted (tale role out expected out)) (if ini then peer_connect po else drive_return [])"
    by (simp add: keeps_calls keeps_return)
  have r: "leads (noted (tale role out expected out))
      (\<lambda>d. if pr_established (dr_result d) then drive_rest fr fp po ini deadline hold out expected d else Some (Inr (), d))
      (noted (told role out expected))"
    by (auto simp: leads_def split: if_splits dest: told_tale leadsD [OF keeps_drive_rest])
  show ?thesis
    unfolding drive_def
    by (intro leads_bind [OF x] leads_bind [OF e] leads_bind [OF h] leads_bind [OF nn] r told_tale)
qed

section \<open>A drive returns\<close>

definition returns :: "('a, 'w) drive \<Rightarrow> bool" where
  "returns m \<longleftrightarrow> (\<forall>d. m d \<noteq> None)"

lemma returns_bind: "returns m \<Longrightarrow> (\<And>x. returns (f x)) \<Longrightarrow> returns (drive_bind m f)"
  unfolding returns_def
proof
  fix d
  assume m: "\<forall>d. m d \<noteq> None" and f: "\<And>x. \<forall>d. f x d \<noteq> None"
  then obtain r d1 where "m d = Some (r, d1)" by (metis option.exhaust prod.exhaust)
  with f show "drive_bind m f d \<noteq> None" by (cases r) (simp_all add: drive_bind_def)
qed

lemma returns_simple:
  "returns (drive_do f)" "returns (drive_return x)" "returns (peer_connect po)" "returns (peer_close po)"
  "returns (peer_send fr po t)"
  by (simp_all add: returns_def drive_do_def drive_return_def peer_connect_def peer_close_def peer_send_def
      split_beta Let_def)

lemma returns_send_next: "returns (send_next fr po out)"
proof (cases out)
  case (Cons m ms)
  have "returns (drive_bind (peer_send fr po m) (\<lambda>i d1. Some (Inr ms,
      peer_emit (EvSent i m) (set_result (\<lambda>r. r\<lparr>pr_sent := pr_sent r @ [m]\<rparr>) d1))))"
    by (rule returns_bind [OF returns_simple(5)]) (simp add: returns_def)
  with Cons show ?thesis by (simp add: returns_def send_next_def)
qed (simp add: returns_def send_next_def)

context finite_world
begin

lemma peer_pump_returns:
  assumes "po_world po = ops"
  shows "returns (peer_pump fp po)"
  unfolding returns_def
proof
  fix d :: "'w Drive"
  obtain r s w where "pump ops None (fst (dr_session d)) (snd (dr_session d)) = Some (r, s, w)"
    using pump_some by blast
  then have "so_pump (session_api ops) (dr_session d) = Some (r, s, w)" by (simp add: session_api_def split_beta)
  then show "peer_pump fp po d \<noteq> None"
    by (cases r) (simp_all add: assms peer_pump_def chat_pump_def split_beta Let_def split: sum.split)
qed

lemma handshake_returns:
  assumes "po_world po = ops"
  shows "returns (handshake_loop fp po deadline hold lo left)"
proof (induction left arbitrary: lo)
  case (Suc left)
  let ?go = "\<lambda>_ d. if chat_is_established (session_api (po_world po)) (dr_session d)
      then Some (Inr (), set_result (\<lambda>r. r\<lparr>pr_established := True, pr_handshake_rounds := Some lo\<rparr>) d)
      else handshake_loop fp po deadline hold (Suc lo) left d"
  have "returns (?go x)" for x :: "ChatMessage list" using Suc [of "Suc lo"] by (simp add: returns_def)
  then have "returns (drive_bind (peer_pump fp po) ?go)"
    using returns_bind [OF peer_pump_returns [OF assms], where f = ?go] by blast
  then show ?case by (auto simp: returns_def split: prod.split bool.split)
qed (simp add: returns_def)

lemma close_returns:
  assumes "po_world po = ops"
  shows "returns (close_loop fp po deadline hold lo left)"
proof (induction left arbitrary: lo)
  case (Suc left)
  let ?go = "\<lambda>_ d. if chat_is_closed (session_api (po_world po)) (dr_session d)
      then Some (Inr (), set_result (\<lambda>r. r\<lparr>pr_closed := True, pr_close_rounds := Some lo\<rparr>) d)
      else close_loop fp po deadline hold (Suc lo) left d"
  have "returns (?go x)" for x :: "ChatMessage list" using Suc [of "Suc lo"] by (simp add: returns_def)
  then have "returns (drive_bind (peer_pump fp po) ?go)"
    using returns_bind [OF peer_pump_returns [OF assms], where f = ?go] by blast
  then show ?case by (auto simp: returns_def split: prod.split bool.split)
qed (simp add: returns_def)

lemma chat_rounds_return:
  assumes "po_world po = ops"
  shows "returns (chat_rounds fr fp po deadline hold left n out)"
proof (induction left arbitrary: out)
  case (Suc left)
  let ?go = "\<lambda>rest new d2.
      let d3 = fold (\<lambda>m. peer_emit (EvReceived (cm_msg_id m) (cm_text m))) new d2 in
      if rest = [] \<and> n \<le> length (chat_received (dr_chat d3)) then Some (Inr (), d3)
      else chat_rounds fr fp po deadline hold left n rest d3"
  have "returns (?go rest new)" for rest and new :: "ChatMessage list"
    using Suc [of rest] by (auto simp: returns_def Let_def)
  then have "returns (drive_bind (send_next fr po out) (\<lambda>rest. drive_bind (peer_pump fp po) (?go rest)))"
    by (intro returns_bind returns_send_next peer_pump_returns assms)
  then show ?case by (auto simp: returns_def split: prod.split bool.split)
qed (simp add: returns_def)

lemma drive_returns:
  assumes "po_world po = ops"
  shows "returns (drive fr fp po ini deadline hold out expected)"
proof -
  have r: "returns (drive_rest fr fp po ini deadline hold out expected)"
    unfolding drive_rest_def
    by (intro returns_bind returns_simple chat_rounds_return close_returns assms) (simp add: returns_simple)
  then have "returns (\<lambda>d. if pr_established (dr_result d)
      then drive_rest fr fp po ini deadline hold out expected d else Some (Inr (), d))"
    by (simp add: returns_def)
  then show ?thesis
    unfolding drive_def
    by (intro returns_bind returns_simple handshake_returns assms) (simp_all add: returns_simple)
qed

lemma run_peer_some:
  assumes "po_world po = ops"
  shows "run_peer fr fp po role messages timeout hold close_channel w \<noteq> None"
proof -
  from drive_returns [OF assms] have "(drive fr fp po ini deadline h out expected d = None) = False"
    for ini deadline h out expected d by (simp add: returns_def)
  then show ?thesis by (simp add: run_peer_def Let_def split_beta del: not_None_eq)
qed

end

section \<open>Properties\<close>

text \<open>
  C30. A drive over one end of a loopback pair or of an image loopback pair returns, by a result or an
  exception, whatever the timing functions, the noise and the frames in flight are.
\<close>

theorem run_peer_returns:
  "run_peer fr fp \<lparr>po_world = loop_ops_a rops, po_perf_counter = perf, po_sleep = slp, po_advance = adv,
     po_close_channel = cls\<rparr> role messages timeout hold close_channel w \<noteq> None \<and>
   run_peer fr fp \<lparr>po_world = image_ops_a segno decode degrade rops', po_perf_counter = perf', po_sleep = slp',
     po_advance = adv', po_close_channel = cls'\<rparr> role messages timeout hold close_channel w' \<noteq> None"
  by (intro conjI backlog_a.run_peer_some image_backlog.run_peer_some) simp_all

text \<open>
  C29. A drive that returns a result: the first event is the start and the only \<open>done\<close> event is the last
  one and carries the result; \<open>passed\<close> is established, matched and closed, each stage within its
  round cap; matching means the texts received are the expected ones; the messages sent are the
  first ones of the own half.
\<close>

theorem peer_verdict:
  assumes "run_peer fr fp po role messages timeout hold close_channel w = Some (Inr res, es, w')"
  shows "pr_passed res = (pr_established res \<and> pr_messages_match res \<and> pr_closed res) \<and>
    hd es = EvStart role (role = ''sender'') \<and> last es = EvDone res \<and> filter is_done es = [EvDone res] \<and>
    rounds_ok (pr_established res) 200 (pr_handshake_rounds res) \<and>
    rounds_ok (pr_closed res) 200 (pr_close_rounds res) \<and>
    (pr_messages_match res \<longrightarrow> pr_received res = map JStr (messages ! (if role = ''sender'' then 1 else 0))) \<and>
    take (length (pr_sent res)) (messages ! (if role = ''sender'' then 0 else 1)) = pr_sent res"
proof -
  let ?ini = "role = ''sender''"
  let ?out = "messages ! (if ?ini then 0 else 1)" and ?exp = "messages ! (if ?ini then 1 else 0)"
  obtain t0 w1 where t0: "po_perf_counter po w = (t0, w1)" by fastforce
  let ?d0 = "\<lparr>dr_session = (peer_session ?ini, w1), dr_chat = ChatSession_init DEFAULT_STREAM_ID,
      dr_result = PeerResult_init role ?exp, dr_events = [EvStart role ?ini]\<rparr>"
  have out: "(if ?ini then messages ! 0 else messages ! 1) = ?out" "(if ?ini then messages ! 1 else messages ! 0) = ?exp"
    by simp_all
  have guard: "\<not> (role \<notin> {''sender'', ''receiver''} \<or> hold \<le> 0 \<or> length messages < 2)"
    using assms unfolding run_peer_def by (auto split: if_splits)
  obtain q d where d: "drive fr fp po ?ini (t0 + timeout) hold ?out ?exp ?d0 = Some (q, d)"
  proof (cases "drive fr fp po ?ini (t0 + timeout) hold ?out ?exp ?d0")
    case None
    with assms guard show ?thesis unfolding run_peer_def Let_def t0 prod.case out by (simp only: if_False option.map option.distinct)
  next
    case (Some x)
    with that show ?thesis by (cases x) simp
  qed
  let ?d1 = "if close_channel then d\<lparr>dr_session := (fst (dr_session d), po_close_channel po (snd (dr_session d)))\<rparr> else d"
  have run: "Some (Inr res, es, w') = Some (case q of
      Inl e \<Rightarrow> (Inl e, dr_events ?d1, snd (dr_session ?d1))
    | Inr _ \<Rightarrow> (let (result, d2) = peer_finish po t0 ?d1 in (Inr result, dr_events d2, snd (dr_session d2))))"
    using assms guard unfolding run_peer_def Let_def t0 prod.case out d by (simp only: if_False option.map prod.case)
  obtain s where d1: "?d1 = d\<lparr>dr_session := s\<rparr>" by (cases close_channel; cases d) auto
  from run have res: "res = fst (peer_finish po t0 (d\<lparr>dr_session := s\<rparr>))"
    and es: "es = dr_events (snd (peer_finish po t0 (d\<lparr>dr_session := s\<rparr>)))"
    unfolding d1 by (auto simp: split_beta Let_def split: sum.splits)
  have "noted (tale role ?out ?exp ?out) ?d0"
    by (simp add: noted_def tale_def PeerResult_init_def rounds_ok_def is_done_def)
  from leadsD [OF drive_told this d] obtain rest where t: "tale role ?out ?exp rest (dr_result d) (dr_events d)"
    by (auto simp: noted_def told_def)
  have "take (length (pr_sent (dr_result d))) (pr_sent (dr_result d) @ rest) = pr_sent (dr_result d)" by simp
  with t show ?thesis
    unfolding res es
    by (simp add: tale_def peer_finish_def split_beta Let_def peer_emit_def is_done_def
        MAX_HANDSHAKE_ROUNDS_def MAX_CLOSE_ROUNDS_def)
qed

lemma peer_verdict_witness:
  "\<exists>res es w'. run_peer half_text half_parse
      \<lparr>po_world = loop_ops_a (still_rng 1), po_perf_counter = (\<lambda>w. (0, w)), po_sleep = (\<lambda>t w. w),
       po_advance = (\<lambda>t w. w), po_close_channel = (\<lambda>w. w)\<rparr>
      ''receiver'' [[], []] (- 1) 1 True demo_world = Some (Inr res, es, w') \<and>
    \<not> pr_passed res \<and> last es = EvDone res \<and> pr_timed_out res"
proof -
  let ?po = "\<lparr>po_world = loop_ops_a (still_rng 1), po_perf_counter = (\<lambda>w. (0, w)), po_sleep = (\<lambda>t w. w),
       po_advance = (\<lambda>t w. w), po_close_channel = (\<lambda>w. w)\<rparr>"
  have "\<exists>res es w'. run_peer half_text half_parse ?po ''receiver'' [[], []] (- 1) 1 True demo_world = Some (Inr res, es, w')
      \<and> \<not> pr_established res \<and> pr_timed_out res"
    by (simp add: run_peer_def drive_def drive_bind_def drive_return_def drive_do_def peer_emit_def
        MAX_HANDSHAKE_ROUNDS_def numeral_nat peer_round_def set_result_def note_handshake_def peer_finish_def
        PeerResult_init_def Let_def)
  then obtain res es w' where r: "run_peer half_text half_parse ?po ''receiver'' [[], []] (- 1) 1 True demo_world = Some (Inr res, es, w')"
    "\<not> pr_established res" "pr_timed_out res" by blast
  from peer_verdict [OF r(1)] r show ?thesis by blast
qed

end
