(* ===== verification/Streams.thy ===== *)
theory Streams
  imports Mux Machine Arq_Props
begin

text \<open>
  What ties the packets of a session to its streams: an endpoint marks every packet with its
  stream, the lifecycle machine speaks on stream 0 alone, and a multiplexer of such endpoints
  emits for stream \<open>t\<close> only what the endpoint of \<open>t\<close> emits. Also the number of chunks of an
  endpoint, which is bounded by the bytes it was given.
\<close>

section \<open>An endpoint speaks for its stream\<close>

definition stamped :: "int \<Rightarrow> ArqEndpoint \<Rightarrow> bool" where
  "stamped k ep \<longleftrightarrow> ep_stream_id ep = k \<and> (\<forall>e \<in> set (ep_outstanding ep). p_stream_id (o_packet (snd e)) = k)"

definition on_its_stream :: "int \<Rightarrow> Packet list \<Rightarrow> bool" where
  "on_its_stream k pkts \<longleftrightarrow> (\<forall>p \<in> set pkts. p_stream_id p = k)"

lemma on_its_stream_simps [simp]:
  "on_its_stream k []"
  "on_its_stream k (p # ps) \<longleftrightarrow> p_stream_id p = k \<and> on_its_stream k ps"
  "on_its_stream k (ps @ qs) \<longleftrightarrow> on_its_stream k ps \<and> on_its_stream k qs"
  by (auto simp: on_its_stream_def)

lemma stamped_lookup: "stamped k ep \<Longrightarrow> map_of (ep_outstanding ep) s = Some ob \<Longrightarrow> p_stream_id (o_packet ob) = k"
  by (force simp: stamped_def dest: map_of_SomeD)

lemma stamped_cong:
  "ep_stream_id ep' = ep_stream_id ep \<Longrightarrow> ep_outstanding ep' = ep_outstanding ep \<Longrightarrow> stamped k ep' = stamped k ep"
  by (simp add: stamped_def)

lemma stamped_put:
  assumes "stamped k ep" and "p_stream_id (o_packet ob) = k"
    and "ep_outstanding ep' = AList.update s ob (ep_outstanding ep)" and "ep_stream_id ep' = ep_stream_id ep"
  shows "stamped k ep'"
  using assms set_update_subset [of s ob "ep_outstanding ep"] by (auto simp: stamped_def)

lemma stamped_drop:
  assumes "stamped k ep"
    and "ep_outstanding ep' = AList.delete s (ep_outstanding ep)" and "ep_stream_id ep' = ep_stream_id ep"
  shows "stamped k ep'"
  using assms by (auto simp: stamped_def AList.delete_eq)

lemma stamped_emit_data:
  assumes "stamped k ep"
  shows "stamped k (snd (emit_data ep c now)) \<and> p_stream_id (fst (emit_data ep c now)) = k"
proof
  show k: "p_stream_id (fst (emit_data ep c now)) = k"
    using assms by (simp add: stamped_def emit_data_def Let_def)
  show "stamped k (snd (emit_data ep c now))"
    by (rule stamped_put [OF assms, of "\<lparr>o_packet = fst (emit_data ep c now), o_send_time = now, o_retx_count = 0\<rparr>" _ "ep_next_seq ep"])
      (use k in \<open>simp_all add: emit_data_def Let_def\<close>)
qed

lemma stamped_touch:
  assumes "stamped k ep" and "map_of (ep_outstanding ep) s = Some ob"
  shows "stamped k (touch ep s ob now)"
  by (rule stamped_put [OF assms(1), of "ob\<lparr>o_send_time := now, o_retx_count := o_retx_count ob + 1\<rparr>" _ s])
    (use stamped_lookup [OF assms] in \<open>simp_all add: touch_def\<close>)

lemma stamped_flush:
  "stamped k ep \<Longrightarrow> stamped k (snd (flush_pending ep now)) \<and> on_its_stream k (fst (flush_pending ep now))"
proof (induction ep rule: flush_induct [where now = now])
  case (stop ep)
  then show ?case by (simp add: flush_stop)
next
  case (step ep c rest)
  have "stamped k (ep\<lparr>ep_pending := rest\<rparr>)" using step.prems by (simp add: stamped_def)
  from stamped_emit_data [OF this, of c now] step show ?case by (simp add: flush_step Let_def)
qed

lemma stamped_send_chunks:
  "stamped k ep \<Longrightarrow> stamped k (snd (send_chunks ep cs now)) \<and> on_its_stream k (fst (send_chunks ep cs now))"
proof (induction cs arbitrary: ep)
  case (Cons c cs)
  have "stamped k (ep\<lparr>ep_pending := ep_pending ep @ [c]\<rparr>)" using Cons.prems by (simp add: stamped_def)
  with Cons.IH stamped_emit_data [OF Cons.prems, of c now] show ?case by (simp add: case_prod_beta Let_def)
qed simp

lemma stamped_ack_loop: "stamped k ep \<Longrightarrow> stamped k (snd (ack_loop ep ss now))"
proof (induction ss arbitrary: ep)
  case (Cons s ss)
  show ?case
  proof (cases "map_of (ep_outstanding ep) s")
    case (Some ob)
    let ?ep = "ep\<lparr>ep_outstanding := AList.delete s (ep_outstanding ep),
        ep_acked_bytes := ep_acked_bytes ep + length (p_payload (o_packet ob))\<rparr>"
    have d: "stamped k (?ep\<lparr>ep_rto := r\<rparr>)" "stamped k ?ep" for r
      by (rule stamped_drop [OF Cons.prems, of _ s], simp, simp)+
    obtain r est where r: "on_sample (ep_rto ?ep) (now - o_send_time ob) = (r, est)" by fastforce
    show ?thesis
    proof (cases r)
      case (Inl e)
      with Some r d Cons.IH [OF d(2)] show ?thesis by (simp add: Let_def)
    next
      case (Inr u)
      with Some r Cons.IH [OF d(1)] Cons.IH [OF d(2)] show ?thesis by (simp add: Let_def)
    qed
  qed (use Cons in simp)
qed simp

lemma stamped_tick_loop:
  "stamped k ep \<Longrightarrow> stamped k (snd (snd (tick_loop ep ss now))) \<and> on_its_stream k (fst (tick_loop ep ss now))"
proof (induction ss arbitrary: ep)
  case (Cons s ss)
  show ?case
  proof (cases "map_of (ep_outstanding ep) s")
    case (Some ob)
    from Cons.IH [OF stamped_touch [OF Cons.prems Some], of now] stamped_lookup [OF Cons.prems Some] Cons.prems Some
    show ?thesis by (auto simp: case_prod_beta Let_def stamped_def)
  qed (use Cons in simp)
qed simp

lemma stamped_accept: "stamped k ep \<Longrightarrow> stamped k (snd (accept_data ep pkt))"
  using accept_data_frame [of ep pkt] by (auto simp: stamped_def part_defs)

lemma stamped_send:
  "stamped k ep \<Longrightarrow> stamped k (snd (arq_send ep data now)) \<and> on_its_stream k (ao_packets (fst (arq_send ep data now)))"
  using stamped_send_chunks by (simp add: arq_send_def empty_output_def case_prod_beta)

lemma stamped_tick:
  "stamped k ep \<Longrightarrow> stamped k (snd (arq_on_tick ep now)) \<and> on_its_stream k (ao_packets (fst (arq_on_tick ep now)))"
  using stamped_tick_loop [of k ep "timed_out ep now" now]
  by (cases "tick_loop ep (timed_out ep now) now")
    (auto simp: arq_on_tick_def empty_output_def stamped_def split: bool.split)

lemma stamped_on_packet:
  assumes "stamped k ep"
  shows "stamped k (snd (arq_on_packet ep pkt now)) \<and>
    (case fst (arq_on_packet ep pkt now) of Inl e \<Rightarrow> True | Inr out \<Rightarrow> on_its_stream k (ao_packets out))"
proof -
  obtain ds ep1 where a: "accept_data ep pkt = (ds, ep1)" by fastforce
  have s1: "stamped k ep1" using stamped_accept [OF assms, of pkt] a by simp
  then have d: "stamped k (snd (on_data ep pkt now)) \<and> on_its_stream k (ao_packets (fst (on_data ep pkt now)))"
    using a by (auto simp: on_data_def Let_def ack_packet_def nack_packet_def stamped_def split: option.split)
  have w: "stamped k (ep\<lparr>ep_peer_window := p_window pkt\<rparr>)" using assms by (simp add: stamped_def)
  have n: "stamped k (snd (on_nack ep pkt now)) \<and> on_its_stream k (ao_packets (fst (on_nack ep pkt now)))"
    using w stamped_touch [OF w] stamped_lookup [OF w]
    by (auto simp: on_nack_def Let_def empty_output_def split: option.split)
  let ?l = "ack_loop (ep\<lparr>ep_peer_window := p_window pkt\<rparr>)
      (filter (\<lambda>s. seq_lt s (p_ack pkt)) (dict_keys (ep_outstanding ep))) now"
  have l: "stamped k (snd ?l)" by (rule stamped_ack_loop [OF w])
  have "stamped k (snd (on_ack ep pkt now)) \<and>
      (case fst (on_ack ep pkt now) of Inl e \<Rightarrow> True | Inr out \<Rightarrow> on_its_stream k (ao_packets out))"
    using l stamped_flush [OF l, of now]
    by (cases ?l; cases "fst ?l") (auto simp: on_ack_def Let_def case_prod_beta empty_output_def)
  with assms d n show ?thesis by (simp add: arq_on_packet_def case_prod_beta empty_output_def)
qed

section \<open>A multiplexer of such endpoints\<close>

definition mux_stamped :: "StreamMux \<Rightarrow> bool" where
  "mux_stamped m \<longleftrightarrow> mux_config_ok m \<and> distinct (dict_keys (mx_endpoints m)) \<and>
     (\<forall>(k, ep) \<in> set (mx_endpoints m). stamped k ep)"

lemma stamped_fresh: "mux_config_ok m \<Longrightarrow> stamped k (projr (new_endpoint m k))"
  by (simp add: stamped_def new_endpoint_def ArqEndpoint_init_def mux_config_ok_def DEFAULT_MAX_RETX_def)

lemma mux_stamped_view: "mux_stamped m \<Longrightarrow> stamped k (view m k)"
  by (auto simp: mux_stamped_def view_def stamped_fresh split: option.split dest!: map_of_SomeD)

lemma mux_stamped_put: "mux_stamped m \<Longrightarrow> stamped k ep \<Longrightarrow> mux_stamped (put_endpoint m k ep)"
  using set_update_subset [of k ep "mx_endpoints m"]
  by (auto simp: mux_stamped_def put_endpoint_def mux_config_ok_def distinct_update)

lemma mux_stamped_endpoint:
  assumes "mux_stamped m"
  obtains m1 where "mux_endpoint m k = (Inr (view m k), m1)" and "\<forall>t. view m1 t = view m t" and "mux_stamped m1"
proof (cases "map_of (mx_endpoints m) k")
  case (Some ep)
  with assms show ?thesis by (intro that [of m]) (simp_all add: mux_endpoint_def view_def)
next
  case None
  have ok: "mux_config_ok m" using assms by (simp add: mux_stamped_def)
  obtain m1 where m1: "mux_endpoint m k = (Inr (view m k), m1)" "\<forall>t. view m1 t = view m t"
    using mux_endpoint_view [OF ok, of k] by metis
  then have "m1 = put_endpoint m k (view m k)"
    using None by (auto simp: mux_endpoint_def put_endpoint_def split: sum.splits)
  with m1 mux_stamped_put [OF assms mux_stamped_view [OF assms]] show ?thesis by (intro that [of m1]) simp_all
qed

text \<open>Each operation, seen by stream \<open>t\<close>.\<close>

lemma mux_send_stream:
  assumes "mux_stamped m" and "mux_send m k data now = (Inr out, m')"
  shows "mux_stamped m'" and "mo_delivered out = []"
    and "view m' t = (if k = t then snd (arq_send (view m t) data now) else view m t)"
    and "\<forall>p \<in> set (mo_packets out). p_stream_id p = t \<longrightarrow>
      k = t \<and> p \<in> set (ao_packets (fst (arq_send (view m t) data now)))"
proof -
  obtain m1 where m1: "mux_endpoint m k = (Inr (view m k), m1)" "\<forall>t. view m1 t = view m t" "mux_stamped m1"
    by (rule mux_stamped_endpoint [OF assms(1), of k])
  let ?r = "arq_send (view m k) data now"
  have o: "mo_packets out = ao_packets (fst ?r)" "mo_delivered out = []" "m' = put_endpoint m1 k (snd ?r)"
    using assms(2) m1(1) by (auto simp: mux_send_def case_prod_beta empty_mux_output_def)
  note s = stamped_send [OF mux_stamped_view [OF assms(1), of k], of data now]
  show "mux_stamped m'" using o(3) mux_stamped_put [OF m1(3)] s by simp
  show "mo_delivered out = []" by (rule o(2))
  show "view m' t = (if k = t then snd (arq_send (view m t) data now) else view m t)" using o(3) m1(2) by simp
  show "\<forall>p \<in> set (mo_packets out). p_stream_id p = t \<longrightarrow>
      k = t \<and> p \<in> set (ao_packets (fst (arq_send (view m t) data now)))"
    using o(1) s by (auto simp: on_its_stream_def)
qed

lemma mux_on_packet_other:
  assumes "mux_stamped m" and "mux_on_packet m pkt now = (Inr out, m')" and "p_stream_id pkt \<noteq> t"
  shows "mux_stamped m' \<and> view m' t = view m t \<and> on_stream t (mo_delivered out) = [] \<and>
    distinct (dict_keys (mo_delivered out)) \<and> (\<forall>p \<in> set (mo_packets out). p_stream_id p \<noteq> t)"
proof (cases "p_stream_id pkt = CONTROL_STREAM_ID")
  case True
  with assms show ?thesis by (auto simp: mux_on_packet_def empty_mux_output_def on_stream_def)
next
  case False
  let ?k = "p_stream_id pkt"
  obtain m1 where m1: "mux_endpoint m ?k = (Inr (view m ?k), m1)" "\<forall>t. view m1 t = view m t" "mux_stamped m1"
    by (rule mux_stamped_endpoint [OF assms(1), of ?k])
  obtain r ep1 where r: "arq_on_packet (view m ?k) pkt now = (r, ep1)" by fastforce
  then obtain res where res: "r = Inr res" using assms(2) False m1(1) by (cases r) (auto simp: mux_on_packet_def)
  note s = stamped_on_packet [OF mux_stamped_view [OF assms(1), of ?k], of pkt now, unfolded r res]
  have "m' = put_endpoint m1 ?k ep1" "mo_packets out = ao_packets res"
    "mo_delivered out = (if ao_delivered res \<noteq> [] then [(?k, ao_delivered res)] else [])"
    using assms(2) False m1(1) r res by (auto simp: mux_on_packet_def)
  with s m1(2) assms(3) mux_stamped_put [OF m1(3), of ?k ep1] show ?thesis
    by (auto simp: on_its_stream_def on_stream_def)
qed

lemma mux_on_packet_same:
  assumes "mux_stamped m" and "mux_on_packet m pkt now = (Inr out, m')" and "p_stream_id pkt = t"
    and "t \<noteq> CONTROL_STREAM_ID"
  obtains res where "arq_on_packet (view m t) pkt now = (Inr res, view m' t)" and "mo_packets out = ao_packets res"
    and "on_stream t (mo_delivered out) = ao_delivered res" and "distinct (dict_keys (mo_delivered out))"
    and "mux_stamped m'"
proof -
  obtain m1 where m1: "mux_endpoint m t = (Inr (view m t), m1)" "\<forall>t. view m1 t = view m t" "mux_stamped m1"
    by (rule mux_stamped_endpoint [OF assms(1), of t])
  obtain r ep1 where r: "arq_on_packet (view m t) pkt now = (r, ep1)" by fastforce
  then obtain res where res: "r = Inr res" using assms(2-4) m1(1) by (cases r) (auto simp: mux_on_packet_def)
  note s = stamped_on_packet [OF mux_stamped_view [OF assms(1), of t], of pkt now, unfolded r res]
  have "m' = put_endpoint m1 t ep1" "mo_packets out = ao_packets res"
    "mo_delivered out = (if ao_delivered res \<noteq> [] then [(t, ao_delivered res)] else [])"
    using assms(2-4) m1(1) r res by (auto simp: mux_on_packet_def)
  with s r res mux_stamped_put [OF m1(3), of t ep1] show ?thesis
    by (intro that [of res]) (auto simp: on_stream_def)
qed

lemma tick_endpoints_stamped:
  assumes "\<forall>(k, ep) \<in> set eps. stamped k ep" and "distinct (dict_keys eps)"
  shows "dict_keys (snd (snd (tick_endpoints eps now))) = dict_keys eps"
    and "\<forall>(k, ep) \<in> set (snd (snd (tick_endpoints eps now))). stamped k ep"
    and "\<forall>p \<in> set (fst (tick_endpoints eps now)). \<exists>ep. map_of eps (p_stream_id p) = Some ep \<and>
      p \<in> set (ao_packets (fst (arq_on_tick ep now)))"
proof -
  show "dict_keys (snd (snd (tick_endpoints eps now))) = dict_keys eps"
    by (induction eps) (auto simp: case_prod_beta Let_def)
  show "\<forall>(k, ep) \<in> set (snd (snd (tick_endpoints eps now))). stamped k ep"
    using assms(1) stamped_tick by (induction eps) (auto simp: case_prod_beta Let_def)
  show "\<forall>p \<in> set (fst (tick_endpoints eps now)). \<exists>ep. map_of eps (p_stream_id p) = Some ep \<and>
      p \<in> set (ao_packets (fst (arq_on_tick ep now)))"
    using assms
  proof (induction eps)
    case (Cons x eps)
    obtain k ep where x: "x = (k, ep)" by fastforce
    have own: "on_its_stream k (ao_packets (fst (arq_on_tick ep now)))"
      using Cons.prems(1) x stamped_tick by simp
    have "map_of eps j = Some e \<Longrightarrow> j \<noteq> k" for j e
      using Cons.prems(2) x map_of_SomeD [of eps j e] by force
    with Cons x own show ?case by (auto simp: case_prod_beta Let_def on_its_stream_def)
  qed simp
qed

lemma mux_on_tick_stream:
  assumes "mux_stamped m" and "mux_on_tick m now = (out, m')" and "t \<noteq> CONTROL_STREAM_ID"
  shows "mux_stamped m'" and "view m' t = snd (arq_on_tick (view m t) now)" and "mo_delivered out = []"
    and "\<forall>p \<in> set (mo_packets out). p_stream_id p = t \<longrightarrow> p \<in> set (ao_packets (fst (arq_on_tick (view m t) now)))"
proof -
  have ok: "mux_config_ok m" "\<forall>(k, ep) \<in> set (mx_endpoints m). stamped k ep" "distinct (dict_keys (mx_endpoints m))"
    using assms(1) by (simp_all add: mux_stamped_def)
  note te = tick_endpoints_stamped [OF ok(2,3), of now]
  show "view m' t = snd (arq_on_tick (view m t) now)"
    using view_step [OF ok(1) assms(3), of "MuxTick now"] assms(2) by simp
  show "mux_stamped m'"
    using te ok assms(2) by (auto simp: mux_on_tick_def mux_stamped_def case_prod_beta mux_config_ok_def)
  show "mo_delivered out = []" using assms(2) by (auto simp: mux_on_tick_def case_prod_beta)
  show "\<forall>p \<in> set (mo_packets out). p_stream_id p = t \<longrightarrow> p \<in> set (ao_packets (fst (arq_on_tick (view m t) now)))"
  proof (intro ballI impI)
    fix p assume "p \<in> set (mo_packets out)" and t: "p_stream_id p = t"
    then have "p \<in> set (fst (tick_endpoints (mx_endpoints m) now))"
      using assms(2) by (auto simp: mux_on_tick_def case_prod_beta)
    with te(3) t obtain ep where "map_of (mx_endpoints m) t = Some ep" "p \<in> set (ao_packets (fst (arq_on_tick ep now)))"
      by blast
    then show "p \<in> set (ao_packets (fst (arq_on_tick (view m t) now)))" by (simp add: view_def)
  qed
qed

lemma set_session_id_stream:
  assumes "mux_stamped m" and "t \<noteq> CONTROL_STREAM_ID"
  shows "mux_stamped (set_session_id m sid)" and "view (set_session_id m sid) t = (view m t)\<lparr>ep_session_id := sid\<rparr>"
proof -
  show "mux_stamped (set_session_id m sid)"
    using assms(1) by (auto simp: mux_stamped_def set_session_id_def mux_config_ok_def stamped_def case_prod_beta comp_def)
  show "view (set_session_id m sid) t = (view m t)\<lparr>ep_session_id := sid\<rparr>"
    using view_step [of m t "MuxSession sid"] assms by (simp add: mux_stamped_def)
qed

lemma open_stream_stream:
  assumes "mux_stamped m" and "t \<noteq> CONTROL_STREAM_ID"
  shows "mux_stamped (snd (open_stream m))" and "view (snd (open_stream m)) t = view m t"
proof -
  show "view (snd (open_stream m)) t = view m t"
    using view_step [of m t MuxOpen] assms by (simp add: mux_stamped_def)
  let ?s = "next_free_id (dict_keys (mx_endpoints m)) (mx_next_open_id m)"
  obtain m1 where m1: "mux_endpoint m ?s = (Inr (view m ?s), m1)" "mux_stamped m1"
    by (rule mux_stamped_endpoint [OF assms(1), of ?s])
  then show "mux_stamped (snd (open_stream m))"
    by (simp add: open_stream_def Let_def mux_stamped_def mux_config_ok_def)
qed

section \<open>The lifecycle machine speaks on stream 0\<close>

definition ctrl_stamped :: "SessionStateMachine \<Rightarrow> bool" where
  "ctrl_stamped sm \<longleftrightarrow> (\<forall>p. sm_pending_ctrl sm = Some p \<longrightarrow> p_stream_id p = 0)"

lemma make_ctrl_stream [simp]: "p_stream_id (make_ctrl sm ty seq a fl) = 0"
  by (simp add: make_ctrl_def)

lemmas ctrl_defs = ctrl_stamped_def arm_pending_def clear_pending_def no_output_def

lemma sm_connect_ctrl:
  "ctrl_stamped sm \<Longrightarrow> ctrl_stamped (snd (sm_connect sm now)) \<and> on_its_stream 0 (out_packets (fst (sm_connect sm now)))"
  by (simp add: sm_connect_def ctrl_defs Let_def)

lemma sm_close_ctrl:
  "ctrl_stamped sm \<Longrightarrow> ctrl_stamped (snd (sm_close sm now)) \<and> on_its_stream 0 (out_packets (fst (sm_close sm now)))"
  by (simp add: sm_close_def ctrl_defs Let_def)

lemma note_data_ctrl [simp]: "ctrl_stamped (note_data_activity sm now) = ctrl_stamped sm"
  by (simp add: note_data_activity_def ctrl_stamped_def)

lemma handle_packet_ctrl:
  "ctrl_stamped sm \<Longrightarrow>
    ctrl_stamped (snd (handle_packet sm pkt now)) \<and> on_its_stream 0 (out_packets (fst (handle_packet sm pkt now)))"
  unfolding handle_packet_def Let_def by (simp add: ctrl_defs)

lemma sm_on_packet_ctrl:
  "ctrl_stamped sm \<Longrightarrow>
    ctrl_stamped (snd (sm_on_packet sm pkt now)) \<and> on_its_stream 0 (out_packets (fst (sm_on_packet sm pkt now)))"
  using handle_packet_ctrl [of "sm\<lparr>sm_last_recv := Some now\<rparr>" pkt now]
  by (simp add: sm_on_packet_def ctrl_stamped_def no_output_def)

lemma tick_heartbeat_ctrl:
  "ctrl_stamped sm \<Longrightarrow>
    ctrl_stamped (snd (tick_heartbeat sm now)) \<and> on_its_stream 0 (out_packets (fst (tick_heartbeat sm now)))"
  by (simp add: tick_heartbeat_def ctrl_defs)

lemma sm_on_tick_ctrl:
  "ctrl_stamped sm \<Longrightarrow>
    ctrl_stamped (snd (sm_on_tick sm now)) \<and> on_its_stream 0 (out_packets (fst (sm_on_tick sm now)))"
  using tick_heartbeat_ctrl [of sm now] by (auto simp: sm_on_tick_def ctrl_defs split: option.split)

section \<open>Counting chunks\<close>

definition counted :: "peer \<Rightarrow> bool" where
  "counted p \<longleftrightarrow> 1 \<le> ep_max_payload (pr_ep p) \<and>
     length (pr_log p) + length (ep_pending (pr_ep p)) \<le> length (pr_sent p)"

lemma length_py_slices: "0 < n \<Longrightarrow> length (py_slices n xs) \<le> length xs"
proof -
  have pos: "length cs \<le> length (concat cs)" if "\<forall>c \<in> set cs. c \<noteq> []" for cs :: "'b list list"
    using that
  proof (induction cs)
    case (Cons c cs)
    then have "Suc 0 \<le> length c" "length cs \<le> length (concat cs)" by (simp_all add: Suc_le_eq)
    then show ?case by (simp del: length_greater_0_conv)
  qed simp
  assume n: "0 < n"
  then have "\<forall>c \<in> set (py_slices n xs). c \<noteq> []" using py_slices_bounds [of n xs] by blast
  from pos [OF this] concat_py_slices [OF n, of xs] show ?thesis by simp
qed

lemma send_chunks_count:
  "length (fst (send_chunks ep cs now)) + length (ep_pending (snd (send_chunks ep cs now)))
    = length (ep_pending ep) + length cs"
  by (induction cs arbitrary: ep) (simp_all add: case_prod_beta Let_def emit_data_pending)

lemma counted_step:
  assumes "peer_step q p p'" and "counted p"
  shows "counted p'"
  using assms(1)
proof (cases rule: peer_step_pending)
  case (send data now out ep')
  have "length (ao_packets out) + length (ep_pending ep') \<le> length (ep_pending (pr_ep p)) + length data"
    using send(1) send_chunks_count [of "pr_ep p" "py_slices (ep_max_payload (pr_ep p)) data" now]
      length_py_slices [of "ep_max_payload (pr_ep p)" data] assms(2)
    by (auto simp: arq_send_def empty_output_def counted_def case_prod_beta split: if_splits)
  with send assms(2) show ?thesis by (simp add: counted_def)
next
  case (other cs)
  with assms(2) show ?thesis by (simp add: counted_def)
qed

lemma counted_reach: "link_reach ia ib s \<Longrightarrow> counted (fst s) \<and> counted (snd s)"
proof (induction rule: link_reach.induct)
  case start
  then show ?case by (auto simp: counted_def fresh_peer_def ArqEndpoint_init_def split: if_splits)
next
  case (step s t)
  from step.hyps(2) step.IH show ?case by (cases rule: link_step.cases) (auto intro: counted_step)
qed

lemma counted_small: "counted p \<Longrightarrow> int (length (pr_sent p)) < SEQ_HALF \<Longrightarrow> small (pr_log p)"
  by (simp add: counted_def small_def)

end
