(* ===== verification/Duplex.thy ===== *)
theory Duplex
  imports Session_Api Session_Props Streams
begin

text \<open>
  One session against its peer. A channel that delivers only what was put on it ties the endpoint
  of a stream inside a session to a peer of \<open>Arq_Link\<close>: whatever the session does (\<open>pump\<close>,
  \<open>send_on\<close>, \<open>connect\<close>, \<open>close\<close>, \<open>recv_on\<close>, work on other streams), the endpoint makes steps of
  the link, and its packets are the only ones of its stream on the channel.
\<close>

section \<open>The channel below a session\<close>

locale carrier =
  fixes ops :: "'w world_ops" and out_flight :: "'w \<Rightarrow> bytes list" and in_flight :: "'w \<Rightarrow> bytes list"
    and arrives :: "bytes \<Rightarrow> bytes \<Rightarrow> bool"
  assumes send_out: "set (out_flight (snd (w_send ops f w))) \<subseteq> set (out_flight w) \<union> Collect (arrives f)"
    and send_in: "set (in_flight (snd (w_send ops f w))) \<subseteq> set (in_flight w)"
    and recv_out: "set (out_flight (snd (w_recv ops d w))) \<subseteq> set (out_flight w)"
    and recv_in: "set (in_flight (snd (w_recv ops d w))) \<subseteq> set (in_flight w)"
    and recv_some: "fst (w_recv ops d w) = Inr (Some g) \<Longrightarrow> g \<in> set (in_flight w)"
    and now_out: "set (out_flight (snd (w_now ops w))) \<subseteq> set (out_flight w)"
    and now_in: "set (in_flight (snd (w_now ops w))) \<subseteq> set (in_flight w)"
    and faithful: "pack p = Inr f \<Longrightarrow> arrives f g \<Longrightarrow> unpack g = Inr q \<Longrightarrow> q = p"

text \<open>The packets of stream \<open>t\<close> among some frames are all on a wire.\<close>

definition carries :: "int \<Rightarrow> Packet list \<Rightarrow> bytes list \<Rightarrow> bool" where
  "carries t wire fs \<longleftrightarrow> (\<forall>f \<in> set fs. \<forall>q. unpack f = Inr q \<longrightarrow> p_stream_id q = t \<longrightarrow> q \<in> set wire)"

lemma carries_mono: "carries t wire fs \<Longrightarrow> set gs \<subseteq> set fs \<Longrightarrow> set wire \<subseteq> set wire' \<Longrightarrow> carries t wire' gs"
  by (auto simp: carries_def)

text \<open>The endpoint of stream \<open>t\<close> in session \<open>s\<close> is the peer \<open>p\<close>; \<open>got\<close> is what was taken from its buffer.\<close>

definition hosts :: "int \<Rightarrow> Session \<Rightarrow> peer \<Rightarrow> bytes list \<Rightarrow> bool" where
  "hosts t s p got \<longleftrightarrow> mux_stamped (se_mux s) \<and> ctrl_stamped (se_machine s) \<and>
     pr_ep p = view (se_mux s) t \<and> pr_got p = got @ buffered t s"

definition tied :: "int \<Rightarrow> bytes list \<Rightarrow> bytes list \<Rightarrow> peer \<Rightarrow> peer \<Rightarrow> Session \<Rightarrow> bytes list \<Rightarrow> bool" where
  "tied t outs ins q p s got \<longleftrightarrow> hosts t s p got \<and> carries t (pr_wire p) outs \<and> carries t (pr_wire q) ins"

text \<open>Steps of a peer other than a \<open>send\<close>.\<close>

definition moves :: "peer \<Rightarrow> peer \<Rightarrow> peer \<Rightarrow> bool" where
  "moves q p p' \<longleftrightarrow> (peer_step q)\<^sup>*\<^sup>* p p' \<and> pr_sent p' = pr_sent p \<and> pr_in_order p' = pr_in_order p"

lemma moves_refl [simp]: "moves q p p"
  by (simp add: moves_def)

lemma moves_trans: "moves q p p1 \<Longrightarrow> moves q p1 p2 \<Longrightarrow> moves q p p2"
  unfolding moves_def by (metis rtranclp_trans)

lemma moves_step:
  "peer_step q p p' \<Longrightarrow> pr_sent p' = pr_sent p \<Longrightarrow> pr_in_order p' = pr_in_order p \<Longrightarrow> moves q p p'"
  by (simp add: moves_def)

context carrier
begin

lemma send_packets_carries:
  assumes "carries t wire (out_flight w)" and "\<forall>p \<in> set pkts. p_stream_id p = t \<longrightarrow> p \<in> set wire"
  shows "carries t wire (out_flight (snd (send_packets ops pkts w))) \<and>
    set (in_flight (snd (send_packets ops pkts w))) \<subseteq> set (in_flight w)"
  using assms
proof (induction pkts arbitrary: w)
  case (Cons p pkts)
  show ?case
  proof (cases "pack p")
    case (Inr raw)
    obtain r w1 where w1: "w_send ops raw w = (r, w1)" by fastforce
    have "carries t wire (out_flight w1)"
      unfolding carries_def
    proof (intro ballI allI impI)
      fix f q assume f: "f \<in> set (out_flight w1)" and u: "unpack f = Inr q" and t: "p_stream_id q = t"
      from f send_out [of raw w] w1 consider "f \<in> set (out_flight w)" | "arrives raw f" by auto
      then show "q \<in> set wire"
      proof cases
        case 1
        with u t Cons.prems(1) show ?thesis by (simp add: carries_def)
      next
        case 2
        with faithful [OF Inr _ u] t Cons.prems(2) show ?thesis by auto
      qed
    qed
    with Cons.IH [of w1] Cons.prems(2) send_in [of raw w] w1 Inr show ?thesis by (cases r) auto
  qed (use Cons.prems in simp)
qed simp

lemma emit_carries:
  assumes "carries t wire (out_flight w)" and "on_its_stream 0 (out_packets out)" and "t \<noteq> 0"
  shows "carries t wire (out_flight (snd (emit ops out w))) \<and> set (in_flight (snd (emit ops out w))) \<subseteq> set (in_flight w)"
  using send_packets_carries [OF assms(1), of "out_packets out"] assms(2,3)
  by (auto simp: emit_def on_its_stream_def split: prod.split sum.split)

lemma emit_mux_Inr:
  assumes "emit_mux ops out s w = (Inr u, s', w')" and "carries t wire (out_flight w)"
    and "\<forall>p \<in> set (mo_packets out). p_stream_id p = t \<longrightarrow> p \<in> set wire"
  shows "s' = s\<lparr>se_recv_buffers := buffer_delivered (se_recv_buffers s) (mo_delivered out)\<rparr>"
    and "carries t wire (out_flight w')" and "set (in_flight w') \<subseteq> set (in_flight w)"
  using send_packets_carries [OF assms(2,3)] assms(1)
  by (auto simp: emit_mux_def split: prod.splits sum.splits)

lemma tied_now:
  assumes "tied t (out_flight w) (in_flight w) q p s got" and "w_now ops w = (now, w1)"
  shows "tied t (out_flight w1) (in_flight w1) q p s got"
  using assms now_out [of w] now_in [of w] unfolding tied_def by (auto intro: carries_mono)

text \<open>The machine says something on stream 0.\<close>

lemma tied_machine:
  assumes "tied t (out_flight w) (in_flight w) q p s got" and "t \<noteq> 0"
    and "ctrl_stamped sm \<and> on_its_stream 0 (out_packets out)" and "emit ops out w = (r, w1)"
  shows "tied t (out_flight w1) (in_flight w1) q p (s\<lparr>se_machine := sm\<rparr>) got"
  using assms emit_carries [of t "pr_wire p" w out] unfolding tied_def hosts_def
  by (auto simp: buffered_def intro: carries_mono)

text \<open>A multiplexer that has made the step of the peer emits what the step emitted.\<close>

lemma tied_mux:
  assumes "tied t (out_flight w) (in_flight w) q p s got" and "ctrl_stamped sm"
    and "mux_stamped m" and "view m t = pr_ep p'" and "pr_wire p' = pr_wire p @ ks"
    and "\<forall>x \<in> set (mo_packets out). p_stream_id x = t \<longrightarrow> x \<in> set ks"
    and "pr_got p' = pr_got p @ on_stream t (mo_delivered out)" and "distinct (dict_keys (mo_delivered out))"
    and "emit_mux ops out (s\<lparr>se_machine := sm, se_mux := m\<rparr>) w = (Inr u, s', w')"
  shows "tied t (out_flight w') (in_flight w') q p' s' got"
proof -
  have c: "carries t (pr_wire p') (out_flight w)"
    using assms(1,5) unfolding tied_def by (auto intro: carries_mono)
  have k: "\<forall>x \<in> set (mo_packets out). p_stream_id x = t \<longrightarrow> x \<in> set (pr_wire p')"
    using assms(5,6) by auto
  note e = emit_mux_Inr [OF assms(9) c k]
  have "buffered t s' = buffered t s @ on_stream t (mo_delivered out)"
    using e(1) buffer_delivered_stream [OF assms(8)] by (simp add: buffered_def)
  with assms e show ?thesis unfolding tied_def hosts_def by (auto intro: carries_mono)
qed

lemma machine_packet_tied:
  assumes "tied t (out_flight w) (in_flight w) q p s got" and "t \<noteq> 0"
    and "machine_packet ops s pkt now w = (r, s', w')"
  shows "tied t (out_flight w') (in_flight w') q p s' got"
proof -
  obtain out sm where o: "sm_on_packet (se_machine s) pkt now = (out, sm)" by fastforce
  have "ctrl_stamped (se_machine s)" using assms(1) by (simp add: tied_def hosts_def)
  from sm_on_packet_ctrl [OF this, of pkt now] o have "ctrl_stamped sm \<and> on_its_stream 0 (out_packets out)" by simp
  from tied_machine [OF assms(1,2) this] assms(3) o show ?thesis
    by (auto simp: machine_packet_def split: prod.splits)
qed

lemma route_packet_tied:
  assumes td: "tied t (out_flight w) (in_flight w) q p s got" and t0: "t \<noteq> 0"
    and r: "route_packet ops s pkt w = (Inr evs, s', w')"
    and w: "p_stream_id pkt = t \<longrightarrow> pkt \<in> set (pr_wire q)"
  shows "\<exists>p'. moves q p p' \<and> tied t (out_flight w') (in_flight w') q p' s' got"
proof -
  obtain now w1 where n: "w_now ops w = (now, w1)" by fastforce
  note td1 = tied_now [OF td n]
  have ms: "mux_stamped (se_mux s)" and cs: "ctrl_stamped (note_data_activity (se_machine s) now)"
    and pv: "pr_ep p = view (se_mux s) t"
    using td by (simp_all add: tied_def hosts_def)
  show ?thesis
  proof (cases "p_stream_id pkt = CONTROL_STREAM_ID")
    case True
    then have "machine_packet ops s pkt now w1 = (Inr evs, s', w') \<or> (s' = s \<and> w' = w1)"
      using r n by (auto simp: route_packet_def split: if_splits)
    then show ?thesis
      using machine_packet_tied [OF td1 t0] td1 moves_refl by blast
  next
    case False
    let ?sm = "note_data_activity (se_machine s) now"
    obtain x m where x: "mux_on_packet (se_mux s) pkt now = (x, m)" by fastforce
    then obtain out u where o: "mux_on_packet (se_mux s) pkt now = (Inr out, m)"
      and e: "emit_mux ops out (s\<lparr>se_machine := ?sm, se_mux := m\<rparr>) w1 = (Inr u, s', w')"
      using r n False by (cases x) (auto simp: route_packet_def split: prod.splits sum.splits)
    show ?thesis
    proof (cases "p_stream_id pkt = t")
      case False
      note f = mux_on_packet_other [OF ms o False]
      then show ?thesis
        using pv by (intro exI [of _ p] conjI tied_mux [OF td1 cs _ _ _ _ _ _ e, of p "[]"]) auto
    next
      case True
      have tc: "t \<noteq> CONTROL_STREAM_ID" using t0 by (simp add: CONTROL_STREAM_ID_def)
      obtain res where res: "arq_on_packet (view (se_mux s) t) pkt now = (Inr res, view m t)"
        "mo_packets out = ao_packets res" "on_stream t (mo_delivered out) = ao_delivered res"
        "distinct (dict_keys (mo_delivered out))" "mux_stamped m"
        by (rule mux_on_packet_same [OF ms o True tc])
      let ?p' = "p\<lparr>pr_ep := view m t, pr_log := pr_log p @ new_chunks pkt res,
        pr_got := pr_got p @ ao_delivered res, pr_wire := pr_wire p @ ao_packets res\<rparr>"
      have "peer_step q p ?p'" using w True res(1) pv by (intro peer_step.recv [of pkt q p now res]) simp_all
      then have "moves q p ?p'" by (rule moves_step) simp_all
      moreover have "tied t (out_flight w') (in_flight w') q ?p' s' got"
        using res by (intro tied_mux [OF td1 cs _ _ _ _ _ _ e, of _ "ao_packets res"]) simp_all
      ultimately show ?thesis by blast
    qed
  qed
qed

lemma recv_tied:
  assumes "tied t (out_flight w) (in_flight w) q p s got" and "w_recv ops d w = (r, w1)"
  shows "tied t (out_flight w1) (in_flight w1) q p s got"
    and "r = Inr (Some f) \<Longrightarrow> unpack f = Inr pkt \<Longrightarrow> p_stream_id pkt = t \<Longrightarrow> pkt \<in> set (pr_wire q)"
proof -
  show "tied t (out_flight w1) (in_flight w1) q p s got"
    using assms recv_out [of d w] recv_in [of d w] unfolding tied_def by (auto intro: carries_mono)
  show "r = Inr (Some f) \<Longrightarrow> unpack f = Inr pkt \<Longrightarrow> p_stream_id pkt = t \<Longrightarrow> pkt \<in> set (pr_wire q)"
    using assms recv_some [of d w f] unfolding tied_def carries_def by auto
qed

lemma drain_tied:
  assumes "drain_frames ops mf k s w = Some y" and "t \<noteq> 0"
    and "tied t (out_flight w) (in_flight w) q p s got" and "y = (Inr evs, s', w')"
  shows "\<exists>p'. moves q p p' \<and> tied t (out_flight w') (in_flight w') q p' s' got"
  using assms(1,3,4)
proof (induction arbitrary: p evs rule: drain_frames_rule)
  case (limit s w)
  then show ?case using moves_refl by blast
next
  case (empty s w w1)
  then show ?case using recv_tied(1) moves_refl by blast
next
  case (damaged s w f w1 e y)
  from damaged.IH [OF recv_tied(1) [OF damaged.prems(1) damaged.hyps(1)] damaged.prems(2)] show ?case .
next
  case (routed s w f w1 pkt evs1 s1 w2 r s2 w3)
  from routed.prems(2) obtain evs2 where r: "(r, s2, w3) = (Inr evs2, s', w')" by (cases r) auto
  note rv = recv_tied [OF routed.prems(1) routed.hyps(1)]
  from rv(2) routed.hyps(2) have "p_stream_id pkt = t \<longrightarrow> pkt \<in> set (pr_wire q)" by blast
  from route_packet_tied [OF rv(1) assms(2) routed.hyps(3) this]
  obtain p1 where p1: "moves q p p1" "tied t (out_flight w2) (in_flight w2) q p1 s1 got" by blast
  from routed.IH [OF p1(2) r] p1(1) moves_trans show ?case by blast
qed auto

lemma run_timers_tied:
  assumes td: "tied t (out_flight w) (in_flight w) q p s got" and t0: "t \<noteq> 0"
    and r: "run_timers ops s w = (Inr evs, s', w')"
  shows "\<exists>p'. moves q p p' \<and> tied t (out_flight w') (in_flight w') q p' s' got"
proof -
  obtain now w1 where n: "w_now ops w = (now, w1)" by fastforce
  obtain out sm where o: "sm_on_tick (se_machine s) now = (out, sm)" by fastforce
  let ?s1 = "s\<lparr>se_machine := sm\<rparr>"
  from r n o obtain evs1 w2 where e: "emit ops out w1 = (Inr evs1, w2)"
    by (cases "emit ops out w1"; cases "fst (emit ops out w1)") (auto simp: run_timers_def Let_def)
  obtain now2 w3 where n2: "w_now ops w2 = (now2, w3)" by fastforce
  obtain mout m where m: "mux_on_tick (se_mux s) now2 = (mout, m)" by fastforce
  from r n o e n2 m obtain u where x: "emit_mux ops mout (?s1\<lparr>se_mux := m\<rparr>) w3 = (Inr u, s', w')"
    by (auto simp: run_timers_def Let_def split: prod.splits sum.splits)
  have cs: "ctrl_stamped (se_machine s)" and ms: "mux_stamped (se_mux s)" and pv: "pr_ep p = view (se_mux s) t"
    using td by (simp_all add: tied_def hosts_def)
  from sm_on_tick_ctrl [OF cs, of now] o
  have sc: "ctrl_stamped sm \<and> on_its_stream 0 (out_packets out)" by simp
  note td3 = tied_now [OF tied_machine [OF tied_now [OF td n] t0 sc e] n2]
  have tc: "t \<noteq> CONTROL_STREAM_ID" using t0 by (simp add: CONTROL_STREAM_ID_def)
  note tk = mux_on_tick_stream [OF ms m tc]
  obtain res ep where a: "arq_on_tick (view (se_mux s) t) now2 = (res, ep)" by fastforce
  let ?p' = "p\<lparr>pr_ep := ep, pr_wire := pr_wire p @ ao_packets res\<rparr>"
  have "peer_step q p ?p'" using a pv by (intro peer_step.tick [of p now2]) simp
  then have "moves q p ?p'" by (rule moves_step) simp_all
  moreover have "tied t (out_flight w') (in_flight w') q ?p' s' got"
    using tk a sc x
    by (intro tied_mux [OF td3, of sm m ?p' "ao_packets res" mout u s' w']) (simp_all add: on_stream_def)
  ultimately show ?thesis by blast
qed

lemma sync_tied:
  assumes "tied t outs ins q p s got" and "t \<noteq> 0"
  shows "\<exists>p'. moves q p p' \<and> tied t outs ins q p' (sync_session_id s) got"
proof -
  let ?p' = "p\<lparr>pr_ep := (pr_ep p)\<lparr>ep_session_id := session_id s\<rparr>\<rparr>"
  have "mux_stamped (se_mux s)" "t \<noteq> CONTROL_STREAM_ID"
    using assms by (simp_all add: tied_def hosts_def CONTROL_STREAM_ID_def)
  from set_session_id_stream [OF this, of "session_id s"] assms(1)
  have "tied t outs ins q ?p' (sync_session_id s) got"
    by (simp add: tied_def hosts_def sync_session_id_def buffered_def)
  moreover have "moves q p ?p'" by (rule moves_step [OF peer_step.stamp]) simp_all
  ultimately show ?thesis by blast
qed

lemma pump_tied:
  assumes "tied t (out_flight w) (in_flight w) q p s got" and "t \<noteq> 0"
    and "pump ops mf s w = Some (Inr evs, s', w')"
  shows "\<exists>p'. moves q p p' \<and> tied t (out_flight w') (in_flight w') q p' s' got"
proof -
  obtain p1 where p1: "moves q p p1" "tied t (out_flight w) (in_flight w) q p1 (sync_session_id s) got"
    using sync_tied [OF assms(1,2)] by blast
  from assms(3) obtain evs1 s1 w1 where d: "drain_frames ops mf 0 (sync_session_id s) w = Some (Inr evs1, s1, w1)"
    and r: "map_sum id ((@) evs1) (fst (run_timers ops s1 w1)) = Inr evs" "snd (run_timers ops s1 w1) = (s', w')"
  proof -
    from assms(3) obtain x s1 w1 where d: "drain_frames ops mf 0 (sync_session_id s) w = Some (x, s1, w1)"
      unfolding pump_def bind_eq_Some_conv by (metis prod_cases3)
    with assms(3) that show thesis
      by (cases x) (auto simp: pump_def case_prod_beta Let_def)
  qed
  obtain p2 where p2: "moves q p1 p2" "tied t (out_flight w1) (in_flight w1) q p2 s1 got"
    using drain_tied [OF d assms(2) p1(2)] by blast
  obtain evs2 where "run_timers ops s1 w1 = (Inr evs2, s', w')"
    using r by (cases "run_timers ops s1 w1"; cases "fst (run_timers ops s1 w1)") auto
  from run_timers_tied [OF p2(2) assms(2) this] p1(1) p2(1) show ?thesis using moves_trans by meson
qed

lemma connect_tied:
  assumes "tied t (out_flight w) (in_flight w) q p s got" and "t \<noteq> 0"
    and "session_connect ops s w = (r, s', w')"
  shows "tied t (out_flight w') (in_flight w') q p s' got"
proof -
  obtain now w1 where n: "w_now ops w = (now, w1)" by fastforce
  obtain out sm where o: "sm_connect (se_machine s) now = (out, sm)" by fastforce
  have "ctrl_stamped (se_machine s)" using assms(1) by (simp add: tied_def hosts_def)
  from sm_connect_ctrl [OF this, of now] o have "ctrl_stamped sm \<and> on_its_stream 0 (out_packets out)" by simp
  from tied_machine [OF tied_now [OF assms(1) n] assms(2) this] n o assms(3) show ?thesis
    by (auto simp: session_connect_def split: prod.splits)
qed

lemma close_tied:
  assumes "tied t (out_flight w) (in_flight w) q p s got" and "t \<noteq> 0"
    and "session_close ops s w = (r, s', w')"
  shows "tied t (out_flight w') (in_flight w') q p s' got"
proof -
  obtain now w1 where n: "w_now ops w = (now, w1)" by fastforce
  obtain out sm where o: "sm_close (se_machine s) now = (out, sm)" by fastforce
  have "ctrl_stamped (se_machine s)" using assms(1) by (simp add: tied_def hosts_def)
  from sm_close_ctrl [OF this, of now] o have "ctrl_stamped sm \<and> on_its_stream 0 (out_packets out)" by simp
  from tied_machine [OF tied_now [OF assms(1) n] assms(2) this] n o assms(3) show ?thesis
    by (auto simp: session_close_def split: prod.splits)
qed

lemma open_stream_tied:
  assumes "tied t outs ins q p s got" and "t \<noteq> 0"
  shows "tied t outs ins q p (snd (session_open_stream s)) got"
  using assms open_stream_stream [of "se_mux s" t]
  by (simp add: tied_def hosts_def session_open_stream_def case_prod_beta Let_def buffered_def CONTROL_STREAM_ID_def)

lemma recv_on_tied:
  assumes "tied t outs ins q p s got" and "recv_on sid s = (chunks, s')"
  shows "tied t outs ins q p s' (if sid = t then got @ chunks else got)"
  using assms by (auto simp: tied_def hosts_def recv_on_def buffered_def on_stream_delete)

text \<open>A \<open>send_on\<close> that returns hands the bytes to the endpoint of its stream.\<close>

lemma send_on_tied:
  assumes td: "tied t (out_flight w) (in_flight w) q p s got" and t0: "t \<noteq> 0"
    and r: "send_on ops sid data s w = (Inr u, s', w')"
  shows "\<exists>p'. (peer_step q)\<^sup>*\<^sup>* p p' \<and> tied t (out_flight w') (in_flight w') q p' s' got \<and>
    pr_sent p' = (if sid = t then pr_sent p @ data else pr_sent p) \<and>
    pr_in_order p' = (pr_in_order p \<and> (sid = t \<longrightarrow> flushed (view (se_mux s) t)))"
proof -
  let ?s1 = "sync_session_id s"
  obtain p1 where p1: "moves q p p1" "tied t (out_flight w) (in_flight w) q p1 ?s1 got"
    using sync_tied [OF td t0] by blast
  obtain now w1 where n: "w_now ops w = (now, w1)" by fastforce
  note td1 = tied_now [OF p1(2) n]
  have ms: "mux_stamped (se_mux ?s1)" and cs: "ctrl_stamped (se_machine ?s1)" and pv: "pr_ep p1 = view (se_mux ?s1) t"
    using p1(2) by (simp_all add: tied_def hosts_def)
  obtain x m where x: "mux_send (se_mux ?s1) sid data now = (x, m)" by fastforce
  from r n x obtain out where o: "mux_send (se_mux ?s1) sid data now = (Inr out, m)"
    and e: "emit_mux ops out (?s1\<lparr>se_machine := se_machine ?s1, se_mux := m\<rparr>) w1 = (Inr u, s', w')"
    by (cases x) (auto simp: send_on_def Let_def split: if_splits)
  note ss = mux_send_stream [OF ms o]
  have mv: "(peer_step q)\<^sup>*\<^sup>* p p1" "pr_sent p1 = pr_sent p" "pr_in_order p1 = pr_in_order p"
    using p1(1) by (simp_all add: moves_def)
  show ?thesis
  proof (cases "sid = t")
    case False
    have "tied t (out_flight w') (in_flight w') q p1 s' got"
      using ss(1,2) ss(3,4) [of t] False pv
      by (intro tied_mux [OF td1 cs _ _ _ _ _ _ e, of p1 "[]"]) (auto simp: on_stream_def)
    with mv False show ?thesis by auto
  next
    case True
    obtain res ep where a: "arq_send (view (se_mux ?s1) t) data now = (res, ep)" by fastforce
    let ?p' = "p1\<lparr>pr_ep := ep, pr_log := pr_log p1 @ map p_payload (ao_packets res),
      pr_sent := pr_sent p1 @ data, pr_in_order := (pr_in_order p1 \<and> flushed (pr_ep p1)),
      pr_wire := pr_wire p1 @ ao_packets res\<rparr>"
    have "peer_step q p1 ?p'" using a pv by (intro peer_step.send [of p1 data now]) simp
    moreover have "tied t (out_flight w') (in_flight w') q ?p' s' got"
      using ss(1,2) ss(3,4) [of t] True a
      by (intro tied_mux [OF td1 cs _ _ _ _ _ _ e, of ?p' "ao_packets res"]) (auto simp: on_stream_def)
    moreover have "flushed (pr_ep p1) = flushed (view (se_mux s) t)"
    proof -
      have "mux_stamped (se_mux s)" "t \<noteq> CONTROL_STREAM_ID"
        using td t0 by (simp_all add: tied_def hosts_def CONTROL_STREAM_ID_def)
      from set_session_id_stream(2) [OF this, of "session_id s"] pv show ?thesis
        by (simp add: sync_session_id_def flushed_def can_send_def send_limit_def)
    qed
    ultimately show ?thesis using mv True
      by (intro exI [of _ ?p'] conjI rtranclp.rtrancl_into_rtrancl [OF mv(1)]) simp_all
  qed
qed

end

end
