(* ===== verification/Two_Sessions.thy ===== *)
theory Two_Sessions
  imports Duplex
begin

text \<open>
  Two sessions, one at each end of a pair of channels, and what their applications see of one
  stream: the bytes taken at one end are a prefix of the bytes sent at the other. The state of
  both ends simulates the link of \<open>Arq_Link\<close>, so everything proved of the link holds of the
  stream. A locale states what an application keeps of such a stream, whatever it calls.
\<close>

section \<open>The simulation\<close>

text \<open>
  \<open>linked t outs ins s got sent s' got' sent'\<close>: stream \<open>t\<close> of the sessions \<open>s\<close> and \<open>s'\<close> is a
  reachable link, of which the applications have taken \<open>got\<close> and \<open>got'\<close> and sent \<open>sent\<close> and
  \<open>sent'\<close>; \<open>outs\<close> and \<open>ins\<close> are the frames on their way from and to \<open>s\<close>.
\<close>

definition linked ::
  "int \<Rightarrow> bytes list \<Rightarrow> bytes list \<Rightarrow> Session \<Rightarrow> bytes list \<Rightarrow> bytes \<Rightarrow> Session \<Rightarrow> bytes list \<Rightarrow> bytes \<Rightarrow> bool" where
  "linked t outs ins s got sent s' got' sent' \<longleftrightarrow>
     (\<exists>p q. link_reach 0 0 (p, q) \<and> tied t outs ins q p s got \<and> hosts t s' q got' \<and>
        pr_sent p = sent \<and> pr_sent q = sent' \<and> pr_in_order p \<and> pr_in_order q)"

lemma link_reach_swap: "link_reach ia ib s \<Longrightarrow> link_reach ib ia (snd s, fst s)"
proof (induction rule: link_reach.induct)
  case (start sa wa ra ma ta xa ea sb wb rb mb tb xb eb)
  from link_reach.start [OF start(2,1,4,3)] show ?case by simp
next
  case (step s t)
  from step.hyps(2) have "link_step (snd s, fst s) (snd t, fst t)"
    by (cases rule: link_step.cases) (auto intro: link_step.intros)
  with step.IH show ?case by (rule link_reach.step)
qed

lemma linked_swap:
  assumes "linked t outs ins s got sent s' got' sent'"
  shows "linked t ins outs s' got' sent' s got sent"
proof -
  obtain p q where "link_reach 0 0 (p, q)" "tied t outs ins q p s got" "hosts t s' q got'"
    "pr_sent p = sent" "pr_sent q = sent'" "pr_in_order p" "pr_in_order q"
    using assms by (auto simp: linked_def)
  with link_reach_swap [of 0 0 "(p, q)"] show ?thesis
    unfolding linked_def tied_def by (intro exI [of _ q] exI [of _ p]) simp
qed

lemma link_reach_moves:
  "(peer_step q)\<^sup>*\<^sup>* p p' \<Longrightarrow> link_reach ia ib (p, q) \<Longrightarrow> link_reach ia ib (p', q)"
  by (induction rule: rtranclp_induct) (auto intro: link_reach.step link_step.left)

text \<open>A call that only moves the peer.\<close>

lemma linked_moves:
  assumes "linked t outs ins s got sent s' got' sent'"
    and "\<And>p q. tied t outs ins q p s got \<Longrightarrow> \<exists>p'. moves q p p' \<and> tied t outs1 ins1 q p' s1 got1"
  shows "linked t outs1 ins1 s1 got1 sent s' got' sent'"
proof -
  obtain p q where l: "link_reach 0 0 (p, q)" "tied t outs ins q p s got" "hosts t s' q got'"
    "pr_sent p = sent" "pr_sent q = sent'" "pr_in_order p" "pr_in_order q"
    using assms(1) by (auto simp: linked_def)
  with assms(2) [OF l(2)] obtain p' where "moves q p p'" "tied t outs1 ins1 q p' s1 got1" by blast
  with l link_reach_moves [of q p p' 0 0] show ?thesis
    unfolding linked_def moves_def by (intro exI [of _ p'] exI [of _ q]) auto
qed

lemma linked_still:
  assumes "linked t outs ins s got sent s' got' sent'"
    and "\<And>p q. tied t outs ins q p s got \<Longrightarrow> tied t outs1 ins1 q p s1 got1"
  shows "linked t outs1 ins1 s1 got1 sent s' got' sent'"
  using assms by (intro linked_moves [OF assms(1)]) (blast intro: moves_refl)

lemma linked_send:
  assumes "linked t outs ins s got sent s' got' sent'"
    and "\<And>p q. tied t outs ins q p s got \<Longrightarrow> \<exists>p'. (peer_step q)\<^sup>*\<^sup>* p p' \<and> tied t outs1 ins1 q p' s1 got \<and>
      pr_sent p' = pr_sent p @ data \<and> pr_in_order p' = pr_in_order p"
  shows "linked t outs1 ins1 s1 got (sent @ data) s' got' sent'"
proof -
  obtain p q where l: "link_reach 0 0 (p, q)" "tied t outs ins q p s got" "hosts t s' q got'"
    "pr_sent p = sent" "pr_sent q = sent'" "pr_in_order p" "pr_in_order q"
    using assms(1) by (auto simp: linked_def)
  from assms(2) [OF l(2)] obtain p' where p': "(peer_step q)\<^sup>*\<^sup>* p p'" "tied t outs1 ins1 q p' s1 got"
    "pr_sent p' = pr_sent p @ data" "pr_in_order p' = pr_in_order p" by blast
  with l link_reach_moves [OF p'(1) l(1)] show ?thesis
    unfolding linked_def by (intro exI [of _ p'] exI [of _ q]) simp
qed

text \<open>What the link promises.\<close>

lemma linked_peers:
  assumes "linked t outs ins s got sent s' got' sent'"
    and "int (length sent) < SEQ_HALF" and "int (length sent') < SEQ_HALF"
  obtains p q where "link_reach 0 0 (p, q)" and "link_small (p, q)" and "hosts t s p got" and "hosts t s' q got'"
    and "pr_sent p = sent" and "pr_in_order p"
proof -
  obtain p q where l: "link_reach 0 0 (p, q)" "tied t outs ins q p s got" "hosts t s' q got'"
    "pr_sent p = sent" "pr_sent q = sent'" "pr_in_order p"
    using assms(1) by (auto simp: linked_def)
  have "link_small (p, q)"
    using counted_reach [OF l(1)] counted_small assms(2,3) l(4,5) by (simp add: link_small_def)
  with l that show ?thesis by (simp add: tied_def)
qed

lemma linked_prefix:
  assumes "linked t outs ins s got sent s' got' sent'"
    and "int (length sent) < SEQ_HALF" and "int (length sent') < SEQ_HALF"
  shows "prefix (concat got') sent"
proof -
  obtain p q where l: "link_reach 0 0 (p, q)" "link_small (p, q)" "hosts t s' q got'" "pr_sent p = sent" "pr_in_order p"
    by (rule linked_peers [OF assms])
  have "order_inv p" using order_inv_reach [OF l(1)] by simp
  from dir_delivery(2) [OF link_reach_dirs(1) [OF l(1,2)] this l(5)] l(3,4) show ?thesis
    by (auto simp: hosts_def intro: append_prefixD)
qed

section \<open>Every call of a session keeps the simulation\<close>

context carrier
begin

lemma pump_linked:
  assumes "linked t (out_flight w) (in_flight w) s got sent s2 got2 sent2" and "t \<noteq> 0"
    and "pump ops mf s w = Some (Inr evs, s', w')"
  shows "linked t (out_flight w') (in_flight w') s' got sent s2 got2 sent2"
  using pump_tied [OF _ assms(2,3)] by (rule linked_moves [OF assms(1)])

lemma connect_linked:
  assumes "linked t (out_flight w) (in_flight w) s got sent s2 got2 sent2" and "t \<noteq> 0"
    and "session_connect ops s w = (r, s', w')"
  shows "linked t (out_flight w') (in_flight w') s' got sent s2 got2 sent2"
  using connect_tied [OF _ assms(2,3)] by (rule linked_still [OF assms(1)])

lemma close_linked:
  assumes "linked t (out_flight w) (in_flight w) s got sent s2 got2 sent2" and "t \<noteq> 0"
    and "session_close ops s w = (r, s', w')"
  shows "linked t (out_flight w') (in_flight w') s' got sent s2 got2 sent2"
  using close_tied [OF _ assms(2,3)] by (rule linked_still [OF assms(1)])

lemma now_linked:
  assumes "linked t (out_flight w) (in_flight w) s got sent s2 got2 sent2" and "w_now ops w = (now, w')"
  shows "linked t (out_flight w') (in_flight w') s got sent s2 got2 sent2"
  using tied_now [OF _ assms(2)] by (rule linked_still [OF assms(1)])

lemma open_linked:
  assumes "linked t (out_flight w) (in_flight w) s got sent s2 got2 sent2" and "t \<noteq> 0"
  shows "linked t (out_flight w) (in_flight w) (snd (session_open_stream s)) got sent s2 got2 sent2"
  using open_stream_tied [OF _ assms(2)] by (rule linked_still [OF assms(1)])

lemma recv_linked:
  assumes "linked t (out_flight w) (in_flight w) s got sent s2 got2 sent2" and "recv_on sid s = (chunks, s')"
  shows "linked t (out_flight w) (in_flight w) s' (if sid = t then got @ chunks else got) sent s2 got2 sent2"
  using recv_on_tied [OF _ assms(2)] by (rule linked_still [OF assms(1)])

lemma send_linked:
  assumes "linked t (out_flight w) (in_flight w) s got sent s2 got2 sent2" and "t \<noteq> 0"
    and "send_on ops sid data s w = (Inr u, s', w')" and "sid = t \<longrightarrow> flushed (view (se_mux s) t)"
  shows "linked t (out_flight w') (in_flight w') s' got (if sid = t then sent @ data else sent) s2 got2 sent2"
proof (cases "sid = t")
  case True
  have "\<exists>p'. (peer_step q)\<^sup>*\<^sup>* p p' \<and> tied t (out_flight w') (in_flight w') q p' s' got \<and>
      pr_sent p' = pr_sent p @ data \<and> pr_in_order p' = pr_in_order p"
    if "tied t (out_flight w) (in_flight w) q p s got" for p q
    using send_on_tied [OF that assms(2,3)] True assms(4) by simp
  from linked_send [OF assms(1) this] True show ?thesis by simp
next
  case False
  have "\<exists>p'. moves q p p' \<and> tied t (out_flight w') (in_flight w') q p' s' got"
    if "tied t (out_flight w) (in_flight w) q p s got" for p q
    using send_on_tied [OF that assms(2,3)] False unfolding moves_def by auto
  from linked_moves [OF assms(1) this] False show ?thesis by simp
qed

end

section \<open>The two sessions as one state\<close>

text \<open>
  \<open>dx_orderly\<close> is history: no pump and no send of an established session has raised so far, and
  every send on the observed stream found its endpoint flushed (no chunk queued behind an open
  window; a NACK can leave one, see \<open>nack_lets_send_overtake\<close>).
\<close>

record 'w duplex =
  dx_a :: Session
  dx_b :: Session
  dx_world :: 'w
  dx_orderly :: bool

definition duplex_start :: "Session \<Rightarrow> Session \<Rightarrow> 'w \<Rightarrow> 'w duplex" where
  "duplex_start a b w = \<lparr>dx_a = a, dx_b = b, dx_world = w, dx_orderly = True\<rparr>"

definition at_end ::
  "('w duplex \<Rightarrow> Session) \<Rightarrow> (Session \<Rightarrow> 'w duplex \<Rightarrow> 'w duplex) \<Rightarrow> (Session \<times> 'w \<Rightarrow> 'r \<times> Session \<times> 'w)
    \<Rightarrow> 'w duplex \<Rightarrow> 'r \<times> 'w duplex" where
  "at_end get put f d = (let (r, s, w) = f (get d, dx_world d) in (r, (put s d)\<lparr>dx_world := w\<rparr>))"

definition sent_orderly :: "int \<Rightarrow> int \<Rightarrow> Session \<Rightarrow> unit result \<Rightarrow> bool" where
  "sent_orderly t sid s r \<longleftrightarrow>
     (if session_is_established s then \<not> isl r \<and> (if sid = t then flushed (view (se_mux s) t) else True) else True)"

definition end_ops ::
  "int \<Rightarrow> ('w duplex \<Rightarrow> Session) \<Rightarrow> (Session \<Rightarrow> 'w duplex \<Rightarrow> 'w duplex) \<Rightarrow> 'w world_ops \<Rightarrow> 'w duplex session_ops" where
  "end_ops t get put ops =
     (let api = session_api ops in
      \<lparr>so_send_on = (\<lambda>sid data d. let (r, d1) = at_end get put (so_send_on api sid data) d
          in (r, d1\<lparr>dx_orderly := (dx_orderly d \<and> sent_orderly t sid (get d) r)\<rparr>)),
       so_recv_on = (\<lambda>sid. at_end get put (so_recv_on api sid)),
       so_pump = (\<lambda>d. map_option (\<lambda>(r, s, w). (r, (put s d)\<lparr>dx_world := w, dx_orderly := (dx_orderly d \<and> \<not> isl r)\<rparr>))
          (so_pump api (get d, dx_world d))),
       so_connect = at_end get put (so_connect api),
       so_close = at_end get put (so_close api),
       so_established = (\<lambda>d. so_established api (get d, dx_world d)),
       so_state = (\<lambda>d. so_state api (get d, dx_world d)),
       so_acked = (\<lambda>d. so_acked api (get d, dx_world d)),
       so_now = at_end get put (so_now api)\<rparr>)"

definition end_a :: "int \<Rightarrow> 'w world_ops \<Rightarrow> 'w duplex session_ops" where
  "end_a t = end_ops t dx_a (\<lambda>s d. d\<lparr>dx_a := s\<rparr>)"

definition end_b :: "int \<Rightarrow> 'w world_ops \<Rightarrow> 'w duplex session_ops" where
  "end_b t = end_ops t dx_b (\<lambda>s d. d\<lparr>dx_b := s\<rparr>)"

definition stream_inv :: "('w \<Rightarrow> bytes list) \<Rightarrow> ('w \<Rightarrow> bytes list) \<Rightarrow> int \<Rightarrow> 'w duplex StreamLog \<Rightarrow> bool" where
  "stream_inv ab ba t l \<longleftrightarrow> (dx_orderly (lg_state l) \<longrightarrow>
     linked t (ab (dx_world (lg_state l))) (ba (dx_world (lg_state l)))
       (dx_a (lg_state l)) (lg_got_a l) (lg_sent_a l) (dx_b (lg_state l)) (lg_got_b l) (lg_sent_b l))"

lemma stream_inv_ok:
  assumes "stream_inv ab ba t l" and "dx_orderly (lg_state l)"
    and "int (length (lg_sent_a l)) < SEQ_HALF" and "int (length (lg_sent_b l)) < SEQ_HALF"
  shows "stream_ok l"
proof -
  have l: "linked t (ab (dx_world (lg_state l))) (ba (dx_world (lg_state l)))
      (dx_a (lg_state l)) (lg_got_a l) (lg_sent_a l) (dx_b (lg_state l)) (lg_got_b l) (lg_sent_b l)"
    using assms(1,2) by (simp add: stream_inv_def)
  from linked_prefix [OF l assms(3,4)] linked_prefix [OF linked_swap [OF l] assms(4,3)]
  show ?thesis by (auto simp: stream_ok_def prefix_def)
qed

section \<open>Every call of an application keeps the simulation\<close>

context carrier
begin

lemma orderly_send_linked:
  assumes "linked t (out_flight w) (in_flight w) s got sent s2 got2 sent2" and "t \<noteq> 0"
    and "send_on ops sid data s w = (r, s', w')" and "sent_orderly t sid s r"
  shows "linked t (out_flight w') (in_flight w') s' got (if sid = t \<and> r = Inr () then sent @ data else sent) s2 got2 sent2"
proof (cases r)
  case (Inl e)
  then have "\<not> session_is_established s" using assms(4) by (auto simp: sent_orderly_def split: if_splits)
  then show ?thesis using assms(1,3) by (auto simp: send_on_def)
next
  case (Inr u)
  have "session_is_established s" using assms(3) Inr by (auto simp: send_on_def split: if_splits)
  then have "sid = t \<longrightarrow> flushed (view (se_mux s) t)" using assms(4) by (auto simp: sent_orderly_def split: if_splits)
  from send_linked [OF assms(1,2) assms(3) [unfolded Inr] this] show ?thesis using Inr by simp
qed

end

locale duplex_stream =
  fwd: carrier ops_a ab ba arrives + bwd: carrier ops_b ba ab arrives
  for ops_a ops_b :: "'w world_ops" and ab ba :: "'w \<Rightarrow> bytes list" and arrives :: "bytes \<Rightarrow> bytes \<Rightarrow> bool" +
  fixes t :: int
  assumes not_control: "t \<noteq> 0"

lemmas end_defs = end_ops_def at_end_def session_api_def Let_def

lemma stream_inv_mirror:
  "stream_inv ab ba t l \<longleftrightarrow> (dx_orderly (lg_state l) \<longrightarrow>
     linked t (ba (dx_world (lg_state l))) (ab (dx_world (lg_state l)))
       (dx_b (lg_state l)) (lg_got_b l) (lg_sent_b l) (dx_a (lg_state l)) (lg_got_a l) (lg_sent_a l))"
  using linked_swap unfolding stream_inv_def by blast

sublocale duplex_stream \<subseteq> at_a: kept "stream_inv ab ba t" "log_a t (end_a t ops_a)"
proof (unfold_locales, goal_cases)
  case (1 l sid data)
  let ?d = "lg_state l"
  obtain r s w where r: "send_on ops_a sid data (dx_a ?d) (dx_world ?d) = (r, s, w)" by (metis prod_cases3)
  from 1 fwd.orderly_send_linked [OF _ not_control r] r show ?case
    by (auto simp: log_a_def logged_simps end_a_def end_defs stream_inv_def)
next
  case (2 l sid)
  let ?d = "lg_state l"
  obtain c s where r: "recv_on sid (dx_a ?d) = (c, s)" by fastforce
  with 2 fwd.recv_linked [where t = t, OF _ r] show ?case
    by (auto simp: log_a_def logged_simps end_a_def end_defs stream_inv_def)
next
  case (3 l r l')
  let ?d = "lg_state l"
  from 3(2) obtain s w where p: "pump ops_a None (dx_a ?d) (dx_world ?d) = Some (r, s, w)"
    and l': "l' = l\<lparr>lg_state := ?d\<lparr>dx_a := s, dx_world := w, dx_orderly := (dx_orderly ?d \<and> \<not> isl r)\<rparr>\<rparr>"
    by (auto simp: log_a_def logged_simps end_a_def end_defs)
  with 3(1) fwd.pump_linked [OF _ not_control] show ?case by (cases r) (auto simp: stream_inv_def)
next
  case (4 l)
  let ?d = "lg_state l"
  obtain r s w where r: "session_connect ops_a (dx_a ?d) (dx_world ?d) = (r, s, w)" by (metis prod_cases3)
  with 4 fwd.connect_linked [OF _ not_control r] show ?case
    by (simp add: log_a_def logged_lift_simps end_a_def end_defs stream_inv_def)
next
  case (5 l)
  let ?d = "lg_state l"
  obtain r s w where r: "session_close ops_a (dx_a ?d) (dx_world ?d) = (r, s, w)" by (metis prod_cases3)
  with 5 fwd.close_linked [OF _ not_control r] show ?case
    by (simp add: log_a_def logged_lift_simps end_a_def end_defs stream_inv_def)
next
  case (6 l)
  let ?d = "lg_state l"
  obtain now w where r: "w_now ops_a (dx_world ?d) = (now, w)" by fastforce
  with 6 fwd.now_linked [OF _ r] show ?case
    by (simp add: log_a_def logged_simps end_a_def end_defs stream_inv_def)
qed

text \<open>The other end is the mirror image.\<close>

sublocale duplex_stream \<subseteq> at_b: kept "stream_inv ab ba t" "log_b t (end_b t ops_b)"
proof (unfold_locales, goal_cases)
  case (1 l sid data)
  let ?d = "lg_state l"
  obtain r s w where r: "send_on ops_b sid data (dx_b ?d) (dx_world ?d) = (r, s, w)" by (metis prod_cases3)
  from 1 bwd.orderly_send_linked [OF _ not_control r] r show ?case
    by (auto simp: log_b_def logged_simps end_b_def end_defs stream_inv_mirror)
next
  case (2 l sid)
  let ?d = "lg_state l"
  obtain c s where r: "recv_on sid (dx_b ?d) = (c, s)" by fastforce
  with 2 bwd.recv_linked [where t = t, OF _ r] show ?case
    by (auto simp: log_b_def logged_simps end_b_def end_defs stream_inv_mirror)
next
  case (3 l r l')
  let ?d = "lg_state l"
  from 3(2) obtain s w where p: "pump ops_b None (dx_b ?d) (dx_world ?d) = Some (r, s, w)"
    and l': "l' = l\<lparr>lg_state := ?d\<lparr>dx_b := s, dx_world := w, dx_orderly := (dx_orderly ?d \<and> \<not> isl r)\<rparr>\<rparr>"
    by (auto simp: log_b_def logged_simps end_b_def end_defs)
  with 3(1) bwd.pump_linked [OF _ not_control] show ?case by (cases r) (auto simp: stream_inv_mirror)
next
  case (4 l)
  let ?d = "lg_state l"
  obtain r s w where r: "session_connect ops_b (dx_b ?d) (dx_world ?d) = (r, s, w)" by (metis prod_cases3)
  with 4 bwd.connect_linked [OF _ not_control r] show ?case
    by (simp add: log_b_def logged_lift_simps end_b_def end_defs stream_inv_mirror)
next
  case (5 l)
  let ?d = "lg_state l"
  obtain r s w where r: "session_close ops_b (dx_b ?d) (dx_world ?d) = (r, s, w)" by (metis prod_cases3)
  with 5 bwd.close_linked [OF _ not_control r] show ?case
    by (simp add: log_b_def logged_lift_simps end_b_def end_defs stream_inv_mirror)
next
  case (6 l)
  let ?d = "lg_state l"
  obtain now w where r: "w_now ops_b (dx_world ?d) = (now, w)" by fastforce
  with 6 bwd.now_linked [OF _ r] show ?case
    by (simp add: log_b_def logged_simps end_b_def end_defs stream_inv_mirror)
qed

section \<open>Over a loopback pair\<close>

lemma loop_sends:
  "flight_ba (send_ab rops w f) = flight_ba w" "flight_ab (send_ba rops w f) = flight_ab w"
  "set (flight_ab (send_ab rops w f)) \<subseteq> set (flight_ab w) \<union> Collect (one_byte_off f)"
  "set (flight_ba (send_ba rops w f)) \<subseteq> set (flight_ba w) \<union> Collect (one_byte_off f)"
  using loop_ab.send_flight [of _ rops w f] loop_ba.send_flight [of _ rops w f]
  by (auto simp: flight_ba_def flight_ab_def send_ab_def send_ba_def case_prod_beta Let_def)

lemma loop_recvs:
  "flight_ab (snd (recv_a w)) = flight_ab w" "flight_ba (snd (recv_b w)) = flight_ba w"
  by (simp_all add: flight_ba_def flight_ab_def recv_a_def recv_b_def case_prod_beta Let_def)

interpretation loop_fwd: carrier "loop_ops_a rops" "\<lambda>w. flight_ab (lw_pair w)" "\<lambda>w. flight_ba (lw_pair w)" one_byte_off
  for rops :: "'r rng_ops"
  by unfold_locales
    (simp_all add: loop_ops_a_def loop_sends loop_recvs loop_ba.recv_flight loop_ba.recv_some one_byte_packet)

interpretation loop_bwd: carrier "loop_ops_b rops" "\<lambda>w. flight_ba (lw_pair w)" "\<lambda>w. flight_ab (lw_pair w)" one_byte_off
  for rops :: "'r rng_ops"
  by unfold_locales
    (simp_all add: loop_ops_b_def loop_sends loop_recvs loop_ab.recv_flight loop_ab.recv_some one_byte_packet)

text \<open>The streams are the positive numbers: 0 is the lifecycle's.\<close>

interpretation duplex_loop: duplex_stream "loop_ops_a rops" "loop_ops_b rops" "\<lambda>w. flight_ab (lw_pair w)"
  "\<lambda>w. flight_ba (lw_pair w)" one_byte_off "1 + int n"
  for rops :: "'r rng_ops" and n :: nat
  by unfold_locales simp

end
