(* ===== verification/Stream_Props.thy ===== *)
theory Stream_Props
  imports Two_Sessions
begin

text \<open>
  Runs of two sessions over a lossy loopback pair, from their construction: any calls of the two
  applications in any order, with time passing and other streams opened and used in between, and
  what such a run does to the bytes of one stream.
\<close>

section \<open>Runs\<close>

datatype call = CSend int bytes | CRecv int | CPump | CConnect | CClose

fun do_call :: "'s session_ops \<Rightarrow> call \<Rightarrow> 's \<Rightarrow> 's option" where
  "do_call api (CSend sid data) s = Some (snd (so_send_on api sid data s))"
| "do_call api (CRecv sid) s = Some (snd (so_recv_on api sid s))"
| "do_call api CPump s = map_option snd (so_pump api s)"
| "do_call api CConnect s = Some (snd (so_connect api s))"
| "do_call api CClose s = Some (snd (so_close api s))"

context kept
begin

lemma do_call_kept: "J s \<Longrightarrow> do_call api c s = Some s' \<Longrightarrow> J s'"
  by (cases c) (auto intro: send_kept recv_kept pump_kept connect_kept close_kept)

end

text \<open>What else can happen: a stream is opened at an end, or the common clock moves.\<close>

datatype event = AtA call | AtB call | OpenAtA | OpenAtB | Wait time

fun between :: "event \<Rightarrow> 'r loop_world duplex \<Rightarrow> 'r loop_world duplex" where
  "between OpenAtA d = d\<lparr>dx_a := snd (session_open_stream (dx_a d))\<rparr>"
| "between OpenAtB d = d\<lparr>dx_b := snd (session_open_stream (dx_b d))\<rparr>"
| "between (Wait dt) d = d\<lparr>dx_world := (dx_world d)\<lparr>lw_clock := snd (clock_advance (lw_clock (dx_world d)) dt)\<rparr>\<rparr>"
| "between (AtA c) d = d"
| "between (AtB c) d = d"

fun happen :: "'r rng_ops \<Rightarrow> int \<Rightarrow> event \<Rightarrow> 'r loop_world duplex StreamLog \<Rightarrow> 'r loop_world duplex StreamLog option" where
  "happen rops t (AtA c) l = do_call (log_a t (end_a t (loop_ops_a rops))) c l"
| "happen rops t (AtB c) l = do_call (log_b t (end_b t (loop_ops_b rops))) c l"
| "happen rops t ev l = Some (l\<lparr>lg_state := between ev (lg_state l)\<rparr>)"

fun happens :: "'r rng_ops \<Rightarrow> int \<Rightarrow> event list \<Rightarrow> 'r loop_world duplex StreamLog \<Rightarrow> 'r loop_world duplex StreamLog option" where
  "happens rops t [] l = Some l"
| "happens rops t (ev # evs) l = Option.bind (happen rops t ev l) (happens rops t evs)"

abbreviation loop_inv :: "int \<Rightarrow> 'r loop_world duplex StreamLog \<Rightarrow> bool" where
  "loop_inv \<equiv> stream_inv (\<lambda>w. flight_ab (lw_pair w)) (\<lambda>w. flight_ba (lw_pair w))"

lemma between_inv:
  assumes "loop_inv t l" and "t \<noteq> 0"
  shows "loop_inv t (l\<lparr>lg_state := between ev (lg_state l)\<rparr>)"
proof (cases ev)
  case OpenAtA
  with assms loop_fwd.open_linked [where t = t] show ?thesis by (auto simp: stream_inv_def)
next
  case OpenAtB
  with assms loop_bwd.open_linked [where t = t] show ?thesis by (auto simp: stream_inv_mirror)
qed (use assms in \<open>simp_all add: stream_inv_def\<close>)

lemma positive_stream: "0 < t \<Longrightarrow> \<exists>n. t = 1 + int n"
  by (rule exI [of _ "nat (t - 1)"]) simp

lemma happen_inv:
  assumes "loop_inv t l" and "0 < t" and "happen rops t ev l = Some l'"
  shows "loop_inv t l'"
proof -
  obtain n where t: "t = 1 + int n" using positive_stream [OF assms(2)] by blast
  have "loop_inv t (l\<lparr>lg_state := between ev (lg_state l)\<rparr>)"
    using between_inv [OF assms(1)] assms(2) by simp
  with assms(1,3) show ?thesis
    unfolding t by (cases ev) (auto dest: duplex_loop.at_a.do_call_kept duplex_loop.at_b.do_call_kept)
qed

lemma happens_inv: "loop_inv t l \<Longrightarrow> 0 < t \<Longrightarrow> happens rops t evs l = Some l' \<Longrightarrow> loop_inv t l'"
  by (induction evs arbitrary: l) (auto simp: bind_eq_Some_conv dest: happen_inv)

section \<open>The start\<close>

definition usable :: "int \<Rightarrow> int \<Rightarrow> bool" where
  "usable window payload \<longleftrightarrow> 1 \<le> window \<and> 1 \<le> payload"

lemma hosts_init:
  assumes "usable window payload"
  shows "hosts t (Session_init initiator sid isn hb idle window payload r crto retries)
    (fresh_peer (view (StreamMux_init sid initiator window payload (Some (rto_factory_from r))) t)) []"
  using assms
  by (simp add: hosts_def usable_def fresh_peer_def Session_init_def mux_stamped_def mux_config_ok_def
      StreamMux_init_def ctrl_stamped_def SessionStateMachine_init_def buffered_def)

lemma view_init:
  assumes "usable window payload"
  shows "ArqEndpoint_init sid 0 window (rto_factory_from r ()) payload 0 t DEFAULT_MAX_RETX =
    Inr (view (StreamMux_init sid initiator window payload (Some (rto_factory_from r))) t)"
proof -
  let ?m = "StreamMux_init sid initiator window payload (Some (rto_factory_from r))"
  have "mux_config_ok ?m" using assms by (simp add: usable_def mux_config_ok_def StreamMux_init_def)
  from new_endpoint_ok [OF this, of t] show ?thesis
    by (simp add: view_def new_endpoint_def StreamMux_init_def)
qed

lemma start_stream:
  assumes "usable wa pa" and "usable wb pb" and "ab w = []" and "ba w = []"
  shows "stream_inv ab ba t (new_log (duplex_start (Session_init True sa ia ha da wa pa ra ca na)
    (Session_init False sb ib hb db wb pb rb cb nb) w))"
proof -
  let ?p = "fresh_peer (view (StreamMux_init sa True wa pa (Some (rto_factory_from ra))) t)"
  let ?q = "fresh_peer (view (StreamMux_init sb False wb pb (Some (rto_factory_from rb))) t)"
  have "link_reach 0 0 (?p, ?q)"
    by (rule link_reach.start [OF _ _ view_init [OF assms(1)] view_init [OF assms(2)]]) (simp_all add: fits_def)
  moreover note hosts_init [OF assms(1)] hosts_init [OF assms(2)]
  ultimately show ?thesis
    using assms(3,4)
    unfolding stream_inv_def linked_def tied_def
    by (intro impI exI [of _ ?p] exI [of _ ?q])
      (simp add: new_log_def duplex_start_def carries_def, simp add: fresh_peer_def)
qed

lemmas start_inv = start_stream [where ab = "\<lambda>w. flight_ab (lw_pair w)" and ba = "\<lambda>w. flight_ba (lw_pair w)"]

section \<open>What has been acknowledged, and when all is delivered\<close>

lemma acked_view: "mux_config_ok m \<Longrightarrow> mux_acked_bytes m t = ep_acked_bytes (view m t)"
  by (simp add: mux_acked_bytes_def view_def new_endpoint_def ArqEndpoint_init_def mux_config_ok_def
      DEFAULT_MAX_RETX_def split: option.split)

lemma linked_acked:
  assumes "linked t outs ins s got sent s' got' sent'"
    and "int (length sent) < SEQ_HALF" and "int (length sent') < SEQ_HALF"
  shows "session_acked_bytes s t \<le> length (concat (got' @ buffered t s'))"
proof -
  obtain p q where l: "link_reach 0 0 (p, q)" "link_small (p, q)" "hosts t s p got" "hosts t s' q got'"
    by (rule linked_peers [OF assms])
  note d = link_reach_dirs(1) [OF l(1,2)]
  have "ep_acked_bytes (pr_ep p) \<le> length (concat (pr_got q))"
  proof -
    let ?u = "una (pr_log p) (pr_ep p)"
    have g: "pr_got q = take (length (pr_got q)) (pr_log p)" and u: "?u \<le> length (pr_got q)"
      and k: "ep_acked_bytes (pr_ep p) = length (concat (take ?u (pr_log p)))"
      using d by (auto simp: dir_inv_def rcv_inv_def snd_inv_def)
    have "take ?u (pr_log p) = take ?u (pr_got q)" using u by (subst g) (simp add: min_def)
    then show ?thesis
      using k by (metis append_take_drop_id concat_append le_add1 length_append)
  qed
  with l(3,4) acked_view [of "se_mux s" t] show ?thesis
    by (simp add: hosts_def mux_stamped_def session_acked_bytes_def)
qed

lemma linked_idle:
  assumes "linked t outs ins s got sent s' got' sent'"
    and "int (length sent) < SEQ_HALF" and "int (length sent') < SEQ_HALF"
    and "unacked_count (view (se_mux s) t) = 0" and "pending_count (view (se_mux s) t) = 0"
  shows "concat (got' @ buffered t s') = sent"
proof -
  obtain p q where l: "link_reach 0 0 (p, q)" "link_small (p, q)" "hosts t s p got" "hosts t s' q got'"
    "pr_sent p = sent" "pr_in_order p"
    by (rule linked_peers [OF assms(1-3)])
  have "order_inv p" using order_inv_reach [OF l(1)] by simp
  moreover have "pr_got q = pr_log p"
    using assms(4) l(3) by (intro dir_complete [OF link_reach_dirs(1) [OF l(1,2)]]) (simp add: unacked_count_def hosts_def)
  ultimately show ?thesis
    using l assms(5) by (simp add: hosts_def order_inv_def pending_count_def)
qed

section \<open>A concrete run\<close>

text \<open>
  A pair of channels without noise and a clock that stands at \<open>now\<close>. Frames are kept as
  \<open>framed p\<close>: packing and unpacking are inverse, so a run is evaluated without their bytes.
\<close>

definition quiet_world :: "bytes list \<Rightarrow> bytes list \<Rightarrow> time \<Rightarrow> unit loop_world" where
  "quiet_world x y now = \<lparr>lw_pair = (loopback_pair_init () 0 0 0 0 0 0)\<lparr>lp_q_ab := x, lp_q_ba := y\<rparr>,
     lw_clock = ManualClock_init now\<rparr>"

lemma quiet_world_ops [simp]:
  "w_send (loop_ops_a quiet_rng) f (quiet_world x y now) = (Inr (), quiet_world (x @ [f]) y now)"
  "w_send (loop_ops_b quiet_rng) f (quiet_world x y now) = (Inr (), quiet_world x (y @ [f]) now)"
  "w_recv (loop_ops_a quiet_rng) d (quiet_world x [] now) = (Inr None, quiet_world x [] now)"
  "w_recv (loop_ops_a quiet_rng) d (quiet_world x (f # y) now) = (Inr (Some f), quiet_world x y now)"
  "w_recv (loop_ops_b quiet_rng) d (quiet_world [] y now) = (Inr None, quiet_world [] y now)"
  "w_recv (loop_ops_b quiet_rng) d (quiet_world (f # x) y now) = (Inr (Some f), quiet_world x y now)"
  "w_now (loop_ops_a rops) (quiet_world x y now) = (now, quiet_world x y now)"
  "w_now (loop_ops_b rops) (quiet_world x y now) = (now, quiet_world x y now)"
  by (simp_all add: quiet_world_def loop_ops_a_def loop_ops_b_def send_ab_def send_ba_def recv_a_def recv_b_def
      loopback_send_def loopback_recv_def survivors_def quiet_rng_def loopback_pair_init_def
      LoopbackChannel_init_def clock_now_def ManualClock_init_def Let_def)

definition framed :: "Packet \<Rightarrow> bytes" where
  "framed p = projr (pack p)"

lemma framed: "packet_ok p \<Longrightarrow> pack p = Inr (framed p)" "packet_ok p \<Longrightarrow> unpack (framed p) = Inr p"
proof -
  assume "packet_ok p"
  then show "pack p = Inr (framed p)" by (simp add: framed_def pack_eq)
  then show "unpack (framed p) = Inr p" by (rule unpack_pack)
qed

lemma drain_end: "w_recv ops DRAIN_TIMEOUT w = (Inr None, w1) \<Longrightarrow> drain_frames ops None k s w = Some (Inr [], s, w1)"
  by (simp add: drain_frames.simps [of ops None k s w])

lemma drain_next:
  "w_recv ops DRAIN_TIMEOUT w = (Inr (Some f), w1) \<Longrightarrow> unpack f = Inr pkt \<Longrightarrow>
   drain_frames ops None k s w =
     (case route_packet ops s pkt w1 of
        (Inl e, s1, w2) \<Rightarrow> Some (Inl e, s1, w2)
      | (Inr evs, s1, w2) \<Rightarrow>
          Option.bind (drain_frames ops None (k + 1) s1 w2)
            (\<lambda>(r, s2, w3). Some (map_sum id ((@) evs) r, s2, w3)))"
  by (simp add: drain_frames.simps [of ops None k s w])

definition start_a :: Session where "start_a = Session_init True 7 100 1 3 8 200 None (1 / 2) 5"
definition start_b :: Session where "start_b = Session_init False 0 200 1 3 8 200 None (1 / 2) 5"

definition start_log :: "unit loop_world duplex StreamLog" where
  "start_log = new_log (duplex_start start_a start_b (quiet_world [] [] 0))"

lemmas session_calls = send_on_def recv_on_def session_connect_def pump_def run_timers_def route_packet_def
  machine_packet_def emit_def emit_mux_def sync_session_id_def session_id_def session_state_def
  session_is_established_def is_established_def

lemmas machine_calls = sm_connect_def sm_on_packet_def responder_initial_def handle_packet_def sm_on_tick_def
  idle_expired_def tick_heartbeat_def heartbeat_due_def make_ctrl_def arm_pending_def clear_pending_def no_output_def
  note_data_activity_def CONTROL_TYPES_def CONTROL_STREAM_ID_def Flags_SYN_ACK_def Flags_FIN_ACK_def

lemmas mux_calls = mux_send_def mux_endpoint_def new_endpoint_def ArqEndpoint_init_def put_endpoint_def
  mux_on_packet_def mux_on_tick_def set_session_id_def empty_mux_output_def DEFAULT_MAX_RETX_def view_def

lemmas end_calls = log_a_def log_b_def logged_simps logged_lift_simps end_a_def end_b_def end_ops_def at_end_def
  session_api_def sent_orderly_def

lemmas inits = start_log_def new_log_def duplex_start_def start_a_def start_b_def Session_init_def
  SessionStateMachine_init_def StreamMux_init_def rto_factory_from_def RtoEstimator_default_def

lemmas weak = let_weak_cong prod.case_cong_weak sum.case_cong_weak option.case_cong_weak list.case_cong_weak

lemmas packet_calls = framed packet_ok_def fits_def Flags_SYN_def Flags_ACK_def Flags_FIN_def Flags_NONE_def PROTOCOL_VERSION_def drain_end drain_next

lemma one_slice: "xs \<noteq> [] \<Longrightarrow> length xs \<le> n \<Longrightarrow> py_slices n xs = [xs]"
proof -
  assume xs: "xs \<noteq> []" "length xs \<le> n"
  then have n: "0 < n" by (cases xs) simp_all
  from py_slices_step [OF n xs(1)] xs(2) n show ?thesis by simp
qed

lemmas arq_calls = arq_send_def one_slice emit_data_def can_send_def send_limit_def recv_advertised_window_def
  arq_on_packet_def on_data_def accept_data_def drain.simps prune_nacked_def ack_packet_def lowest_missing_seq_def
  on_ack_def ack_loop.simps seq_lt_def seq_add_def SEQ_MOD_def SEQ_HALF_def flush_pending.simps flushed_def empty_output_def
  arq_on_tick_def timed_out_def dict_mem_def on_stream_def DEFAULT_STREAM_ID_def

lemmas call_simps = Let_def end_calls session_calls machine_calls mux_calls inits packet_calls arq_calls

text \<open>A three-way handshake, two bytes from one end to the other, and the reading of them.\<close>

definition short_talk :: "event list" where
  "short_talk = [AtA CConnect, AtB CPump, AtA CPump, AtB CPump, AtA (CSend 1 [5, 6]), AtB CPump, AtB (CRecv 1)]"

lemma short_talk:
  "\<exists>l. happens quiet_rng 1 short_talk start_log = Some l \<and> dx_orderly (lg_state l) \<and>
    lg_got_b l = [[5, 6]] \<and> lg_sent_a l = [5, 6] \<and> lg_sent_b l = []"
  by (simp add: short_talk_def call_simps cong: weak)

lemma answered_talk:
  "\<exists>l. happens quiet_rng 1 (short_talk @ [AtA CPump]) start_log = Some l \<and> dx_orderly (lg_state l) \<and>
    lg_sent_a l = [5, 6] \<and> lg_sent_b l = [] \<and>
    unacked_count (view (se_mux (dx_a (lg_state l))) 1) = 0 \<and>
    pending_count (view (se_mux (dx_a (lg_state l))) 1) = 0"
  by (simp add: short_talk_def call_simps unacked_count_def pending_count_def on_sample_def
      RtoEstimator_init_def clamp_def cong: weak)

section \<open>Properties\<close>

text \<open>
  Two sessions over a loopback channel that loses, repeats, corrupts and holds back frames as
  the random generator pleases and that is empty at the start; windows and payload sizes are at least
  one; any calls of the two applications in any order on any streams, with time passing in between. While no pump and no send of an established session has raised
  and every send on stream \<open>t\<close> found it flushed, the bytes each application has taken from the
  stream are a prefix of the bytes the other has sent on it, and the bytes a session reports as
  acknowledged have reached the other's receive buffer. Fewer than 2^31 bytes are sent each way.
\<close>

theorem sessions_deliver_in_order:
  assumes "happens rops t evs (new_log (duplex_start (Session_init True sa ia ha da wa pa ra ca na)
      (Session_init False sb ib hb db wb pb rb cb nb) w)) = Some l"
    and "usable wa pa" and "usable wb pb" and "0 < t"
    and "flight_ab (lw_pair w) = []" and "flight_ba (lw_pair w) = []"
    and "dx_orderly (lg_state l)"
    and "int (length (lg_sent_a l)) < SEQ_HALF" and "int (length (lg_sent_b l)) < SEQ_HALF"
  shows "stream_ok l \<and>
    session_acked_bytes (dx_a (lg_state l)) t \<le> length (concat (lg_got_b l @ buffered t (dx_b (lg_state l)))) \<and>
    session_acked_bytes (dx_b (lg_state l)) t \<le> length (concat (lg_got_a l @ buffered t (dx_a (lg_state l))))"
proof -
  have inv: "loop_inv t l"
    by (rule happens_inv [OF start_inv [OF assms(2,3,5,6)] assms(4,1)])
  then have a: "linked t (flight_ab (lw_pair (dx_world (lg_state l)))) (flight_ba (lw_pair (dx_world (lg_state l))))
      (dx_a (lg_state l)) (lg_got_a l) (lg_sent_a l) (dx_b (lg_state l)) (lg_got_b l) (lg_sent_b l)"
    using assms(7) by (simp add: stream_inv_def)
  from stream_inv_ok [OF inv assms(7-9)] linked_acked [OF a assms(8,9)] linked_acked [OF linked_swap [OF a] assms(9,8)]
  show ?thesis by blast
qed

lemma quiet_world_empty: "flight_ab (lw_pair (quiet_world [] [] now)) = []" "flight_ba (lw_pair (quiet_world [] [] now)) = []"
  by (simp_all add: quiet_world_def flight_ab_def flight_ba_def held_list_def loopback_pair_init_def
      LoopbackChannel_init_def Let_def)

lemmas talk_start = start_log_def start_a_def start_b_def

lemma start_state:
  "lg_state start_log = duplex_start (Session_init True 7 100 1 3 8 200 None (1 / 2) 5)
    (Session_init False 0 200 1 3 8 200 None (1 / 2) 5) (quiet_world [] [] 0)"
  by (simp add: talk_start new_log_def)

theorem sessions_deliver_in_order_witness:
  "\<exists>l. happens quiet_rng 1 short_talk start_log = Some l \<and> lg_got_b l = [[5, 6]] \<and> stream_ok l"
proof -
  obtain l where l: "happens quiet_rng 1 short_talk start_log = Some l" "dx_orderly (lg_state l)"
    "lg_got_b l = [[5, 6]]" "lg_sent_a l = [5, 6]" "lg_sent_b l = []"
    using short_talk by blast
  have u: "usable 8 200" "(0::int) < 1" by (simp_all add: usable_def)
  have n: "int (length (lg_sent_a l)) < SEQ_HALF" "int (length (lg_sent_b l)) < SEQ_HALF"
    using l(4,5) by (simp_all add: SEQ_HALF_def)
  from sessions_deliver_in_order [OF l(1) [unfolded talk_start] u(1,1,2) quiet_world_empty l(2) n] l(1,3)
  show ?thesis by blast
qed

text \<open>Nothing of the stream is unacknowledged and nothing queued.\<close>

definition all_acked :: "Session \<Rightarrow> int \<Rightarrow> bool" where
  "all_acked s t \<longleftrightarrow> unacked_count (view (se_mux s) t) = 0 \<and> pending_count (view (se_mux s) t) = 0"

text \<open>
  In such a run, orderly and of fewer than 2^31 bytes each way, a session whose endpoint of stream \<open>t\<close>
  has nothing unacknowledged and nothing queued has completed its transfer: what the other application
  has taken and what waits for it in its session's buffer are together exactly the bytes that were
  sent. This is so for both sessions.
\<close>

theorem idle_session_has_delivered:
  assumes "happens rops t evs (new_log (duplex_start (Session_init True sa ia ha da wa pa ra ca na)
      (Session_init False sb ib hb db wb pb rb cb nb) w)) = Some l"
    and "usable wa pa" and "usable wb pb" and "0 < t"
    and "flight_ab (lw_pair w) = []" and "flight_ba (lw_pair w) = []"
    and "dx_orderly (lg_state l)"
    and "int (length (lg_sent_a l)) < SEQ_HALF" and "int (length (lg_sent_b l)) < SEQ_HALF"
  shows "(if all_acked (dx_a (lg_state l)) t
      then concat (lg_got_b l @ buffered t (dx_b (lg_state l))) = lg_sent_a l else True) \<and>
    (if all_acked (dx_b (lg_state l)) t
      then concat (lg_got_a l @ buffered t (dx_a (lg_state l))) = lg_sent_b l else True)"
proof -
  have "loop_inv t l"
    by (rule happens_inv [OF start_inv [OF assms(2,3,5,6)] assms(4,1)])
  then have a: "linked t (flight_ab (lw_pair (dx_world (lg_state l)))) (flight_ba (lw_pair (dx_world (lg_state l))))
      (dx_a (lg_state l)) (lg_got_a l) (lg_sent_a l) (dx_b (lg_state l)) (lg_got_b l) (lg_sent_b l)"
    using assms(7) by (simp add: stream_inv_def)
  show ?thesis
    using linked_idle [OF a assms(8,9)] linked_idle [OF linked_swap [OF a] assms(9,8)] by (simp add: all_acked_def)
qed

theorem idle_session_has_delivered_witness:
  "\<exists>l. happens quiet_rng 1 (short_talk @ [AtA CPump]) start_log = Some l \<and>
     concat (lg_got_b l @ buffered 1 (dx_b (lg_state l))) = lg_sent_a l \<and> lg_sent_a l = [5, 6]"
proof -
  obtain l where l: "happens quiet_rng 1 (short_talk @ [AtA CPump]) start_log = Some l" "dx_orderly (lg_state l)"
    "lg_sent_a l = [5, 6]" "lg_sent_b l = []"
    "unacked_count (view (se_mux (dx_a (lg_state l))) 1) = 0" "pending_count (view (se_mux (dx_a (lg_state l))) 1) = 0"
    using answered_talk by blast
  have u: "usable 8 200" "(0::int) < 1" by (simp_all add: usable_def)
  have n: "int (length (lg_sent_a l)) < SEQ_HALF" "int (length (lg_sent_b l)) < SEQ_HALF"
    using l(3,4) by (simp_all add: SEQ_HALF_def)
  from idle_session_has_delivered [OF l(1) [unfolded talk_start] u(1,1,2) quiet_world_empty l(2) n]
  have "concat (lg_got_b l @ buffered 1 (dx_b (lg_state l))) = lg_sent_a l" using l(5,6) by (simp add: all_acked_def)
  with l(1,3) show ?thesis by blast
qed

end
