(* ===== verification/Chat_Sessions.thy ===== *)
theory Chat_Sessions
  imports Chat_Props Stream_Props
begin

text \<open>
  The whole stack: two \<open>ChatSession\<close>s over two \<open>Session\<close>s over a lossy loopback pair. The
  transport's promise, an assumption of \<open>chat_in_order\<close>, is discharged by the simulation of
  \<open>Two_Sessions\<close>.
\<close>

section \<open>What happens beside the conversation\<close>

text \<open>A call of a session that leaves stream \<open>t\<close> to the conversation.\<close>

fun aside :: "'s session_ops \<Rightarrow> int \<Rightarrow> call \<Rightarrow> 's \<Rightarrow> 's" where
  "aside api t (CSend sid data) s = (if sid = t then s else snd (so_send_on api sid data s))"
| "aside api t (CRecv sid) s = (if sid = t then s else snd (so_recv_on api sid s))"
| "aside api t CPump s = (case so_pump api s of None \<Rightarrow> s | Some (r, s1) \<Rightarrow> s1)"
| "aside api t CConnect s = snd (so_connect api s)"
| "aside api t CClose s = snd (so_close api s)"

fun background :: "'r rng_ops \<Rightarrow> int \<Rightarrow> event \<Rightarrow> 'r loop_world duplex \<Rightarrow> 'r loop_world duplex" where
  "background rops t (AtA c) d = aside (end_a t (loop_ops_a rops)) t c d"
| "background rops t (AtB c) d = aside (end_b t (loop_ops_b rops)) t c d"
| "background rops t ev d = between ev d"

lemma kept_aside:
  assumes "kept J (logged ns ng t api)" and "J l"
  shows "J (l\<lparr>lg_state := aside api t c (lg_state l)\<rparr>)"
proof (cases c)
  case (CSend sid data)
  with kept.send_kept [OF assms, of sid data] assms(2) show ?thesis by (auto simp: logged_simps)
next
  case (CRecv sid)
  with kept.recv_kept [OF assms, of sid] assms(2) show ?thesis by (auto simp: logged_simps)
next
  case CPump
  then show ?thesis
  proof (cases "so_pump api (lg_state l)")
    case (Some p)
    obtain r s1 where "p = (r, s1)" by fastforce
    with Some CPump kept.pump_kept [OF assms, of r "l\<lparr>lg_state := s1\<rparr>"] show ?thesis by (simp add: logged_simps)
  qed (use assms(2) in simp)
next
  case CConnect
  with kept.connect_kept [OF assms] show ?thesis by (simp add: logged_lift_simps)
next
  case CClose
  with kept.close_kept [OF assms] show ?thesis by (simp add: logged_lift_simps)
qed

interpretation chat_loop: kept_pair "loop_inv (1 + int n)" "1 + int n"
  "end_a (1 + int n) (loop_ops_a rops)" "end_b (1 + int n) (loop_ops_b rops)"
  for rops :: "'r rng_ops" and n :: nat
  by (rule kept_pair.intro [OF duplex_loop.at_a.kept_axioms duplex_loop.at_b.kept_axioms])

lemma background_kept:
  assumes "loop_inv (1 + int n) l"
  shows "loop_inv (1 + int n) (l\<lparr>lg_state := background rops (1 + int n) ev (lg_state l)\<rparr>)"
proof (cases ev)
  case (AtA c)
  from kept_aside [OF duplex_loop.at_a.kept_axioms [unfolded log_a_def] assms, of rops c] AtA show ?thesis by simp
next
  case (AtB c)
  from kept_aside [OF duplex_loop.at_b.kept_axioms [unfolded log_b_def] assms, of rops c] AtB show ?thesis by simp
qed (use between_inv [OF assms, of ev] in simp_all)

text \<open>Nothing else happens than calls on other streams, on the lifecycle, and the passing of time.\<close>

definition beside :: "'r rng_ops \<Rightarrow> int \<Rightarrow> 'r loop_world duplex talk list \<Rightarrow> bool" where
  "beside rops t acts \<longleftrightarrow> list_all (\<lambda>x. case x of Elsewhere f \<Rightarrow> \<exists>ev. f = background rops t ev | _ \<Rightarrow> True) acts"

lemma beside_harmless: "beside rops (1 + int n) acts \<Longrightarrow> list_all (chat_loop.harmless n) acts"
  unfolding beside_def by (erule list.pred_mono_strong)
    (auto simp: chat_loop.harmless_def background_kept split: talk.splits)

section \<open>A concrete conversation\<close>

text \<open>One side connects, the handshake runs, it says \<open>hi\<close>, the other side pumps and says \<open>hi\<close> back.\<close>

definition hi_talk :: "unit loop_world duplex talk list" where
  "hi_talk = map (\<lambda>ev. Elsewhere (background quiet_rng 1 ev)) [AtA CConnect, AtB CPump, AtA CPump, AtB CPump] @
     [SayA (code_points ''hi''), PumpB, SayB (code_points ''hi''), PumpA]"

lemma hi_talk_runs:
  "\<exists>v. chat_run half_text half_parse 1 (end_a 1 (loop_ops_a quiet_rng)) (end_b 1 (loop_ops_b quiet_rng)) hi_talk
      (new_conversation 1 (lg_state start_log)) = Some v \<and> dx_orderly (lg_state (cv_log v)) \<and>
    length (lg_sent_a (cv_log v)) < 68 \<and> length (lg_sent_b (cv_log v)) < 68 \<and>
    cv_said_a v = [hi_message] \<and> cv_said_b v = [hi_message] \<and>
    ch_received (cv_b v) = [hi_message] \<and> ch_received (cv_a v) = [hi_message]"
proof -
  obtain f where f: "encode_message half_text hi_message = Inr f" "f \<noteq> []" "length f < 68"
    using hi_encodes by blast
  with hi_loop [OF f(1)] show ?thesis
    by (simp add: hi_talk_def call_simps new_conversation_def chat_message_def
        ChatSession_init_def send_message_def chat_pump_def chat_feed_def said_def on_sample_def
        RtoEstimator_init_def clamp_def K_RTTVAR_def cong: weak)
qed

section \<open>Property\<close>

text \<open>
  Chat over the whole stack. Two \<open>ChatSession\<close>s on stream \<open>t\<close> of two sessions over a loopback
  channel that loses, repeats, corrupts and holds back frames; any sends and pumps of both, with
  connects, closes, traffic on other streams and time in between. As long as the run is orderly (no
  pump and no send of the sessions raised, no send found data queued behind an open window), no call
  of the chat endpoints raised, the messages can be encoded and read back, and each side has sent less
  than \<open>2 ^ 31\<close> bytes: each side has received a prefix of the messages the other sent, unchanged and in
  order, and all of them once it has taken all bytes; the message ids of each are \<open>1, 2, 3, \<dots>\<close>.
\<close>

theorem chat_over_lossy_channel:
  assumes "chat_run fr fp t (end_a t (loop_ops_a rops)) (end_b t (loop_ops_b rops)) acts
      (new_conversation t (duplex_start (Session_init True sa ia ha da wa pa ra ca na)
        (Session_init False sb ib hb db wb pb rb cb nb) w)) = Some v"
    and "beside rops t acts" and "0 < t" and "usable wa pa" and "usable wb pb"
    and "flight_ab (lw_pair w) = []" and "flight_ba (lw_pair w) = []"
    and "dx_orderly (lg_state (cv_log v))"
    and "int (length (lg_sent_a (cv_log v))) < SEQ_HALF" and "int (length (lg_sent_b (cv_log v))) < SEQ_HALF"
    and "list_all (message_ok fr fp) (cv_said_a v @ cv_said_b v)"
  shows "take (length (ch_received (cv_b v))) (cv_said_a v) = ch_received (cv_b v) \<and>
    take (length (ch_received (cv_a v))) (cv_said_b v) = ch_received (cv_a v) \<and>
    (if concat (lg_got_b (cv_log v)) = lg_sent_a (cv_log v) then ch_received (cv_b v) = cv_said_a v else True) \<and>
    (if concat (lg_got_a (cv_log v)) = lg_sent_b (cv_log v) then ch_received (cv_a v) = cv_said_b v else True) \<and>
    map cm_msg_id (cv_said_a v) = map (\<lambda>i. JInt (int i)) [1..<Suc (length (cv_said_a v))] \<and>
    map cm_msg_id (cv_said_b v) = map (\<lambda>i. JInt (int i)) [1..<Suc (length (cv_said_b v))]"
proof -
  obtain n where t: "t = 1 + int n" using positive_stream [OF assms(3)] by blast
  have "loop_inv t (cv_log v)"
    using chat_loop.chat_run_kept [OF _ beside_harmless assms(1) [unfolded t]] assms(2)
      start_inv [OF assms(4-7), where t = t]
    by (simp add: t new_conversation_def)
  from chat_in_order [OF assms(1) stream_inv_ok [OF this assms(8-10)] assms(11)] show ?thesis .
qed

theorem chat_over_lossy_channel_witness:
  "\<exists>v. chat_run half_text half_parse 1 (end_a 1 (loop_ops_a quiet_rng)) (end_b 1 (loop_ops_b quiet_rng)) hi_talk
      (new_conversation 1 (lg_state start_log)) = Some v \<and>
    take (length (ch_received (cv_b v))) (cv_said_a v) = ch_received (cv_b v) \<and> ch_received (cv_b v) = [hi_message] \<and>
    take (length (ch_received (cv_a v))) (cv_said_b v) = ch_received (cv_a v) \<and> ch_received (cv_a v) = [hi_message] \<and>
    map cm_msg_id (cv_said_b v) = [JInt 1]"
proof -
  obtain v where v: "chat_run half_text half_parse 1 (end_a 1 (loop_ops_a quiet_rng)) (end_b 1 (loop_ops_b quiet_rng))
      hi_talk (new_conversation 1 (lg_state start_log)) = Some v" "dx_orderly (lg_state (cv_log v))"
    "length (lg_sent_a (cv_log v)) < 68" "length (lg_sent_b (cv_log v)) < 68"
    "cv_said_a v = [hi_message]" "cv_said_b v = [hi_message]"
    "ch_received (cv_b v) = [hi_message]" "ch_received (cv_a v) = [hi_message]"
    using hi_talk_runs by blast
  have u: "usable 8 200" "(0::int) < 1" by (simp_all add: usable_def)
  have b: "beside quiet_rng 1 hi_talk" by (auto simp: beside_def hi_talk_def)
  have n: "int (length (lg_sent_a (cv_log v))) < SEQ_HALF" "int (length (lg_sent_b (cv_log v))) < SEQ_HALF"
    "list_all (message_ok half_text half_parse) (cv_said_a v @ cv_said_b v)"
    using v(3-6) hi_ok by (simp_all add: SEQ_HALF_def)
  from chat_over_lossy_channel [OF v(1) [unfolded start_state] b u(2,1,1) quiet_world_empty v(2) n]
  have c: "take (length (ch_received (cv_b v))) (cv_said_a v) = ch_received (cv_b v)"
    "take (length (ch_received (cv_a v))) (cv_said_b v) = ch_received (cv_a v)"
    "map cm_msg_id (cv_said_b v) = map (\<lambda>i. JInt (int i)) [1..<Suc (length (cv_said_b v))]" by simp_all
  from c(3) have "map cm_msg_id (cv_said_b v) = [JInt 1]" by (simp add: v(6))
  with c v(1,7,8) show ?thesis by (intro exI [of _ v] conjI) assumption+
qed

end
