(* ===== verification/File_Sessions.thy ===== *)
theory File_Sessions
  imports File_Claims Chat_Sessions
begin

text \<open>
  The file transfer over the whole stack: a \<open>FileSender\<close> and a \<open>FileReceiver\<close> on two sessions over
  a lossy loopback pair.
\<close>

section \<open>The endpoints keep what their session keeps\<close>

definition handler_keeps :: "('s \<Rightarrow> bool) \<Rightarrow> ('e, 's) handler \<Rightarrow> bool" where
  "handler_keeps J h \<longleftrightarrow> (\<forall>f e s r e' s'. J s \<longrightarrow> h f e s = Some (r, e', s') \<longrightarrow> J s')"

lemma each_frame_kept:
  "handler_keeps J h \<Longrightarrow> J s \<Longrightarrow> each_frame h fs e s = Some (r, e', s') \<Longrightarrow> J s'"
proof (induction fs arbitrary: e s)
  case (Cons f fs)
  obtain q e1 s1 where h: "h f e s = Some (q, e1, s1)" using Cons.prems(3) by (cases "h f e s") auto
  with Cons.prems have "J s1" unfolding handler_keeps_def by blast
  with Cons h show ?case by (cases q) auto
qed simp

lemma each_chunk_kept:
  "handler_keeps J h \<Longrightarrow> J s \<Longrightarrow> each_chunk h buf cs e s = Some (r, b, e', s') \<Longrightarrow> J s'"
proof (induction cs arbitrary: buf e s)
  case (Cons c cs)
  obtain x b1 where x: "file_feed buf c = (x, b1)" by fastforce
  show ?case
  proof (cases x)
    case (Inl z)
    with Cons.prems x show ?thesis by simp
  next
    case (Inr fs)
    obtain q e1 s1 where h: "each_frame h fs e s = Some (q, e1, s1)"
      using Cons.prems(3) x Inr by (cases "each_frame h fs e s") auto
    with each_frame_kept [OF Cons.prems(1,2) h] Cons x Inr show ?thesis by (cases q) auto
  qed
qed simp

context kept
begin

lemma send_some_kept: "J s \<Longrightarrow> so_send_on api sid data s = (r, s') \<Longrightarrow> J s'"
  using send_kept [of s sid data] by simp

lemma send_control_kept: "J s \<Longrightarrow> send_control fr api sid ty obj s = (r, s') \<Longrightarrow> J s'"
  by (auto simp: send_control_def split: sum.splits dest: send_some_kept)

lemma send_chunks_kept:
  assumes "send_chunks api sid step data offset s = Some y" and "J s"
  shows "J (snd y)"
proof -
  have "api' = api \<longrightarrow> J s \<longrightarrow> J (snd y)"
    if "send_chunks api' sid step data offset s = Some y" for api' offset s y
  proof (rule send_chunks.raw_induct [where P = "\<lambda>api' _ _ _ _ s y. api' = api \<longrightarrow> J s \<longrightarrow> J (snd y)", OF _ that],
      goal_cases)
    case (1 D api' sid step data offset s y)
    show ?case
    proof (intro impI)
      assume api: "api' = api" and j: "J s"
      let ?p = "take step (drop offset data)"
      show "J (snd y)"
      proof (cases "offset < length data \<and> \<not> isl (encode_frame CHUNK ?p)")
        case True
        then obtain b where b: "encode_frame CHUNK ?p = Inr b" by (cases "encode_frame CHUNK ?p") auto
        obtain q s1 where q: "so_send_on api sid b s = (q, s1)" by fastforce
        with send_some_kept [OF j q] 1(1) [of api sid step data "offset + length ?p" s1 y] 1(2) api b True show ?thesis
          by (cases q) (auto simp: Let_def)
      next
        case False
        with 1(2) j show ?thesis by (auto simp: Let_def split: if_splits sum.splits)
      qed
    qed
  qed
  with assms show ?thesis by blast
qed

lemma fs_start_kept: "J s \<Longrightarrow> fs_start fr api f s = (r, f', s') \<Longrightarrow> J s'"
  by (auto simp: fs_start_def split: if_splits sum.splits prod.splits dest: send_some_kept)

lemma fs_handler_keeps: "handler_keeps J (fs_handle_frame fr api)"
proof -
  have "J s'" if j: "J s" and a: "send_all_chunks_and_done fr api f s = Some (r, f', s')" for f s r f' s'
  proof -
    obtain q s1 where c: "send_chunks api (fs_stream_id f) (nat (fs_chunk_size f)) (fs_data f) 0 s = Some (q, s1)"
      using a by (auto simp: send_all_chunks_and_done_def bind_eq_Some_conv)
    with send_chunks_kept [OF c j] a show ?thesis
      by (cases q) (auto simp: send_all_chunks_and_done_def split: sum.splits prod.splits dest: send_some_kept)
  qed
  then show ?thesis by (auto simp: handler_keeps_def fs_handle_frame_def split: if_splits)
qed

lemma fr_handler_keeps: "handler_keeps J (fr_handle_frame fr fp api)"
proof -
  have offer: "J s'" if j: "J s" and h: "handle_offer fr fp api body f s = (r, f', s')" for body f s r f' s'
  proof -
    obtain ok f1 where o: "offer_is_valid fp body f = (ok, f1)" by fastforce
    obtain q s1 where q: "send_control fr api (fr_stream_id f1) (if ok then ACCEPT else REJECT) [] s = (q, s1)" by fastforce
    from send_control_kept [OF j q] j h o q show ?thesis
      by (cases q; cases ok) (auto simp: handle_offer_def reject_offer_def split: if_splits)
  qed
  have finish: "J s'" if j: "J s" and h: "handle_done fr api f s = (r, f', s')" for f s r f' s'
  proof -
    define ok where "ok = (Some (sha256_hex (fr_buffer f)) = fr_expected_sha f)"
    obtain q s1 where q: "send_control fr api (fr_stream_id f) (if ok then FILE_ACK else FILE_NACK) (ok_object ok) s = (q, s1)"
      by fastforce
    from send_control_kept [OF j q] j h q show ?thesis
      unfolding handle_done_def ok_def [symmetric] by (cases q; cases ok) simp_all
  qed
  show ?thesis
    unfolding handler_keeps_def
  proof (intro allI impI)
    fix x f s r f' s' assume j: "J s" and h: "fr_handle_frame fr fp api x f s = Some (r, f', s')"
    consider "handle_offer fr fp api (ff_body x) f s = (r, f', s')" | "handle_done fr api f s = (r, f', s')" | "s' = s"
      using h by (auto simp: fr_handle_frame_def split: if_splits)
    then show "J s'" by cases (use j offer [OF j] finish [OF j] in simp_all)
  qed
qed

lemma fs_pump_kept:
  assumes "J s" and "fs_pump fr api f s = Some (r, f', s')"
  shows "J s'"
proof -
  obtain q s1 where p: "so_pump api s = Some (q, s1)"
    using assms(2) by (auto simp: fs_pump_def bind_eq_Some_conv)
  then have j: "J s1" by (rule pump_kept [OF assms(1)])
  obtain cs s2 where c: "so_recv_on api (fs_stream_id f) s1 = (cs, s2)" by fastforce
  with recv_kept [OF j, of "fs_stream_id f"] have j2: "J s2" by simp
  show ?thesis
  proof (cases q)
    case (Inr evs)
    with assms(2) p c show ?thesis
      by (auto simp: fs_pump_def bind_eq_Some_conv intro: each_chunk_kept [OF fs_handler_keeps j2])
  qed (use assms(2) p j in \<open>simp add: fs_pump_def\<close>)
qed

lemma fr_pump_kept:
  assumes "J s" and "fr_pump fr fp api f s = Some (r, f', s')"
  shows "J s'"
proof -
  obtain q s1 where p: "so_pump api s = Some (q, s1)"
    using assms(2) by (auto simp: fr_pump_def bind_eq_Some_conv)
  then have j: "J s1" by (rule pump_kept [OF assms(1)])
  obtain cs s2 where c: "so_recv_on api (fr_stream_id f) s1 = (cs, s2)" by fastforce
  with recv_kept [OF j, of "fr_stream_id f"] have j2: "J s2" by simp
  show ?thesis
  proof (cases q)
    case (Inr evs)
    with assms(2) p c show ?thesis
      by (auto simp: fr_pump_def bind_eq_Some_conv intro: each_chunk_kept [OF fr_handler_keeps j2])
  qed (use assms(2) p j in \<open>simp add: fr_pump_def\<close>)
qed

end

section \<open>Every transfer keeps the simulation\<close>

lemma transfer_streams:
  assumes "transfer_ok fr f0 auto t"
  shows "fs_stream_id (tr_sender t) = fs_stream_id f0" and "fr_stream_id (tr_receiver t) = fs_stream_id f0"
  using assms by (auto simp: transfer_ok_def sender_after_def same_sender_def receiver_after_def)

context kept_pair
begin

definition harmless_act :: "'s transfer_act \<Rightarrow> bool" where
  "harmless_act x \<longleftrightarrow> (case x of FElsewhere f \<Rightarrow> \<forall>l. J l \<longrightarrow> J (l\<lparr>lg_state := f (lg_state l)\<rparr>) | _ \<Rightarrow> True)"

lemma transfer_step_kept:
  assumes "J (tr_log t)" and "fs_stream_id (tr_sender t) = sid" and "fr_stream_id (tr_receiver t) = sid"
    and "harmless_act x" and "transfer_step fr fp api_a api_b x t = Some t'"
  shows "J (tr_log t')"
  using assms
  by (cases x)
    (auto simp: harmless_act_def split: prod.splits sum.splits option.splits
      dest: a.fs_start_kept a.fs_pump_kept b.fr_pump_kept)

lemma transfer_run_kept:
  assumes "0 < fs_chunk_size f0" and "fs_stream_id f0 = sid"
  shows "J (tr_log t) \<Longrightarrow> transfer_ok fr f0 auto t \<Longrightarrow> list_all harmless_act acts \<Longrightarrow>
    transfer_run fr fp api_a api_b acts t = Some t' \<Longrightarrow> J (tr_log t')"
proof (induction acts arbitrary: t)
  case (Cons x acts)
  then obtain t1 where t1: "transfer_step fr fp api_a api_b x t = Some t1"
    "transfer_run fr fp api_a api_b acts t1 = Some t'"
    by (auto simp: bind_eq_Some_conv)
  have "J (tr_log t1)"
    using transfer_step_kept [OF Cons.prems(1) _ _ _ t1(1)] transfer_streams [OF Cons.prems(2)] assms(2) Cons.prems(3)
    by simp
  with Cons.IH [OF _ transfer_step_ok [OF assms(1) Cons.prems(2) t1(1)] _ t1(2)] Cons.prems(3) show ?case by simp
qed simp

end

text \<open>Nothing else happens than calls on other streams, on the lifecycle, and the passing of time.\<close>

definition beside_transfer :: "'r rng_ops \<Rightarrow> int \<Rightarrow> 'r loop_world duplex transfer_act list \<Rightarrow> bool" where
  "beside_transfer rops t acts \<longleftrightarrow>
     list_all (\<lambda>x. case x of FElsewhere f \<Rightarrow> \<exists>ev. f = background rops t ev | _ \<Rightarrow> True) acts"

lemma beside_transfer_harmless:
  "beside_transfer rops (1 + int n) acts \<Longrightarrow> list_all (chat_loop.harmless_act n) acts"
  unfolding beside_transfer_def by (erule list.pred_mono_strong)
    (auto simp: chat_loop.harmless_act_def background_kept split: transfer_act.splits)

section \<open>A concrete transfer\<close>

text \<open>The handshake, the offer and its acceptance, the data and the digest.\<close>

definition file_talk :: "unit loop_world duplex transfer_act list" where
  "file_talk = map (\<lambda>ev. FElsewhere (background quiet_rng 2 ev)) [AtA CConnect, AtB CPump, AtA CPump, AtB CPump] @
     [Start, ReceiverPump, SenderPump, ReceiverPump, SenderPump]"

lemma demo_fields:
  "fs_state demo_sender = FIdle" "fs_stream_id demo_sender = 2" "fs_chunk_size demo_sender = 2"
  "fs_data demo_sender = [1, 2, 3]" "fs_reassembler demo_sender = []" "fs_name demo_sender = code_points ''a''"
  by (simp_all add: demo_sender_def FileSender_init_def)

lemma length_frame: "length (frame_bytes f) = 5 + length (ff_body f)" "frame_bytes f \<noteq> []"
  by (simp_all add: frame_bytes_def del: be_encode.simps)

definition small_frame :: "FileFrame \<Rightarrow> bool" where
  "small_frame f \<longleftrightarrow> frame_ok f \<and> length (frame_bytes f) \<le> 200"

lemma demo_slices: "py_slices 2 [1, 2, 3 :: byte] = [[1, 2], [3]]"
  by (simp add: py_slices_step)

lemma demo_chunks:
  "send_chunks api sid 2 [1, 2, 3] 0 s = Some (send_pieces api sid [[1, 2], [3]] s)"
  using send_chunks_slices [of 2 api sid "[1, 2, 3]" 0 s] by (simp add: demo_slices)

lemma small_sizes: 
  "small_frame f \<Longrightarrow> length (frame_bytes f) \<le> 200"
  "small_frame f \<Longrightarrow> length (frame_bytes f) < 65536"
  "small_frame f \<Longrightarrow> file_feed [] (frame_bytes f) = (Inr [f], [])"
  by (simp_all add: small_frame_def feed_frame)

lemma small_chunk: "length c \<le> 100 \<Longrightarrow> small_frame (chunk_frame c)" "length c \<le> 100 \<Longrightarrow> encode_frame CHUNK c = Inr (frame_bytes (chunk_frame c))"
  by (simp_all add: small_frame_def frame_ok_def length_frame chunk_frame_def MAX_FRAME_BYTES_def encode_frame_eq)

lemma small_controls:
  "small_frame (control_frame fr ty [])" "small_frame (control_frame fr ty (ok_object True))"
  using encode_empty(2) [of fr ty] encode_ok_object(2) [of fr ty True]
  by (simp_all add: small_frame_def length_frame control_frame_def utf8_encode_ascii ok_object_def code_points_def string_text_def escape_char_def)

lemma chunk_fields: "ff_type (chunk_frame c) = CHUNK" "ff_body (chunk_frame c) = c"
  by (simp_all add: chunk_frame_def)

lemma small_offer: "small_frame (control_frame fr OFFER (offer_object demo_sender))"
  using demo_offer_encodes(2) [of fr] demo_offer_text [of fr]
  by (simp add: small_frame_def length_frame control_frame_def utf8_encode_ascii del: dumps.simps)

lemmas file_calls = chunk_fields demo_fields length_frame(2) demo_chunks small_sizes small_chunk small_controls fs_start_def fs_pump_def fr_pump_def fs_handle_frame_def
  send_all_chunks_and_done_def fr_handle_frame_def handle_offer_def handle_done_def send_control_def encode_empty encode_ok_object offer_captured [OF demo_offered]
  FileReceiver_init_def small_offer demo_offer_encodes(1) on_sample_def RtoEstimator_init_def clamp_def

lemma file_talk_runs:
  "\<exists>t. transfer_run (\<lambda>_. []) (\<lambda>_. 0) (end_a 2 (loop_ops_a quiet_rng)) (end_b 2 (loop_ops_b quiet_rng)) file_talk
      (new_transfer demo_sender True (lg_state start_log)) = Some t \<and> dx_orderly (lg_state (tr_log t)) \<and>
    fs_is_complete (tr_sender t) \<and> length (lg_sent_a (tr_log t)) \<le> 800 \<and> length (lg_sent_b (tr_log t)) \<le> 400"
proof -
  let ?c = "\<lambda>ty obj. frame_bytes (control_frame (\<lambda>_. []) ty obj)" and ?d = "\<lambda>c. frame_bytes (chunk_frame c)"
  have "length (?d [1, 2]) \<le> 200" "length (?d [3]) \<le> 200" "length (?c DONE []) \<le> 200"
    "length (?c OFFER (offer_object demo_sender)) \<le> 200"
    "length (?c ACCEPT []) \<le> 200" "length (?c FILE_ACK (ok_object True)) \<le> 200"
    by (simp_all add: small_sizes small_chunk small_controls small_offer)
  then have "length (?c OFFER (offer_object demo_sender)) + (length (?d [1, 2]) + (length (?d [3]) + length (?c DONE []))) \<le> 800"
    "length (?c ACCEPT []) + length (?c FILE_ACK (ok_object True)) \<le> 400"
    by linarith+
  then show ?thesis
    by (simp add: file_talk_def call_simps new_transfer_def file_calls fs_is_complete_def cong: weak)
qed

section \<open>Property\<close>

text \<open>
  File transfer over the whole stack. A sender and a receiver on one stream of two sessions over
  a loopback channel that loses, repeats, corrupts and holds back frames; any order of \<open>start\<close> and
  pumps, with connects, closes, traffic on other streams and time in between. At every point of a run
  that is orderly up to there (no pump and no send of the sessions raised, no send found data queued
  behind an open window), in which no call of the endpoints raised and each side sent less than
  \<open>2 ^ 31\<close> bytes, the receiver holds a prefix of the file and has not failed, the bytes it reports are
  the whole file or nothing, and once the sender is COMPLETE the receiver is COMPLETE and verified
  with the sender's bytes under the sender's file name.
\<close>

theorem file_over_lossy_channel:
  assumes "FileSender_init name data sid k = Inr f0"
    and "transfer_run fr fp (end_a sid (loop_ops_a rops)) (end_b sid (loop_ops_b rops)) acts
      (new_transfer f0 auto (duplex_start (Session_init True sa ia ha da wa pa ra ca na)
        (Session_init False sb ib hb db wb pb rb cb nb) w)) = Some t"
    and "beside_transfer rops sid acts" and "0 < sid" and "usable wa pa" and "usable wb pb"
    and "flight_ab (lw_pair w) = []" and "flight_ba (lw_pair w) = []"
    and "dx_orderly (lg_state (tr_log t))"
    and "int (length (lg_sent_a (tr_log t))) < SEQ_HALF" and "int (length (lg_sent_b (tr_log t))) < SEQ_HALF"
  shows "take (length (fr_buffer (tr_receiver t))) data = fr_buffer (tr_receiver t) \<and>
    fr_is_failed (tr_receiver t) = False \<and>
    (case file_bytes (tr_receiver t) of None \<Rightarrow> True | Some b \<Rightarrow> b = data) \<and>
    (if fs_is_complete (tr_sender t)
     then fr_is_complete (tr_receiver t) \<and> file_bytes (tr_receiver t) = Some data \<and>
       fr_verified (tr_receiver t) \<and> fr_name (tr_receiver t) = Some name
     else True)"
proof -
  obtain n where n: "sid = 1 + int n" using positive_stream [OF assms(4)] by blast
  have f0: "0 < fs_chunk_size f0" "fs_stream_id f0 = 1 + int n"
    using assms(1) n by (auto simp: FileSender_init_def split: if_splits)
  let ?s = "duplex_start (Session_init True sa ia ha da wa pa ra ca na) (Session_init False sb ib hb db wb pb rb cb nb) w"
  have "transfer_ok fr f0 auto (new_transfer f0 auto ?s)" by (rule conjunct1 [OF transfer_ok_init [OF assms(1)]])
  from chat_loop.transfer_run_kept [OF f0 _ this beside_transfer_harmless assms(2) [unfolded n]]
  have "loop_inv sid (tr_log t)"
    using assms(3) start_inv [OF assms(5-8), where t = sid] by (simp add: n new_transfer_def)
  from stream_inv_ok [OF this assms(9-11)] have ok: "stream_ok (tr_log t)" .
  from receiver_holds_prefix [OF assms(1,2) ok] complete_sender_means_delivered [OF assms(1,2) ok]
  show ?thesis by auto
qed

theorem file_over_lossy_channel_witness:
  "\<exists>t. transfer_run (\<lambda>_. []) (\<lambda>_. 0) (end_a 2 (loop_ops_a quiet_rng)) (end_b 2 (loop_ops_b quiet_rng)) file_talk
      (new_transfer demo_sender True (lg_state start_log)) = Some t \<and> file_bytes (tr_receiver t) = Some [1, 2, 3]"
proof -
  obtain t where t: "transfer_run (\<lambda>_. []) (\<lambda>_. 0) (end_a 2 (loop_ops_a quiet_rng)) (end_b 2 (loop_ops_b quiet_rng))
      file_talk (new_transfer demo_sender True (lg_state start_log)) = Some t" "dx_orderly (lg_state (tr_log t))"
    "fs_is_complete (tr_sender t)" "length (lg_sent_a (tr_log t)) \<le> 800" "length (lg_sent_b (tr_log t)) \<le> 400"
    using file_talk_runs by blast
  have u: "usable 8 200" "(0::int) < 2" by (simp_all add: usable_def)
  have b: "beside_transfer quiet_rng 2 file_talk" by (auto simp: beside_transfer_def file_talk_def)
  have n: "int (length (lg_sent_a (tr_log t))) < SEQ_HALF" "int (length (lg_sent_b (tr_log t))) < SEQ_HALF"
    using t(4,5) by (simp_all add: SEQ_HALF_def)
  from file_over_lossy_channel [OF demo_init t(1) [unfolded start_state] b u(2,1,1) quiet_world_empty t(2) n] t(1,3)
  show ?thesis by auto
qed

end
