(* ===== verification/Cv2_Devices.thy ===== *)
theory Cv2_Devices
  imports Optical "HOL-Library.Sublist"
begin

text \<open>
  \<open>photontcp/optical/cv2_devices.py\<close>: a window as a display and a webcam as a camera. The calls of
  OpenCV are parameters: the functions of a window system and of one \<open>VideoCapture\<close> handle over a
  world of any type, each of which may raise.
\<close>

section \<open>The window\<close>

record 'w highgui =
  hg_namedWindow :: "string \<Rightarrow> 'w \<Rightarrow> unit result \<times> 'w"
  hg_setFullscreen :: "string \<Rightarrow> 'w \<Rightarrow> unit result \<times> 'w"
  hg_imshow :: "string \<Rightarrow> image \<Rightarrow> 'w \<Rightarrow> unit result \<times> 'w"
  hg_waitKey :: "int \<Rightarrow> 'w \<Rightarrow> unit result \<times> 'w"
  hg_destroyWindow :: "string \<Rightarrow> 'w \<Rightarrow> unit result \<times> 'w"

record Cv2Display =
  cd_window :: string
  cd_fullscreen :: bool
  cd_created :: bool
  cd_closed :: bool

definition Cv2Display_init :: "string \<Rightarrow> bool \<Rightarrow> Cv2Display" where
  "Cv2Display_init window fullscreen =
     \<lparr>cd_window = window, cd_fullscreen = fullscreen, cd_created = False, cd_closed = False\<rparr>"

definition ensure_window :: "'w highgui \<Rightarrow> Cv2Display \<Rightarrow> 'w \<Rightarrow> unit result \<times> Cv2Display \<times> 'w" where
  "ensure_window hg d w =
     (if cd_created d then (Inr (), d, w)
      else
        (case hg_namedWindow hg (cd_window d) w of
           (Inl e, w1) \<Rightarrow> (Inl e, d, w1)
         | (Inr _, w1) \<Rightarrow>
             (case (if cd_fullscreen d then hg_setFullscreen hg (cd_window d) w1 else (Inr (), w1)) of
                (Inl e, w2) \<Rightarrow> (Inl e, d, w2)
              | (Inr _, w2) \<Rightarrow> (Inr (), d\<lparr>cd_created := True\<rparr>, w2))))"

definition cv2_show :: "'w highgui \<Rightarrow> Cv2Display \<Rightarrow> image \<Rightarrow> 'w \<Rightarrow> unit result \<times> Cv2Display \<times> 'w" where
  "cv2_show hg d img w =
     (if cd_closed d then (Inr (), d, w)
      else
        (case ensure_window hg d w of
           (Inl e, d1, w1) \<Rightarrow> (Inl e, d1, w1)
         | (Inr _, d1, w1) \<Rightarrow>
             (case hg_imshow hg (cd_window d1) img w1 of
                (Inl e, w2) \<Rightarrow> (Inl e, d1, w2)
              | (Inr _, w2) \<Rightarrow> (let (r, w3) = hg_waitKey hg 1 w2 in (r, d1, w3)))))"

text \<open>\<open>except cv2.error: pass\<close>.\<close>

definition pass_cv2 :: "'a result \<times> 'w \<Rightarrow> unit result \<times> 'w" where
  "pass_cv2 rw =
     (case rw of (Inl e, w) \<Rightarrow> (if e = Cv2Error then Inr () else Inl e, w) | (Inr _, w) \<Rightarrow> (Inr (), w))"

definition cv2_display_close :: "'w highgui \<Rightarrow> Cv2Display \<Rightarrow> 'w \<Rightarrow> unit result \<times> Cv2Display \<times> 'w" where
  "cv2_display_close hg d w =
     (if cd_closed d then (Inr (), d, w)
      else (let (r, w1) = pass_cv2 (hg_destroyWindow hg (cd_window d) w) in (r, d\<lparr>cd_closed := True\<rparr>, w1)))"

section \<open>The webcam\<close>

datatype CapProp = CAP_PROP_BUFFERSIZE | CAP_PROP_FRAME_WIDTH | CAP_PROP_FRAME_HEIGHT

text \<open>A frame of the camera is an array object: its identity and its pixels.\<close>

record ('w, 'i) capture_ops =
  vc_open :: "int \<Rightarrow> int option \<Rightarrow> 'w \<Rightarrow> unit result \<times> 'w"
  vc_isOpened :: "'w \<Rightarrow> bool"
  vc_set :: "CapProp \<Rightarrow> int \<Rightarrow> 'w \<Rightarrow> unit result \<times> 'w"
  vc_read :: "'w \<Rightarrow> (bool \<times> (nat \<times> 'i) option) result \<times> 'w"
  vc_grab :: "'w \<Rightarrow> bool result \<times> 'w"
  vc_retrieve :: "'w \<Rightarrow> (bool \<times> (nat \<times> 'i) option) result \<times> 'w"
  vc_release :: "'w \<Rightarrow> unit result \<times> 'w"

record Cv2Camera =
  cc_index :: int
  cc_drain_to_latest :: bool
  cc_closed :: bool

definition MAX_DRAIN :: nat where "MAX_DRAIN = 4"

text \<open>The three best-effort settings of the constructor, one after the other.\<close>

fun set_hints :: "('w, 'i) capture_ops \<Rightarrow> (CapProp \<times> int option) list \<Rightarrow> 'w \<Rightarrow> unit result \<times> 'w" where
  "set_hints vc [] w = (Inr (), w)"
| "set_hints vc ((prop, None) # rest) w = set_hints vc rest w"
| "set_hints vc ((prop, Some v) # rest) w =
     (case pass_cv2 (vc_set vc prop v w) of (Inl e, w1) \<Rightarrow> (Inl e, w1) | (Inr _, w1) \<Rightarrow> set_hints vc rest w1)"

definition Cv2Camera_init ::
  "('w, 'i) capture_ops \<Rightarrow> int \<Rightarrow> int option \<Rightarrow> int option \<Rightarrow> int option \<Rightarrow> bool \<Rightarrow> 'w \<Rightarrow> Cv2Camera result \<times> 'w" where
  "Cv2Camera_init vc index api_preference width height drain_to_latest w =
     (case vc_open vc index api_preference w of
        (Inl e, w1) \<Rightarrow> (Inl e, w1)
      | (Inr _, w1) \<Rightarrow>
          if \<not> vc_isOpened vc w1 then
            (case vc_release vc w1 of (Inl e, w2) \<Rightarrow> (Inl e, w2) | (Inr _, w2) \<Rightarrow> (Inl RuntimeError, w2))
          else
            (case set_hints vc [(CAP_PROP_BUFFERSIZE, Some 1), (CAP_PROP_FRAME_WIDTH, width),
                 (CAP_PROP_FRAME_HEIGHT, height)] w1 of
               (Inl e, w2) \<Rightarrow> (Inl e, w2)
             | (Inr _, w2) \<Rightarrow>
                 (Inr \<lparr>cc_index = index, cc_drain_to_latest = drain_to_latest, cc_closed = False\<rparr>, w2)))"

text \<open>\<open>for _ in range(_MAX_DRAIN)\<close>, with the cycles left as the argument.\<close>

fun drain_to_latest ::
  "('w, 'i) capture_ops \<Rightarrow> nat \<Rightarrow> nat \<times> 'i \<Rightarrow> 'w \<Rightarrow> (nat \<times> 'i) result \<times> 'w" where
  "drain_to_latest vc 0 frame w = (Inr frame, w)"
| "drain_to_latest vc (Suc left) frame w =
     (case vc_grab vc w of
        (Inl e, w1) \<Rightarrow> (Inl e, w1)
      | (Inr False, w1) \<Rightarrow> (Inr frame, w1)
      | (Inr True, w1) \<Rightarrow>
          (case vc_retrieve vc w1 of
             (Inl e, w2) \<Rightarrow> (Inl e, w2)
           | (Inr (True, Some newer), w2) \<Rightarrow> drain_to_latest vc left newer w2
           | (Inr _, w2) \<Rightarrow> (Inr frame, w2)))"

text \<open>The timeout of a \<open>read\<close> is not used.\<close>

definition cv2_read :: "('w, 'i) capture_ops \<Rightarrow> Cv2Camera \<Rightarrow> 'w \<Rightarrow> (nat \<times> 'i) option result \<times> 'w" where
  "cv2_read vc c w =
     (if cc_closed c then (Inr None, w)
      else
        (case vc_read vc w of
           (Inl e, w1) \<Rightarrow> (Inl e, w1)
         | (Inr (True, Some frame), w1) \<Rightarrow>
             if cc_drain_to_latest c then
               (case drain_to_latest vc MAX_DRAIN frame w1 of
                  (Inl e, w2) \<Rightarrow> (Inl e, w2)
                | (Inr newest, w2) \<Rightarrow> (Inr (Some newest), w2))
             else (Inr (Some frame), w1)
         | (Inr _, w1) \<Rightarrow> (Inr None, w1)))"

definition cv2_camera_close :: "('w, 'i) capture_ops \<Rightarrow> Cv2Camera \<Rightarrow> 'w \<Rightarrow> unit result \<times> Cv2Camera \<times> 'w" where
  "cv2_camera_close vc c w =
     (if cc_closed c then (Inr (), c, w)
      else (let (r, w1) = pass_cv2 (vc_release vc w) in (r, c\<lparr>cc_closed := True\<rparr>, w1)))"

section \<open>The devices of an optical channel\<close>

record 'w Hardware =
  hw_display :: Cv2Display
  hw_camera :: Cv2Camera
  hw_world :: 'w
  hw_clock :: time

text \<open>An error of \<open>close\<close> other than \<open>cv2.error\<close> leaves the channel's \<open>close\<close> in the code; it is dropped here.\<close>

definition cv2_devices :: "'w highgui \<Rightarrow> ('w, 'i) capture_ops \<Rightarrow> ('w Hardware, 'i) device_ops" where
  "cv2_devices hg vc =
     \<lparr>dv_show = (\<lambda>img h. let (r, d, w) = cv2_show hg (hw_display h) img (hw_world h)
        in (r, h\<lparr>hw_display := d, hw_world := w\<rparr>)),
      dv_read = (\<lambda>t h. let (r, w) = cv2_read vc (hw_camera h) (hw_world h) in (r, h\<lparr>hw_world := w\<rparr>)),
      dv_close_display = (\<lambda>h. let (r, d, w) = cv2_display_close hg (hw_display h) (hw_world h)
        in h\<lparr>hw_display := d, hw_world := w\<rparr>),
      dv_close_camera = (\<lambda>h. let (r, c, w) = cv2_camera_close vc (hw_camera h) (hw_world h)
        in h\<lparr>hw_camera := c, hw_world := w\<rparr>),
      dv_monotonic = (\<lambda>h. (hw_clock h, h)),
      dv_sleep = (\<lambda>t h. h\<lparr>hw_clock := hw_clock h + t\<rparr>)\<rparr>"

section \<open>A driver that buffers frames\<close>

text \<open>
  What the camera relies on. Of a driver's state, \<open>arrived\<close> is every frame the device has delivered so
  far and \<open>pos\<close> the number of them that have been taken; those in between are buffered. \<open>read\<close> and
  \<open>grab\<close> take the oldest frame not yet taken. They may block, so that frames arrive during a call, the
  one it takes among them, and they fail only when nothing was buffered. \<open>retrieve\<close> decodes the
  frame of the last \<open>grab\<close>. No call raises and the driver drops nothing.
\<close>

definition takes_next :: "('w \<Rightarrow> (nat \<times> 'i) list) \<Rightarrow> ('w \<Rightarrow> nat) \<Rightarrow> 'w \<Rightarrow> bool \<Rightarrow> 'w \<Rightarrow> bool" where
  "takes_next arrived pos w ok w' \<longleftrightarrow> prefix (arrived w) (arrived w') \<and>
     (if ok then pos w < length (arrived w') \<and> pos w' = Suc (pos w)
      else pos w = length (arrived w) \<and> pos w' = pos w)"

definition frame_driver ::
  "('w, 'i) capture_ops \<Rightarrow> ('w \<Rightarrow> (nat \<times> 'i) list) \<Rightarrow> ('w \<Rightarrow> nat) \<Rightarrow> bool" where
  "frame_driver vc arrived pos \<longleftrightarrow>
     (\<forall>w. \<exists>ok w'. vc_read vc w = (Inr (ok, if ok then Some (arrived w' ! pos w) else None), w') \<and>
        takes_next arrived pos w ok w') \<and>
     (\<forall>w. \<exists>ok w'. vc_grab vc w = (Inr ok, w') \<and> takes_next arrived pos w ok w' \<and>
        (ok \<longrightarrow> (\<exists>w''. vc_retrieve vc w' = (Inr (True, Some (arrived w' ! pos w)), w'') \<and>
           prefix (arrived w') (arrived w'') \<and> pos w'' = pos w')))"

lemma driver_read:
  assumes "frame_driver vc arrived pos"
  obtains ok w' where "vc_read vc w = (Inr (ok, if ok then Some (arrived w' ! pos w) else None), w')"
    and "takes_next arrived pos w ok w'"
  using assms unfolding frame_driver_def by blast

lemma driver_grab:
  assumes "frame_driver vc arrived pos"
  obtains (stops) w' where "vc_grab vc w = (Inr False, w')" and "takes_next arrived pos w False w'"
  | (one) w1 w2 where "vc_grab vc w = (Inr True, w1)" and "takes_next arrived pos w True w1"
    and "vc_retrieve vc w1 = (Inr (True, Some (arrived w1 ! pos w)), w2)"
    and "prefix (arrived w1) (arrived w2)" and "pos w2 = pos w1"
proof -
  from assms obtain ok w' where g: "vc_grab vc w = (Inr ok, w')" "takes_next arrived pos w ok w'"
    and r: "ok \<longrightarrow> (\<exists>w''. vc_retrieve vc w' = (Inr (True, Some (arrived w' ! pos w)), w'') \<and>
       prefix (arrived w') (arrived w'') \<and> pos w'' = pos w')" unfolding frame_driver_def by blast
  show thesis
  proof (cases ok)
    case True
    with r obtain w'' where "vc_retrieve vc w' = (Inr (True, Some (arrived w' ! pos w)), w'')"
      and "prefix (arrived w') (arrived w'')" and "pos w'' = pos w'" by blast
    with one [of w' w''] g True show ?thesis by simp
  next
    case False
    with g stops [of w'] show ?thesis by simp
  qed
qed

lemma prefix_nth: "prefix xs ys \<Longrightarrow> i < length xs \<Longrightarrow> ys ! i = xs ! i"
  by (auto simp: prefix_def nth_append)

text \<open>
  The newest frame that a call has taken, when it began in \<open>w\<close> with some frames buffered: all that
  were buffered then, up to the bound on the calls, are gone.
\<close>

definition newest_taken :: "('w \<Rightarrow> (nat \<times> 'i) list) \<Rightarrow> ('w \<Rightarrow> nat) \<Rightarrow> nat \<Rightarrow> 'w \<Rightarrow> nat \<times> 'i \<Rightarrow> 'w \<Rightarrow> bool" where
  "newest_taken arrived pos n w f w' \<longleftrightarrow> prefix (arrived w) (arrived w') \<and>
     pos w \<le> pos w' \<and> pos w' \<le> length (arrived w') \<and> min (length (arrived w)) (pos w + n) \<le> pos w' \<and>
     f = arrived w' ! (pos w' - 1)"

lemma drain_takes_newest:
  assumes "frame_driver vc arrived pos" and "0 < pos w" and "pos w \<le> length (arrived w)"
    and "f = arrived w ! (pos w - 1)"
  shows "\<exists>g w'. drain_to_latest vc n f w = (Inr g, w') \<and> newest_taken arrived pos n w g w'"
  using assms(2-)
proof (induction n arbitrary: f w)
  case 0
  then show ?case by (simp add: newest_taken_def)
next
  case (Suc n)
  from assms(1) show ?case
  proof (cases rule: driver_grab [where w = w])
    case (stops w')
    with Suc.prems show ?thesis
      by (auto simp: newest_taken_def takes_next_def prefix_nth dest: prefix_length_le)
  next
    case (one w1 w2)
    then have p: "pos w2 = Suc (pos w)" "pos w < length (arrived w1)" "prefix (arrived w) (arrived w2)"
      by (auto simp: takes_next_def)
    have le: "length (arrived w1) \<le> length (arrived w2)" using one(4) by (rule prefix_length_le)
    have "arrived w1 ! pos w = arrived w2 ! (pos w2 - 1)" using one(4) p(1,2) by (simp add: prefix_nth)
    from Suc.IH [OF _ _ this] p le obtain g w'
      where d: "drain_to_latest vc n (arrived w1 ! pos w) w2 = (Inr g, w')" "newest_taken arrived pos n w2 g w'" by auto
    have "length (arrived w) \<le> length (arrived w2)" using p(3) by (rule prefix_length_le)
    with d(2) p have "newest_taken arrived pos (Suc n) w g w'" by (auto simp: newest_taken_def)
    with d(1) one(1,3) show ?thesis by simp
  qed
qed

text \<open>
  What one \<open>read\<close> gives, from the driver's state at its start to the one at its end: the newest frame
  taken so far, which is the newest of those that had arrived at the start or a newer one, or none when
  nothing was buffered.
\<close>

definition gets_newest ::
  "('w \<Rightarrow> (nat \<times> 'i) list) \<Rightarrow> ('w \<Rightarrow> nat) \<Rightarrow> 'w \<times> (nat \<times> 'i) option result \<times> 'w \<Rightarrow> bool" where
  "gets_newest arrived pos x \<longleftrightarrow>
     (case x of (w, r, w') \<Rightarrow> length (arrived w) \<le> pos w' \<and> pos w' \<le> length (arrived w') \<and>
        (r = Inr None \<and> pos w = length (arrived w) \<or>
         pos w < pos w' \<and> r = Inr (Some (arrived w' ! (pos w' - 1)))))"

lemma read_gets_newest:
  assumes "frame_driver vc arrived pos" and "\<not> cc_closed c" and "cc_drain_to_latest c"
    and "pos w \<le> length (arrived w)" and "length (arrived w) \<le> pos w + Suc MAX_DRAIN"
  shows "\<exists>r w'. cv2_read vc c w = (r, w') \<and> gets_newest arrived pos (w, r, w')"
proof -
  from assms(1) obtain ok w1 where r: "vc_read vc w = (Inr (ok, if ok then Some (arrived w1 ! pos w) else None), w1)"
    and t: "takes_next arrived pos w ok w1" by (rule driver_read)
  have len: "length (arrived w) \<le> length (arrived w1)" using t by (simp add: takes_next_def prefix_length_le)
  show ?thesis
  proof (cases ok)
    case False
    with r t len assms(2) show ?thesis by (simp add: cv2_read_def gets_newest_def takes_next_def)
  next
    case True
    with t have p: "pos w1 = Suc (pos w)" "pos w < length (arrived w1)" by (auto simp: takes_next_def)
    from drain_takes_newest [OF assms(1), of w1 "arrived w1 ! pos w" MAX_DRAIN] p
    obtain g w' where d: "drain_to_latest vc MAX_DRAIN (arrived w1 ! pos w) w1 = (Inr g, w')"
      "newest_taken arrived pos MAX_DRAIN w1 g w'" by auto
    then have "gets_newest arrived pos (w, Inr (Some g), w')"
      using p len assms(5) by (auto simp: newest_taken_def gets_newest_def)
    with r d(1) True assms(2,3) show ?thesis by (simp add: cv2_read_def)
  qed
qed

text \<open>
  Reads of a capture loop, each after a pause in which frames may arrive; every read with the driver's
  state at its start and at its end.
\<close>

fun camera_reads ::
  "('w, 'i) capture_ops \<Rightarrow> Cv2Camera \<Rightarrow> ('w \<Rightarrow> 'w) list \<Rightarrow> 'w \<Rightarrow> ('w \<times> (nat \<times> 'i) option result \<times> 'w) list" where
  "camera_reads vc c [] w = []"
| "camera_reads vc c (pause # rest) w =
     (let w1 = pause w; (r, w2) = cv2_read vc c w1 in (w1, r, w2) # camera_reads vc c rest w2)"

definition only_arrivals :: "('w \<Rightarrow> (nat \<times> 'i) list) \<Rightarrow> ('w \<Rightarrow> nat) \<Rightarrow> ('w \<Rightarrow> 'w) \<Rightarrow> bool" where
  "only_arrivals arrived pos pause \<longleftrightarrow> (\<forall>w. prefix (arrived w) (arrived (pause w)) \<and> pos (pause w) = pos w)"

text \<open>From the start of one read to the start of the next at most five frames arrive; \<open>before\<close> is their number at the last one.\<close>

fun paced :: "('w \<Rightarrow> (nat \<times> 'i) list) \<Rightarrow> nat \<Rightarrow> ('w \<times> 'r \<times> 'w) list \<Rightarrow> bool" where
  "paced arrived before [] = True"
| "paced arrived before ((w, r, w') # rest) =
     (length (arrived w) \<le> before + Suc MAX_DRAIN \<and> paced arrived (length (arrived w)) rest)"

lemma reads_get_newest:
  assumes "frame_driver vc arrived pos" and "\<not> cc_closed c" and "cc_drain_to_latest c"
    and "list_all (only_arrivals arrived pos) pauses" and "pos w \<le> length (arrived w)" and "before \<le> pos w"
    and "paced arrived before (camera_reads vc c pauses w)"
  shows "list_all (gets_newest arrived pos) (camera_reads vc c pauses w)"
  using assms(4-)
proof (induction pauses arbitrary: w before)
  case (Cons pause rest)
  let ?w = "pause w"
  have p: "pos ?w = pos w" "length (arrived w) \<le> length (arrived ?w)"
    using Cons.prems(1) by (auto simp: only_arrivals_def prefix_length_le)
  obtain r2 w3 where "cv2_read vc c ?w = (r2, w3)" by fastforce
  with Cons.prems(3,4) p have "length (arrived ?w) \<le> pos ?w + Suc MAX_DRAIN" by simp
  with read_gets_newest [OF assms(1-3), of ?w] p Cons.prems(2) obtain r w2
    where r: "cv2_read vc c ?w = (r, w2)" "gets_newest arrived pos (?w, r, w2)" by auto
  then have "pos w2 \<le> length (arrived w2)" "length (arrived ?w) \<le> pos w2" by (auto simp: gets_newest_def)
  from Cons.IH [OF _ this] Cons.prems(1,4) r show ?case by simp
qed simp

text \<open>
  A driver that blocks: its frames so far, how many of them are taken, and those the device will still
  deliver.
\<close>

type_synonym blocking = "(nat \<times> nat) list \<times> nat \<times> (nat \<times> nat) list"

fun next_frame :: "blocking \<Rightarrow> bool \<times> blocking" where
  "next_frame (arr, p, coming) =
     (if p < length arr then (True, (arr, Suc p, coming))
      else (case coming of [] \<Rightarrow> (False, (arr, p, []))
            | f # fs \<Rightarrow> (True, (arr @ [f], Suc (length arr), fs))))"

definition blocking_capture :: "(blocking, nat) capture_ops" where
  "blocking_capture =
     \<lparr>vc_open = (\<lambda>_ _ w. (Inr (), w)), vc_isOpened = (\<lambda>_. True), vc_set = (\<lambda>_ _ w. (Inl Cv2Error, w)),
      vc_read = (\<lambda>w. let (ok, w1) = next_frame w in (Inr (ok, if ok then Some (fst w1 ! (fst (snd w1) - 1)) else None), w1)),
      vc_grab = (\<lambda>w. let (ok, w1) = next_frame w in (Inr ok, w1)),
      vc_retrieve = (\<lambda>w. (Inr (True, Some (fst w ! (fst (snd w) - 1))), w)), vc_release = (\<lambda>w. (Inr (), w))\<rparr>"

definition blocking_pos :: "blocking \<Rightarrow> nat" where
  "blocking_pos w = min (fst (snd w)) (length (fst w))"

lemma next_frame_takes:
  assumes "next_frame w = (ok, w')"
  shows "takes_next fst blocking_pos w ok w'" and "ok \<Longrightarrow> fst w' ! (fst (snd w') - 1) = fst w' ! blocking_pos w"
  using assms by (cases w; auto simp: takes_next_def blocking_pos_def split: if_splits list.splits)+

lemma blocking_capture_driver: "frame_driver blocking_capture fst blocking_pos"
proof -
  have "\<exists>ok w'. vc_read blocking_capture w = (Inr (ok, if ok then Some (fst w' ! blocking_pos w) else None), w') \<and>
      takes_next fst blocking_pos w ok w'" for w
  proof -
    obtain ok w' where n: "next_frame w = (ok, w')" by (rule prod.exhaust)
    with next_frame_takes [OF n] show ?thesis
      by (intro exI [of _ ok] exI [of _ w']) (simp add: blocking_capture_def)
  qed
  moreover have "\<exists>ok w'. vc_grab blocking_capture w = (Inr ok, w') \<and> takes_next fst blocking_pos w ok w' \<and>
      (ok \<longrightarrow> (\<exists>w''. vc_retrieve blocking_capture w' = (Inr (True, Some (fst w' ! blocking_pos w)), w'') \<and>
         prefix (fst w') (fst w'') \<and> blocking_pos w'' = blocking_pos w'))" for w
  proof -
    obtain ok w' where n: "next_frame w = (ok, w')" by (rule prod.exhaust)
    with next_frame_takes [OF n] show ?thesis
      by (intro exI [of _ ok] exI [of _ w']) (simp add: blocking_capture_def)
  qed
  ultimately show ?thesis unfolding frame_driver_def by blast
qed

text \<open>The device delivers some frames during a pause.\<close>

definition delivers :: "(nat \<times> nat) list \<Rightarrow> blocking \<Rightarrow> blocking" where
  "delivers fs w = (case w of (arr, p, coming) \<Rightarrow> (arr @ fs, min p (length arr), coming))"

lemma delivers_arrivals: "only_arrivals fst blocking_pos (delivers fs)"
  by (auto simp: only_arrivals_def delivers_def blocking_pos_def split: prod.split)

section \<open>Properties\<close>

text \<open>
  C39. A webcam whose driver buffers frames, read with the drain flag by a slower capture loop: when at most five
  frames are buffered at the start of the first read and at most five arrive from the start of one read
  to the start of the next, no lag builds up. Every read
  takes all that was buffered when it began and gives the newest frame of that moment or a newer one, and
  it gives none only when nothing was buffered. The driver may block in its calls; it raises no error and
  drops no frame.
\<close>

theorem camera_keeps_up:
  assumes "frame_driver vc arrived pos" and "\<not> cc_closed c" and "cc_drain_to_latest c"
    and "list_all (only_arrivals arrived pos) pauses" and "pos w \<le> length (arrived w)"
    and "paced arrived (pos w) (camera_reads vc c pauses w)"
  shows "list_all (gets_newest arrived pos) (camera_reads vc c pauses w)"
  by (rule reads_get_newest [OF assms(1-5) order_refl assms(6)])

definition open_camera :: Cv2Camera where
  "open_camera = \<lparr>cc_index = 0, cc_drain_to_latest = True, cc_closed = False\<rparr>"

text \<open>
  Three frames wait and a fourth comes while the camera drains; then nothing; then two more. The second
  read gives none.
\<close>

theorem camera_keeps_up_witness:
  "let reads = camera_reads blocking_capture open_camera
      [delivers [(1, 10), (2, 20), (3, 30)], delivers [], delivers [(5, 50), (6, 60)]] ([], 0, [(4, 40)])
   in map (fst \<circ> snd) reads = [Inr (Some (4, 40)), Inr None, Inr (Some (6, 60))] \<and>
     list_all (gets_newest fst blocking_pos) reads"
proof -
  let ?pauses = "[delivers [(1, 10), (2, 20), (3, 30)], delivers [], delivers [(5, 50), (6, 60)]]"
  let ?reads = "camera_reads blocking_capture open_camera ?pauses ([], 0, [(4, 40)])"
  have p: "paced fst (blocking_pos ([], 0, [(4, 40)])) ?reads" by code_simp
  have r: "map (fst \<circ> snd) ?reads = [Inr (Some (4, 40)), Inr None, Inr (Some (6, 60))]" by code_simp
  have "\<not> cc_closed open_camera" "cc_drain_to_latest open_camera" by (simp_all add: open_camera_def)
  moreover have "blocking_pos ([], 0, [(4, 40)]) \<le> length (fst ([], 0, [(4, 40)]))" by (simp add: blocking_pos_def)
  moreover have "list_all (only_arrivals fst blocking_pos) ?pauses" by (simp add: delivers_arrivals)
  ultimately have "list_all (gets_newest fst blocking_pos) ?reads"
    by (intro camera_keeps_up [OF blocking_capture_driver _ _ _ _ p])
  with r show ?thesis unfolding Let_def by (rule conjI)
qed

text \<open>The calls of one channel: sends, turns of the capture thread, polls; the frames the polls gave.\<close>

datatype ChannelAct = SendFrame bytes | CaptureTurn | PollFrame

fun channel_run ::
  "qr_maker \<Rightarrow> ('i \<Rightarrow> bytes option) \<Rightarrow> ('w, 'i) device_ops \<Rightarrow> ChannelAct list \<Rightarrow> OpticalChannel \<Rightarrow> 'w \<Rightarrow> bytes list" where
  "channel_run segno decode dev [] ch w = []"
| "channel_run segno decode dev (SendFrame f # acts) ch w =
     (let (r, ch1, w1) = optical_send segno dev ch f w in channel_run segno decode dev acts ch1 w1)"
| "channel_run segno decode dev (CaptureTurn # acts) ch w =
     (let (ch1, w1) = capture_step decode dev ch w in channel_run segno decode dev acts ch1 w1)"
| "channel_run segno decode dev (PollFrame # acts) ch w =
     (let (r, ch1) = optical_recv ch in opt_list r @ channel_run segno decode dev acts ch1 w)"

lemma send_keeps_capture:
  "optical_send segno dev ch f w = (r, ch1, w1) \<Longrightarrow> oc_thread ch1 = oc_thread ch \<and> oc_inbox ch1 = oc_inbox ch"
  by (auto simp: optical_send_def Let_def split_beta split: if_splits sum.splits prod.splits)

lemma ended_capture: "oc_thread ch = Ended \<Longrightarrow> capture_step decode dev ch w = (ch, w)"
  by (simp add: capture_step_def)

lemma ended_run:
  "oc_thread ch = Ended \<Longrightarrow>
   take (length (channel_run segno decode dev acts ch w)) (oc_inbox ch) = channel_run segno decode dev acts ch w"
proof (induction acts arbitrary: ch w)
  case (Cons a acts)
  show ?case
  proof (cases a)
    case (SendFrame f)
    obtain r ch1 w1 where "optical_send segno dev ch f w = (r, ch1, w1)" by (metis prod_cases3)
    with send_keeps_capture [OF this] Cons.IH [of ch1 w1] Cons.prems SendFrame show ?thesis by simp
  next
    case CaptureTurn
    with Cons show ?thesis by (simp add: ended_capture)
  next
    case PollFrame
    with Cons.prems Cons.IH [of ch w] Cons.IH [of "ch\<lparr>oc_inbox := tl (oc_inbox ch)\<rparr>" w] show ?thesis
      by (cases "oc_inbox ch") (auto simp: optical_recv_def optical_start_def)
  qed
qed simp

text \<open>
  C40. An OpenCV error of a webcam during one turn of the capture thread makes the channel deaf for
  good: whatever is sent, captured and polled afterwards, the polls give nothing but the frames
  that were in the inbox already. The thread is never started again.
\<close>

theorem camera_error_deafens:
  assumes "oc_thread ch = Running cl" and "\<not> oc_closed ch" and "\<not> cc_closed (hw_camera h)"
    and "vc_read vc (hw_world h) = (Inl e, w')"
    and "capture_step decode (cv2_devices hg vc) ch h = (ch1, h1)"
  shows "take (length (channel_run segno decode (cv2_devices hg vc) acts ch1 h1)) (oc_inbox ch) =
    channel_run segno decode (cv2_devices hg vc) acts ch1 h1"
proof -
  have "ch1 = ch\<lparr>oc_thread := Ended\<rparr>"
    using assms by (auto simp: capture_step_def cv2_devices_def cv2_read_def)
  with ended_run [of ch1] show ?thesis by simp
qed

text \<open>A driver that fails once.\<close>

definition hiccup_capture :: "(bool, nat) capture_ops" where
  "hiccup_capture =
     \<lparr>vc_open = (\<lambda>_ _ w. (Inr (), w)), vc_isOpened = (\<lambda>_. True), vc_set = (\<lambda>_ _ w. (Inr (), w)),
      vc_read = (\<lambda>failed. if failed then (Inr (True, Some (0, 7)), failed) else (Inl Cv2Error, True)),
      vc_grab = (\<lambda>w. (Inr False, w)), vc_retrieve = (\<lambda>w. (Inr (False, None), w)), vc_release = (\<lambda>w. (Inr (), w))\<rparr>"

theorem camera_error_deafens_witness:
  "\<exists>hg. channel_run (\<lambda>_ _. None) (\<lambda>i. Some [0, 0, of_nat i]) (cv2_devices hg hiccup_capture)
     [PollFrame, CaptureTurn, CaptureTurn, PollFrame]
     (OpticalChannel_init 1 0 ''q'' 1 0)
     \<lparr>hw_display = Cv2Display_init ''w'' False, hw_camera = open_camera, hw_world = False, hw_clock = 0\<rparr> = []"
proof -
  define hg :: "bool highgui" where "hg = \<lparr>hg_namedWindow = (\<lambda>_ w. (Inr (), w)), hg_setFullscreen = (\<lambda>_ w. (Inr (), w)),
    hg_imshow = (\<lambda>_ _ w. (Inr (), w)), hg_waitKey = (\<lambda>_ w. (Inr (), w)), hg_destroyWindow = (\<lambda>_ w. (Inr (), w))\<rparr>"
  let ?d = "cv2_devices hg hiccup_capture"
  let ?h = "\<lparr>hw_display = Cv2Display_init ''w'' False, hw_camera = open_camera, hw_world = False, hw_clock = 0\<rparr>"
  let ?ch = "(OpticalChannel_init 1 0 ''q'' 1 0)\<lparr>oc_thread := Running capture_start\<rparr>"
  obtain ch1 h1 where s: "capture_step (\<lambda>i. Some [0, 0, of_nat i]) ?d ?ch ?h = (ch1, h1)" by fastforce
  have "vc_read hiccup_capture (hw_world ?h) = (Inl Cv2Error, True)" by (simp add: hiccup_capture_def)
  from camera_error_deafens [OF _ _ _ this s, of capture_start "\<lambda>_ _. None" "[CaptureTurn, PollFrame]"]
  have "channel_run (\<lambda>_ _. None) (\<lambda>i. Some [0, 0, of_nat i]) ?d [CaptureTurn, PollFrame] ch1 h1 = []"
    by (simp add: OpticalChannel_init_def open_camera_def)
  with s show ?thesis
    by (auto intro!: exI [of _ hg] simp: optical_recv_def optical_start_def OpticalChannel_init_def)
qed

end
