(* ===== verification/Ndarray.thy ===== *)
theory Ndarray
  imports Qr_Encode
begin

text \<open>
  The part of numpy the mobile devices use: an array is its shape and its elements in row-major
  order. Elements are integers, so that an array of another integer type than \<open>uint8\<close> can be
  stated; \<open>astype(np.uint8)\<close> wraps. Views are values: no array is written after it was made.
\<close>

record ndarray =
  nd_uint8 :: bool
  nd_shape :: "nat list"
  nd_data :: "int list"

definition nd_ndim :: "ndarray \<Rightarrow> nat" where
  "nd_ndim a = length (nd_shape a)"

definition nd_wf :: "ndarray \<Rightarrow> bool" where
  "nd_wf a \<longleftrightarrow> length (nd_data a) = prod_list (nd_shape a) \<and>
     (if nd_uint8 a then list_all (\<lambda>x. 0 \<le> x \<and> x < 256) (nd_data a) else True)"

text \<open>\<open>np.frombuffer(raw, dtype=np.uint8)\<close>.\<close>

definition frombuffer :: "bytes \<Rightarrow> ndarray" where
  "frombuffer b = \<lparr>nd_uint8 = True, nd_shape = [length b], nd_data = map uint b\<rparr>"

definition as_uint8 :: "ndarray \<Rightarrow> ndarray" where
  "as_uint8 a = (if nd_uint8 a then a else a\<lparr>nd_uint8 := True, nd_data := map (\<lambda>x. x mod 256) (nd_data a)\<rparr>)"

definition tobytes :: "ndarray \<Rightarrow> bytes" where
  "tobytes a = map word_of_int (nd_data a)"

text \<open>The element of a pixel, for an array of rows of pixels of depth \<open>d\<close>.\<close>

definition nd_at :: "ndarray \<Rightarrow> nat \<Rightarrow> nat \<Rightarrow> nat \<Rightarrow> int" where
  "nd_at a y x k =
     (case nd_shape a of
        [h, w] \<Rightarrow> nd_data a ! (y * w + x)
      | [h, w, d] \<Rightarrow> nd_data a ! ((y * w + x) * d + k)
      | _ \<Rightarrow> 0)"

text \<open>The elements of an array of \<open>h\<close> rows, \<open>w\<close> columns and depth \<open>d\<close>, given by their indices.\<close>

definition tabulate :: "nat \<Rightarrow> nat \<Rightarrow> nat \<Rightarrow> (nat \<Rightarrow> nat \<Rightarrow> nat \<Rightarrow> int) \<Rightarrow> int list" where
  "tabulate h w d g = concat (map (\<lambda>y. concat (map (\<lambda>x. map (g y x) [0..<d]) [0..<w])) [0..<h])"

text \<open>An array of the same shape whose pixels are those of \<open>a\<close> at other places: \<open>a[::-1, ...]\<close> and the like.\<close>

definition nd_depth :: "ndarray \<Rightarrow> nat" where
  "nd_depth a = (case nd_shape a of [h, w, d] \<Rightarrow> d | _ \<Rightarrow> 1)"

definition reindex :: "(nat \<Rightarrow> nat) \<Rightarrow> (nat \<Rightarrow> nat) \<Rightarrow> ndarray \<Rightarrow> ndarray" where
  "reindex row col a =
     (let h = nd_shape a ! 0; w = nd_shape a ! 1
      in a\<lparr>nd_data := tabulate h w (nd_depth a) (\<lambda>y x k. nd_at a (row y) (col x) k)\<rparr>)"

text \<open>A QR bitmap as an array.\<close>

definition image_array :: "image \<Rightarrow> ndarray" where
  "image_array img =
     \<lparr>nd_uint8 = True, nd_shape = [length img, (case img of [] \<Rightarrow> 0 | row # _ \<Rightarrow> length row)],
      nd_data = map uint (concat img)\<rparr>"

section \<open>Laws\<close>

lemma concat_nth:
  assumes "\<And>i. i < n \<Longrightarrow> length (f i) = m" and "i < n" and "j < m"
  shows "concat (map f [0..<n]) ! (i * m + j) = f i ! j"
  using assms
proof (induction n arbitrary: i f)
  case (Suc n)
  have len: "length (f 0) = m" using Suc.prems(1) by simp
  have cons: "[0..<Suc n] = 0 # map Suc [0..<n]" by (simp add: map_Suc_upt upt_conv_Cons)
  show ?case
  proof (cases i)
    case 0
    then show ?thesis unfolding cons using Suc.prems(3) len by (simp add: nth_append)
  next
    case (Suc i')
    have "concat (map (f \<circ> Suc) [0..<n]) ! (i' * m + j) = (f \<circ> Suc) i' ! j"
      by (rule Suc.IH) (use Suc.prems Suc in auto)
    then show ?thesis unfolding cons by (simp add: Suc nth_append len comp_def)
  qed
qed simp

lemma length_concat_same: "(\<And>i. i < n \<Longrightarrow> length (f i) = m) \<Longrightarrow> length (concat (map f [0..<n])) = n * m"
  by (induction n) (auto simp: algebra_simps)

lemma length_tabulate [simp]: "length (tabulate h w d g) = h * (w * d)"
  by (simp add: tabulate_def length_concat_same)

lemma tabulate_nth:
  assumes "y < h" and "x < w" and "k < d"
  shows "tabulate h w d g ! ((y * w + x) * d + k) = g y x k"
proof -
  let ?row = "\<lambda>y. concat (map (\<lambda>x. map (g y x) [0..<d]) [0..<w])"
  have len: "length (?row i) = w * d" for i by (simp add: length_concat_same)
  have j: "x * d + k < w * d"
  proof -
    have "x * d + k < Suc x * d" using assms(3) by simp
    also have "\<dots> \<le> w * d" using assms(2) by (intro mult_right_mono) simp_all
    finally show ?thesis .
  qed
  have "tabulate h w d g ! (y * (w * d) + (x * d + k)) = ?row y ! (x * d + k)"
    unfolding tabulate_def by (rule concat_nth [OF _ assms(1) j]) (rule len)
  also have "\<dots> = map (g y x) [0..<d] ! k" by (rule concat_nth) (use assms in auto)
  finally show ?thesis using assms(3) by (simp add: algebra_simps)
qed

lemma set_tabulate: "set (tabulate h w d g) = {g y x k |y x k. y < h \<and> x < w \<and> k < d}"
  by (fastforce simp: tabulate_def)

lemma tabulate_all:
  "(\<And>y x k. y < h \<Longrightarrow> x < w \<Longrightarrow> k < d \<Longrightarrow> P (g y x k)) \<Longrightarrow> list_all P (tabulate h w d g)"
  by (auto simp: list_all_iff set_tabulate)

text \<open>Indices stay inside an array.\<close>

lemma pixel_inside:
  assumes "y < h" and "x < w" and "k < (d :: nat)"
  shows "(y * w + x) * d + k < h * (w * d)"
proof -
  have "y * w + x < Suc y * w" using assms(2) by simp
  also have "\<dots> \<le> h * w" using assms(1) by (intro mult_right_mono) simp_all
  finally have "Suc (y * w + x) * d \<le> (h * w) * d" by (intro mult_right_mono) simp_all
  with assms(3) show ?thesis by (simp add: algebra_simps)
qed

text \<open>The images of the QR encoder and of the camera: two axes, or three.\<close>

definition planar :: "ndarray \<Rightarrow> bool" where
  "planar a \<longleftrightarrow> length (nd_shape a) = 2 \<or> length (nd_shape a) = 3"

lemma planar_cases:
  assumes "planar a"
  obtains h w where "nd_shape a = [h, w]" | h w d where "nd_shape a = [h, w, d]"
proof (cases "nd_shape a")
  case (Cons h r)
  then show thesis using assms that
    by (cases r; cases "tl r"; cases "tl (tl r)") (auto simp: planar_def)
qed (use assms in \<open>simp add: planar_def\<close>)

lemma nd_at_inside:
  assumes "nd_wf a" and "planar a" and "y < nd_shape a ! 0" and "x < nd_shape a ! 1" and "k < nd_depth a"
  shows "nd_at a y x k \<in> set (nd_data a)"
  using assms(2)
proof (cases rule: planar_cases)
  case (1 h w)
  then show ?thesis using assms pixel_inside [of y h x w 0 1] by (simp add: nd_at_def nd_wf_def nd_depth_def)
next
  case (2 h w d)
  then show ?thesis using assms pixel_inside [of y h x w k d] by (simp add: nd_at_def nd_wf_def nd_depth_def)
qed

lemma reindex_simps [simp]:
  "nd_shape (reindex row col a) = nd_shape a" "nd_uint8 (reindex row col a) = nd_uint8 a"
  "nd_depth (reindex row col a) = nd_depth a" "planar (reindex row col a) = planar a"
  by (simp_all add: reindex_def Let_def nd_depth_def planar_def)

lemma reindex_at:
  assumes "planar a" and "y < nd_shape a ! 0" and "x < nd_shape a ! 1" and "k < nd_depth a"
  shows "nd_at (reindex row col a) y x k = nd_at a (row y) (col x) k"
  using assms(1)
proof (cases rule: planar_cases)
  case (1 h w)
  then show ?thesis using assms tabulate_nth [of y h x w k "Suc 0"] by (simp add: reindex_def nd_at_def nd_depth_def)
next
  case (2 h w d)
  then show ?thesis using assms tabulate_nth [of y h x w k d] by (simp add: reindex_def nd_at_def nd_depth_def)
qed

lemma reindex_wf:
  assumes "nd_wf a" and "planar a"
    and "\<And>y. y < nd_shape a ! 0 \<Longrightarrow> row y < nd_shape a ! 0" and "\<And>x. x < nd_shape a ! 1 \<Longrightarrow> col x < nd_shape a ! 1"
  shows "nd_wf (reindex row col a)"
proof -
  have "list_all P (tabulate (nd_shape a ! 0) (nd_shape a ! 1) (nd_depth a) (\<lambda>y x k. nd_at a (row y) (col x) k))"
    if "list_all P (nd_data a)" for P
    by (rule tabulate_all) (use nd_at_inside [OF assms(1,2)] assms(3,4) that in \<open>auto simp: list_all_iff\<close>)
  moreover have "nd_shape a ! 0 * (nd_shape a ! Suc 0 * nd_depth a) = prod_list (nd_shape a)"
    using assms(2) by (cases rule: planar_cases) (simp_all add: nd_depth_def)
  ultimately show ?thesis using assms(1) by (auto simp: nd_wf_def reindex_def Let_def)
qed

lemma as_uint8_simps [simp]:
  "nd_uint8 (as_uint8 a)" "nd_shape (as_uint8 a) = nd_shape a" "nd_uint8 a \<Longrightarrow> as_uint8 a = a"
  by (simp_all add: as_uint8_def)

lemma as_uint8_wf: "nd_wf a \<Longrightarrow> nd_wf (as_uint8 a)"
  by (auto simp: as_uint8_def nd_wf_def list_all_iff)

lemma frombuffer_simps [simp]: "nd_uint8 (frombuffer b)" "nd_shape (frombuffer b) = [length b]" "nd_data (frombuffer b) = map uint b"
  by (simp_all add: frombuffer_def)

lemma uint_byte: "0 \<le> uint (b :: byte)" "uint (b :: byte) < 256"
  using uint_lt2p [of b] by simp_all

lemma bytes_in_range: "list_all (\<lambda>x. 0 \<le> x \<and> x < 256) (map uint (b :: bytes))"
  by (auto simp: list_all_iff uint_byte)

lemma frombuffer_wf: "nd_wf (frombuffer b)"
  using bytes_in_range [of b] by (simp add: nd_wf_def)

end
