(* ===== verification/Kivy_Frames.thy ===== *)
theory Kivy_Frames
  imports Ndarray Base64
begin

text \<open>
  \<open>photontcp/mobile/kivy_devices.py\<close>, the pixels: how a captured buffer becomes an image for the
  decoder (\<open>_frame_to_array\<close>) and how a QR bitmap becomes a buffer for a texture (\<open>_pack\<close>).
\<close>

text \<open>\<open>str.lower\<close>; only the ASCII letters of a format name matter to the lookups.\<close>

definition lower_char :: "char \<Rightarrow> char" where
  "lower_char c = (if 65 \<le> (of_char c :: nat) \<and> (of_char c :: nat) \<le> 90 then char_of (of_char c + 32 :: nat) else c)"

definition lower :: "string \<Rightarrow> string" where
  "lower s = map lower_char s"

definition CHANNELS :: "(string \<times> nat) list" where
  "CHANNELS = [(''rgba'', 4), (''bgra'', 4), (''rgb'', 3), (''bgr'', 3), (''luminance'', 1), (''gray'', 1)]"

text \<open>
  What a camera hands over: an object with the buffer protocol (its bytes), a \<open>numpy\<close> array (its
  identity, whether it is contiguous in memory, and its value), or anything else. \<open>None\<close> is the absence of one.
\<close>

datatype pixels = Buffer bytes | Array nat bool ndarray | Opaque

section \<open>Captured frames\<close>

definition pixel_array :: "pixels \<Rightarrow> ndarray option" where
  "pixel_array raw = (case raw of Buffer b \<Rightarrow> Some (frombuffer b) | Array i contiguous a \<Rightarrow> Some a | Opaque \<Rightarrow> None)"

text \<open>The declared size and format give a packed buffer its shape.\<close>

definition unpack_buffer :: "(int \<times> int) option \<Rightarrow> string \<Rightarrow> ndarray \<Rightarrow> ndarray option" where
  "unpack_buffer dims colorfmt a =
     (if nd_ndim a = 1 then
        (case dims of
           None \<Rightarrow> None
         | Some (width, height) \<Rightarrow>
             (case map_of CHANNELS (lower colorfmt) of
                None \<Rightarrow> None
              | Some channels \<Rightarrow>
                  if width \<le> 0 \<or> height \<le> 0 then None
                  else
                    (let expected = nat width * nat height * channels in
                     if length (nd_data a) < expected then None
                     else Some (a\<lparr>nd_shape := [nat height, nat width, channels], nd_data := take expected (nd_data a)\<rparr>))))
      else if nd_ndim a \<noteq> 2 \<and> nd_ndim a \<noteq> 3 then None
      else Some a)"

definition is_rgb :: "string \<Rightarrow> bool" where
  "is_rgb colorfmt \<longleftrightarrow> lower colorfmt = ''rgba'' \<or> lower colorfmt = ''rgb''"

text \<open>\<open>arr[:, :, 0]\<close>, \<open>arr[:, :, :3]\<close> and \<open>[:, :, ::-1]\<close>.\<close>

definition first_plane :: "ndarray \<Rightarrow> ndarray" where
  "first_plane a =
     (let h = nd_shape a ! 0; w = nd_shape a ! 1
      in a\<lparr>nd_shape := [h, w], nd_data := tabulate h w 1 (\<lambda>y x k. nd_at a y x 0)\<rparr>)"

definition three_planes :: "bool \<Rightarrow> ndarray \<Rightarrow> ndarray" where
  "three_planes reversed a =
     (let h = nd_shape a ! 0; w = nd_shape a ! 1
      in a\<lparr>nd_shape := [h, w, 3], nd_data := tabulate h w 3 (\<lambda>y x k. nd_at a y x (if reversed then 2 - k else k))\<rparr>)"

definition to_bgr :: "string \<Rightarrow> ndarray \<Rightarrow> ndarray option" where
  "to_bgr colorfmt a =
     (if nd_ndim a = 3 then
        (let depth = nd_shape a ! 2 in
         if depth = 1 then Some (first_plane a)
         else if depth = 3 \<or> depth = 4 then Some (three_planes (is_rgb colorfmt) a)
         else None)
      else Some a)"

definition flip_rows :: "ndarray \<Rightarrow> ndarray" where
  "flip_rows a = reindex (\<lambda>y. nd_shape a ! 0 - 1 - y) (\<lambda>x. x) a"

definition flip_columns :: "ndarray \<Rightarrow> ndarray" where
  "flip_columns a = reindex (\<lambda>y. y) (\<lambda>x. nd_shape a ! 1 - 1 - x) a"

definition frame_to_array ::
  "pixels option \<Rightarrow> (int \<times> int) option \<Rightarrow> string \<Rightarrow> bool \<Rightarrow> bool \<Rightarrow> ndarray option" where
  "frame_to_array raw dims colorfmt flip_vertical flip_horizontal =
     Option.bind raw (\<lambda>r.
     Option.bind (pixel_array r) (\<lambda>a.
     Option.bind (unpack_buffer dims colorfmt a) (\<lambda>a1.
     Option.bind (to_bgr colorfmt (as_uint8 a1)) (\<lambda>a2.
     let a3 = (if flip_vertical then flip_rows a2 else a2)
     in Some (if flip_horizontal then flip_columns a3 else a3)))))"

section \<open>Bitmaps for a texture\<close>

text \<open>\<open>np.repeat(arr[:, :, None], 3, axis=2)\<close>.\<close>

definition repeat_planes :: "ndarray \<Rightarrow> ndarray" where
  "repeat_planes a =
     (let h = nd_shape a ! 0; w = nd_shape a ! 1
      in a\<lparr>nd_shape := [h, w, 3], nd_data := tabulate h w 3 (\<lambda>y x k. nd_at a y x 0)\<rparr>)"

definition squeeze :: "ndarray \<Rightarrow> ndarray" where
  "squeeze a = (if nd_ndim a = 3 \<and> nd_shape a ! 2 = 1 then first_plane a else a)"

definition fit_channels :: "nat \<Rightarrow> ndarray \<Rightarrow> ndarray option" where
  "fit_channels channels a =
     (if nd_ndim a = 2 then
        (if channels = 3 then Some (repeat_planes a) else if channels \<noteq> 1 then None else Some a)
      else if nd_ndim a = 3 then (if nd_shape a ! 2 \<noteq> channels then None else Some a)
      else None)"

definition pack_texture :: "string \<Rightarrow> ndarray \<Rightarrow> (bytes \<times> nat \<times> nat) option" where
  "pack_texture colorfmt bitmap =
     Option.bind (map_of CHANNELS (lower colorfmt)) (\<lambda>channels.
     Option.bind (fit_channels channels (as_uint8 (squeeze bitmap))) (\<lambda>a.
     let height = nd_shape a ! 0; width = nd_shape a ! 1
     in if height = 0 \<or> width = 0 then None else Some (tobytes a, (width, height))))"

section \<open>Shapes and elements\<close>

lemma channels_cases:
  assumes "map_of CHANNELS c = Some n"
  shows "n = 1 \<or> n = 3 \<or> n = 4" and "n = 1 \<Longrightarrow> c \<noteq> ''rgba'' \<and> c \<noteq> ''rgb''"
  using assms by (auto simp: CHANNELS_def split: if_splits)

lemma unpack_planar: "unpack_buffer dims fmt a = Some b \<Longrightarrow> planar b"
  by (auto simp: unpack_buffer_def planar_def nd_ndim_def Let_def split: option.splits if_splits)

lemma list_all_take: "list_all P xs \<Longrightarrow> list_all P (take n xs)"
  by (auto simp: list_all_iff dest: in_set_takeD)

lemma unpack_wf: "nd_wf a \<Longrightarrow> unpack_buffer dims fmt a = Some b \<Longrightarrow> nd_wf b"
  by (auto simp: unpack_buffer_def nd_wf_def Let_def list_all_take algebra_simps split: option.splits if_splits)

lemma as_uint8_planar [simp]: "planar (as_uint8 a) = planar a"
  by (simp add: planar_def)

definition acceptable :: "ndarray \<Rightarrow> bool" where
  "acceptable a \<longleftrightarrow> nd_uint8 a \<and> nd_wf a \<and> (nd_ndim a = 2 \<or> nd_ndim a = 3 \<and> nd_shape a ! 2 = 3)"

lemma acceptable_planar: "acceptable a \<Longrightarrow> planar a"
  by (auto simp: acceptable_def planar_def nd_ndim_def)

text \<open>Choosing planes of a three-axis array keeps its elements in range.\<close>

lemma planes_in_range:
  assumes "nd_wf a" and "nd_uint8 a" and "nd_shape a = [h, w, c]" and "\<And>k. k < d \<Longrightarrow> f k < c"
  shows "list_all (\<lambda>v. 0 \<le> v \<and> v < 256) (tabulate h w d (\<lambda>y x k. nd_at a y x (f k)))"
proof (rule tabulate_all)
  fix y x k assume "y < h" "x < w" "k < d"
  with assms have "nd_at a y x (f k) \<in> set (nd_data a)"
    by (intro nd_at_inside) (simp_all add: planar_def nd_depth_def)
  with assms(1,2) show "0 \<le> nd_at a y x (f k) \<and> nd_at a y x (f k) < 256" by (simp add: nd_wf_def list_all_iff)
qed

lemma mirrored_plane [simp]: "2 - k < (3 :: nat)" "2 - k < (4 :: nat)"
  by simp_all

lemma to_bgr_acceptable:
  assumes "nd_wf a" and "nd_uint8 a" and "planar a" and "to_bgr fmt a = Some b"
  shows "acceptable b"
  using assms(3)
proof (cases rule: planar_cases)
  case (1 h w)
  with assms show ?thesis by (simp add: to_bgr_def acceptable_def nd_ndim_def)
next
  case (2 h w d)
  then show ?thesis using assms(2,4)
    by (auto simp: to_bgr_def acceptable_def nd_ndim_def nd_wf_def first_plane_def three_planes_def Let_def
        split: if_splits intro!: planes_in_range [OF assms(1,2) 2])
qed

lemma flips_acceptable: "acceptable a \<Longrightarrow> acceptable (flip_rows a)" "acceptable a \<Longrightarrow> acceptable (flip_columns a)"
  using acceptable_planar [of a]
  by (auto simp: acceptable_def flip_rows_def flip_columns_def nd_ndim_def intro!: reindex_wf)

lemma flips_at:
  assumes "planar a" and "y < nd_shape a ! 0" and "x < nd_shape a ! 1" and "k < nd_depth a"
  shows "nd_at (flip_rows a) y x k = nd_at a (nd_shape a ! 0 - 1 - y) x k"
    and "nd_at (flip_columns a) y x k = nd_at a y (nd_shape a ! 1 - 1 - x) k"
  using reindex_at [OF assms] by (simp_all add: flip_rows_def flip_columns_def)

lemma flips_simps [simp]:
  "nd_shape (flip_rows a) = nd_shape a" "nd_shape (flip_columns a) = nd_shape a"
  "planar (flip_rows a) = planar a" "planar (flip_columns a) = planar a"
  "nd_depth (flip_rows a) = nd_depth a" "nd_depth (flip_columns a) = nd_depth a"
  by (simp_all add: flip_rows_def flip_columns_def)

lemma to_bgr_simps:
  assumes "nd_shape a = [h, w, d]" and "d = 1 \<or> d = 3 \<or> d = 4"
  shows "\<exists>b. to_bgr fmt a = Some b \<and> nd_shape b = (if d = 1 then [h, w] else [h, w, 3]) \<and> nd_uint8 b = nd_uint8 a \<and>
    (\<forall>y < h. \<forall>x < w. \<forall>k < (if d = 1 then 1 else 3).
       nd_at b y x k = nd_at a y x (if d = 1 then 0 else if is_rgb fmt then 2 - k else k))"
  using assms tabulate_nth [of _ h _ w 0 "Suc 0" "\<lambda>y x k. nd_at a y x 0"]
    tabulate_nth [of _ h _ w _ 3 "\<lambda>y x k. nd_at a y x (if is_rgb fmt then 2 - k else k)"]
  by (auto simp: to_bgr_def nd_ndim_def first_plane_def three_planes_def nd_at_def Let_def)

section \<open>Properties\<close>

text \<open>
  Whatever a camera hands over, a frame that comes out is one that the decoder takes: \<open>uint8\<close>, gray
  or with three planes, every element in range and as many as the shape says.
\<close>

theorem captured_frame_acceptable:
  assumes "frame_to_array raw dims fmt fv fh = Some a"
    and "case raw of Some (Array i contiguous b) \<Rightarrow> nd_wf b | _ \<Rightarrow> True"
  shows "acceptable a"
proof -
  from assms(1) obtain r b b1 b2 where r: "raw = Some r" "pixel_array r = Some b" "unpack_buffer dims fmt b = Some b1"
    and b2: "to_bgr fmt (as_uint8 b1) = Some b2"
    and a: "a = (let a3 = (if fv then flip_rows b2 else b2) in if fh then flip_columns a3 else a3)"
    by (auto simp: frame_to_array_def bind_eq_Some_conv Let_def)
  from r(1,2) assms(2) have "nd_wf b" by (auto simp: pixel_array_def frombuffer_wf split: pixels.splits)
  with r(3) unpack_wf unpack_planar have "nd_wf (as_uint8 b1)" "planar (as_uint8 b1)"
    by (auto intro: as_uint8_wf)
  with to_bgr_acceptable [OF _ _ _ b2] have "acceptable b2" by simp
  then show ?thesis unfolding a Let_def using flips_acceptable by auto
qed

theorem captured_frame_acceptable_witness:
  "acceptable (the (frame_to_array (Some (Array 0 True \<lparr>nd_uint8 = False, nd_shape = [1, 2, 1], nd_data = [-1, 300]\<rparr>))
     None ''rgb'' True False))"
proof -
  let ?a = "\<lparr>nd_uint8 = False, nd_shape = [1, 2, 1], nd_data = [-1, 300]\<rparr>"
  have "frame_to_array (Some (Array 0 True ?a)) None ''rgb'' True False =
      Some \<lparr>nd_uint8 = True, nd_shape = [1, 2], nd_data = [255, 44]\<rparr>" by code_simp
  from captured_frame_acceptable [OF this] this show ?thesis by (simp add: nd_wf_def)
qed

lemma captured_pixel_formula:
  assumes "map_of CHANNELS (lower fmt) = Some c" and "0 < w" and "0 < h" and "w * h * c \<le> length raw"
  shows "\<exists>a. frame_to_array (Some (Buffer raw)) (Some (int w, int h)) fmt fv fh = Some a \<and>
    nd_shape a = (if c = 1 then [h, w] else [h, w, 3]) \<and>
    (\<forall>y < h. \<forall>x < w. \<forall>k < (if c = 1 then 1 else 3).
       nd_at a y x k = uint (raw ! (((if fv then h - 1 - y else y) * w + (if fh then w - 1 - x else x)) * c +
         (if c = 1 then 0 else if is_rgb fmt then 2 - k else k))))"
proof -
  let ?b = "\<lparr>nd_uint8 = True, nd_shape = [h, w, c], nd_data = take (w * h * c) (map uint raw)\<rparr>"
  have u: "unpack_buffer (Some (int w, int h)) fmt (frombuffer raw) = Some ?b"
    using assms by (simp add: unpack_buffer_def nd_ndim_def frombuffer_def)
  note c = channels_cases [OF assms(1)]
  from to_bgr_simps [of ?b h w c fmt] c(1) obtain b where b: "to_bgr fmt ?b = Some b"
    "nd_shape b = (if c = 1 then [h, w] else [h, w, 3])"
    and at_b: "\<And>y x k. y < h \<Longrightarrow> x < w \<Longrightarrow> k < (if c = 1 then 1 else 3) \<Longrightarrow>
       nd_at b y x k = nd_at ?b y x (if c = 1 then 0 else if is_rgb fmt then 2 - k else k)" by auto
  have at_raw: "nd_at ?b y x k = uint (raw ! ((y * w + x) * c + k))" if "y < h" "x < w" "k < c" for y x k
    using pixel_inside [OF that] assms(4) by (simp add: nd_at_def algebra_simps)
  have p: "planar b" "nd_depth b = (if c = 1 then 1 else 3)" using b(2) by (auto simp: planar_def nd_depth_def)
  let ?r = "if fv then flip_rows b else b"
  let ?a = "if fh then flip_columns ?r else ?r"
  have at_r: "nd_at ?r y x k = nd_at b (if fv then h - 1 - y else y) x k"
    if "y < h" "x < w" "k < (if c = 1 then 1 else 3)" for y x k
    using flips_at(1) [OF p(1), of y x k] that p(2) b(2) by (auto split: if_splits)
  have shape_r: "planar ?r" "nd_shape ?r = nd_shape b" "nd_depth ?r = nd_depth b" using p(1) by simp_all
  have at_a: "nd_at ?a y x k = nd_at b (if fv then h - 1 - y else y) (if fh then w - 1 - x else x) k"
    if "y < h" "x < w" "k < (if c = 1 then 1 else 3)" for y x k
    using flips_at(2) [OF shape_r(1), of y x k] at_r that p(2) b(2) shape_r assms(2) by (auto split: if_splits)
  have "frame_to_array (Some (Buffer raw)) (Some (int w, int h)) fmt fv fh = Some ?a"
    by (simp add: frame_to_array_def pixel_array_def u b(1) Let_def)
  moreover have "nd_shape ?a = nd_shape b" by simp
  moreover have "nd_at ?a y x k = uint (raw ! (((if fv then h - 1 - y else y) * w + (if fh then w - 1 - x else x)) * c +
         (if c = 1 then 0 else if is_rgb fmt then 2 - k else k)))"
    if k: "y < h" "x < w" "k < (if c = 1 then 1 else 3)" for y x k
  proof -
    define Y X K where d: "Y = (if fv then h - 1 - y else y)" "X = (if fh then w - 1 - x else x)"
      "K = (if c = 1 then 0 else if is_rgb fmt then 2 - k else k)"
    have in_b: "Y < h" "X < w" "K < c" using k c(1) assms(2,3) by (auto simp: d)
    have "nd_at ?a y x k = nd_at b Y X k" unfolding d by (rule at_a [OF k])
    also have "\<dots> = nd_at ?b Y X K" unfolding d(3) by (rule at_b [OF in_b(1,2) k(3)])
    also have "\<dots> = uint (raw ! ((Y * w + X) * c + K))" by (rule at_raw [OF in_b])
    finally show ?thesis unfolding d .
  qed
  ultimately show ?thesis using b(2) by auto
qed

text \<open>
  The pixels of a captured buffer. A buffer of at least \<open>width * height * channels\<close> bytes in a known
  format gives a gray image or, with its planes in the order blue, green, red, a colour image: each
  pixel is the buffer's pixel at that place, counted from the other end where a flip is asked for.
\<close>

theorem captured_pixels:
  assumes "map_of CHANNELS (lower fmt) = Some c" and "0 < w" and "0 < h" and "w * h * c \<le> length raw"
  shows "\<exists>a. frame_to_array (Some (Buffer raw)) (Some (int w, int h)) fmt fv fh = Some a \<and>
    nd_shape a = (if c = 1 then [h, w] else [h, w, 3]) \<and>
    (\<forall>y < h. \<forall>x < w. \<forall>k < (if c = 1 then 1 else 3).
       nd_at a y x k = uint (raw ! (((if fv then h - 1 - y else y) * w + (if fh then w - 1 - x else x)) * c +
         (if c = 1 then 0 else if is_rgb fmt then 2 - k else k))))"
  by (rule captured_pixel_formula [OF assms])

theorem captured_pixels_witness:
  "\<exists>a. frame_to_array (Some (Buffer [1, 2, 3, 255, 4, 5, 6, 255])) (Some (2, 1)) ''RGBA'' False True = Some a \<and>
     nd_shape a = [1, 2, 3] \<and> nd_at a 0 0 0 = 6"
proof -
  have "lower ''RGBA'' = ''rgba''" by code_simp
  then have "map_of CHANNELS (lower ''RGBA'') = Some 4" "is_rgb ''RGBA''" by (simp_all add: CHANNELS_def is_rgb_def)
  from captured_pixels [OF this(1), of 2 1 "[1, 2, 3, 255, 4, 5, 6, 255]" False True] this(2) show ?thesis by auto
qed

section \<open>From the display to the camera\<close>

lemma image_array_simps:
  assumes "length img = h" and "\<forall>row \<in> set img. length row = w" and "0 < h"
  shows "nd_shape (image_array img) = [h, w]" and "nd_uint8 (image_array img)"
    and "length (nd_data (image_array img)) = h * w"
    and "\<And>y x. y < h \<Longrightarrow> x < w \<Longrightarrow> nd_data (image_array img) ! (y * w + x) = uint (img ! y ! x)"
proof -
  have c: "concat img = concat (map ((!) img) [0..<h])" using assms(1) map_nth [of img] by simp
  have len: "length (img ! i) = w" if "i < h" for i using that assms by simp
  show "nd_shape (image_array img) = [h, w]" using assms by (cases img) (auto simp: image_array_def)
  show "nd_uint8 (image_array img)" by (simp add: image_array_def)
  show l: "length (nd_data (image_array img)) = h * w"
    by (simp add: image_array_def c length_concat_same len)
  show "nd_data (image_array img) ! (y * w + x) = uint (img ! y ! x)" if "y < h" "x < w" for y x
  proof -
    have "y * w + x < length (concat img)" using pixel_inside [of y h x w 0 1] that l by (simp add: image_array_def)
    with concat_nth [of h "(!) img" w y x] that len show ?thesis by (simp add: image_array_def c)
  qed
qed

lemma pack_pixels:
  assumes "length img = h" and "\<forall>row \<in> set img. length row = w" and "0 < h" and "0 < w"
    and "map_of CHANNELS (lower fmt) = Some c" and "c = 1 \<or> c = 3"
  shows "\<exists>b. pack_texture fmt (image_array img) = Some (b, w, h) \<and> length b = h * (w * c) \<and>
    (\<forall>y < h. \<forall>x < w. \<forall>k < c. b ! ((y * w + x) * c + k) = img ! y ! x)"
proof -
  let ?a = "image_array img"
  note a = image_array_simps [OF assms(1-3)]
  have s: "as_uint8 (squeeze ?a) = ?a" "nd_ndim ?a = 2" using a(1,2) by (simp_all add: squeeze_def nd_ndim_def)
  define b where "b = (if c = 3 then repeat_planes ?a else ?a)"
  have "pack_texture fmt ?a = Some (tobytes b, w, h)"
    using assms(3-6) a(1) by (auto simp: pack_texture_def s fit_channels_def b_def repeat_planes_def Let_def)
  moreover have "length (tobytes b) = h * (w * c)"
    using a(1,3) assms(6) by (auto simp: tobytes_def b_def repeat_planes_def Let_def)
  moreover have "tobytes b ! ((y * w + x) * c + k) = img ! y ! x" if "y < h" "x < w" "k < c" for y x k
  proof -
    have i: "(y * w + x) * c + k < h * (w * c)" using that by (rule pixel_inside)
    have "nd_data b ! ((y * w + x) * c + k) = uint (img ! y ! x)"
      using assms(6) that a tabulate_nth [of y h x w k 3 "\<lambda>y x k. nd_at ?a y x 0"]
      by (auto simp: b_def repeat_planes_def nd_at_def Let_def)
    with i a(1,3) assms(6) show ?thesis
      by (auto simp: tobytes_def b_def repeat_planes_def Let_def split: if_splits)
  qed
  ultimately show ?thesis by blast
qed

text \<open>
  What one phone shows is what another one reads. A QR bitmap is packed into the buffer of a
  texture, one byte or three per pixel; a camera that hands over that buffer with the same size and
  a format of as many channels gives an image in which every plane of every pixel has the value it
  has in the bitmap.
\<close>

theorem shown_is_captured:
  assumes "length img = h" and "\<forall>row \<in> set img. length row = w" and "0 < h" and "0 < w"
    and "map_of CHANNELS (lower fmt) = Some c" and "map_of CHANNELS (lower fmt') = Some c" and "c = 1 \<or> c = 3"
  shows "\<exists>b a. pack_texture fmt (image_array img) = Some (b, w, h) \<and>
    frame_to_array (Some (Buffer b)) (Some (int w, int h)) fmt' False False = Some a \<and>
    nd_shape a = (if c = 1 then [h, w] else [h, w, 3]) \<and>
    (\<forall>y < h. \<forall>x < w. \<forall>k < c. nd_at a y x k = uint (img ! y ! x))"
proof -
  from pack_pixels [OF assms(1-5,7)] obtain b where b: "pack_texture fmt (image_array img) = Some (b, w, h)"
    "length b = h * (w * c)" and at_b: "\<And>y x k. y < h \<Longrightarrow> x < w \<Longrightarrow> k < c \<Longrightarrow> b ! ((y * w + x) * c + k) = img ! y ! x"
    by auto
  define K where "K k = (if c = 1 then 0 else if is_rgb fmt' then 2 - k else k)" for k :: nat
  have len: "w * h * c \<le> length b" by (simp add: b(2) algebra_simps)
  from captured_pixel_formula [OF assms(6,4,3) len, of False False] obtain a
    where a: "frame_to_array (Some (Buffer b)) (Some (int w, int h)) fmt' False False = Some a"
      "nd_shape a = (if c = 1 then [h, w] else [h, w, 3])"
      and at_a: "\<And>y x k. y < h \<Longrightarrow> x < w \<Longrightarrow> k < (if c = 1 then 1 else 3) \<Longrightarrow>
        nd_at a y x k = uint (b ! ((y * w + x) * c + K k))" unfolding K_def by auto
  have "nd_at a y x k = uint (img ! y ! x)" if "y < h" "x < w" "k < c" for y x k
  proof -
    have "K k < c" using that(3) assms(7) by (auto simp: K_def)
    with at_a [OF that(1,2)] at_b [OF that(1,2)] that(3) assms(7) show ?thesis by auto
  qed
  with a b(1) show ?thesis by blast
qed

theorem shown_is_captured_witness:
  "\<exists>b a. pack_texture ''luminance'' (image_array [[0, 255], [255, 7]]) = Some (b, 2, 2) \<and>
     frame_to_array (Some (Buffer b)) (Some (2, 2)) ''gray'' False False = Some a \<and> nd_at a 1 1 0 = 7"
proof -
  have "lower ''luminance'' = ''luminance''" "lower ''gray'' = ''gray''" by code_simp+
  then have "map_of CHANNELS (lower ''luminance'') = Some 1" "map_of CHANNELS (lower ''gray'') = Some 1"
    by (simp_all add: CHANNELS_def)
  from shown_is_captured [OF _ _ _ _ this, of "[[0, 255], [255, 7]]" 2 2] show ?thesis by auto
qed

end
