(* ===== verification/Kivy_Devices.thy ===== *)
theory Kivy_Devices
  imports Kivy_Frames "HOL-Library.Sublist"
begin

text \<open>
  \<open>photontcp/mobile/kivy_devices.py\<close>: \<open>KivyDisplay\<close> and \<open>KivyCamera\<close>. Each is called from several
  threads, so beside its methods there is a system of it: the object, the threads inside its
  methods, and one step for every piece between two of its accesses to shared state. A critical
  section is one step. The steps come in any order.
\<close>

section \<open>The display\<close>

type_synonym frame = "bytes \<times> nat \<times> nat"

record KivyDisplay =
  kd_colorfmt :: string
  kd_flip_vertical :: bool
  kd_pending :: "frame option"
  kd_scheduled :: bool
  kd_closed :: bool

definition KivyDisplay_init :: "string \<Rightarrow> bool \<Rightarrow> KivyDisplay" where
  "KivyDisplay_init colorfmt flip_vertical =
     \<lparr>kd_colorfmt = colorfmt, kd_flip_vertical = flip_vertical, kd_pending = None, kd_scheduled = False, kd_closed = False\<rparr>"

text \<open>\<open>show\<close>: the check and the packing, the critical section, and whether the scheduler is called.\<close>

definition show_check :: "KivyDisplay \<Rightarrow> ndarray option \<Rightarrow> frame option" where
  "show_check d img = (if kd_closed d then None else Option.bind img (pack_texture (kd_colorfmt d)))"

definition show_store :: "frame \<Rightarrow> KivyDisplay \<Rightarrow> bool \<times> KivyDisplay" where
  "show_store p d = (\<not> kd_scheduled d, d\<lparr>kd_pending := Some p, kd_scheduled := True\<rparr>)"

definition kivy_show :: "('w \<Rightarrow> unit result \<times> 'w) \<Rightarrow> KivyDisplay \<Rightarrow> ndarray option \<Rightarrow> 'w \<Rightarrow> unit result \<times> KivyDisplay \<times> 'w" where
  "kivy_show scheduler d img w =
     (case show_check d img of
        None \<Rightarrow> (Inr (), d, w)
      | Some p \<Rightarrow>
          (let (needs_schedule, d1) = show_store p d
           in if needs_schedule then (let (r, w1) = scheduler w in (r, d1, w1)) else (Inr (), d1, w)))"

text \<open>\<open>_render\<close>: the critical section, then the upload. The texture library is a parameter.\<close>

record 't texture_ops =
  tx_create :: "nat \<times> nat \<Rightarrow> string \<Rightarrow> 't result"
  tx_blit_buffer :: "bytes \<Rightarrow> string \<Rightarrow> 't \<Rightarrow> 't result"
  tx_flip_vertical :: "'t \<Rightarrow> 't"

definition render_take :: "KivyDisplay \<Rightarrow> frame option \<times> KivyDisplay" where
  "render_take d = (kd_pending d, d\<lparr>kd_pending := None, kd_scheduled := False\<rparr>)"

definition upload :: "'t texture_ops \<Rightarrow> KivyDisplay \<Rightarrow> frame \<Rightarrow> 't result" where
  "upload tx d p =
     (case tx_create tx (snd p) (kd_colorfmt d) of
        Inl e \<Rightarrow> Inl e
      | Inr t \<Rightarrow>
          (case tx_blit_buffer tx (fst p) (kd_colorfmt d) t of
             Inl e \<Rightarrow> Inl e
           | Inr t1 \<Rightarrow> Inr (if kd_flip_vertical d then tx_flip_vertical tx t1 else t1)))"

text \<open>The texture the widget has after the upload of what was taken.\<close>

definition render_paint :: "'t texture_ops \<Rightarrow> KivyDisplay \<Rightarrow> frame option \<Rightarrow> 't option \<Rightarrow> unit result \<times> 't option" where
  "render_paint tx d pending texture =
     (case pending of
        None \<Rightarrow> (Inr (), texture)
      | Some p \<Rightarrow>
          if kd_closed d then (Inr (), texture)
          else (case upload tx d p of Inl e \<Rightarrow> (Inl e, texture) | Inr t \<Rightarrow> (Inr (), Some t)))"

definition kivy_render :: "'t texture_ops \<Rightarrow> KivyDisplay \<Rightarrow> 't option \<Rightarrow> unit result \<times> KivyDisplay \<times> 't option" where
  "kivy_render tx d texture =
     (let (p, d1) = render_take d; (r, t) = render_paint tx d1 p texture in (r, d1, t))"

text \<open>\<open>close\<close>: the flag, then the critical section.\<close>

definition display_close_flag :: "KivyDisplay \<Rightarrow> KivyDisplay" where
  "display_close_flag d = d\<lparr>kd_closed := True\<rparr>"

definition display_close_clear :: "KivyDisplay \<Rightarrow> KivyDisplay" where
  "display_close_clear d = d\<lparr>kd_pending := None\<rparr>"

definition kivy_display_close :: "KivyDisplay \<Rightarrow> KivyDisplay" where
  "kivy_display_close d = display_close_clear (display_close_flag d)"

section \<open>The display and its threads\<close>

text \<open>
  \<open>ds_prepared\<close>: frames of threads between the check and the critical section of \<open>show\<close>.
  \<open>ds_calls\<close>: threads that still have to call the scheduler. \<open>ds_queue\<close>: render callbacks the clock
  of the UI holds. \<open>ds_painting\<close>: what the UI thread took and has not uploaded. \<open>ds_stored\<close> is a
  history: the frames stored so far.
\<close>

record 't DisplaySys =
  ds_display :: KivyDisplay
  ds_texture :: "'t option"
  ds_prepared :: "frame list"
  ds_calls :: nat
  ds_queue :: nat
  ds_painting :: "frame option"
  ds_stored :: "frame list"

definition new_display :: "string \<Rightarrow> bool \<Rightarrow> 't DisplaySys" where
  "new_display colorfmt flip_vertical =
     \<lparr>ds_display = KivyDisplay_init colorfmt flip_vertical, ds_texture = None, ds_prepared = [],
      ds_calls = 0, ds_queue = 0, ds_painting = None, ds_stored = []\<rparr>"

datatype DisplayEvent =
    ShowCheck "ndarray option"
  | ShowStore nat
  | CallScheduler
  | SchedulerRaises
  | RenderTake
  | RenderPaint
  | CloseFlag
  | CloseClear

text \<open>One step; an event that no thread is at changes nothing.\<close>

fun display_step :: "'t texture_ops \<Rightarrow> DisplayEvent \<Rightarrow> 't DisplaySys \<Rightarrow> 't DisplaySys" where
  "display_step tx (ShowCheck img) s =
     s\<lparr>ds_prepared := ds_prepared s @ (case show_check (ds_display s) img of None \<Rightarrow> [] | Some p \<Rightarrow> [p])\<rparr>"
| "display_step tx (ShowStore i) s =
     (if i < length (ds_prepared s) then
        (let p = ds_prepared s ! i; (needs_schedule, d) = show_store p (ds_display s)
         in s\<lparr>ds_display := d, ds_prepared := take i (ds_prepared s) @ drop (Suc i) (ds_prepared s),
              ds_calls := ds_calls s + (if needs_schedule then 1 else 0), ds_stored := ds_stored s @ [p]\<rparr>)
      else s)"
| "display_step tx CallScheduler s =
     (if 0 < ds_calls s then s\<lparr>ds_calls := ds_calls s - 1, ds_queue := ds_queue s + 1\<rparr> else s)"
| "display_step tx SchedulerRaises s = (if 0 < ds_calls s then s\<lparr>ds_calls := ds_calls s - 1\<rparr> else s)"
| "display_step tx RenderTake s =
     (if 0 < ds_queue s \<and> ds_painting s = None then
        (let (p, d) = render_take (ds_display s) in s\<lparr>ds_display := d, ds_queue := ds_queue s - 1, ds_painting := p\<rparr>)
      else s)"
| "display_step tx RenderPaint s =
     s\<lparr>ds_texture := snd (render_paint tx (ds_display s) (ds_painting s) (ds_texture s)), ds_painting := None\<rparr>"
| "display_step tx CloseFlag s = s\<lparr>ds_display := display_close_flag (ds_display s)\<rparr>"
| "display_step tx CloseClear s =
     (if kd_closed (ds_display s) then s\<lparr>ds_display := display_close_clear (ds_display s)\<rparr> else s)"

definition display_run :: "'t texture_ops \<Rightarrow> DisplayEvent list \<Rightarrow> 't DisplaySys \<Rightarrow> 't DisplaySys" where
  "display_run tx evs s = fold (display_step tx) evs s"

text \<open>Where the newest stored frame is: in the slot, in the hands of the UI thread, or on the widget.\<close>

definition newest_tracked :: "'t texture_ops \<Rightarrow> 't DisplaySys \<Rightarrow> bool" where
  "newest_tracked tx s \<longleftrightarrow>
     (case kd_pending (ds_display s) of
        Some p \<Rightarrow> ds_stored s \<noteq> [] \<and> p = last (ds_stored s)
      | None \<Rightarrow>
          (case ds_painting s of
             Some p \<Rightarrow> ds_stored s \<noteq> [] \<and> p = last (ds_stored s)
           | None \<Rightarrow> ds_stored s = [] \<or> map_option Inr (ds_texture s) = Some (upload tx (ds_display s) (last (ds_stored s)))))"

definition display_inv :: "'t texture_ops \<Rightarrow> 't DisplaySys \<Rightarrow> bool" where
  "display_inv tx s \<longleftrightarrow>
     ds_calls s + ds_queue s = (if kd_scheduled (ds_display s) then 1 else 0) \<and>
     (if kd_pending (ds_display s) \<noteq> None then kd_scheduled (ds_display s) else True) \<and>
     (if kd_closed (ds_display s) then True else newest_tracked tx s)"

lemma upload_state [simp]:
  "upload tx (d\<lparr>kd_pending := x\<rparr>) p = upload tx d p" "upload tx (d\<lparr>kd_scheduled := b\<rparr>) p = upload tx d p"
  by (auto simp: upload_def split: sum.split)

lemma display_inv_step:
  assumes "display_inv tx s" and "e \<noteq> SchedulerRaises" and "\<And>d p. \<exists>t. upload tx d p = Inr t"
  shows "display_inv tx (display_step tx e s)"
proof (cases e)
  case (ShowStore i)
  with assms(1) show ?thesis by (auto simp: display_inv_def newest_tracked_def show_store_def Let_def)
next
  case CallScheduler
  with assms(1) show ?thesis by (auto simp: display_inv_def newest_tracked_def split: option.splits if_splits)
next
  case RenderTake
  with assms(1) show ?thesis
    by (auto simp: display_inv_def newest_tracked_def render_take_def split: option.splits if_splits)
next
  case RenderPaint
  from assms(3) [of "ds_display s" "the (ds_painting s)"] obtain t
    where "upload tx (ds_display s) (the (ds_painting s)) = Inr t" ..
  with RenderPaint assms(1) show ?thesis
    by (auto simp: display_inv_def newest_tracked_def render_paint_def split: option.splits if_splits)
qed (use assms(1,2) in \<open>auto simp: display_inv_def newest_tracked_def display_close_flag_def display_close_clear_def
    split: option.splits\<close>)

lemma display_inv_run:
  assumes "\<And>d p. \<exists>t. upload tx d p = Inr t" and "SchedulerRaises \<notin> set evs" and "display_inv tx s"
  shows "display_inv tx (display_run tx evs s)"
  using assms(2,3) display_inv_step [OF _ _ assms(1)]
  by (induction evs arbitrary: s) (auto simp: display_run_def)

lemma display_inv_new: "display_inv tx (new_display fmt fv)"
  by (simp add: display_inv_def newest_tracked_def new_display_def KivyDisplay_init_def)

text \<open>After a call of the scheduler that raised, the flag stays up and nothing is scheduled any more.\<close>

definition display_stuck :: "'t DisplaySys \<Rightarrow> bool" where
  "display_stuck s \<longleftrightarrow> kd_scheduled (ds_display s) \<and> ds_calls s = 0 \<and> ds_queue s = 0 \<and> ds_painting s = None"

lemma display_stuck_step:
  "display_stuck s \<Longrightarrow> display_stuck (display_step tx e s) \<and> ds_texture (display_step tx e s) = ds_texture s"
  by (cases e)
    (auto simp: display_stuck_def show_store_def render_paint_def display_close_flag_def display_close_clear_def Let_def)

lemma display_stuck_run: "display_stuck s \<Longrightarrow> ds_texture (display_run tx evs s) = ds_texture s"
  using display_stuck_step [of _ tx] by (induction evs arbitrary: s) (auto simp: display_run_def)

section \<open>The camera\<close>

type_synonym entry = "pixels \<times> (int \<times> int) option \<times> string"

record KivyCamera =
  kc_colorfmt :: string
  kc_copy_on_submit :: bool
  kc_flip_vertical :: bool
  kc_flip_horizontal :: bool
  kc_pending :: "entry option"
  kc_arrived :: bool
  kc_last :: "(nat \<times> ndarray) option"
  kc_closed :: bool

definition KivyCamera_init :: "string \<Rightarrow> bool \<Rightarrow> bool \<Rightarrow> bool \<Rightarrow> KivyCamera" where
  "KivyCamera_init colorfmt flip_vertical flip_horizontal copy_on_submit =
     \<lparr>kc_colorfmt = colorfmt, kc_copy_on_submit = copy_on_submit, kc_flip_vertical = flip_vertical,
      kc_flip_horizontal = flip_horizontal, kc_pending = None, kc_arrived = False, kc_last = None, kc_closed = False\<rparr>"

text \<open>\<open>_own\<close>: a copy is a new object, here with the identity \<open>fresh\<close>, and contiguous.\<close>

definition own_pixels :: "KivyCamera \<Rightarrow> nat \<Rightarrow> pixels \<Rightarrow> pixels" where
  "own_pixels c fresh raw =
     (if kc_copy_on_submit c then (case raw of Array i contiguous a \<Rightarrow> Array fresh True a | _ \<Rightarrow> raw) else raw)"

text \<open>\<open>submit_frame\<close>: the check and the copy, then the critical section.\<close>

definition submit_check ::
  "KivyCamera \<Rightarrow> nat \<Rightarrow> pixels option \<Rightarrow> (int \<times> int) option \<Rightarrow> string option \<Rightarrow> entry option" where
  "submit_check c fresh raw dims colorfmt =
     (if kc_closed c then None
      else map_option (\<lambda>r. (own_pixels c fresh r, dims,
        (case colorfmt of None \<Rightarrow> kc_colorfmt c | Some f \<Rightarrow> if f = [] then kc_colorfmt c else f))) raw)"

definition submit_store :: "entry \<Rightarrow> KivyCamera \<Rightarrow> KivyCamera" where
  "submit_store e c = c\<lparr>kc_pending := Some e, kc_arrived := True\<rparr>"

text \<open>
  \<open>read\<close>: the critical section takes the slot; the conversion follows. The frame is a new object,
  except that a contiguous array that needs no change is returned as it is (\<open>ascontiguousarray\<close> copies the others).
\<close>

definition read_take :: "KivyCamera \<Rightarrow> entry option \<times> KivyCamera" where
  "read_take c = (kc_pending c, c\<lparr>kc_pending := None, kc_arrived := False\<rparr>)"

definition frame_identity :: "KivyCamera \<Rightarrow> nat \<Rightarrow> pixels \<Rightarrow> nat" where
  "frame_identity c fresh raw =
     (case raw of
        Array i contiguous a \<Rightarrow>
          if contiguous \<and> nd_ndim a = 2 \<and> nd_uint8 a \<and> \<not> kc_flip_vertical c \<and> \<not> kc_flip_horizontal c then i
          else fresh
      | _ \<Rightarrow> fresh)"

definition convert_entry :: "KivyCamera \<Rightarrow> nat \<Rightarrow> entry \<Rightarrow> (nat \<times> ndarray) option" where
  "convert_entry c fresh e =
     map_option (\<lambda>a. (frame_identity c fresh (fst e), a))
       (frame_to_array (Some (fst e)) (fst (snd e)) (snd (snd e)) (kc_flip_vertical c) (kc_flip_horizontal c))"

definition read_finish :: "nat \<Rightarrow> entry option \<Rightarrow> KivyCamera \<Rightarrow> (nat \<times> ndarray) option \<times> KivyCamera" where
  "read_finish fresh pending c =
     (case Option.bind pending (convert_entry c fresh) of
        None \<Rightarrow> (kc_last c, c)
      | Some frame \<Rightarrow> (Some frame, c\<lparr>kc_last := Some frame\<rparr>))"

text \<open>\<open>close\<close>: the flag, the critical section, the signal.\<close>

definition camera_close_flag :: "KivyCamera \<Rightarrow> KivyCamera" where
  "camera_close_flag c = c\<lparr>kc_closed := True\<rparr>"

definition camera_close_clear :: "KivyCamera \<Rightarrow> KivyCamera" where
  "camera_close_clear c = c\<lparr>kc_pending := None, kc_last := None\<rparr>"

definition camera_close_signal :: "KivyCamera \<Rightarrow> KivyCamera" where
  "camera_close_signal c = c\<lparr>kc_arrived := True\<rparr>"

text \<open>
  The methods without another thread in between. A \<open>read\<close> during which nothing arrives returns after
  its timeout; without one it does not return (\<open>None\<close>).
\<close>

definition submit_frame ::
  "KivyCamera \<Rightarrow> nat \<Rightarrow> pixels option \<Rightarrow> (int \<times> int) option \<Rightarrow> string option \<Rightarrow> KivyCamera" where
  "submit_frame c fresh raw dims colorfmt =
     (case submit_check c fresh raw dims colorfmt of None \<Rightarrow> c | Some e \<Rightarrow> submit_store e c)"

definition kivy_read :: "nat \<Rightarrow> time option \<Rightarrow> KivyCamera \<Rightarrow> ((nat \<times> ndarray) option \<times> KivyCamera) option" where
  "kivy_read fresh timeout c =
     (if kc_closed c then Some (None, c)
      else if \<not> kc_arrived c \<and> timeout = None then None
      else (let (pending, c1) = read_take c in Some (read_finish fresh pending c1)))"

definition kivy_camera_close :: "KivyCamera \<Rightarrow> KivyCamera" where
  "kivy_camera_close c =
     (if kc_closed c then c else camera_close_signal (camera_close_clear (camera_close_flag c)))"

section \<open>The camera and its threads\<close>

text \<open>
  \<open>cs_submitting\<close>: entries of callbacks between the check and the critical section. \<open>cs_reader\<close>: where
  the reading thread is. \<open>cs_closer\<close>: how far \<open>close\<close> has come. The histories: the entries stored,
  the entries taken with the number of entries stored then, the frames returned.
\<close>

datatype ReaderAt = Outside | Waiting | Checked | Taken "entry option"
datatype CloserAt = NotClosing | Flagged | Cleared | Closed

record CameraSys =
  cs_camera :: KivyCamera
  cs_fresh :: nat
  cs_submitting :: "entry list"
  cs_reader :: ReaderAt
  cs_closer :: CloserAt
  cs_stored :: "entry list"
  cs_taken :: "(nat \<times> entry) list"
  cs_returned :: "(nat \<times> ndarray) option list"

definition new_camera :: "string \<Rightarrow> bool \<Rightarrow> bool \<Rightarrow> bool \<Rightarrow> CameraSys" where
  "new_camera colorfmt fv fh copy =
     \<lparr>cs_camera = KivyCamera_init colorfmt fv fh copy, cs_fresh = 0, cs_submitting = [], cs_reader = Outside,
      cs_closer = NotClosing, cs_stored = [], cs_taken = [], cs_returned = []\<rparr>"

datatype CameraEvent =
    SubmitCheck "pixels option" "(int \<times> int) option" "string option"
  | SubmitStore nat
  | ReadCall
  | ReadWake
  | ReadTimeout
  | ReadTake
  | ReadFinish
  | CloseStep

definition reader_returns :: "(nat \<times> ndarray) option \<Rightarrow> CameraSys \<Rightarrow> CameraSys" where
  "reader_returns r s = s\<lparr>cs_reader := Outside, cs_returned := cs_returned s @ [r]\<rparr>"

text \<open>The end of the wait, by the event or by the timeout, and the second check.\<close>

definition reader_checks :: "CameraSys \<Rightarrow> CameraSys" where
  "reader_checks s = (if kc_closed (cs_camera s) then reader_returns None s else s\<lparr>cs_reader := Checked\<rparr>)"

fun camera_step :: "CameraEvent \<Rightarrow> CameraSys \<Rightarrow> CameraSys" where
  "camera_step (SubmitCheck raw dims fmt) s =
     s\<lparr>cs_fresh := Suc (cs_fresh s),
       cs_submitting := cs_submitting s @
         (case submit_check (cs_camera s) (cs_fresh s) raw dims fmt of None \<Rightarrow> [] | Some e \<Rightarrow> [e])\<rparr>"
| "camera_step (SubmitStore i) s =
     (if i < length (cs_submitting s) then
        s\<lparr>cs_camera := submit_store (cs_submitting s ! i) (cs_camera s),
          cs_submitting := take i (cs_submitting s) @ drop (Suc i) (cs_submitting s),
          cs_stored := cs_stored s @ [cs_submitting s ! i]\<rparr>
      else s)"
| "camera_step ReadCall s =
     (if cs_reader s \<noteq> Outside then s
      else if kc_closed (cs_camera s) then reader_returns None s
      else s\<lparr>cs_reader := Waiting\<rparr>)"
| "camera_step ReadWake s =
     (if cs_reader s = Waiting \<and> kc_arrived (cs_camera s) then reader_checks s else s)"
| "camera_step ReadTimeout s =
     (if cs_reader s = Waiting \<and> \<not> kc_arrived (cs_camera s) then reader_checks s else s)"
| "camera_step ReadTake s =
     (if cs_reader s = Checked then
        (let (e, c) = read_take (cs_camera s)
         in s\<lparr>cs_camera := c, cs_reader := Taken e,
              cs_taken := cs_taken s @ (case e of None \<Rightarrow> [] | Some x \<Rightarrow> [(length (cs_stored s), x)])\<rparr>)
      else s)"
| "camera_step ReadFinish s =
     (case cs_reader s of
        Taken e \<Rightarrow>
          (let (r, c) = read_finish (cs_fresh s) e (cs_camera s)
           in reader_returns r (s\<lparr>cs_camera := c, cs_fresh := Suc (cs_fresh s)\<rparr>))
      | _ \<Rightarrow> s)"
| "camera_step CloseStep s =
     (case cs_closer s of
        NotClosing \<Rightarrow> s\<lparr>cs_camera := camera_close_flag (cs_camera s), cs_closer := Flagged\<rparr>
      | Flagged \<Rightarrow> s\<lparr>cs_camera := camera_close_clear (cs_camera s), cs_closer := Cleared\<rparr>
      | Cleared \<Rightarrow> s\<lparr>cs_camera := camera_close_signal (cs_camera s), cs_closer := Closed\<rparr>
      | Closed \<Rightarrow> s)"

definition camera_run :: "CameraEvent list \<Rightarrow> CameraSys \<Rightarrow> CameraSys" where
  "camera_run evs s = fold camera_step evs s"

end
