(* ===== verification/Kivy_Props.thy ===== *)
theory Kivy_Props
  imports Kivy_Devices
begin

text \<open>
  What the mobile devices promise whatever their threads do: the display always gets to the newest
  frame, the camera gives each capture at most once, newest first, and never waits beside one.
\<close>

section \<open>The invariant of the camera\<close>

lemma convert_state [simp]:
  "convert_entry (c\<lparr>kc_pending := p\<rparr>) n e = convert_entry c n e"
  "convert_entry (c\<lparr>kc_arrived := b\<rparr>) n e = convert_entry c n e"
  "convert_entry (c\<lparr>kc_last := l\<rparr>) n e = convert_entry c n e"
  "convert_entry (c\<lparr>kc_closed := b\<rparr>) n e = convert_entry c n e"
  by (simp_all add: convert_entry_def frame_identity_def cong: pixels.case_cong)

definition converted :: "KivyCamera \<Rightarrow> entry set \<Rightarrow> (nat \<times> ndarray) option \<Rightarrow> bool" where
  "converted c es r \<longleftrightarrow> (case r of None \<Rightarrow> True | Some f \<Rightarrow> \<exists>e \<in> es. \<exists>n. convert_entry c n e = Some f)"

lemma converted_None [simp]: "converted c es None"
  by (simp add: converted_def)

lemma converted_state [simp]:
  "converted (c\<lparr>kc_pending := p\<rparr>) es = converted c es" "converted (c\<lparr>kc_arrived := b\<rparr>) es = converted c es"
  "converted (c\<lparr>kc_last := l\<rparr>) es = converted c es" "converted (c\<lparr>kc_closed := b\<rparr>) es = converted c es"
  by (auto simp: converted_def fun_eq_iff split: option.split)

lemma converted_mono: "converted c es r \<Longrightarrow> es \<subseteq> es' \<Longrightarrow> converted c es' r"
  by (auto simp: converted_def split: option.splits)

lemma read_finish_converted:
  assumes "read_finish n p c = (r, c')" and "converted c es (kc_last c)" and "p = None \<or> the p \<in> es"
  shows "converted c es r" and "converted c es (kc_last c')" and "\<exists>l. c' = c\<lparr>kc_last := l\<rparr>"
proof -
  have "converted c es (Option.bind p (convert_entry c n))"
    using assms(3) by (auto simp: converted_def bind_eq_Some_conv split: option.split)
  then show "converted c es r" "converted c es (kc_last c')"
    using assms(1,2) by (auto simp: read_finish_def split: option.splits)
  show "\<exists>l. c' = c\<lparr>kc_last := l\<rparr>"
    using assms(1) by (auto simp: read_finish_def intro: exI [of _ "kc_last c"] split: option.splits)
qed

definition slot_ok :: "CameraSys \<Rightarrow> bool" where
  "slot_ok s \<longleftrightarrow>
     kc_closed (cs_camera s) = (cs_closer s \<noteq> NotClosing) \<and>
     (kc_closed (cs_camera s) \<or> kc_arrived (cs_camera s) = (kc_pending (cs_camera s) \<noteq> None)) \<and>
     (case kc_pending (cs_camera s) of
        None \<Rightarrow> list_all (\<lambda>n. n \<le> length (cs_stored s)) (map fst (cs_taken s))
      | Some e \<Rightarrow> cs_stored s \<noteq> [] \<and> e = last (cs_stored s) \<and>
          list_all (\<lambda>n. n < length (cs_stored s)) (map fst (cs_taken s)))"

text \<open>\<open>e\<close> was the \<open>n\<close>-th entry stored.\<close>

definition stored_at :: "nat \<Rightarrow> 'a \<Rightarrow> 'a list \<Rightarrow> bool" where
  "stored_at n e xs \<longleftrightarrow> 0 < n \<and> n \<le> length xs \<and> xs ! (n - 1) = e"

definition taken_ok :: "CameraSys \<Rightarrow> bool" where
  "taken_ok s \<longleftrightarrow>
     sorted_wrt (<) (map fst (cs_taken s)) \<and>
     list_all (\<lambda>(n, e). stored_at n e (cs_stored s)) (cs_taken s)"

definition frames_ok :: "CameraSys \<Rightarrow> bool" where
  "frames_ok s \<longleftrightarrow>
     list_all (converted (cs_camera s) (snd ` set (cs_taken s))) (kc_last (cs_camera s) # cs_returned s) \<and>
     (case cs_reader s of Taken (Some e) \<Rightarrow> e \<in> snd ` set (cs_taken s) | _ \<Rightarrow> True)"

lemmas camera_invs = slot_ok_def taken_ok_def frames_ok_def

lemma slot_ok_step: "slot_ok s \<Longrightarrow> slot_ok (camera_step e s)"
  by (cases e)
    (auto simp: slot_ok_def submit_store_def read_take_def read_finish_def reader_checks_def reader_returns_def
      camera_close_flag_def camera_close_clear_def camera_close_signal_def list_all_iff less_Suc_eq_le
      simp del: split_paired_Ex split_paired_All not_None_eq
      split: option.splits ReaderAt.splits CloserAt.splits)

lemma stored_at_append: "stored_at n e xs \<Longrightarrow> stored_at n e (xs @ ys)"
  by (auto simp: stored_at_def nth_append)

lemma stored_at_last: "xs \<noteq> [] \<Longrightarrow> stored_at (length xs) (last xs) xs"
  by (simp add: stored_at_def last_conv_nth)

lemma taken_ok_step:
  assumes "taken_ok s" and "slot_ok s"
  shows "taken_ok (camera_step e s)"
proof (cases e)
  case (SubmitStore i)
  with assms(1) show ?thesis
    by (auto simp: taken_ok_def intro: stored_at_append elim!: list.pred_mono_strong)
next
  case ReadTake
  with assms stored_at_last [of "cs_stored s"] show ?thesis
    by (auto simp: taken_ok_def slot_ok_def read_take_def list_all_iff sorted_wrt_append
        simp del: split_paired_Ex split_paired_All split: option.splits)
qed (use assms(1) in \<open>auto simp: taken_ok_def reader_checks_def reader_returns_def split_beta
    split: ReaderAt.splits CloserAt.splits\<close>)

lemma frames_ok_step:
  assumes "frames_ok s"
  shows "frames_ok (camera_step e s)"
proof (cases e)
  case (SubmitStore i)
  with assms show ?thesis by (auto simp: frames_ok_def submit_store_def split: ReaderAt.splits option.splits)
next
  case ReadTake
  with assms show ?thesis
    by (auto simp: frames_ok_def read_take_def list_all_iff intro: converted_mono split: ReaderAt.splits option.splits)
next
  case ReadFinish
  show ?thesis
  proof (cases "cs_reader s")
    case (Taken p)
    obtain r c where f: "read_finish (cs_fresh s) p (cs_camera s) = (r, c)" by fastforce
    with assms Taken read_finish_converted [OF f, of "snd ` set (cs_taken s)"] ReadFinish show ?thesis
      by (auto simp: frames_ok_def reader_returns_def split: option.splits)
  qed (use assms ReadFinish in simp_all)
qed (use assms in \<open>auto simp: frames_ok_def reader_checks_def reader_returns_def camera_close_flag_def
    camera_close_clear_def camera_close_signal_def split: ReaderAt.splits CloserAt.splits option.splits\<close>)

lemma camera_inv_run:
  "slot_ok s \<Longrightarrow> taken_ok s \<Longrightarrow> frames_ok s \<Longrightarrow>
   slot_ok (camera_run evs s) \<and> taken_ok (camera_run evs s) \<and> frames_ok (camera_run evs s)"
  using slot_ok_step taken_ok_step frames_ok_step by (induction evs arbitrary: s) (auto simp: camera_run_def)

lemma camera_inv_new: "slot_ok (new_camera fmt fv fh copy)" "taken_ok (new_camera fmt fv fh copy)"
  "frames_ok (new_camera fmt fv fh copy)"
  by (simp_all add: camera_invs new_camera_def KivyCamera_init_def)

section \<open>Properties\<close>

text \<open>
  C35. The display in any interleaving of shows, scheduler calls, renders and a close, when every texture
  upload succeeds and the scheduler raises nothing. At most one render callback is outstanding, and exactly one while a frame waits, so no
  frame is stranded; and when nothing is outstanding on an open display, the widget has the texture
  of the newest frame that was stored.
\<close>

theorem display_gets_to_newest:
  assumes "\<And>d p. \<exists>t. upload tx d p = Inr t" and "SchedulerRaises \<notin> set evs"
    and "s = display_run tx evs (new_display fmt fv)"
  shows "ds_calls s + ds_queue s = (if kd_scheduled (ds_display s) then 1 else 0) \<and>
    (kd_pending (ds_display s) = None \<or> kd_scheduled (ds_display s)) \<and>
    (if ds_queue s = 0 \<and> ds_calls s = 0 \<and> ds_painting s = None \<and> ds_stored s \<noteq> [] \<and> kd_closed (ds_display s) = False
     then map_option Inr (ds_texture s) = Some (upload tx (ds_display s) (last (ds_stored s))) else True)"
proof -
  have "display_inv tx s" unfolding assms(3) by (rule display_inv_run [OF assms(1,2) display_inv_new])
  then show ?thesis
    by (auto simp: display_inv_def newest_tracked_def simp del: split_paired_All split_paired_Ex not_None_eq
        split: if_splits option.splits)
qed

text \<open>
  C36. The camera in any interleaving of its callbacks, a reader and a close. Before the close the event
  is set exactly while a capture waits, so a reader neither sleeps beside one nor wakes for none.
  What is taken is the newest capture stored at that moment, no capture is taken twice or after a
  newer one, and every frame a \<open>read\<close> returns is the conversion of a taken capture.
\<close>

theorem camera_takes_newest:
  "let s = camera_run evs (new_camera fmt fv fh copy) in
    (kc_closed (cs_camera s) \<or> kc_arrived (cs_camera s) = (kc_pending (cs_camera s) \<noteq> None)) \<and>
    list_all (\<lambda>(n, e). stored_at n e (cs_stored s)) (cs_taken s) \<and>
    sorted_wrt (<) (map fst (cs_taken s)) \<and>
    list_all (converted (cs_camera s) (snd ` set (cs_taken s))) (cs_returned s)"
proof -
  from camera_inv_run [OF camera_inv_new, of evs fmt fv fh copy] show ?thesis
    unfolding camera_invs Let_def by auto
qed

text \<open>A texture is the bytes it was filled with; every call succeeds.\<close>

definition plain_textures :: "bytes texture_ops" where
  "plain_textures = \<lparr>tx_create = (\<lambda>_ _. Inr []), tx_blit_buffer = (\<lambda>b _ _. Inr b), tx_flip_vertical = (\<lambda>t. t)\<rparr>"

lemma plain_upload: "upload plain_textures d p = Inr (fst p)"
  by (simp add: upload_def plain_textures_def)

definition two_shows :: "DisplayEvent list" where
  "two_shows = [ShowCheck (Some (image_array [[1, 2]])), ShowStore 0, ShowCheck (Some (image_array [[3, 4]])),
     CallScheduler, ShowStore 0, RenderTake, RenderPaint]"

theorem display_gets_to_newest_witness:
  "ds_texture (display_run plain_textures two_shows (new_display ''luminance'' True)) = Some [3, 4]"
proof -
  let ?s = "display_run plain_textures two_shows (new_display ''luminance'' True)"
  have "ds_queue ?s = 0 \<and> ds_calls ?s = 0 \<and> ds_painting ?s = None \<and> ds_stored ?s = [([1, 2], 2, 1), ([3, 4], 2, 1)] \<and>
      kd_closed (ds_display ?s) = False" by code_simp
  with display_gets_to_newest [of plain_textures two_shows ?s "''luminance''" True] plain_upload show ?thesis
    by (auto simp: two_shows_def)
qed

text \<open>
  When the scheduler raises, the flag that says a callback is scheduled stays up: no later show
  schedules one, and whatever happens from then on the widget keeps its texture.
\<close>

theorem failed_schedule_freezes_display:
  assumes "ds_calls s = 1" and "ds_queue s = 0" and "ds_painting s = None" and "kd_scheduled (ds_display s)"
  shows "ds_texture (display_run tx (SchedulerRaises # evs) s) = ds_texture s"
proof -
  have "display_stuck (display_step tx SchedulerRaises s)" using assms by (simp add: display_stuck_def)
  from display_stuck_run [OF this, of tx evs] show ?thesis using assms(1) by (simp add: display_run_def)
qed

theorem failed_schedule_freezes_display_witness:
  "let s = display_run plain_textures [ShowCheck (Some (image_array [[1, 2]])), ShowStore 0] (new_display ''luminance'' True)
   in ds_texture (display_run plain_textures [SchedulerRaises, ShowCheck (Some (image_array [[3, 4]])), ShowStore 0,
     CallScheduler, RenderTake, RenderPaint] s) = None"
proof -
  let ?s = "display_run plain_textures [ShowCheck (Some (image_array [[1, 2]])), ShowStore 0] (new_display ''luminance'' True)"
  have "ds_calls ?s = 1 \<and> ds_queue ?s = 0 \<and> ds_painting ?s = None \<and> kd_scheduled (ds_display ?s) \<and> ds_texture ?s = None"
    by code_simp
  with failed_schedule_freezes_display [of ?s plain_textures "[ShowCheck (Some (image_array [[3, 4]])), ShowStore 0,
     CallScheduler, RenderTake, RenderPaint]"] show ?thesis by (simp add: Let_def)
qed

text \<open>
  Two races of \<open>close\<close>. A callback past its check stores a capture that the camera keeps after its
  close; a reader past its check returns a frame after the close, and the camera keeps it.
\<close>

lemma capture_kept_after_close:
  "let s = camera_run [SubmitCheck (Some (Buffer [7])) (Some (1, 1)) (Some ''gray''), CloseStep, CloseStep, CloseStep,
     SubmitStore 0] (new_camera ''rgba'' False False True)
   in cs_closer s = Closed \<and> kc_pending (cs_camera s) = Some (Buffer [7], Some (1, 1), ''gray'')"
  by code_simp

lemma frame_returned_after_close:
  "let s = camera_run [SubmitCheck (Some (Buffer [7])) (Some (1, 1)) (Some ''gray''), SubmitStore 0, ReadCall, ReadWake,
     ReadTake, CloseStep, CloseStep, CloseStep, ReadFinish] (new_camera ''rgba'' False False True)
   in cs_closer s = Closed \<and> kc_last (cs_camera s) \<noteq> None \<and>
     map (map_option (nd_data \<circ> snd)) (cs_returned s) = [Some [7]]"
  by code_simp

end
