(* ===== verification/Cancellable.thy ===== *)
theory Cancellable
  imports Peer
begin

text \<open>
  \<open>_CancellableChannel\<close> of \<open>photontcp/mobile/app.py\<close>: the channel of a drive with a Stop switch that
  another thread may press at any time. The moment is a number of channel calls, \<open>sc_patience\<close>: so
  many more checks pass before \<open>cancel\<close> is seen, \<open>None\<close> is never. \<open>sc_refused\<close> records that a call
  was refused.
\<close>

record 'w Stoppable =
  sc_inner :: 'w
  sc_patience :: "nat option"
  sc_refused :: bool

definition stoppable :: "nat option \<Rightarrow> 'w \<Rightarrow> 'w Stoppable" where
  "stoppable patience w = \<lparr>sc_inner = w, sc_patience = patience, sc_refused = False\<rparr>"

text \<open>\<open>_check\<close>.\<close>

definition stop_check :: "'w Stoppable \<Rightarrow> unit result \<times> 'w Stoppable" where
  "stop_check v =
     (case sc_patience v of
        None \<Rightarrow> (Inr (), v)
      | Some 0 \<Rightarrow> (Inl SessionCancelled, v\<lparr>sc_refused := True\<rparr>)
      | Some (Suc n) \<Rightarrow> (Inr (), v\<lparr>sc_patience := Some n\<rparr>))"

text \<open>A call that does not look at the switch.\<close>

definition pass_through :: "('w \<Rightarrow> 'a \<times> 'w) \<Rightarrow> 'w Stoppable \<Rightarrow> 'a \<times> 'w Stoppable" where
  "pass_through f v = (let (r, w) = f (sc_inner v) in (r, v\<lparr>sc_inner := w\<rparr>))"

definition checked :: "('w \<Rightarrow> 'a result \<times> 'w) \<Rightarrow> 'w Stoppable \<Rightarrow> 'a result \<times> 'w Stoppable" where
  "checked f v =
     (case stop_check v of (Inl e, v1) \<Rightarrow> (Inl e, v1) | (Inr _, v1) \<Rightarrow> pass_through f v1)"

definition cancellable_world :: "'w world_ops \<Rightarrow> 'w Stoppable world_ops" where
  "cancellable_world ops =
     \<lparr>w_send = (\<lambda>frame. checked (w_send ops frame)), w_recv = (\<lambda>t. checked (w_recv ops t)),
      w_now = pass_through (w_now ops)\<rparr>"

definition cancellable :: "'w peer_ops \<Rightarrow> 'w Stoppable peer_ops" where
  "cancellable po =
     \<lparr>po_world = cancellable_world (po_world po), po_perf_counter = pass_through (po_perf_counter po),
      po_sleep = (\<lambda>t v. v\<lparr>sc_inner := po_sleep po t (sc_inner v)\<rparr>),
      po_advance = (\<lambda>t v. v\<lparr>sc_inner := po_advance po t (sc_inner v)\<rparr>),
      po_close_channel = (\<lambda>v. v\<lparr>sc_inner := po_close_channel po (sc_inner v)\<rparr>)\<rparr>"

section \<open>What a stopped session does\<close>

text \<open>
  \<open>tracks\<close>: a call over the cancellable channel either was refused, and then raises
  \<open>SessionCancelled\<close>, or does what the call over the bare channel does. The state of the caller
  holds the channel (\<open>st\<close>) and has a counterpart over the bare one (\<open>pr\<close>).
\<close>

definition tracks ::
  "('x \<Rightarrow> 'w Stoppable) \<Rightarrow> ('x \<Rightarrow> 'y) \<Rightarrow> ('x \<Rightarrow> ('a result \<times> 'x) option) \<Rightarrow> ('y \<Rightarrow> ('a result \<times> 'y) option) \<Rightarrow> bool" where
  "tracks st pr m n \<longleftrightarrow>
     (\<forall>x r x'. \<not> sc_refused (st x) \<longrightarrow> m x = Some (r, x') \<longrightarrow>
        (if sc_refused (st x') then r = Inl SessionCancelled else n (pr x) = Some (r, pr x')))"

lemma tracksD:
  "tracks st pr m n \<Longrightarrow> \<not> sc_refused (st x) \<Longrightarrow> m x = Some (r, x') \<Longrightarrow>
   if sc_refused (st x') then r = Inl SessionCancelled else n (pr x) = Some (r, pr x')"
  by (auto simp: tracks_def)

lemma tracksI:
  "(\<And>x r x'. \<not> sc_refused (st x) \<Longrightarrow> m x = Some (r, x') \<Longrightarrow>
     sc_refused (st x') \<and> r = Inl SessionCancelled \<or> \<not> sc_refused (st x') \<and> n (pr x) = Some (r, pr x')) \<Longrightarrow>
   tracks st pr m n"
  by (fastforce simp: tracks_def)

lemma tracksE:
  assumes "tracks st pr m n" and "\<not> sc_refused (st x)" and "m x = Some (r, x')"
  obtains (stopped) "sc_refused (st x')" and "r = Inl SessionCancelled"
    | (same) "\<not> sc_refused (st x')" and "n (pr x) = Some (r, pr x')"
  using tracksD [OF assms] by (auto split: if_splits)

abbreviation world_tracks :: "('w Stoppable \<Rightarrow> 'a result \<times> 'w Stoppable) \<Rightarrow> ('w \<Rightarrow> 'a result \<times> 'w) \<Rightarrow> bool" where
  "world_tracks m n \<equiv> tracks id sc_inner (\<lambda>v. Some (m v)) (\<lambda>w. Some (n w))"

abbreviation session_tracks ::
  "(Session \<times> 'w Stoppable \<Rightarrow> 'a result \<times> Session \<times> 'w Stoppable)
    \<Rightarrow> (Session \<times> 'w \<Rightarrow> 'a result \<times> Session \<times> 'w) \<Rightarrow> bool" where
  "session_tracks m n \<equiv> tracks snd (apsnd sc_inner) (\<lambda>x. Some (m x)) (\<lambda>x. Some (n x))"

lemma world_cases [consumes 3]:
  assumes "world_tracks m n" and "\<not> sc_refused v" and "m v = (r, v')"
  obtains (stopped) "sc_refused v'" and "r = Inl SessionCancelled"
    | (same) "\<not> sc_refused v'" and "n (sc_inner v) = (r, sc_inner v')"
  using tracksE [OF assms(1), of v r v'] assms(2,3) by auto

lemma session_cases [consumes 3]:
  assumes "session_tracks m n" and "\<not> sc_refused v" and "m (s, v) = (r, s', v')"
  obtains (stopped) "sc_refused v'" and "r = Inl SessionCancelled"
    | (same) "\<not> sc_refused v'" and "n (s, sc_inner v) = (r, s', sc_inner v')"
  using tracksE [OF assms(1), of "(s, v)" r "(s', v')"] assms(2,3) by auto

lemma session_tracksI:
  "(\<And>s v r s' v'. \<not> sc_refused v \<Longrightarrow> m (s, v) = (r, s', v') \<Longrightarrow>
     sc_refused v' \<and> r = Inl SessionCancelled \<or> \<not> sc_refused v' \<and> n (s, sc_inner v) = (r, s', sc_inner v')) \<Longrightarrow>
   session_tracks m n"
  by (rule tracksI) fastforce

lemma pass_through_simps [simp]:
  "sc_refused (snd (pass_through f v)) = sc_refused v" "fst (pass_through f v) = fst (f (sc_inner v))"
  "sc_inner (snd (pass_through f v)) = snd (f (sc_inner v))"
  by (simp_all add: pass_through_def split_beta)

lemma checked_tracks: "world_tracks (checked f) f"
  by (auto simp: tracks_def checked_def stop_check_def pass_through_def split_beta split: option.splits nat.splits)

lemma send_tracks: "world_tracks (w_send (cancellable_world ops) frame) (w_send ops frame)"
  by (simp add: cancellable_world_def checked_tracks)

lemma recv_tracks: "world_tracks (w_recv (cancellable_world ops) t) (w_recv ops t)"
  by (simp add: cancellable_world_def checked_tracks)

text \<open>Reading the clock: the switch is not touched.\<close>

lemma now_tracks:
  "w_now (cancellable_world ops) v = (t, v') \<Longrightarrow>
   sc_refused v' = sc_refused v \<and> w_now ops (sc_inner v) = (t, sc_inner v')"
  by (auto simp: cancellable_world_def pass_through_def split_beta)

lemma send_packets_tracks: "world_tracks (send_packets (cancellable_world ops) pkts) (send_packets ops pkts)"
proof (induction pkts)
  case (Cons p ps)
  show ?case
  proof (rule tracksI)
    fix v r v'
    assume v: "\<not> sc_refused (id v)" and c: "Some (send_packets (cancellable_world ops) (p # ps) v) = Some (r, v')"
    show "sc_refused (id v') \<and> r = Inl SessionCancelled \<or>
      \<not> sc_refused (id v') \<and> Some (send_packets ops (p # ps) (sc_inner v)) = Some (r, sc_inner v')"
    proof (cases "pack p")
      case (Inr raw)
      obtain q v1 where q: "w_send (cancellable_world ops) raw v = (q, v1)" by fastforce
      from v have "\<not> sc_refused v" by simp
      from send_tracks this q show ?thesis
      proof (cases rule: world_cases)
        case same
        note v1 = this
        show ?thesis
        proof (cases q)
          case (Inr u)
          with c q \<open>pack p = Inr raw\<close> have "send_packets (cancellable_world ops) ps v1 = (r, v')" by simp
          from Cons v1(1) this show ?thesis
            by (cases rule: world_cases) (use \<open>pack p = Inr raw\<close> v1 Inr in auto)
        qed (use c q v1 \<open>pack p = Inr raw\<close> in auto)
      qed (use c Inr q in auto)
    qed (use v c in auto)
  qed
qed (auto simp: tracks_def)

lemma emit_tracks: "world_tracks (emit (cancellable_world ops) out) (emit ops out)"
proof (rule tracksI)
  fix v r v'
  assume v: "\<not> sc_refused (id v)" and c: "Some (emit (cancellable_world ops) out v) = Some (r, v')"
  obtain q v1 where q: "send_packets (cancellable_world ops) (out_packets out) v = (q, v1)" by fastforce
  from v have "\<not> sc_refused v" by simp
  from send_packets_tracks this q show "sc_refused (id v') \<and> r = Inl SessionCancelled \<or>
      \<not> sc_refused (id v') \<and> Some (emit ops out (sc_inner v)) = Some (r, sc_inner v')"
    by (cases rule: world_cases) (use c q in \<open>auto simp: emit_def split: sum.splits\<close>)
qed

lemma emit_mux_tracks:
  "session_tracks (\<lambda>(s, v). emit_mux (cancellable_world ops) out s v) (\<lambda>(s, w). emit_mux ops out s w)"
proof (rule session_tracksI, simp only: prod.case)
  fix s v r s' v'
  assume v: "\<not> sc_refused v" and c: "emit_mux (cancellable_world ops) out s v = (r, s', v')"
  obtain q v1 where q: "send_packets (cancellable_world ops) (mo_packets out) v = (q, v1)" by fastforce
  from send_packets_tracks v this show "sc_refused v' \<and> r = Inl SessionCancelled \<or>
      \<not> sc_refused v' \<and> emit_mux ops out s (sc_inner v) = (r, s', sc_inner v')"
    by (cases rule: world_cases) (use c q in \<open>auto simp: emit_mux_def split: sum.splits\<close>)
qed

text \<open>A lifecycle call: read the clock, step the machine, emit its packets.\<close>

lemma lifecycle_tracks:
  "session_tracks
     (\<lambda>(s, v). let (now, v1) = w_now (cancellable_world ops) v; (out, sm) = f (se_machine s) now;
        (r, v2) = emit (cancellable_world ops) out v1 in (r, s\<lparr>se_machine := sm\<rparr>, v2))
     (\<lambda>(s, w). let (now, w1) = w_now ops w; (out, sm) = f (se_machine s) now;
        (r, w2) = emit ops out w1 in (r, s\<lparr>se_machine := sm\<rparr>, w2))"
proof (rule session_tracksI, simp only: prod.case)
  fix s v r s' v'
  obtain now v1 where n: "w_now (cancellable_world ops) v = (now, v1)" by fastforce
  obtain out sm where o: "f (se_machine s) now = (out, sm)" by fastforce
  obtain q v2 where e: "emit (cancellable_world ops) out v1 = (q, v2)" by fastforce
  assume v: "\<not> sc_refused v" and c: "(let (now, v1) = w_now (cancellable_world ops) v; (out, sm) = f (se_machine s) now;
        (r, v2) = emit (cancellable_world ops) out v1 in (r, s\<lparr>se_machine := sm\<rparr>, v2)) = (r, s', v')"
  from now_tracks [OF n] v have v1: "\<not> sc_refused v1" by simp
  from emit_tracks v1 e show "sc_refused v' \<and> r = Inl SessionCancelled \<or> \<not> sc_refused v' \<and>
      (let (now, w1) = w_now ops (sc_inner v); (out, sm) = f (se_machine s) now;
        (r, w2) = emit ops out w1 in (r, s\<lparr>se_machine := sm\<rparr>, w2)) = (r, s', sc_inner v')"
    by (cases rule: world_cases) (use c n o e now_tracks [OF n] in auto)
qed

lemma connect_tracks:
  "session_tracks (\<lambda>(s, v). session_connect (cancellable_world ops) s v) (\<lambda>(s, w). session_connect ops s w)"
  using lifecycle_tracks [of ops sm_connect] by (simp add: session_connect_def)

lemma close_tracks:
  "session_tracks (\<lambda>(s, v). session_close (cancellable_world ops) s v) (\<lambda>(s, w). session_close ops s w)"
  using lifecycle_tracks [of ops sm_close] by (simp add: session_close_def)

lemma machine_packet_tracks:
  assumes "\<not> sc_refused v" and "machine_packet (cancellable_world ops) s pkt now v = (r, s', v')"
  shows "sc_refused v' \<and> r = Inl SessionCancelled \<or> \<not> sc_refused v' \<and> machine_packet ops s pkt now (sc_inner v) = (r, s', sc_inner v')"
proof -
  obtain out sm where o: "sm_on_packet (se_machine s) pkt now = (out, sm)" by fastforce
  obtain q v2 where e: "emit (cancellable_world ops) out v = (q, v2)" by fastforce
  from emit_tracks assms(1) e show ?thesis
    by (cases rule: world_cases) (use assms(2) o e in \<open>auto simp: machine_packet_def\<close>)
qed

lemma send_on_tracks:
  "session_tracks (\<lambda>(s, v). send_on (cancellable_world ops) sid data s v) (\<lambda>(s, w). send_on ops sid data s w)"
proof (rule session_tracksI, simp only: prod.case)
  fix s v r s' v'
  assume v: "\<not> sc_refused v" and c: "send_on (cancellable_world ops) sid data s v = (r, s', v')"
  obtain now v1 where n: "w_now (cancellable_world ops) v = (now, v1)" by fastforce
  obtain q m where m: "mux_send (se_mux (sync_session_id s)) sid data now = (q, m)" by fastforce
  let ?s = "(sync_session_id s)\<lparr>se_mux := m\<rparr>"
  from now_tracks [OF n] v have v1: "\<not> sc_refused v1" "w_now ops (sc_inner v) = (now, sc_inner v1)" by simp_all
  show "sc_refused v' \<and> r = Inl SessionCancelled \<or> \<not> sc_refused v' \<and> send_on ops sid data s (sc_inner v) = (r, s', sc_inner v')"
  proof (cases "session_is_established s \<and> (\<exists>out. q = Inr out)")
    case True
    then obtain out where out: "q = Inr out" by blast
    with True c n m have "(\<lambda>(s, v). emit_mux (cancellable_world ops) out s v) (?s, v1) = (r, s', v')"
      by (simp add: send_on_def Let_def)
    from emit_mux_tracks v1(1) this show ?thesis
      by (cases rule: session_cases) (use True out m v1(2) in \<open>auto simp: send_on_def Let_def\<close>)
  qed (use v v1 c n m in \<open>auto simp: send_on_def Let_def split: sum.splits if_splits\<close>)
qed

lemma route_packet_tracks:
  assumes v: "\<not> sc_refused v" and c: "route_packet (cancellable_world ops) s pkt v = (r, s', v')"
  shows "sc_refused v' \<and> r = Inl SessionCancelled \<or> \<not> sc_refused v' \<and> route_packet ops s pkt (sc_inner v) = (r, s', sc_inner v')"
proof -
  obtain now v1 where n: "w_now (cancellable_world ops) v = (now, v1)" by fastforce
  from now_tracks [OF n] v have v1: "\<not> sc_refused v1" "w_now ops (sc_inner v) = (now, sc_inner v1)" by simp_all
  show ?thesis
  proof (cases "p_stream_id pkt = CONTROL_STREAM_ID")
    case True
    with c n v1 machine_packet_tracks [OF v1(1), of ops s pkt now r s' v'] show ?thesis
      by (auto simp: route_packet_def split: if_splits)
  next
    case data: False
    let ?s = "s\<lparr>se_machine := note_data_activity (se_machine s) now\<rparr>"
    obtain q m where m: "mux_on_packet (se_mux ?s) pkt now = (q, m)" by fastforce
    show ?thesis
    proof (cases q)
      case (Inl e)
      with data c n v1 m show ?thesis by (auto simp: route_packet_def)
    next
      case (Inr out)
      obtain q2 s2 v2 where e: "emit_mux (cancellable_world ops) out (?s\<lparr>se_mux := m\<rparr>) v1 = (q2, s2, v2)"
        by (metis prod_cases3)
      then have e': "(\<lambda>(s, v). emit_mux (cancellable_world ops) out s v) (?s\<lparr>se_mux := m\<rparr>, v1) = (q2, s2, v2)" by simp
      from emit_mux_tracks v1(1) e' show ?thesis
        by (cases rule: session_cases)
          (use data c n v1(2) m Inr e in \<open>auto simp: route_packet_def Let_def split: sum.splits\<close>)
    qed
  qed
qed

lemma run_timers_tracks:
  assumes v: "\<not> sc_refused v" and c: "run_timers (cancellable_world ops) s v = (r, s', v')"
  shows "sc_refused v' \<and> r = Inl SessionCancelled \<or> \<not> sc_refused v' \<and> run_timers ops s (sc_inner v) = (r, s', sc_inner v')"
proof -
  obtain now v1 where n: "w_now (cancellable_world ops) v = (now, v1)" by fastforce
  from now_tracks [OF n] v have v1: "\<not> sc_refused v1" "w_now ops (sc_inner v) = (now, sc_inner v1)" by simp_all
  obtain out sm where o: "sm_on_tick (se_machine s) now = (out, sm)" by fastforce
  obtain q v2 where e: "emit (cancellable_world ops) out v1 = (q, v2)" by fastforce
  from emit_tracks v1(1) e show ?thesis
  proof (cases rule: world_cases)
    case stopped
    with c n o e show ?thesis by (auto simp: run_timers_def)
  next
    case same
    note v2 = this
    show ?thesis
    proof (cases q)
      case (Inl x)
      with c n o e v1(2) v2 show ?thesis by (auto simp: run_timers_def)
    next
      case (Inr evs)
      obtain now2 v3 where n2: "w_now (cancellable_world ops) v2 = (now2, v3)" by fastforce
      from now_tracks [OF n2] v2(1) have v3: "\<not> sc_refused v3" "w_now ops (sc_inner v2) = (now2, sc_inner v3)" by simp_all
      let ?s = "s\<lparr>se_machine := sm\<rparr>"
      obtain mout m where m: "mux_on_tick (se_mux ?s) now2 = (mout, m)" by fastforce
      obtain q2 s2 v4 where e2: "emit_mux (cancellable_world ops) mout (?s\<lparr>se_mux := m\<rparr>) v3 = (q2, s2, v4)"
        by (metis prod_cases3)
      then have e2': "(\<lambda>(s, v). emit_mux (cancellable_world ops) mout s v) (?s\<lparr>se_mux := m\<rparr>, v3) = (q2, s2, v4)" by simp
      from emit_mux_tracks v3(1) e2' show ?thesis
        by (cases rule: session_cases)
          (use c n v1(2) o e v2(2) Inr n2 v3(2) m e2 in \<open>auto simp: run_timers_def Let_def split: sum.splits\<close>)
    qed
  qed
qed

lemma recv_cases:
  assumes "\<not> sc_refused v" and "w_recv (cancellable_world ops) t v = (q, v1)"
  shows "sc_refused v1 \<and> q = Inl SessionCancelled \<or> \<not> sc_refused v1 \<and> w_recv ops t (sc_inner v) = (q, sc_inner v1)"
  using world_cases [OF recv_tracks assms] by metis

definition drained :: "'w world_ops \<Rightarrow> int option \<Rightarrow> int \<Rightarrow> Session \<Rightarrow> 'w Stoppable
    \<Rightarrow> SessionEvent list result \<times> Session \<times> 'w Stoppable \<Rightarrow> bool" where
  "drained ops mf k s v y \<longleftrightarrow>
     sc_refused v \<or>
     (case y of (r, s', v') \<Rightarrow> sc_refused v' \<and> r = Inl SessionCancelled \<or>
        \<not> sc_refused v' \<and> drain_frames ops mf k s (sc_inner v) = Some (r, s', sc_inner v'))"

lemma cancelled_not_packet_error [simp]: "\<not> is_packet_error SessionCancelled"
  by (simp add: is_packet_error_def)

lemma drain_frames_drained:
  "drain_frames (cancellable_world ops) mf k s v = Some y \<Longrightarrow> drained ops mf k s v y"
proof (induction rule: drain_frames_steps)
  case (limit k s v)
  then show ?case by (simp add: drained_def drain_frames.simps [of ops] limit_reached_def)
next
  case (raised k s v e v1)
  with recv_cases [of v ops DRAIN_TIMEOUT "Inl e" v1] show ?case
    by (auto simp: drained_def drain_frames.simps [of ops] limit_reached_def)
next
  case (empty k s v v1)
  with recv_cases [of v ops DRAIN_TIMEOUT "Inr None" v1] show ?case
    by (auto simp: drained_def drain_frames.simps [of ops] limit_reached_def)
next
  case (damaged k s v f v1 e y)
  with recv_cases [of v ops DRAIN_TIMEOUT "Inr (Some f)" v1] show ?case
    by (auto simp: drained_def drain_frames.simps [of ops _ k] limit_reached_def)
next
  case (bad k s v f v1 e)
  with recv_cases [of v ops DRAIN_TIMEOUT "Inr (Some f)" v1] show ?case
    by (auto simp: drained_def drain_frames.simps [of ops _ k] limit_reached_def)
next
  case (refused k s v f v1 pkt e s1 v2)
  with recv_cases [of v ops DRAIN_TIMEOUT "Inr (Some f)" v1] route_packet_tracks [of v1 ops s pkt "Inl e" s1 v2]
  show ?case by (auto simp: drained_def drain_frames.simps [of ops _ k] limit_reached_def)
next
  case (routed k s v f v1 pkt evs s1 v2 r s2 v3)
  with recv_cases [of v ops DRAIN_TIMEOUT "Inr (Some f)" v1] route_packet_tracks [of v1 ops s pkt "Inr evs" s1 v2]
  show ?case by (auto simp: drained_def drain_frames.simps [of ops _ k] limit_reached_def)
qed

lemma session_tracks_optI:
  "(\<And>s v r s' v'. \<not> sc_refused v \<Longrightarrow> m (s, v) = Some (r, s', v') \<Longrightarrow>
     sc_refused v' \<and> r = Inl SessionCancelled \<or> \<not> sc_refused v' \<and> n (s, sc_inner v) = Some (r, s', sc_inner v')) \<Longrightarrow>
   tracks snd (apsnd sc_inner) m n"
  by (rule tracksI) fastforce

lemma pump_tracks:
  "tracks snd (apsnd sc_inner) (\<lambda>(s, v). pump (cancellable_world ops) mf s v) (\<lambda>(s, w). pump ops mf s w)"
proof (rule session_tracks_optI, simp only: prod.case)
  fix s v r s' v'
  assume v: "\<not> sc_refused v" and c: "pump (cancellable_world ops) mf s v = Some (r, s', v')"
  obtain q s1 v1 where d: "drain_frames (cancellable_world ops) mf 0 (sync_session_id s) v = Some (q, s1, v1)"
    using c by (auto simp: pump_def bind_eq_Some_conv)
  with drain_frames_drained [OF d] v have d': "sc_refused v1 \<and> q = Inl SessionCancelled \<or>
      \<not> sc_refused v1 \<and> drain_frames ops mf 0 (sync_session_id s) (sc_inner v) = Some (q, s1, sc_inner v1)"
    by (simp add: drained_def)
  show "sc_refused v' \<and> r = Inl SessionCancelled \<or> \<not> sc_refused v' \<and> pump ops mf s (sc_inner v) = Some (r, s', sc_inner v')"
  proof (cases q)
    case (Inl e)
    with c d d' show ?thesis by (auto simp: pump_def)
  next
    case (Inr evs)
    obtain q2 s2 v2 where t: "run_timers (cancellable_world ops) s1 v1 = (q2, s2, v2)" by (metis prod_cases3)
    from d' Inr have "\<not> sc_refused v1" by simp
    from run_timers_tracks [OF this t] c d d' Inr t show ?thesis by (auto simp: pump_def)
  qed
qed

section \<open>A stopped drive\<close>

text \<open>The drive over the bare channel that a drive over the cancellable one stands for.\<close>

definition bare_drive :: "'w Stoppable Drive \<Rightarrow> 'w Drive" where
  "bare_drive d = \<lparr>dr_session = apsnd sc_inner (dr_session d), dr_chat = dr_chat d, dr_result = dr_result d, dr_events = dr_events d\<rparr>"

abbreviation drive_tracks :: "('a, 'w Stoppable) drive \<Rightarrow> ('a, 'w) drive \<Rightarrow> bool" where
  "drive_tracks m n \<equiv> tracks (\<lambda>d. snd (dr_session d)) bare_drive m n"

lemma bare_simps [simp]:
  "dr_session (bare_drive d) = apsnd sc_inner (dr_session d)" "dr_chat (bare_drive d) = dr_chat d"
  "dr_result (bare_drive d) = dr_result d" "dr_events (bare_drive d) = dr_events d"
  "bare_drive (d\<lparr>dr_session := x\<rparr>) = (bare_drive d)\<lparr>dr_session := apsnd sc_inner x\<rparr>"
  "bare_drive (d\<lparr>dr_chat := c\<rparr>) = (bare_drive d)\<lparr>dr_chat := c\<rparr>"
  "bare_drive (d\<lparr>dr_result := r\<rparr>) = (bare_drive d)\<lparr>dr_result := r\<rparr>"
  "bare_drive (d\<lparr>dr_events := es\<rparr>) = (bare_drive d)\<lparr>dr_events := es\<rparr>"
  by (simp_all add: bare_drive_def)

lemma drive_bind_tracks:
  assumes "drive_tracks m n" and "\<And>x. drive_tracks (f x) (g x)"
  shows "drive_tracks (drive_bind m f) (drive_bind n g)"
proof (rule tracksI)
  fix d r d'
  assume v: "\<not> sc_refused (snd (dr_session d))" and c: "drive_bind m f d = Some (r, d')"
  then obtain q d1 where q: "m d = Some (q, d1)" by (auto simp: drive_bind_def bind_eq_Some_conv)
  from assms(1) v q show "sc_refused (snd (dr_session d')) \<and> r = Inl SessionCancelled \<or>
      \<not> sc_refused (snd (dr_session d')) \<and> drive_bind n g (bare_drive d) = Some (r, bare_drive d')"
  proof (cases rule: tracksE)
    case stopped
    with c q show ?thesis by (simp add: drive_bind_def)
  next
    case same
    show ?thesis
    proof (cases q)
      case (Inl e)
      with c q same show ?thesis by (simp add: drive_bind_def)
    next
      case (Inr x)
      with c q have "f x d1 = Some (r, d')" by (simp add: drive_bind_def)
      with assms(2) same(1) show ?thesis
        by (cases rule: tracksE) (use same(2) Inr in \<open>auto simp: drive_bind_def\<close>)
    qed
  qed
qed

lemma drive_do_tracks:
  assumes "\<And>d. dr_session (f d) = dr_session d" and "\<And>d. g (bare_drive d) = bare_drive (f d)"
  shows "drive_tracks (drive_do f) (drive_do g)"
  by (rule tracksI) (auto simp: drive_do_def assms)

lemma drive_return_tracks: "drive_tracks (drive_return x) (drive_return x)"
  by (rule tracksI) (auto simp: drive_return_def)

lemma drive_Inr_tracks: "drive_tracks (\<lambda>d. Some (Inr x, d)) (\<lambda>d. Some (Inr x, d))"
  by (rule tracksI) auto

lemma cancellable_simps [simp]:
  "po_world (cancellable po) = cancellable_world (po_world po)"
  "po_perf_counter (cancellable po) = pass_through (po_perf_counter po)"
  "po_sleep (cancellable po) t v = v\<lparr>sc_inner := po_sleep po t (sc_inner v)\<rparr>"
  "po_advance (cancellable po) t v = v\<lparr>sc_inner := po_advance po t (sc_inner v)\<rparr>"
  "po_close_channel (cancellable po) v = v\<lparr>sc_inner := po_close_channel po (sc_inner v)\<rparr>"
  by (simp_all add: cancellable_def)

lemma round_tracks:
  assumes "peer_round (cancellable po) deadline hold d = (b, d')"
  shows "sc_refused (snd (dr_session d')) = sc_refused (snd (dr_session d))"
    and "peer_round po deadline hold (bare_drive d) = (b, bare_drive d')"
  using assms by (auto simp: peer_round_def set_result_def pass_through_def split_beta Let_def split: if_splits)

lemma queries_bare [simp]:
  "chat_is_established (session_api W) (apsnd f x) = chat_is_established (session_api V) x"
  "chat_is_closed (session_api W) (apsnd f x) = chat_is_closed (session_api V) x"
  by (simp_all add: chat_is_established_def chat_is_closed_def session_api_def split_beta)

lemma peer_pump_tracks: "drive_tracks (peer_pump fp (cancellable po)) (peer_pump fp po)"
proof (rule tracksI)
  fix d r d'
  assume v: "\<not> sc_refused (snd (dr_session d))" and c: "peer_pump fp (cancellable po) d = Some (r, d')"
  let ?V = "cancellable_world (po_world po)"
  obtain q s1 v1 where p: "pump ?V None (fst (dr_session d)) (snd (dr_session d)) = Some (q, s1, v1)"
    using c by (auto simp: peer_pump_def chat_pump_def session_api_def bind_eq_Some_conv split_beta)
  then have p': "(\<lambda>(s, v). pump ?V None s v) (dr_session d) = Some (q, s1, v1)" by (simp add: split_beta)
  from pump_tracks v p' show "sc_refused (snd (dr_session d')) \<and> r = Inl SessionCancelled \<or>
      \<not> sc_refused (snd (dr_session d')) \<and> peer_pump fp po (bare_drive d) = Some (r, bare_drive d')"
  proof (cases rule: tracksE)
    case stopped
    with c p show ?thesis by (auto simp: peer_pump_def chat_pump_def session_api_def split_beta)
  next
    case same
    with c p show ?thesis
      by (cases q) (auto simp: peer_pump_def chat_pump_def session_api_def split_beta Let_def split: sum.splits)
  qed
qed

lemma peer_connect_tracks: "drive_tracks (peer_connect (cancellable po)) (peer_connect po)"
proof (rule tracksI)
  fix d r d'
  assume v: "\<not> sc_refused (snd (dr_session d))" and c: "peer_connect (cancellable po) d = Some (r, d')"
  obtain s v0 where d: "dr_session d = (s, v0)" by fastforce
  obtain q s1 v1 where p: "(\<lambda>(s, v). session_connect (cancellable_world (po_world po)) s v) (s, v0) = (q, s1, v1)"
    by (metis prod_cases3)
  with c d have r: "r = q" "d' = d\<lparr>dr_session := (s1, v1)\<rparr>"
    by (auto simp: peer_connect_def chat_connect_def session_api_def)
  from v d have "\<not> sc_refused v0" by simp
  from connect_tracks this p show "sc_refused (snd (dr_session d')) \<and> r = Inl SessionCancelled \<or>
      \<not> sc_refused (snd (dr_session d')) \<and> peer_connect po (bare_drive d) = Some (r, bare_drive d')"
    by (cases rule: session_cases)
      (use d r in \<open>auto simp: peer_connect_def chat_connect_def session_api_def Let_def\<close>)
qed

lemma peer_close_tracks: "drive_tracks (peer_close (cancellable po)) (peer_close po)"
proof (rule tracksI)
  fix d r d'
  assume v: "\<not> sc_refused (snd (dr_session d))" and c: "peer_close (cancellable po) d = Some (r, d')"
  obtain s v0 where d: "dr_session d = (s, v0)" by fastforce
  obtain q s1 v1 where p: "(\<lambda>(s, v). session_close (cancellable_world (po_world po)) s v) (s, v0) = (q, s1, v1)"
    by (metis prod_cases3)
  with c d have r: "r = q" "d' = d\<lparr>dr_session := (s1, v1)\<rparr>"
    by (auto simp: peer_close_def chat_close_def session_api_def)
  from v d have "\<not> sc_refused v0" by simp
  from close_tracks this p show "sc_refused (snd (dr_session d')) \<and> r = Inl SessionCancelled \<or>
      \<not> sc_refused (snd (dr_session d')) \<and> peer_close po (bare_drive d) = Some (r, bare_drive d')"
    by (cases rule: session_cases)
      (use d r in \<open>auto simp: peer_close_def chat_close_def session_api_def Let_def\<close>)
qed

lemma peer_send_tracks: "drive_tracks (peer_send fr (cancellable po) msg) (peer_send fr po msg)"
proof (rule tracksI)
  fix d r d'
  assume v: "\<not> sc_refused (snd (dr_session d))" and c: "peer_send fr (cancellable po) msg d = Some (r, d')"
  let ?V = "cancellable_world (po_world po)"
  obtain s v0 where d: "dr_session d = (s, v0)" by fastforce
  obtain now v1 where n: "w_now ?V v0 = (now, v1)" by fastforce
  from now_tracks [OF n] v d have v1: "\<not> sc_refused v1" "w_now (po_world po) (sc_inner v0) = (now, sc_inner v1)"
    by simp_all
  let ?c = "dr_chat d"
  let ?m = "\<lparr>cm_msg_id = JInt (ch_next_msg_id ?c), cm_timestamp = JFloat now, cm_text = JStr msg\<rparr>"
  show "sc_refused (snd (dr_session d')) \<and> r = Inl SessionCancelled \<or>
      \<not> sc_refused (snd (dr_session d')) \<and> peer_send fr po msg (bare_drive d) = Some (r, bare_drive d')"
  proof (cases "encode_message fr ?m")
    case (Inl e)
    with c d n v1 show ?thesis by (auto simp: peer_send_def send_message_def session_api_def)
  next
    case (Inr frame)
    obtain q s2 v2 where s: "(\<lambda>(s, v). send_on ?V (ch_stream_id ?c) frame s v) (s, v1) = (q, s2, v2)" by (metis prod_cases3)
    from send_on_tracks v1(1) s show ?thesis
      by (cases rule: session_cases)
        (use c d n v1(2) Inr s in \<open>auto simp: peer_send_def send_message_def session_api_def split: sum.splits\<close>)
  qed
qed

text \<open>A round, and then the rest of the loop.\<close>

lemma round_then_tracks:
  assumes "drive_tracks m n"
  shows "drive_tracks
      (\<lambda>d. case peer_round (cancellable po) deadline hold d of (False, d1) \<Rightarrow> Some (Inr (), d1) | (True, d1) \<Rightarrow> m d1)
      (\<lambda>d. case peer_round po deadline hold d of (False, d1) \<Rightarrow> Some (Inr (), d1) | (True, d1) \<Rightarrow> n d1)"
proof (rule tracksI)
  fix d r d'
  obtain b d1 where p: "peer_round (cancellable po) deadline hold d = (b, d1)" by fastforce
  note p' = round_tracks [OF p]
  assume v: "\<not> sc_refused (snd (dr_session d))"
    and c: "(case peer_round (cancellable po) deadline hold d of (False, d1) \<Rightarrow> Some (Inr (), d1) | (True, d1) \<Rightarrow> m d1) = Some (r, d')"
  show "sc_refused (snd (dr_session d')) \<and> r = Inl SessionCancelled \<or> \<not> sc_refused (snd (dr_session d')) \<and>
      (case peer_round po deadline hold (bare_drive d) of (False, d1) \<Rightarrow> Some (Inr (), d1) | (True, d1) \<Rightarrow> n d1) = Some (r, bare_drive d')"
  proof (cases b)
    case True
    with c p have "m d1 = Some (r, d')" by simp
    from assms _ this show ?thesis by (cases rule: tracksE) (use v p' True in auto)
  qed (use v c p p' in auto)
qed

lemma if_tracks:
  assumes "\<And>d. P (bare_drive d) = Q d" and "drive_tracks m n" and "drive_tracks m' n'"
  shows "drive_tracks (\<lambda>d. if Q d then m d else m' d) (\<lambda>d. if P d then n d else n' d)"
  using assms by (auto simp: tracks_def)

lemma drive_step_tracks:
  assumes "\<And>d. dr_session (f d) = dr_session d" and "\<And>d. g (bare_drive d) = bare_drive (f d)" and "drive_tracks m n"
  shows "drive_tracks (\<lambda>d. m (f d)) (\<lambda>d. n (g d))"
proof (rule tracksI)
  fix d r d'
  assume "\<not> sc_refused (snd (dr_session d))" and m: "m (f d) = Some (r, d')"
  then have "\<not> sc_refused (snd (dr_session (f d)))" by (simp add: assms(1))
  from assms(3) this m show "sc_refused (snd (dr_session d')) \<and> r = Inl SessionCancelled \<or>
      \<not> sc_refused (snd (dr_session d')) \<and> n (g (bare_drive d)) = Some (r, bare_drive d')"
    by (cases rule: tracksE) (auto simp: assms(2))
qed

lemma note_tracks:
  assumes "\<And>d. dr_session (f d) = dr_session d" and "\<And>d. g (bare_drive d) = bare_drive (f d)"
  shows "drive_tracks (\<lambda>d. Some (Inr x, f d)) (\<lambda>d. Some (Inr x, g d))"
  by (rule tracksI) (auto simp: assms)

lemma set_result_bare [simp]:
  "dr_session (set_result f d) = dr_session d" "set_result f (bare_drive d) = bare_drive (set_result f d)"
  by (simp_all add: set_result_def)

lemma emit_bare [simp]:
  "dr_session (peer_emit e d) = dr_session d" "peer_emit e (bare_drive d) = bare_drive (peer_emit e d)"
  "dr_chat (peer_emit e d) = dr_chat d"
  by (simp_all add: peer_emit_def)

lemma handshake_tracks:
  "drive_tracks (handshake_loop fp (cancellable po) deadline hold rnd left) (handshake_loop fp po deadline hold rnd left)"
proof (induction left arbitrary: rnd)
  case 0
  show ?case by (rule tracksI) auto
next
  case (Suc left)
  show ?case
    unfolding handshake_loop.simps
    by (intro round_then_tracks drive_bind_tracks peer_pump_tracks if_tracks note_tracks Suc) simp_all
qed

lemma close_loop_tracks:
  "drive_tracks (close_loop fp (cancellable po) deadline hold rnd left) (close_loop fp po deadline hold rnd left)"
proof (induction left arbitrary: rnd)
  case 0
  show ?case by (rule tracksI) auto
next
  case (Suc left)
  show ?case
    unfolding close_loop.simps
    by (intro round_then_tracks drive_bind_tracks peer_pump_tracks if_tracks note_tracks Suc) simp_all
qed

lemma send_next_tracks: "drive_tracks (send_next fr (cancellable po) out) (send_next fr po out)"
proof (cases out)
  case Nil
  show ?thesis unfolding Nil send_next_def list.case by (rule drive_Inr_tracks)
next
  case (Cons m ms)
  show ?thesis
    unfolding Cons send_next_def list.case
    by (intro drive_bind_tracks peer_send_tracks note_tracks) simp_all
qed

lemma fold_emit_bare:
  "dr_session (fold (\<lambda>m. peer_emit (g m)) ms d) = dr_session d"
  "fold (\<lambda>m. peer_emit (g m)) ms (bare_drive d) = bare_drive (fold (\<lambda>m. peer_emit (g m)) ms d)"
  "dr_chat (fold (\<lambda>m. peer_emit (g m)) ms d) = dr_chat d"
  by (induction ms arbitrary: d) simp_all

lemma chat_rounds_tracks:
  "drive_tracks (chat_rounds fr fp (cancellable po) deadline hold left n out) (chat_rounds fr fp po deadline hold left n out)"
proof (induction left arbitrary: out)
  case 0
  show ?case by (rule tracksI) auto
next
  case (Suc left)
  let ?heard = "\<lambda>new d. fold (\<lambda>m. peer_emit (EvReceived (cm_msg_id m) (cm_text m))) new d"
  let ?done = "\<lambda>rest d. rest = [] \<and> n \<le> length (chat_received (dr_chat d))"
  have "drive_tracks
      (\<lambda>d. if ?done rest d then Some (Inr (), d) else chat_rounds fr fp (cancellable po) deadline hold left n rest d)
      (\<lambda>d. if ?done rest d then Some (Inr (), d) else chat_rounds fr fp po deadline hold left n rest d)" for rest
    by (rule if_tracks [OF _ drive_Inr_tracks Suc]) simp
  then have "drive_tracks
      (\<lambda>d. let d3 = ?heard new d in if ?done rest d3 then Some (Inr (), d3) else chat_rounds fr fp (cancellable po) deadline hold left n rest d3)
      (\<lambda>d. let d3 = ?heard new d in if ?done rest d3 then Some (Inr (), d3) else chat_rounds fr fp po deadline hold left n rest d3)"
    for rest new unfolding Let_def by (rule drive_step_tracks [rotated 2]) (simp_all add: fold_emit_bare)
  then show ?case
    unfolding chat_rounds.simps
    by (intro round_then_tracks drive_bind_tracks send_next_tracks peer_pump_tracks)
qed

lemma notes_bare:
  "dr_session (note_match expected d) = dr_session d" "note_match expected (bare_drive d) = bare_drive (note_match expected d)"
  "dr_session (note_handshake d) = dr_session d" "note_handshake (bare_drive d) = bare_drive (note_handshake d)"
  "dr_session (note_closed d) = dr_session d" "note_closed (bare_drive d) = bare_drive (note_closed d)"
  by (simp_all add: note_match_def note_handshake_def note_closed_def Let_def)

lemma drive_rest_tracks:
  "drive_tracks (drive_rest fr fp (cancellable po) ini deadline hold out expected) (drive_rest fr fp po ini deadline hold out expected)"
proof -
  have "drive_tracks (if ini then peer_close (cancellable po) else drive_return []) (if ini then peer_close po else drive_return [])"
    by (simp add: peer_close_tracks drive_return_tracks)
  then show ?thesis
    unfolding drive_rest_def
    by (intro drive_bind_tracks chat_rounds_tracks close_loop_tracks drive_do_tracks) (simp_all add: notes_bare)
qed

lemma drive_drive_tracks:
  "drive_tracks (drive fr fp (cancellable po) ini deadline hold out expected) (drive fr fp po ini deadline hold out expected)"
proof -
  have "drive_tracks (if ini then peer_connect (cancellable po) else drive_return []) (if ini then peer_connect po else drive_return [])"
    by (simp add: peer_connect_tracks drive_return_tracks)
  then show ?thesis
    unfolding drive_def
    by (intro drive_bind_tracks handshake_tracks drive_do_tracks if_tracks drive_rest_tracks drive_Inr_tracks)
      (simp_all add: notes_bare)
qed

text \<open>The beginning of a drive, and its end: the close of the channel, and the result.\<close>

definition peer_begin :: "string \<Rightarrow> pstr list \<Rightarrow> 'w \<Rightarrow> 'w Drive" where
  "peer_begin role expected w =
     \<lparr>dr_session = (peer_session (role = ''sender''), w), dr_chat = ChatSession_init DEFAULT_STREAM_ID,
      dr_result = PeerResult_init role expected, dr_events = [EvStart role (role = ''sender'')]\<rparr>"

definition peer_end ::
  "'w peer_ops \<Rightarrow> time \<Rightarrow> bool \<Rightarrow> unit result \<times> 'w Drive \<Rightarrow> PeerResult result \<times> PeerEvent list \<times> 'w" where
  "peer_end po started close_channel =
     (\<lambda>(r, d).
        let d1 = (if close_channel
            then d\<lparr>dr_session := (fst (dr_session d), po_close_channel po (snd (dr_session d)))\<rparr> else d)
        in case r of
             Inl e \<Rightarrow> (Inl e, dr_events d1, snd (dr_session d1))
           | Inr _ \<Rightarrow>
               (let (result, d2) = peer_finish po started d1
                in (Inr result, dr_events d2, snd (dr_session d2))))"

definition drive_args_ok :: "string \<Rightarrow> pstr list list \<Rightarrow> time \<Rightarrow> bool" where
  "drive_args_ok role messages hold \<longleftrightarrow> role \<in> {''sender'', ''receiver''} \<and> 0 < hold \<and> 2 \<le> length messages"

lemma run_peer_split:
  assumes "drive_args_ok role messages hold" and "po_perf_counter po w = (t0, w1)"
  shows "run_peer fr fp po role messages timeout hold close_channel w =
    (let ini = (role = ''sender''); out = (if ini then messages ! 0 else messages ! 1);
         expected = (if ini then messages ! 1 else messages ! 0)
     in map_option (peer_end po t0 close_channel)
          (drive fr fp po ini (t0 + timeout) hold out expected (peer_begin role expected w1)))"
proof -
  have "(role \<notin> {''sender'', ''receiver''} \<or> hold \<le> 0 \<or> length messages < 2) = False"
    using assms(1) by (auto simp: drive_args_ok_def)
  then show ?thesis
    unfolding run_peer_def Let_def assms(2) prod.case peer_begin_def peer_end_def
    by (simp only: if_False)
qed

lemma run_peer_refused_args:
  "\<not> drive_args_ok role messages hold \<Longrightarrow>
   run_peer fr fp po role messages timeout hold close_channel w = Some (Inl ValueError, [], w)"
  by (auto simp: run_peer_def drive_args_ok_def)

lemma peer_end_bare:
  assumes "peer_end (cancellable po) t0 close_channel (q, d) = (r, es, v')"
  shows "sc_refused v' = sc_refused (snd (dr_session d))"
    and "peer_end po t0 close_channel (q, bare_drive d) = (r, es, sc_inner v')"
    and "q = Inl e \<Longrightarrow> r = Inl e \<and> (close_channel \<longrightarrow> sc_inner v' = po_close_channel po (sc_inner (snd (dr_session d))))"
  using assms
  by (auto simp: peer_end_def peer_finish_def peer_emit_def pass_through_def split_beta Let_def split: sum.splits if_splits)

lemma stopped_run:
  assumes "run_peer fr fp (cancellable po) role messages timeout hold close_channel v = Some (r, es, v')"
    and "\<not> sc_refused v"
  shows "if sc_refused v' then r = Inl SessionCancelled \<and> (if close_channel then \<exists>w. sc_inner v' = po_close_channel po w else True)
    else run_peer fr fp po role messages timeout hold close_channel (sc_inner v) = Some (r, es, sc_inner v')"
proof (cases "drive_args_ok role messages hold")
  case False
  with assms show ?thesis by (simp add: run_peer_refused_args)
next
  case True
  define ini where "ini = (role = ''sender'')"
  define out where "out = (if ini then messages ! 0 else messages ! 1)"
  define expected where "expected = (if ini then messages ! 1 else messages ! 0)"
  note defs = ini_def [symmetric] out_def [symmetric] expected_def [symmetric]
  obtain t0 v1 where t0: "po_perf_counter (cancellable po) v = (t0, v1)" by fastforce
  then have t1: "po_perf_counter po (sc_inner v) = (t0, sc_inner v1)" and v1: "\<not> sc_refused v1"
    using assms(2) by (auto simp: pass_through_def split_beta)
  from assms(1) obtain q d
    where d: "drive fr fp (cancellable po) ini (t0 + timeout) hold out expected (peer_begin role expected v1) = Some (q, d)"
      and e: "peer_end (cancellable po) t0 close_channel (q, d) = (r, es, v')"
    unfolding run_peer_split [OF True t0] Let_def defs by auto
  have bare: "bare_drive (peer_begin role expected v1) = peer_begin role expected (sc_inner v1)"
    by (simp add: bare_drive_def peer_begin_def)
  have "\<not> sc_refused (snd (dr_session (peer_begin role expected v1)))" using v1 by (simp add: peer_begin_def)
  from drive_drive_tracks this d show ?thesis
  proof (cases rule: tracksE)
    case stopped
    with peer_end_bare [OF e] show ?thesis by auto
  next
    case same
    with peer_end_bare [OF e] show ?thesis
      unfolding run_peer_split [OF True t1] Let_def defs by (simp add: bare)
  qed
qed

section \<open>Properties\<close>

text \<open>
  C31. Stop at any moment. A drive over the cancellable channel either had a channel call refused, and
  then it ends with \<open>SessionCancelled\<close> (nothing on the way swallows it) and the channel closed; or no
  call was refused, and then its result, its events and what it did to the channel are those of a
  drive over the bare channel.
\<close>

theorem stop_cancels_the_drive:
  assumes "run_peer fr fp (cancellable po) role messages timeout hold True (stoppable patience w) = Some (r, es, v)"
  shows "if sc_refused v then r = Inl SessionCancelled \<and> (\<exists>w'. sc_inner v = po_close_channel po w')
    else run_peer fr fp po role messages timeout hold True w = Some (r, es, sc_inner v)"
  using stopped_run [OF assms] by (auto simp: stoppable_def split: if_splits)

text \<open>A silent channel whose world is whether it is closed.\<close>

definition silent_ops :: "bool peer_ops" where
  "silent_ops = \<lparr>po_world = \<lparr>w_send = (\<lambda>_ w. (Inr (), w)), w_recv = (\<lambda>_ w. (Inr None, w)), w_now = (\<lambda>w. (0, w))\<rparr>,
     po_perf_counter = (\<lambda>w. (0, w)), po_sleep = (\<lambda>_ w. w), po_advance = (\<lambda>_ w. w), po_close_channel = (\<lambda>_. True)\<rparr>"

theorem stop_cancels_the_drive_witness:
  "\<exists>es v. run_peer (\<lambda>_. []) (\<lambda>_. 0) (cancellable silent_ops) ''receiver'' [[], []] 1 1 True (stoppable (Some 0) False) =
     Some (Inl SessionCancelled, es, v) \<and> sc_inner v"
proof -
  have "\<exists>r es v. run_peer (\<lambda>_. []) (\<lambda>_. 0) (cancellable silent_ops) ''receiver'' [[], []] 1 1 True
      (stoppable (Some 0) False) = Some (r, es, v) \<and> sc_refused v"
    by (simp add: run_peer_def drive_def drive_bind_def drive_return_def drive_do_def peer_emit_def
        MAX_HANDSHAKE_ROUNDS_def numeral_nat peer_round_def set_result_def Let_def silent_ops_def stoppable_def
        cancellable_world_def pass_through_def checked_def stop_check_def peer_pump_def chat_pump_def
        session_api_def pump_def drain_frames.simps)
  then obtain r es v where r: "run_peer (\<lambda>_. []) (\<lambda>_. 0) (cancellable silent_ops) ''receiver'' [[], []] 1 1 True
      (stoppable (Some 0) False) = Some (r, es, v)" "sc_refused v" by blast
  from stop_cancels_the_drive [OF r(1)] r show ?thesis by (auto simp: silent_ops_def)
qed

end
