(* ===== verification/Mobile_App.thy ===== *)
theory Mobile_App
  imports Cancellable
begin

text \<open>
  \<open>photontcp/mobile/app.py\<close>: the phone application around \<open>run_peer\<close>. Its state is the app object
  with its widgets, the calls the clock of the UI holds (\<open>_ui\<close> puts them there), the live worker
  threads and the channels that were told to stop. Kivy, Android and \<open>camera4kivy\<close> are parameters:
  the outcomes of the calls the app makes. A text with an exception in it uses the exception's text,
  a parameter too, as are the texts of floats and of JSON values.
\<close>

definition LINK_ERROR_LEVEL :: string where "LINK_ERROR_LEVEL = ''q''"
definition DEFAULT_SCALE :: int where "DEFAULT_SCALE = 8"
definition MIN_HOLD :: time where "MIN_HOLD = 1 / 100"
definition DEFAULT_HOLD :: time where "DEFAULT_HOLD = 4 / 10"
definition DEFAULT_TIMEOUT :: time where "DEFAULT_TIMEOUT = 60"

definition DEFAULT_MESSAGES :: "pstr list list" where
  "DEFAULT_MESSAGES =
     [[code_points ''hi over light'', code_points ''frame two''], [code_points ''got your light'', code_points ''B done'']]"

section \<open>The settings row\<close>

text \<open>\<open>int(text)\<close> for ASCII text: white space around (tab to carriage return, and the space), a sign, digits with single underscores between.\<close>

definition is_space :: "nat \<Rightarrow> bool" where
  "is_space c \<longleftrightarrow> 9 \<le> c \<and> c \<le> 13 \<or> c = 32"

definition strip :: "pstr \<Rightarrow> pstr" where
  "strip t = rev (dropWhile is_space (rev (dropWhile is_space t)))"

definition is_digit :: "nat \<Rightarrow> bool" where
  "is_digit c \<longleftrightarrow> 48 \<le> c \<and> c \<le> 57"

fun digits_after :: "nat \<Rightarrow> pstr \<Rightarrow> nat option" where
  "digits_after acc [] = Some acc"
| "digits_after acc (c # cs) =
     (if is_digit c then digits_after (10 * acc + (c - 48)) cs
      else if c = 95 then
        (case cs of
           [] \<Rightarrow> None
         | d # ds \<Rightarrow> if is_digit d then digits_after (10 * acc + (d - 48)) ds else None)
      else None)"

definition unsigned_digits :: "pstr \<Rightarrow> nat option" where
  "unsigned_digits t =
     (case t of [] \<Rightarrow> None | c # cs \<Rightarrow> if is_digit c then digits_after (c - 48) cs else None)"

definition py_int :: "pstr \<Rightarrow> int result" where
  "py_int text =
     (let t = strip text;
          r = (case t of
                 c # cs \<Rightarrow>
                   if c = 45 then map_option (\<lambda>n. - int n) (unsigned_digits cs)
                   else if c = 43 then map_option int (unsigned_digits cs)
                   else map_option int (unsigned_digits t)
               | [] \<Rightarrow> None)
      in case r of None \<Rightarrow> Inl ValueError | Some n \<Rightarrow> Inr n)"

record Widgets =
  wg_role :: string
  wg_scale :: pstr
  wg_hold :: pstr
  wg_facing :: string
  wg_status :: pstr
  wg_settings_disabled :: bool
  wg_start_disabled :: bool
  wg_stop_disabled :: bool

text \<open>\<open>float(text)\<close> is a parameter: a number, or \<open>None\<close> when it raises \<open>ValueError\<close>.\<close>

definition read_settings :: "(pstr \<Rightarrow> real option) \<Rightarrow> Widgets \<Rightarrow> string \<times> int \<times> time \<times> string" where
  "read_settings float_of wg =
     (wg_role wg,
      (case py_int (wg_scale wg) of Inl e \<Rightarrow> DEFAULT_SCALE | Inr n \<Rightarrow> max 1 n),
      (case float_of (wg_hold wg) of None \<Rightarrow> DEFAULT_HOLD | Some h \<Rightarrow> max MIN_HOLD h),
      wg_facing wg)"

section \<open>Status lines\<close>

record Texts =
  tx_float :: "real \<Rightarrow> pstr"
  tx_fixed1 :: "real \<Rightarrow> pstr"
  tx_json :: "json \<Rightarrow> pstr"
  tx_exception :: "py_error \<Rightarrow> pstr"
  tx_exception_name :: "py_error \<Rightarrow> pstr"

abbreviation lit :: "string \<Rightarrow> pstr" where "lit \<equiv> code_points"

definition bool_text :: "bool \<Rightarrow> pstr" where
  "bool_text b = (if b then lit ''True'' else lit ''False'')"

definition rounds_text :: "nat option \<Rightarrow> pstr" where
  "rounds_text n = (case n of None \<Rightarrow> lit ''None'' | Some k \<Rightarrow> nat_digits k)"

definition format_summary :: "Texts \<Rightarrow> PeerResult option \<Rightarrow> pstr" where
  "format_summary tx result =
     (case result of
        None \<Rightarrow> lit ''session ended (no result)''
      | Some r \<Rightarrow>
          lit (if pr_passed r then ''PASS'' else ''FAIL'') @ lit '' | established='' @ bool_text (pr_established r) @
          lit '' | '' @ lit (if pr_messages_match r then ''MATCH'' else ''MISMATCH'') @
          lit '' ('' @ nat_digits (length (pr_received r)) @ lit ''/'' @ nat_digits (length (pr_expected r)) @ lit '') | closed='' @
          bool_text (pr_closed r) @ lit '' | wall='' @ tx_fixed1 tx (pr_wall_seconds r) @ lit ''s'' @
          lit (if pr_timed_out r then '' | TIMED OUT'' else ''''))"

text \<open>The message of the two error events of \<open>run_peer\<close>.\<close>

definition error_message :: "string \<Rightarrow> pstr" where
  "error_message stage =
     lit (if stage = ''handshake'' then ''handshake did not complete within the cap/deadline''
          else ''this peer did not reach CLOSED within the cap/deadline'')"

definition on_event :: "Texts \<Rightarrow> PeerEvent \<Rightarrow> pstr" where
  "on_event tx e =
     (case e of
        EvStart role ini \<Rightarrow> lit ''start: role='' @ lit role
      | EvConnect ini \<Rightarrow>
          lit (if ini then ''handshaking: SYN shown as QR'' else ''handshaking: waiting for the peer's SYN'')
      | EvHandshake established rounds \<Rightarrow>
          if established then lit ''ESTABLISHED after '' @ rounds_text rounds @ lit '' round(s)''
          else lit ''handshake FAILED (timed out)''
      | EvSent msg_id text \<Rightarrow> lit ''sent #'' @ int_text msg_id @ lit '': '' @ text
      | EvReceived msg_id text \<Rightarrow> lit ''recv #'' @ tx_json tx msg_id @ lit '': '' @ tx_json tx text
      | EvMatch received expected ok \<Rightarrow>
          lit ''messages '' @ nat_digits received @ lit ''/'' @ nat_digits expected @ lit '' - '' @
          lit (if ok then ''MATCH'' else ''MISMATCH'')
      | EvClosing ini \<Rightarrow> lit ''closing the session...''
      | EvClosed ok rounds \<Rightarrow>
          if ok then lit ''CLOSED after '' @ rounds_text rounds @ lit '' round(s)'' else lit ''close FAILED (timed out)''
      | EvError stage \<Rightarrow> lit ''error ['' @ lit stage @ lit '']: '' @ error_message stage
      | EvDone result \<Rightarrow> format_summary tx (Some result))"

section \<open>The app\<close>

datatype UiCall = SetStatus pstr | LaunchSession | Teardown

record PhotonTCPApp =
  ap_worker :: bool
  ap_channel :: "nat option"
  ap_display :: bool
  ap_camera :: bool
  ap_preview :: bool
  ap_running :: bool
  ap_permission_granted :: bool
  ap_widgets :: Widgets

text \<open>
  The app and what it shares with other threads: the clock of the UI, the channels of live workers,
  the channels with their switch set, the next channel's name, the permission requests not yet
  answered.
\<close>

record AppSys =
  sy_app :: PhotonTCPApp
  sy_clock :: "UiCall list"
  sy_workers :: "nat list"
  sy_cancelled :: "nat list"
  sy_next :: nat
  sy_requests :: nat

definition new_app :: "bool \<Rightarrow> (real \<Rightarrow> pstr) \<Rightarrow> AppSys" where
  "new_app is_android float_text =
     \<lparr>sy_app = \<lparr>ap_worker = False, ap_channel = None, ap_display = False, ap_camera = False, ap_preview = False,
        ap_running = False, ap_permission_granted = (\<not> is_android),
        ap_widgets = \<lparr>wg_role = ''sender'', wg_scale = int_text DEFAULT_SCALE, wg_hold = float_text DEFAULT_HOLD,
          wg_facing = ''back'', wg_status = lit ''idle - press Start'', wg_settings_disabled = False,
          wg_start_disabled = False, wg_stop_disabled = True\<rparr>\<rparr>,
      sy_clock = [], sy_workers = [], sy_cancelled = [], sy_next = 0, sy_requests = 0\<rparr>"

definition ui :: "UiCall \<Rightarrow> AppSys \<Rightarrow> AppSys" where
  "ui c s = s\<lparr>sy_clock := sy_clock s @ [c]\<rparr>"

definition set_status :: "pstr \<Rightarrow> AppSys \<Rightarrow> AppSys" where
  "set_status text s = ui (SetStatus text) s"

definition set_running :: "bool \<Rightarrow> PhotonTCPApp \<Rightarrow> PhotonTCPApp" where
  "set_running running a =
     a\<lparr>ap_running := running,
       ap_widgets := (ap_widgets a)\<lparr>wg_settings_disabled := running, wg_start_disabled := running,
         wg_stop_disabled := \<not> running\<rparr>\<rparr>"

text \<open>The outcomes of the platform calls during one handler.\<close>

record Platform =
  pl_permission_api :: "unit result"
  pl_check_permission :: "bool result"
  pl_request_permissions :: "unit result"
  pl_make_preview :: "pstr option"
  pl_connect_camera :: "bool \<Rightarrow> unit result"
  pl_start_thread :: "unit result"

text \<open>\<open>preview.connect_camera\<close> with the documented keywords, and without them after a \<open>TypeError\<close>.\<close>

definition connect_camera :: "Platform \<Rightarrow> unit result" where
  "connect_camera pl = (case pl_connect_camera pl True of Inl TypeError \<Rightarrow> pl_connect_camera pl False | r \<Rightarrow> r)"

definition launch_session :: "Texts \<Rightarrow> (pstr \<Rightarrow> real option) \<Rightarrow> Platform \<Rightarrow> AppSys \<Rightarrow> unit result \<times> AppSys" where
  "launch_session tx float_of pl s =
     (if ap_running (sy_app s) then (Inr (), s)
      else
        (let (role, scale, hold, facing) = read_settings float_of (ap_widgets (sy_app s)) in
         case pl_make_preview pl of
           Some error \<Rightarrow> (Inr (), set_status (error @ lit ''. Session not started.'') s)
         | None \<Rightarrow>
             (case connect_camera pl of
                Inl e \<Rightarrow>
                  (Inr (), set_status (lit ''camera unavailable ('' @ tx_exception tx e @ lit ''). Session not started.'') s)
              | Inr _ \<Rightarrow>
                  (let channel = sy_next s;
                       a = set_running True ((sy_app s)\<lparr>ap_display := True, ap_camera := True, ap_preview := True,
                             ap_channel := Some channel\<rparr>);
                       s1 = set_status (lit ''role='' @ lit role @ lit '' scale='' @ int_text scale @ lit '' hold='' @
                              tx_float tx hold @ lit ''s camera='' @ lit facing @ lit '' - starting'')
                              (s\<lparr>sy_app := a, sy_next := Suc channel\<rparr>);
                       s2 = s1\<lparr>sy_app := (sy_app s1)\<lparr>ap_worker := True\<rparr>\<rparr>
                   in case pl_start_thread pl of
                        Inl e \<Rightarrow> (Inl e, s2)
                      | Inr _ \<Rightarrow> (Inr (), s2\<lparr>sy_workers := sy_workers s2 @ [channel]\<rparr>)))))"

text \<open>
  \<open>_ensure_permission\<close>. The handler around \<open>check_permission\<close> encloses the call of \<open>then\<close> as well:
  an exception of \<open>then\<close> is swallowed, and the request follows.
\<close>

definition ensure_permission ::
  "Texts \<Rightarrow> Platform \<Rightarrow> (AppSys \<Rightarrow> unit result \<times> AppSys) \<Rightarrow> AppSys \<Rightarrow> unit result \<times> AppSys" where
  "ensure_permission tx pl proceed s =
     (if ap_permission_granted (sy_app s) then proceed s
      else
        (case pl_permission_api pl of
           Inl e \<Rightarrow>
             (Inr (), set_status (lit ''camera permission API unavailable ('' @ tx_exception tx e @
                lit ''); cannot start a session'') s)
         | Inr _ \<Rightarrow>
             (let (finished, s1) =
                (case pl_check_permission pl of
                   Inr True \<Rightarrow>
                     (let (r, s1) = proceed (s\<lparr>sy_app := (sy_app s)\<lparr>ap_permission_granted := True\<rparr>\<rparr>)
                      in (r = Inr (), s1))
                 | _ \<Rightarrow> (False, s))
              in if finished then (Inr (), s1)
                 else
                   (let s2 = set_status (lit ''requesting camera permission...'') s1 in
                    case pl_request_permissions pl of
                      Inr _ \<Rightarrow> (Inr (), s2\<lparr>sy_requests := Suc (sy_requests s2)\<rparr>)
                    | Inl e \<Rightarrow>
                        (Inr (), set_status (lit ''camera permission request failed ('' @ tx_exception tx e @ lit '')'') s2)))))"

text \<open>The callback of the request, on a thread of Android.\<close>

definition permission_callback :: "bool list \<Rightarrow> AppSys \<Rightarrow> AppSys" where
  "permission_callback grants s =
     (if grants \<noteq> [] \<and> list_all id grants
      then ui LaunchSession (s\<lparr>sy_app := (sy_app s)\<lparr>ap_permission_granted := True\<rparr>\<rparr>)
      else set_status (lit ''camera permission denied - grant it in Settings, then Start again'') s)"

definition on_start_pressed :: "Texts \<Rightarrow> (pstr \<Rightarrow> real option) \<Rightarrow> Platform \<Rightarrow> AppSys \<Rightarrow> unit result \<times> AppSys" where
  "on_start_pressed tx float_of pl s =
     (if ap_running (sy_app s) then (Inr (), s)
      else ensure_permission tx pl (launch_session tx float_of pl) (set_status (lit ''starting...'') s))"

definition on_stop :: "AppSys \<Rightarrow> AppSys" where
  "on_stop s =
     (case ap_channel (sy_app s) of
        None \<Rightarrow> s
      | Some c \<Rightarrow> (set_status (lit ''stopping...'') s)\<lparr>sy_cancelled := List.insert c (sy_cancelled s)\<rparr>)"

definition teardown :: "AppSys \<Rightarrow> AppSys" where
  "teardown s =
     s\<lparr>sy_app := set_running False ((sy_app s)\<lparr>ap_preview := False, ap_channel := None, ap_display := False,
         ap_camera := False, ap_worker := False\<rparr>)\<rparr>"

section \<open>The worker\<close>

text \<open>How a drive ends: the handlers of \<open>_run_session\<close>, and its \<open>finally\<close>.\<close>

definition outcome_calls :: "Texts \<Rightarrow> 'a result \<Rightarrow> UiCall list" where
  "outcome_calls tx r =
     (case r of
        Inr _ \<Rightarrow> []
      | Inl e \<Rightarrow>
          if e = SessionCancelled then [SetStatus (lit ''stopped by user'')]
          else [SetStatus (lit ''session failed: '' @ tx_exception_name tx e @ lit '': '' @ tx_exception tx e)]) @ [Teardown]"

text \<open>\<open>_run_session\<close>: everything the worker asks of the UI, in order, and the channel it leaves.\<close>

definition run_session ::
  "Texts \<Rightarrow> (pstr \<Rightarrow> real) \<Rightarrow> 'w peer_ops \<Rightarrow> string \<Rightarrow> time \<Rightarrow> 'w Stoppable \<Rightarrow> (UiCall list \<times> 'w Stoppable) option" where
  "run_session tx fp po role hold v =
     map_option (\<lambda>(r, events, v'). (map (SetStatus \<circ> on_event tx) events @ outcome_calls tx r, v'))
       (run_peer (tx_float tx) fp (cancellable po) role DEFAULT_MESSAGES DEFAULT_TIMEOUT hold True v)"

end
