(* ===== verification/Mobile_Props.thy ===== *)
theory Mobile_Props
  imports Mobile_App
begin

text \<open>
  The phone application: its settings never give a drive that \<open>run_peer\<close> refuses, its status line
  ends with the verdict of the drive, and whatever the user, the platform and the worker do, at
  most one session is alive and the controls show it; with the way in which that can fail.
\<close>

section \<open>The events of the app\<close>

datatype AppEvent =
    StartPressed Platform
  | StopPressed
  | EditSettings string pstr pstr string
  | ClockTick Platform
  | PermissionReply "bool list"
  | WorkerSays pstr
  | WorkerEnds "unit result"

definition run_ui_call :: "Texts \<Rightarrow> (pstr \<Rightarrow> real option) \<Rightarrow> Platform \<Rightarrow> UiCall \<Rightarrow> AppSys \<Rightarrow> AppSys" where
  "run_ui_call tx float_of pl c s =
     (case c of
        SetStatus t \<Rightarrow> s\<lparr>sy_app := (sy_app s)\<lparr>ap_widgets := (ap_widgets (sy_app s))\<lparr>wg_status := t\<rparr>\<rparr>\<rparr>
      | LaunchSession \<Rightarrow> snd (launch_session tx float_of pl s)
      | Teardown \<Rightarrow> teardown s)"

fun app_step :: "Texts \<Rightarrow> (pstr \<Rightarrow> real option) \<Rightarrow> AppEvent \<Rightarrow> AppSys \<Rightarrow> AppSys" where
  "app_step tx float_of (StartPressed pl) s = snd (on_start_pressed tx float_of pl s)"
| "app_step tx float_of StopPressed s = on_stop s"
| "app_step tx float_of (EditSettings role scale hold facing) s =
     (if wg_settings_disabled (ap_widgets (sy_app s)) then s
      else s\<lparr>sy_app := (sy_app s)\<lparr>ap_widgets := (ap_widgets (sy_app s))\<lparr>wg_role := role, wg_scale := scale,
             wg_hold := hold, wg_facing := facing\<rparr>\<rparr>\<rparr>)"
| "app_step tx float_of (ClockTick pl) s =
     (case sy_clock s of [] \<Rightarrow> s | c # cs \<Rightarrow> run_ui_call tx float_of pl c (s\<lparr>sy_clock := cs\<rparr>))"
| "app_step tx float_of (PermissionReply grants) s =
     (if 0 < sy_requests s then permission_callback grants (s\<lparr>sy_requests := sy_requests s - 1\<rparr>) else s)"
| "app_step tx float_of (WorkerSays text) s = (if sy_workers s = [] then s else set_status text s)"
| "app_step tx float_of (WorkerEnds r) s =
     (case sy_workers s of
        [] \<Rightarrow> s
      | c # cs \<Rightarrow> s\<lparr>sy_workers := cs, sy_clock := sy_clock s @ outcome_calls tx r\<rparr>)"

definition app_run :: "Texts \<Rightarrow> (pstr \<Rightarrow> real option) \<Rightarrow> AppEvent list \<Rightarrow> AppSys \<Rightarrow> AppSys" where
  "app_run tx float_of evs s = fold (app_step tx float_of) evs s"

text \<open>Every thread that an event starts can be started.\<close>

definition threads_start :: "AppEvent \<Rightarrow> bool" where
  "threads_start e =
     (case e of StartPressed pl \<Rightarrow> pl_start_thread pl = Inr () | ClockTick pl \<Rightarrow> pl_start_thread pl = Inr () | _ \<Rightarrow> True)"

section \<open>The invariant\<close>

definition teardowns :: "UiCall list \<Rightarrow> nat" where
  "teardowns cs = length (filter (\<lambda>c. c = Teardown) cs)"

lemma teardowns_simps [simp]:
  "teardowns [] = 0" "teardowns (c # cs) = (if c = Teardown then Suc (teardowns cs) else teardowns cs)"
  "teardowns (cs @ ds) = teardowns cs + teardowns ds"
  by (simp_all add: teardowns_def)

lemma outcome_teardowns [simp]: "teardowns (outcome_calls tx r) = 1"
  by (simp add: outcome_calls_def split: sum.split)

definition controls_ok :: "PhotonTCPApp \<Rightarrow> bool" where
  "controls_ok a \<longleftrightarrow>
     wg_settings_disabled (ap_widgets a) = ap_running a \<and> wg_start_disabled (ap_widgets a) = ap_running a \<and>
     wg_stop_disabled (ap_widgets a) = (\<not> ap_running a)"

definition app_inv :: "AppSys \<Rightarrow> bool" where
  "app_inv s \<longleftrightarrow>
     length (sy_workers s) + teardowns (sy_clock s) = (if ap_running (sy_app s) then 1 else 0) \<and>
     (ap_channel (sy_app s) \<noteq> None) = ap_running (sy_app s) \<and>
     list_all (\<lambda>c. ap_channel (sy_app s) = Some c) (sy_workers s) \<and> controls_ok (sy_app s)"

lemma app_inv_status [simp]: "app_inv (set_status t s) = app_inv s"
  by (simp add: app_inv_def set_status_def ui_def)

lemma app_inv_permission [simp]:
  "app_inv (s\<lparr>sy_app := (sy_app s)\<lparr>ap_permission_granted := b\<rparr>\<rparr>) = app_inv s" "app_inv (s\<lparr>sy_requests := n\<rparr>) = app_inv s"
  by (simp_all add: app_inv_def controls_ok_def)

lemma launch_inv:
  assumes "app_inv s" and "pl_start_thread pl = Inr ()"
  shows "app_inv (snd (launch_session tx float_of pl s))" and "fst (launch_session tx float_of pl s) = Inr ()"
  using assms
  by (auto simp: launch_session_def app_inv_def controls_ok_def set_running_def set_status_def ui_def Let_def split_beta
      split: option.split sum.split)

lemma ensure_inv:
  assumes "app_inv s" and "pl_start_thread pl = Inr ()"
  shows "app_inv (snd (ensure_permission tx pl (launch_session tx float_of pl) s))"
proof -
  have "app_inv (snd (launch_session tx float_of pl (s\<lparr>sy_app := (sy_app s)\<lparr>ap_permission_granted := True\<rparr>\<rparr>)))"
    using assms by (intro launch_inv) simp_all
  then show ?thesis using assms launch_inv [OF assms]
    by (auto simp: ensure_permission_def Let_def split_beta split: sum.split bool.split)
qed

lemma app_step_inv:
  assumes "app_inv s" and "threads_start e"
  shows "app_inv (app_step tx float_of e s)"
proof (cases e)
  case (StartPressed pl)
  with assms show ?thesis by (auto simp: on_start_pressed_def threads_start_def intro: ensure_inv)
next
  case StopPressed
  with assms(1) show ?thesis by (auto simp: on_stop_def app_inv_def set_status_def ui_def split: option.split)
next
  case (EditSettings role scale hold facing)
  with assms(1) show ?thesis by (auto simp: app_inv_def controls_ok_def)
next
  case (ClockTick pl)
  show ?thesis
  proof (cases "sy_clock s")
    case (Cons c cs)
    show ?thesis
    proof (cases c)
      case LaunchSession
      with Cons assms(1) have "app_inv (s\<lparr>sy_clock := cs\<rparr>)" by (simp add: app_inv_def)
      with launch_inv(1) [OF this] assms(2) ClockTick Cons LaunchSession show ?thesis
        by (simp add: run_ui_call_def threads_start_def)
    qed (use assms(1) ClockTick Cons in \<open>auto simp: run_ui_call_def app_inv_def controls_ok_def teardown_def set_running_def split: if_splits\<close>)
  qed (use assms(1) ClockTick in simp)
next
  case (PermissionReply grants)
  with assms(1) show ?thesis by (auto simp: permission_callback_def ui_def app_inv_def set_status_def controls_ok_def)
next
  case (WorkerEnds r)
  with assms(1) show ?thesis by (auto simp: app_inv_def split: list.split if_splits)
qed (use assms(1) in simp)

lemma app_run_inv: "app_inv s \<Longrightarrow> list_all threads_start evs \<Longrightarrow> app_inv (app_run tx float_of evs s)"
  using app_step_inv by (induction evs arbitrary: s) (auto simp: app_run_def)

lemma new_app_inv: "app_inv (new_app android ft)"
  by (simp add: app_inv_def new_app_def controls_ok_def)

section \<open>After a thread that could not be started\<close>

definition app_locked :: "AppSys \<Rightarrow> bool" where
  "app_locked s \<longleftrightarrow> ap_running (sy_app s) \<and> sy_workers s = [] \<and> teardowns (sy_clock s) = 0 \<and> wg_start_disabled (ap_widgets (sy_app s))"

lemma app_locked_step: "app_locked s \<Longrightarrow> app_locked (app_step tx float_of e s)"
  by (cases e)
    (auto simp: app_locked_def on_start_pressed_def on_stop_def set_status_def ui_def permission_callback_def
      run_ui_call_def launch_session_def split: option.split list.split UiCall.split if_splits)

lemma app_locked_run: "app_locked s \<Longrightarrow> app_locked (app_run tx float_of evs s)"
  using app_locked_step by (induction evs arbitrary: s) (auto simp: app_run_def)

section \<open>What a drive leaves on the status line\<close>

lemma run_peer_done:
  assumes "run_peer fr fp po role messages timeout hold close_channel w = Some (Inr res, es, w')"
  shows "es \<noteq> [] \<and> last es = EvDone res"
proof -
  have ok: "drive_args_ok role messages hold"
    using assms run_peer_refused_args by (metis Inl_Inr_False option.inject prod.inject)
  obtain t0 w1 where t0: "po_perf_counter po w = (t0, w1)" by fastforce
  from assms obtain q d where "peer_end po t0 close_channel (q, d) = (Inr res, es, w')"
    unfolding run_peer_split [OF ok t0] Let_def by auto
  then show ?thesis
    by (cases q) (auto simp: peer_end_def peer_finish_def peer_emit_def split_beta Let_def)
qed

text \<open>The text the worker leaves on the status line before the teardown.\<close>

definition verdict :: "Texts \<Rightarrow> PeerResult result \<Rightarrow> pstr" where
  "verdict tx r =
     (case r of
        Inr res \<Rightarrow> format_summary tx (Some res)
      | Inl e \<Rightarrow> if e = SessionCancelled then lit ''stopped by user''
          else lit ''session failed: '' @ tx_exception_name tx e @ lit '': '' @ tx_exception tx e)"

lemma session_calls:
  assumes "run_session tx fp po role hold v = Some (calls, v')"
  obtains r es where "run_peer (tx_float tx) fp (cancellable po) role DEFAULT_MESSAGES DEFAULT_TIMEOUT hold True v = Some (r, es, v')"
    and "\<exists>pre. calls = pre @ [SetStatus (verdict tx r), Teardown] \<and> teardowns pre = 0"
proof -
  obtain r es where r: "run_peer (tx_float tx) fp (cancellable po) role DEFAULT_MESSAGES DEFAULT_TIMEOUT hold True v = Some (r, es, v')"
    and c: "calls = map (SetStatus \<circ> on_event tx) es @ outcome_calls tx r"
    using assms by (auto simp: run_session_def)
  have t: "teardowns (map (SetStatus \<circ> on_event tx) xs) = 0" for xs by (induction xs) simp_all
  show ?thesis
  proof (cases r)
    case (Inl e)
    with r c t [of es] that show ?thesis by (auto simp: outcome_calls_def verdict_def)
  next
    case (Inr res)
    with run_peer_done [OF r [unfolded Inr]] obtain es' where "es = es' @ [EvDone res]" by (metis append_butlast_last_id)
    then have "calls = map (SetStatus \<circ> on_event tx) es' @ [SetStatus (verdict tx r), Teardown]"
      unfolding c Inr by (simp add: outcome_calls_def verdict_def on_event_def)
    with r t that show ?thesis by blast
  qed
qed

section \<open>Properties\<close>

text \<open>
  One session at a time. In every run of the app in which each worker thread can be started (presses of Start and Stop, edits, turns of the UI
  clock, permission replies, workers that report and end) the live workers and the teardowns still
  to come are one while a session runs and none otherwise; the controls are locked exactly while it
  runs, so when the worker has ended and the clock is empty the app is idle and unlocked; and Stop
  sets the switch of the channel of every live worker.
\<close>

theorem app_runs_one_session:
  assumes "list_all threads_start evs" and "s = app_run tx float_of evs (new_app android ft)"
  shows "length (sy_workers s) + teardowns (sy_clock s) = (if ap_running (sy_app s) then 1 else 0) \<and>
    controls_ok (sy_app s) \<and>
    (if sy_workers s = [] \<and> sy_clock s = [] then \<not> ap_running (sy_app s) \<and> ap_channel (sy_app s) = None else True) \<and>
    list_all (\<lambda>c. c \<in> set (sy_cancelled (on_stop s))) (sy_workers s)"
proof -
  have inv: "app_inv s" unfolding assms(2) by (rule app_run_inv [OF new_app_inv assms(1)])
  then have "list_all (\<lambda>c. c \<in> set (sy_cancelled (on_stop s))) (sy_workers s)"
    by (auto simp: app_inv_def on_stop_def set_status_def ui_def list_all_iff)
  with inv show ?thesis by (auto simp: app_inv_def split: if_splits)
qed

definition fine_platform :: Platform where
  "fine_platform = \<lparr>pl_permission_api = Inr (), pl_check_permission = Inr False, pl_request_permissions = Inr (),
     pl_make_preview = None, pl_connect_camera = (\<lambda>_. Inr ()), pl_start_thread = Inr ()\<rparr>"

definition plain_texts :: Texts where
  "plain_texts = \<lparr>tx_float = (\<lambda>_. []), tx_fixed1 = (\<lambda>_. []), tx_json = (\<lambda>_. []), tx_exception = (\<lambda>_. []),
     tx_exception_name = (\<lambda>_. [])\<rparr>"

definition phone_session :: "AppEvent list" where
  "phone_session = [StartPressed fine_platform, PermissionReply [True], ClockTick fine_platform, ClockTick fine_platform,
     ClockTick fine_platform, ClockTick fine_platform]"

theorem app_runs_one_session_witness:
  "let s = app_run plain_texts (\<lambda>_. None) phone_session (new_app True (\<lambda>_. [])) in
   sy_workers s = [0] \<and> ap_running (sy_app s) \<and> 0 \<in> set (sy_cancelled (on_stop s))"
proof -
  let ?s = "app_run plain_texts (\<lambda>_. None) phone_session (new_app True (\<lambda>_. []))"
  have w: "sy_workers ?s = [0] \<and> ap_running (sy_app ?s)"
    by (simp add: app_run_def phone_session_def new_app_def on_start_pressed_def ensure_permission_def set_status_def
        ui_def fine_platform_def permission_callback_def run_ui_call_def launch_session_def connect_camera_def
        set_running_def read_settings_def Let_def split_beta)
  have "list_all threads_start phone_session" by (simp add: phone_session_def threads_start_def fine_platform_def)
  from app_runs_one_session [OF this refl, of plain_texts "\<lambda>_. None" True "\<lambda>_. []"] w show ?thesis
    by (simp add: Let_def)
qed

text \<open>
  When the worker thread cannot be started, the first press of Start after a granted permission
  raises nothing: the handler around \<open>check_permission\<close> swallows the exception, a permission request
  follows, and from then on the app counts as running with no worker: Start stays disabled for ever.
\<close>

theorem failed_start_locks_app:
  assumes "\<not> ap_permission_granted (sy_app s)" and "\<not> ap_running (sy_app s)" and "sy_workers s = []"
    and "teardowns (sy_clock s) = 0"
    and "pl_permission_api pl = Inr ()" and "pl_check_permission pl = Inr True" and "pl_request_permissions pl = Inr ()"
    and "pl_make_preview pl = None" and "pl_connect_camera pl = (\<lambda>_. Inr ())" and "pl_start_thread pl = Inl e"
  shows "fst (on_start_pressed tx float_of pl s) = Inr () \<and>
    sy_requests (snd (on_start_pressed tx float_of pl s)) = Suc (sy_requests s) \<and>
    app_locked (app_run tx float_of evs (snd (on_start_pressed tx float_of pl s)))"
proof -
  have "fst (on_start_pressed tx float_of pl s) = Inr () \<and>
      sy_requests (snd (on_start_pressed tx float_of pl s)) = Suc (sy_requests s) \<and>
      app_locked (snd (on_start_pressed tx float_of pl s))"
    using assms
    by (simp add: on_start_pressed_def ensure_permission_def launch_session_def connect_camera_def set_status_def ui_def
        set_running_def app_locked_def Let_def split_beta)
  then show ?thesis using app_locked_run by blast
qed

theorem failed_start_locks_app_witness:
  "app_locked (app_run plain_texts (\<lambda>_. None) [StopPressed, ClockTick fine_platform, StartPressed fine_platform]
     (snd (on_start_pressed plain_texts (\<lambda>_. None)
       (fine_platform\<lparr>pl_check_permission := Inr True, pl_start_thread := Inl RuntimeError\<rparr>) (new_app True (\<lambda>_. [])))))"
  using failed_start_locks_app [of "new_app True (\<lambda>_. [])"
      "fine_platform\<lparr>pl_check_permission := Inr True, pl_start_thread := Inl RuntimeError\<rparr>" RuntimeError plain_texts
      "\<lambda>_. None" "[StopPressed, ClockTick fine_platform, StartPressed fine_platform]"]
  by (simp add: new_app_def fine_platform_def)

text \<open>
  C32. What a session on the phone ends with. For any text in the scale and hold fields the drive is one
  that \<open>run_peer\<close> accepts, and the calls the worker makes on the UI end with one status line and the
  only teardown. If Stop reached the drive the line says so; otherwise it is the verdict of the
  drive over the bare channel: the summary of its result, or the exception it ended with.
\<close>

theorem phone_session_reports_verdict:
  assumes "wg_role wg = ''sender'' \<or> wg_role wg = ''receiver''"
    and "read_settings float_of wg = (role, scale, hold, facing)"
    and "run_session tx fp po role hold (stoppable patience w) = Some (calls, v)"
  shows "1 \<le> scale \<and> drive_args_ok role DEFAULT_MESSAGES hold \<and>
    (\<exists>pre text. calls = pre @ [SetStatus text, Teardown] \<and> teardowns pre = 0 \<and>
       (if sc_refused v then text = lit ''stopped by user''
        else map_option (verdict tx \<circ> fst)
          (run_peer (tx_float tx) fp po role DEFAULT_MESSAGES DEFAULT_TIMEOUT hold True w) = Some text))"
proof -
  have ok: "1 \<le> scale" "drive_args_ok role DEFAULT_MESSAGES hold"
    using assms(1,2)
    by (auto simp: read_settings_def drive_args_ok_def DEFAULT_MESSAGES_def DEFAULT_SCALE_def DEFAULT_HOLD_def MIN_HOLD_def
        max_def split: sum.splits option.splits if_splits)
  from assms(3) show ?thesis
  proof (rule session_calls)
    fix r es
    assume r: "run_peer (tx_float tx) fp (cancellable po) role DEFAULT_MESSAGES DEFAULT_TIMEOUT hold True
        (stoppable patience w) = Some (r, es, v)"
      and "\<exists>pre. calls = pre @ [SetStatus (verdict tx r), Teardown] \<and> teardowns pre = 0"
    then obtain pre where "calls = pre @ [SetStatus (verdict tx r), Teardown]" "teardowns pre = 0" by blast
    moreover have "if sc_refused v then verdict tx r = lit ''stopped by user''
        else map_option (verdict tx \<circ> fst)
          (run_peer (tx_float tx) fp po role DEFAULT_MESSAGES DEFAULT_TIMEOUT hold True w) = Some (verdict tx r)"
      using stopped_run [OF r] by (auto simp: stoppable_def verdict_def split: if_splits)
    ultimately show ?thesis using ok by blast
  qed
qed

text \<open>A receiver with no usable scale and hold, whose Stop is pressed at once.\<close>

definition bare_settings :: Widgets where
  "bare_settings = \<lparr>wg_role = ''receiver'', wg_scale = [], wg_hold = [], wg_facing = ''back'', wg_status = [],
     wg_settings_disabled = False, wg_start_disabled = False, wg_stop_disabled = True\<rparr>"

lemma bare_settings_read:
  "read_settings (\<lambda>_. None) bare_settings = (''receiver'', DEFAULT_SCALE, DEFAULT_HOLD, ''back'')"
  by (simp add: read_settings_def bare_settings_def py_int_def strip_def)

theorem phone_session_reports_verdict_witness:
  "\<exists>calls v. run_session plain_texts (\<lambda>_. 0) silent_ops ''receiver'' DEFAULT_HOLD (stoppable (Some 0) False) = Some (calls, v) \<and>
     (\<exists>pre. calls = pre @ [SetStatus (lit ''stopped by user''), Teardown])"
proof -
  have "\<exists>calls v. run_session plain_texts (\<lambda>_. 0) silent_ops ''receiver'' DEFAULT_HOLD (stoppable (Some 0) False) =
      Some (calls, v) \<and> sc_refused v"
    by (simp add: run_session_def run_peer_def drive_def drive_bind_def drive_return_def drive_do_def peer_emit_def
        MAX_HANDSHAKE_ROUNDS_def numeral_nat peer_round_def set_result_def Let_def silent_ops_def stoppable_def
        cancellable_world_def pass_through_def checked_def stop_check_def peer_pump_def chat_pump_def
        session_api_def pump_def drain_frames.simps DEFAULT_MESSAGES_def DEFAULT_HOLD_def DEFAULT_TIMEOUT_def)
  then obtain calls v where c: "run_session plain_texts (\<lambda>_. 0) silent_ops ''receiver'' DEFAULT_HOLD
      (stoppable (Some 0) False) = Some (calls, v)" "sc_refused v" by blast
  have "wg_role bare_settings = ''sender'' \<or> wg_role bare_settings = ''receiver''" by (simp add: bare_settings_def)
  from phone_session_reports_verdict [OF this bare_settings_read c(1)] c show ?thesis by auto
qed

end
