(* ===== verification/Script.thy ===== *)
theory Script
  imports Session_Api
begin

text \<open>
  The programs under \<open>examples/\<close> drive two endpoints in one process: rounds of
  \<open>advance the clocks, pump both\<close> with a cap, an exchange, a check, a close, and an exit code. This
  theory holds what they share: scripts (steps that may raise or not return), loops with a cap, the
  handshake and the close of two sessions, and rules for scripts with a ghost state.
\<close>

section \<open>Scripts\<close>

text \<open>A step of a program: \<open>None\<close> does not return, \<open>Inl\<close> an exception, \<open>Inr\<close> a value.\<close>

type_synonym ('a, 'x) script = "'x \<Rightarrow> ('a result \<times> 'x) option"

definition script_return :: "'a \<Rightarrow> ('a, 'x) script" where
  "script_return r x = Some (Inr r, x)"

definition script_bind :: "('a, 'x) script \<Rightarrow> ('a \<Rightarrow> ('b, 'x) script) \<Rightarrow> ('b, 'x) script" where
  "script_bind m f x =
     Option.bind (m x) (\<lambda>(r, x1). case r of Inl e \<Rightarrow> Some (Inl e, x1) | Inr v \<Rightarrow> f v x1)"

definition script_get :: "('x \<Rightarrow> 'a) \<Rightarrow> ('a, 'x) script" where
  "script_get f x = Some (Inr (f x), x)"

definition script_do :: "('x \<Rightarrow> 'x) \<Rightarrow> (unit, 'x) script" where
  "script_do f x = Some (Inr (), f x)"

text \<open>A call that always returns, as a script.\<close>

definition script_call :: "('x \<Rightarrow> 'a result \<times> 'x) \<Rightarrow> ('a, 'x) script" where
  "script_call f x = (let (r, x1) = f x in Some (r, x1))"

text \<open>
  \<open>for rnd in range(rnd, cap + 1)\<close> with the rounds left as the argument. A turn gives whether to stop,
  or \<open>None\<close> when it gives up (a deadline); the loop gives the round it stopped in.
\<close>

fun until_round :: "(bool option, 'x) script \<Rightarrow> nat \<Rightarrow> nat \<Rightarrow> (nat option, 'x) script" where
  "until_round turn rnd 0 = script_return None"
| "until_round turn rnd (Suc left) =
     script_bind turn (\<lambda>v. case v of
         None \<Rightarrow> script_return None
       | Some stop \<Rightarrow> if stop then script_return (Some rnd) else until_round turn (Suc rnd) left)"

section \<open>Two sessions in one process\<close>

record 's ends =
  en_a :: "'s session_ops"
  en_b :: "'s session_ops"
  en_advance :: "time \<Rightarrow> 's \<Rightarrow> 's"

definition advance_clocks :: "'s ends \<Rightarrow> time \<Rightarrow> (unit, 's) script" where
  "advance_clocks en dt = script_do (en_advance en dt)"

text \<open>A round: advance the clocks, pump both, and look whether the goal is reached.\<close>

definition session_turn :: "(unit, 's) script \<Rightarrow> 's ends \<Rightarrow> ('s \<Rightarrow> bool) \<Rightarrow> (bool option, 's) script" where
  "session_turn tick en reached =
     script_bind tick (\<lambda>_.
     script_bind (so_pump (en_a en)) (\<lambda>_.
     script_bind (so_pump (en_b en)) (\<lambda>_. script_get (\<lambda>s. Some (reached s)))))"

definition sessions_established :: "'s ends \<Rightarrow> 's \<Rightarrow> bool" where
  "sessions_established en s \<longleftrightarrow> so_established (en_a en) s \<and> so_established (en_b en) s"

definition sessions_closed :: "'s ends \<Rightarrow> 's \<Rightarrow> bool" where
  "sessions_closed en s \<longleftrightarrow> so_state (en_a en) s = CLOSED \<and> so_state (en_b en) s = CLOSED"

definition session_handshake :: "(unit, 's) script \<Rightarrow> 's ends \<Rightarrow> nat \<Rightarrow> (nat option, 's) script" where
  "session_handshake tick en cap = until_round (session_turn tick en (sessions_established en)) 1 cap"

definition session_finish :: "(unit, 's) script \<Rightarrow> 's ends \<Rightarrow> nat \<Rightarrow> (nat option, 's) script" where
  "session_finish tick en cap = until_round (session_turn tick en (sessions_closed en)) 1 cap"

section \<open>Reasoning about scripts\<close>

text \<open>A script returns (by a value or an exception) in every state.\<close>

definition script_returns :: "('a, 'x) script \<Rightarrow> bool" where
  "script_returns m \<longleftrightarrow> (\<forall>x. m x \<noteq> None)"

lemma script_returns_bind [intro]:
  assumes "script_returns m" and "\<And>v. script_returns (f v)"
  shows "script_returns (script_bind m f)"
  unfolding script_returns_def
proof
  fix x
  obtain r x1 where "m x = Some (r, x1)" using assms(1) unfolding script_returns_def by (metis option.exhaust prod.exhaust)
  then show "script_bind m f x \<noteq> None"
    using assms(2) by (cases r) (simp_all add: script_bind_def script_returns_def)
qed

lemma script_returns_basic [simp, intro]:
  "script_returns (script_return v)" "script_returns (script_get g)" "script_returns (script_do f)"
  by (simp_all add: script_returns_def script_return_def script_get_def script_do_def)

lemma script_returns_if [intro]:
  "script_returns m \<Longrightarrow> script_returns n \<Longrightarrow> script_returns (if c then m else n)"
  by simp

lemma script_returns_option:
  "script_returns m \<Longrightarrow> (\<And>w. script_returns (f w)) \<Longrightarrow> script_returns (case v of None \<Rightarrow> m | Some w \<Rightarrow> f w)"
  by (cases v) simp_all

lemmas script_returns_intros = script_returns_bind script_returns_if script_returns_option script_returns_basic

lemma until_round_returns: "script_returns turn \<Longrightarrow> script_returns (until_round turn rnd left)"
  by (induction left arbitrary: rnd) (auto split: option.split)

text \<open>A session whose pumps all return, by a value or an exception.\<close>

definition pumps_return :: "'s session_ops \<Rightarrow> bool" where
  "pumps_return api \<longleftrightarrow> (\<forall>s. so_pump api s \<noteq> None)"

lemma session_calls_return:
  assumes "pumps_return (en_a en)" and "pumps_return (en_b en)" and "script_returns tick"
  shows "script_returns (so_pump (en_a en))" "script_returns (so_pump (en_b en))" "script_returns (advance_clocks en dt)"
    "script_returns (script_call f)" "script_returns (session_handshake tick en cap)" "script_returns (session_finish tick en cap)"
proof -
  show p: "script_returns (so_pump (en_a en))" "script_returns (so_pump (en_b en))"
    using assms(1,2) by (simp_all add: pumps_return_def script_returns_def)
  show "script_returns (advance_clocks en dt)" "script_returns (script_call f)"
    by (simp_all add: advance_clocks_def) (simp add: script_call_def script_returns_def split_beta Let_def)
  have "script_returns (session_turn tick en g)" for g
    unfolding session_turn_def by (intro script_returns_intros assms(3) p)
  then show "script_returns (session_handshake tick en cap)" "script_returns (session_finish tick en cap)"
    by (simp_all add: session_handshake_def session_finish_def until_round_returns)
qed

text \<open>The value of a loop is a round within the cap, in which the last turn said to stop.\<close>

lemma until_round_value:
  assumes "until_round turn rnd left x = Some (Inr (Some n), x')"
  shows "rnd \<le> n \<and> n < rnd + left \<and> (\<exists>x1. turn x1 = Some (Inr (Some True), x'))"
  using assms
proof (induction left arbitrary: rnd x)
  case (Suc left)
  obtain q x1 where t: "turn x = Some (q, x1)"
    using Suc.prems by (cases "turn x") (auto simp: script_bind_def)
  obtain v where v: "q = Inr v" using Suc.prems t by (cases q) (simp_all add: script_bind_def)
  with t Suc.prems have "v = Some True \<and> n = rnd \<and> x1 = x' \<or> until_round turn (Suc rnd) left x1 = Some (Inr (Some n), x')"
    by (auto simp: script_bind_def script_return_def split: option.splits if_splits)
  with Suc.IH t v show ?case by fastforce
qed (simp add: script_return_def)

lemma script_bind_Inr:
  "script_bind m f x = Some (Inr r, x') \<longleftrightarrow> (\<exists>v x1. m x = Some (Inr v, x1) \<and> f v x1 = Some (Inr r, x'))"
proof
  assume b: "script_bind m f x = Some (Inr r, x')"
  then obtain q x1 where q: "m x = Some (q, x1)" by (cases "m x") (auto simp: script_bind_def)
  with b show "\<exists>v x1. m x = Some (Inr v, x1) \<and> f v x1 = Some (Inr r, x')" by (cases q) (simp_all add: script_bind_def)
qed (auto simp: script_bind_def)

section \<open>Scripts beside a ghost state\<close>

text \<open>
  A run of a script that ends with a value takes a state related to a ghost by \<open>G\<close> to one related to
  some ghost by \<open>H\<close>. A run that raises ends the program, so nothing is asked of it.
\<close>

definition ghosted :: "('x \<Rightarrow> 'g \<Rightarrow> bool) \<Rightarrow> ('a, 'x) script \<Rightarrow> ('a \<Rightarrow> 'x \<Rightarrow> 'g \<Rightarrow> bool) \<Rightarrow> bool" where
  "ghosted G m H \<longleftrightarrow> (\<forall>x g r x'. G x g \<and> m x = Some (Inr r, x') \<longrightarrow> (\<exists>g'. H r x' g'))"

lemma ghostedD: "ghosted G m H \<Longrightarrow> G x g \<Longrightarrow> m x = Some (Inr r, x') \<Longrightarrow> \<exists>g'. H r x' g'"
  unfolding ghosted_def by blast

lemma ghosted_bind: "ghosted G m H \<Longrightarrow> (\<And>v. ghosted (H v) (f v) K) \<Longrightarrow> ghosted G (script_bind m f) K"
  unfolding ghosted_def script_bind_Inr by meson

lemma ghosted_return: "(\<And>x g. G x g \<Longrightarrow> H v x g) \<Longrightarrow> ghosted G (script_return v) H"
  unfolding ghosted_def script_return_def by blast

lemma ghosted_get: "(\<And>x g. G x g \<Longrightarrow> H (f x) x g) \<Longrightarrow> ghosted G (script_get f) H"
  unfolding ghosted_def script_get_def by auto

lemma ghosted_if: "(c \<Longrightarrow> ghosted G m H) \<Longrightarrow> (\<not> c \<Longrightarrow> ghosted G n H) \<Longrightarrow> ghosted G (if c then m else n) H"
  by simp

lemma ghosted_option:
  "(v = None \<Longrightarrow> ghosted G m H) \<Longrightarrow> (\<And>w. v = Some w \<Longrightarrow> ghosted G (f w) H) \<Longrightarrow>
   ghosted G (case v of None \<Rightarrow> m | Some w \<Rightarrow> f w) H"
  by (cases v) simp_all

lemma ghosted_weaken:
  "ghosted G m H \<Longrightarrow> (\<And>x g. G' x g \<Longrightarrow> G x g) \<Longrightarrow> (\<And>r x g. H r x g \<Longrightarrow> H' r x g) \<Longrightarrow> ghosted G' m H'"
  unfolding ghosted_def by meson

lemma ghosted_until:
  "ghosted G turn (\<lambda>_. G) \<Longrightarrow>
   ghosted G (until_round turn rnd left) (\<lambda>v x g. G x g \<and> (\<forall>n. v = Some n \<longrightarrow> rnd \<le> n \<and> n < rnd + left))"
proof (induction left arbitrary: rnd)
  case (Suc left)
  show ?case unfolding until_round.simps
    by (rule ghosted_bind [OF Suc.prems], rule ghosted_option)
      (auto intro!: ghosted_return ghosted_weaken [OF Suc.IH [OF Suc.prems, of "Suc rnd"]])
qed (simp add: ghosted_return)

lemma ghosted_turn:
  assumes "ghosted G tick (\<lambda>_. G)" and "ghosted G (so_pump (en_a en)) (\<lambda>_. G)" and "ghosted G (so_pump (en_b en)) (\<lambda>_. G)"
  shows "ghosted G (session_turn tick en goal) (\<lambda>_. G)"
  unfolding session_turn_def by (intro ghosted_bind [OF assms(1)] ghosted_bind [OF assms(2)] ghosted_bind [OF assms(3)] ghosted_get)

lemma ghosted_phases:
  assumes "ghosted G tick (\<lambda>_. G)" and "ghosted G (so_pump (en_a en)) (\<lambda>_. G)" and "ghosted G (so_pump (en_b en)) (\<lambda>_. G)"
  shows "ghosted G (session_handshake tick en cap) (\<lambda>v x g. G x g \<and> (\<forall>n. v = Some n \<longrightarrow> n \<in> {1..cap}))"
    and "ghosted G (session_finish tick en cap) (\<lambda>v x g. G x g \<and> (\<forall>n. v = Some n \<longrightarrow> n \<in> {1..cap}))"
  unfolding session_handshake_def session_finish_def
  by (rule ghosted_weaken [OF ghosted_until [OF ghosted_turn [OF assms]]]; auto)+

end
