(* ===== verification/Demo_Drive.thy ===== *)
theory Demo_Drive
  imports Chat Script
begin

text \<open>
  The shape the chat programs under \<open>examples/\<close> share: two \<open>ChatSession\<close>s driven in one process
  through a handshake, an exchange of messages, a check and a close. The theories of the programs
  supply the link, the caps and the messages. What is printed is left out, except which ERROR line ends a program.
\<close>

section \<open>Two chat sessions in one process\<close>

record 's Talkers =
  tk_a :: ChatSession
  tk_b :: ChatSession
  tk_link :: 's

definition new_talkers :: "'s \<Rightarrow> 's Talkers" where
  "new_talkers s =
     \<lparr>tk_a = ChatSession_init DEFAULT_STREAM_ID, tk_b = ChatSession_init DEFAULT_STREAM_ID, tk_link = s\<rparr>"

definition talk_pump_a :: "(pstr \<Rightarrow> real) \<Rightarrow> 's ends \<Rightarrow> (ChatMessage list, 's Talkers) script" where
  "talk_pump_a fp en x =
     map_option (\<lambda>(r, c, s). (r, x\<lparr>tk_a := c, tk_link := s\<rparr>)) (chat_pump fp (en_a en) (tk_a x) (tk_link x))"

definition talk_pump_b :: "(pstr \<Rightarrow> real) \<Rightarrow> 's ends \<Rightarrow> (ChatMessage list, 's Talkers) script" where
  "talk_pump_b fp en x =
     map_option (\<lambda>(r, c, s). (r, x\<lparr>tk_b := c, tk_link := s\<rparr>)) (chat_pump fp (en_b en) (tk_b x) (tk_link x))"

definition talk_say_a :: "(real \<Rightarrow> pstr) \<Rightarrow> 's ends \<Rightarrow> pstr \<Rightarrow> (int, 's Talkers) script" where
  "talk_say_a fr en msg x =
     (let (r, c, s) = send_message fr (en_a en) msg (tk_a x) (tk_link x) in Some (r, x\<lparr>tk_a := c, tk_link := s\<rparr>))"

definition talk_say_b :: "(real \<Rightarrow> pstr) \<Rightarrow> 's ends \<Rightarrow> pstr \<Rightarrow> (int, 's Talkers) script" where
  "talk_say_b fr en msg x =
     (let (r, c, s) = send_message fr (en_b en) msg (tk_b x) (tk_link x) in Some (r, x\<lparr>tk_b := c, tk_link := s\<rparr>))"

definition talk_connect :: "'s ends \<Rightarrow> (SessionEvent list, 's Talkers) script" where
  "talk_connect en x = (let (r, s) = chat_connect (en_a en) (tk_link x) in Some (r, x\<lparr>tk_link := s\<rparr>))"

definition talk_close :: "'s ends \<Rightarrow> (SessionEvent list, 's Talkers) script" where
  "talk_close en x = (let (r, s) = chat_close (en_a en) (tk_link x) in Some (r, x\<lparr>tk_link := s\<rparr>))"

text \<open>Both clocks move by the same step; here they are one clock of the link.\<close>

definition advance_both :: "'s ends \<Rightarrow> time \<Rightarrow> (bool, 's Talkers) script" where
  "advance_both en dt =
     script_bind (script_do (\<lambda>x. x\<lparr>tk_link := en_advance en dt (tk_link x)\<rparr>)) (\<lambda>_. script_return True)"

text \<open>A round that a deadline may refuse before anything moves.\<close>

definition timed_tick :: "('s \<Rightarrow> bool) \<Rightarrow> 's ends \<Rightarrow> time \<Rightarrow> (bool, 's Talkers) script" where
  "timed_tick allowed en dt =
     script_bind (script_get (\<lambda>x. allowed (tk_link x)))
       (\<lambda>ok. if ok then advance_both en dt else script_return False)"

lemma timed_tick_always: "timed_tick (\<lambda>_. True) en dt = advance_both en dt"
  by (simp add: timed_tick_def script_bind_def script_get_def fun_eq_iff)

definition both_established :: "'s ends \<Rightarrow> 's Talkers \<Rightarrow> bool" where
  "both_established en x \<longleftrightarrow> chat_is_established (en_a en) (tk_link x) \<and> chat_is_established (en_b en) (tk_link x)"

definition both_closed :: "'s ends \<Rightarrow> 's Talkers \<Rightarrow> bool" where
  "both_closed en x \<longleftrightarrow> chat_is_closed (en_a en) (tk_link x) \<and> chat_is_closed (en_b en) (tk_link x)"

text \<open>
  A round of the handshake and of the close. \<open>tick\<close> starts a round: it moves the clocks, and says
  whether the deadline, if the program has one, allows the round.
\<close>

definition pump_turn ::
  "(bool, 's Talkers) script \<Rightarrow> (pstr \<Rightarrow> real) \<Rightarrow> 's ends \<Rightarrow> ('s Talkers \<Rightarrow> bool) \<Rightarrow> (bool option, 's Talkers) script" where
  "pump_turn tick fp en reached =
     script_bind tick (\<lambda>allowed.
       if \<not> allowed then script_return None
       else script_bind (talk_pump_a fp en) (\<lambda>_.
            script_bind (talk_pump_b fp en) (\<lambda>_. script_get (\<lambda>x. Some (reached x)))))"

definition drive_handshake ::
  "(bool, 's Talkers) script \<Rightarrow> (pstr \<Rightarrow> real) \<Rightarrow> 's ends \<Rightarrow> nat \<Rightarrow> (nat option, 's Talkers) script" where
  "drive_handshake tick fp en cap = until_round (pump_turn tick fp en (both_established en)) 1 cap"

definition drive_close ::
  "(bool, 's Talkers) script \<Rightarrow> (pstr \<Rightarrow> real) \<Rightarrow> 's ends \<Rightarrow> nat \<Rightarrow> (nat option, 's Talkers) script" where
  "drive_close tick fp en cap = until_round (pump_turn tick fp en (both_closed en)) 1 cap"

text \<open>One more message of a side, while it has any.\<close>

definition say_next :: "(pstr \<Rightarrow> (int, 'x) script) \<Rightarrow> pstr list \<Rightarrow> (pstr list, 'x) script" where
  "say_next say out =
     (case out of [] \<Rightarrow> script_return [] | msg # rest \<Rightarrow> script_bind (say msg) (\<lambda>_. script_return rest))"

fun drive_chat ::
  "(bool, 's Talkers) script \<Rightarrow> (real \<Rightarrow> pstr) \<Rightarrow> (pstr \<Rightarrow> real) \<Rightarrow> 's ends \<Rightarrow> nat \<Rightarrow> nat \<Rightarrow> nat
    \<Rightarrow> pstr list \<Rightarrow> pstr list \<Rightarrow> (bool, 's Talkers) script" where
  "drive_chat tick fr fp en num_a num_b 0 out_a out_b = script_return False"
| "drive_chat tick fr fp en num_a num_b (Suc left) out_a out_b =
     script_bind tick (\<lambda>allowed.
       if \<not> allowed then script_return False
       else
         script_bind (say_next (talk_say_a fr en) out_a) (\<lambda>rest_a.
         script_bind (say_next (talk_say_b fr en) out_b) (\<lambda>rest_b.
         script_bind (talk_pump_b fp en) (\<lambda>_.
         script_bind (talk_pump_a fp en) (\<lambda>_.
         script_bind (script_get (\<lambda>x. num_b \<le> length (chat_received (tk_a x)) \<and> num_a \<le> length (chat_received (tk_b x))))
           (\<lambda>all_there.
              if all_there then script_return True
              else drive_chat tick fr fp en num_a num_b left rest_a rest_b))))))"

section \<open>The program\<close>

datatype TalkExit = NoHandshake | NotConverged | Mismatch | NotClosed | TalkDone nat nat

definition exit_code :: "TalkExit \<Rightarrow> int" where
  "exit_code e = (case e of TalkDone h c \<Rightarrow> 0 | _ \<Rightarrow> 1)"

definition message_texts :: "ChatMessage list \<Rightarrow> json list" where
  "message_texts ms = map cm_text ms"

definition texts_match :: "pstr list \<Rightarrow> pstr list \<Rightarrow> 's Talkers \<Rightarrow> bool" where
  "texts_match msgs_a msgs_b x \<longleftrightarrow>
     message_texts (chat_received (tk_b x)) = map JStr msgs_a \<and>
     message_texts (chat_received (tk_a x)) = map JStr msgs_b"

definition talk_main ::
  "(bool, 's Talkers) script \<Rightarrow> nat \<Rightarrow> nat \<Rightarrow> nat \<Rightarrow> (real \<Rightarrow> pstr) \<Rightarrow> (pstr \<Rightarrow> real) \<Rightarrow> 's ends
    \<Rightarrow> pstr list \<Rightarrow> pstr list \<Rightarrow> (TalkExit, 's Talkers) script" where
  "talk_main tick handshake_cap chat_cap close_cap fr fp en msgs_a msgs_b =
     script_bind (talk_connect en) (\<lambda>_.
     script_bind (drive_handshake tick fp en handshake_cap) (\<lambda>hs. case hs of
       None \<Rightarrow> script_return NoHandshake
     | Some hs_rounds \<Rightarrow>
         script_bind (drive_chat tick fr fp en (length msgs_a) (length msgs_b) chat_cap msgs_a msgs_b) (\<lambda>chat_ok.
         if \<not> chat_ok then script_return NotConverged
         else
           script_bind (script_get (texts_match msgs_a msgs_b)) (\<lambda>match.
           if \<not> match then script_return Mismatch
           else
             script_bind (talk_close en) (\<lambda>_.
             script_bind (drive_close tick fp en close_cap) (\<lambda>cl.
             script_get (\<lambda>x. case cl of
               None \<Rightarrow> NotClosed
             | Some close_rounds \<Rightarrow>
                 if both_closed en x then TalkDone hs_rounds close_rounds else NotClosed)))))))"

section \<open>Reasoning about the program\<close>

lemma talk_calls_return [simp, intro]:
  "script_returns (talk_connect en)" "script_returns (talk_close en)" "script_returns (talk_say_a fr en msg)"
  "script_returns (talk_say_b fr en msg)" "script_returns (advance_both en dt)"
  by (auto simp: advance_both_def)
    (simp_all add: script_returns_def talk_connect_def talk_close_def talk_say_a_def talk_say_b_def split_beta Let_def)

lemma timed_tick_returns [simp, intro]: "script_returns (timed_tick allowed en dt)"
  unfolding timed_tick_def by (intro script_returns_intros talk_calls_return)

lemma say_next_returns: "(\<And>msg. script_returns (say msg)) \<Longrightarrow> script_returns (say_next say out)"
  by (auto simp: say_next_def split: list.split)

text \<open>A pump of a chat session returns whenever that of its session does.\<close>

lemma chat_pump_some: "pumps_return api \<Longrightarrow> chat_pump fp api c s \<noteq> None"
proof -
  assume "pumps_return api"
  then obtain r s1 where "so_pump api s = Some (r, s1)" unfolding pumps_return_def by (metis option.exhaust prod.exhaust)
  then show ?thesis by (cases r) (simp_all add: chat_pump_def split_beta Let_def split: sum.split)
qed

lemma talk_pumps_return:
  assumes "pumps_return (en_a en)" and "pumps_return (en_b en)"
  shows "script_returns (talk_pump_a fp en)" and "script_returns (talk_pump_b fp en)"
  using chat_pump_some [OF assms(1), of fp] chat_pump_some [OF assms(2), of fp]
  by (simp_all add: script_returns_def talk_pump_a_def talk_pump_b_def)

lemma talk_main_returns:
  assumes "pumps_return (en_a en)" and "pumps_return (en_b en)" and "script_returns tick"
  shows "script_returns (talk_main tick hc cc clc fr fp en msgs_a msgs_b)"
proof -
  note p = talk_pumps_return [OF assms(1,2), of fp]
  have turn: "script_returns (pump_turn tick fp en g)" for g
    unfolding pump_turn_def by (intro script_returns_intros assms(3) p)
  have say: "script_returns (say_next (talk_say_a fr en) o1)" "script_returns (say_next (talk_say_b fr en) o1)" for o1
    by (auto intro: say_next_returns)
  have chat: "script_returns (drive_chat tick fr fp en na nb left oa ob)" for na nb left oa ob
  proof (induction left arbitrary: oa ob)
    case (Suc left)
    then show ?case unfolding drive_chat.simps
      by (intro script_returns_intros assms(3) p say)
  qed simp
  show ?thesis
    unfolding talk_main_def drive_handshake_def drive_close_def
    by (intro script_returns_intros talk_calls_return until_round_returns turn chat)
qed

lemma talk_main_rounds:
  assumes "talk_main tick hc cc clc fr fp en msgs_a msgs_b x = Some (Inr (TalkDone h c), x')"
  shows "1 \<le> h \<and> h \<le> hc \<and> 1 \<le> c \<and> c \<le> clc"
proof -
  obtain x1 x2 x3 x4 where h: "drive_handshake tick fp en hc x1 = Some (Inr (Some h), x2)"
    and c: "drive_close tick fp en clc x3 = Some (Inr (Some c), x4)"
    using assms
    by (auto simp: talk_main_def script_bind_Inr script_return_def script_get_def split: option.splits if_splits)
  from until_round_value [OF h [unfolded drive_handshake_def]] until_round_value [OF c [unfolded drive_close_def]]
  show ?thesis by auto
qed

end
