(* ===== verification/Demo_Shadow.thy ===== *)
theory Demo_Shadow
  imports Demo_Drive Chat_Props
begin

text \<open>
  A program over two chat sessions is a conversation in the sense of \<open>Chat\<close>: every run of it that ends
  with a value is a \<open>chat_run\<close> with the same sessions, and the log of that run tells what was said.
\<close>

section \<open>The calls with and without the log\<close>

definition plain_notes :: "(bytes \<Rightarrow> 's StreamLog \<Rightarrow> 's StreamLog) \<Rightarrow> (bytes list \<Rightarrow> 's StreamLog \<Rightarrow> 's StreamLog) \<Rightarrow> bool" where
  "plain_notes ns ng \<longleftrightarrow> (\<forall>d l. lg_state (ns d l) = lg_state l) \<and> (\<forall>c l. lg_state (ng c l) = lg_state l)"

lemma plain_notes_ab:
  "plain_notes (\<lambda>d l. l\<lparr>lg_sent_a := lg_sent_a l @ d\<rparr>) (\<lambda>cs l. l\<lparr>lg_got_a := lg_got_a l @ cs\<rparr>)"
  "plain_notes (\<lambda>d l. l\<lparr>lg_sent_b := lg_sent_b l @ d\<rparr>) (\<lambda>cs l. l\<lparr>lg_got_b := lg_got_b l @ cs\<rparr>)"
  by (simp_all add: plain_notes_def)

lemma send_message_logged:
  assumes "plain_notes ns ng" and "send_message fr api text c (lg_state l) = (r, c', s')"
  shows "\<exists>l'. send_message fr (logged ns ng sid api) text c l = (r, c', l') \<and> lg_state l' = s'"
proof -
  obtain now s1 where n: "so_now api (lg_state l) = (now, s1)" by fastforce
  from assms show ?thesis
    by (auto simp: send_message_def logged_simps n plain_notes_def split: sum.splits prod.splits)
qed

lemma chat_pump_logged:
  assumes "plain_notes ns ng" and "chat_pump fp api c (lg_state l) = Some (r, c', s')"
  shows "\<exists>l'. chat_pump fp (logged ns ng sid api) c l = Some (r, c', l') \<and> lg_state l' = s'"
proof -
  obtain q s1 where p: "so_pump api (lg_state l) = Some (q, s1)" using assms(2) by (auto simp: chat_pump_def bind_eq_Some_conv)
  obtain cs s2 where c: "so_recv_on api (ch_stream_id c) s1 = (cs, s2)" by fastforce
  from assms p c show ?thesis
    by (cases q) (auto simp: chat_pump_def logged_simps plain_notes_def Let_def split: prod.splits sum.splits)
qed

section \<open>Following a script\<close>

definition follows :: "'s Talkers \<Rightarrow> 's Conversation \<Rightarrow> bool" where
  "follows x v \<longleftrightarrow> tk_a x = cv_a v \<and> tk_b x = cv_b v \<and> tk_link x = lg_state (cv_log v)"

lemma follows_new: "follows (new_talkers s) (new_conversation DEFAULT_STREAM_ID s)"
  by (simp add: follows_def new_talkers_def new_conversation_def new_log_def)

abbreviation run_in ::
  "(real \<Rightarrow> pstr) \<Rightarrow> (pstr \<Rightarrow> real) \<Rightarrow> 's ends \<Rightarrow> 's talk list \<Rightarrow> 's Conversation \<Rightarrow> 's Conversation option" where
  "run_in fr fp en \<equiv> chat_run fr fp DEFAULT_STREAM_ID (en_a en) (en_b en)"

lemma chat_run_append:
  "chat_run fr fp sid aa ab (xs @ ys) v = Option.bind (chat_run fr fp sid aa ab xs v) (chat_run fr fp sid aa ab ys)"
proof (induction xs arbitrary: v)
  case (Cons x xs)
  then show ?case by (cases "chat_act fr fp sid aa ab x v") simp_all
qed simp

definition shadows ::
  "(real \<Rightarrow> pstr) \<Rightarrow> (pstr \<Rightarrow> real) \<Rightarrow> 's ends \<Rightarrow> ('s talk \<Rightarrow> bool) \<Rightarrow> ('s Talkers \<Rightarrow> 's Conversation \<Rightarrow> bool)
    \<Rightarrow> ('a, 's Talkers) script \<Rightarrow> ('a \<Rightarrow> 's Talkers \<Rightarrow> 's Conversation \<Rightarrow> bool) \<Rightarrow> bool" where
  "shadows fr fp en ok R m S \<longleftrightarrow>
     (\<forall>x v r x'. follows x v \<and> R x v \<and> m x = Some (Inr r, x') \<longrightarrow>
        (\<exists>acts v'. run_in fr fp en acts v = Some v' \<and> list_all ok acts \<and> follows x' v' \<and> S r x' v'))"

lemma shadowsD:
  assumes "shadows fr fp en ok R m S" and "follows x v" and "R x v" and "m x = Some (Inr r, x')"
  obtains acts v' where "run_in fr fp en acts v = Some v'" "list_all ok acts" "follows x' v'" "S r x' v'"
  using assms unfolding shadows_def by blast

lemma shadows_bind:
  assumes m: "shadows fr fp en ok R m S" and f: "\<And>u. shadows fr fp en ok (S u) (f u) T"
  shows "shadows fr fp en ok R (script_bind m f) T"
  unfolding shadows_def
proof (intro allI impI, elim conjE)
  fix x v r x' assume a: "follows x v" "R x v" "script_bind m f x = Some (Inr r, x')"
  then obtain q x1 where q: "m x = Some (q, x1)" by (cases "m x") (auto simp: script_bind_def)
  with a(3) obtain u where m1: "m x = Some (Inr u, x1)" and f1: "f u x1 = Some (Inr r, x')"
    by (cases q) (simp_all add: script_bind_def)
  from shadowsD [OF m a(1,2) m1] obtain acts v1
    where 1: "run_in fr fp en acts v = Some v1" "list_all ok acts" "follows x1 v1" "S u x1 v1" .
  from shadowsD [OF f 1(3,4) f1] obtain acts2 v2
    where 2: "run_in fr fp en acts2 v1 = Some v2" "list_all ok acts2" "follows x' v2" "T r x' v2" .
  show "\<exists>acts v'. run_in fr fp en acts v = Some v' \<and> list_all ok acts \<and> follows x' v' \<and> T r x' v'"
    by (rule exI [of _ "acts @ acts2"]) (use 1 2 in \<open>simp add: chat_run_append\<close>)
qed

lemma shadows_still:
  assumes "\<And>x. m x = Some (Inr (g x), x)" and "\<And>x v. follows x v \<Longrightarrow> R x v \<Longrightarrow> S (g x) x v"
  shows "shadows fr fp en ok R m S"
  unfolding shadows_def using assms by (intro allI impI exI [of _ "[]"]) auto

lemma shadows_return: "(\<And>x v. follows x v \<Longrightarrow> R x v \<Longrightarrow> S u x v) \<Longrightarrow> shadows fr fp en ok R (script_return u) S"
  by (rule shadows_still [where g = "\<lambda>_. u"]) (simp_all add: script_return_def)

lemma shadows_get: "(\<And>x v. follows x v \<Longrightarrow> R x v \<Longrightarrow> S (g x) x v) \<Longrightarrow> shadows fr fp en ok R (script_get g) S"
  by (rule shadows_still [where g = g]) (simp_all add: script_get_def)

lemma shadows_if:
  "(c \<Longrightarrow> shadows fr fp en ok R m S) \<Longrightarrow> (\<not> c \<Longrightarrow> shadows fr fp en ok R n S) \<Longrightarrow>
   shadows fr fp en ok R (if c then m else n) S"
  by simp

lemma shadows_weaken:
  "shadows fr fp en ok R m S \<Longrightarrow> (\<And>x v. follows x v \<Longrightarrow> R' x v \<Longrightarrow> R x v) \<Longrightarrow>
   (\<And>r x v. follows x v \<Longrightarrow> S r x v \<Longrightarrow> S' r x v) \<Longrightarrow> shadows fr fp en ok R' m S'"
  unfolding shadows_def by meson

text \<open>One call, one act.\<close>

lemma shadows_one:
  assumes "\<And>x v r x'. follows x v \<Longrightarrow> R x v \<Longrightarrow> m x = Some (Inr r, x') \<Longrightarrow>
      \<exists>v'. chat_act fr fp DEFAULT_STREAM_ID (en_a en) (en_b en) act v = Some v' \<and> follows x' v' \<and> S r x' v'"
    and "ok act"
  shows "shadows fr fp en ok R m S"
  unfolding shadows_def
proof (intro allI impI, elim conjE)
  fix x v r x' assume "follows x v" "R x v" "m x = Some (Inr r, x')"
  with assms(1) obtain v' where "chat_act fr fp DEFAULT_STREAM_ID (en_a en) (en_b en) act v = Some v'"
    "follows x' v'" "S r x' v'" by blast
  with assms(2) show "\<exists>acts v'. run_in fr fp en acts v = Some v' \<and> list_all ok acts \<and> follows x' v' \<and> S r x' v'"
    by (intro exI [of _ "[act]"]) simp
qed

section \<open>What has been said\<close>

text \<open>The messages of one side so far: one for each text, at a time that satisfies \<open>T\<close>.\<close>

definition told :: "(time \<Rightarrow> bool) \<Rightarrow> pstr list \<Rightarrow> ChatMessage list \<Rightarrow> bool" where
  "told T texts ms \<longleftrightarrow> list_all2 (\<lambda>text m. \<exists>i t. T t \<and> m = chat_message i t text) texts ms"

text \<open>\<open>out_a\<close> and \<open>out_b\<close> are the texts still to say of \<open>all_a\<close> and \<open>all_b\<close>.\<close>

definition stage ::
  "('s \<Rightarrow> bool) \<Rightarrow> (time \<Rightarrow> bool) \<Rightarrow> pstr list \<Rightarrow> pstr list \<Rightarrow> pstr list \<Rightarrow> pstr list \<Rightarrow> 's Talkers \<Rightarrow> 's Conversation \<Rightarrow> bool" where
  "stage K T all_a all_b out_a out_b x v \<longleftrightarrow>
     K (tk_link x) \<and> (\<exists>said_a said_b. said_a @ out_a = all_a \<and> said_b @ out_b = all_b \<and>
       told T said_a (cv_said_a v) \<and> told T said_b (cv_said_b v))"

lemma told_more: "told T texts ms \<Longrightarrow> T t \<Longrightarrow> told T (texts @ [text]) (ms @ [chat_message i t text])"
  unfolding told_def by (rule list_all2_appendI) auto

locale talk_shadow =
  a: kept K "en_a en" + b: kept K "en_b en"
  for K :: "'s \<Rightarrow> bool" and en :: "'s ends" +
  fixes act_ok :: "'s talk \<Rightarrow> bool" and T :: "time \<Rightarrow> bool" and dt :: time
    and allowed :: "'s \<Rightarrow> bool"
  assumes own_calls_ok: "act_ok (SayA text)" "act_ok (SayB text)" "act_ok PumpA" "act_ok PumpB"
    and lifecycle_ok: "act_ok (Elsewhere (\<lambda>s. snd (so_connect (en_a en) s)))"
      "act_ok (Elsewhere (\<lambda>s. snd (so_close (en_a en) s)))"
    and advance_ok: "act_ok (Elsewhere (en_advance en dt))"
    and advance_kept: "K s \<Longrightarrow> K (en_advance en dt s)"
    and now_ok: "K s \<Longrightarrow> T (fst (so_now (en_a en) s))" "K s \<Longrightarrow> T (fst (so_now (en_b en) s))"
begin

abbreviation shadow where "shadow fr fp \<equiv> shadows fr fp en act_ok"

lemmas shadow_one = shadows_one [where ok = act_ok and en = en]

lemma shadow_say_a: "shadow fr fp (stage K T al bl (text # oa) ob) (talk_say_a fr en text) (\<lambda>_. stage K T al bl oa ob)"
proof (rule shadow_one [OF _ own_calls_ok(1)])
  fix x :: "'s Talkers" and v r x'
  assume f: "follows x v" and st: "stage K T al bl (text # oa) ob x v" and c: "talk_say_a fr en text x = Some (Inr r, x')"
  obtain q ch s where m: "send_message fr (en_a en) text (cv_a v) (lg_state (cv_log v)) = (q, ch, s)" by (metis prod_cases3)
  with c f have q: "q = Inr r" and x': "x' = x\<lparr>tk_a := ch, tk_link := s\<rparr>" by (auto simp: talk_say_a_def follows_def)
  from send_message_logged [OF plain_notes_ab(1) m, of DEFAULT_STREAM_ID] obtain l'
    where l': "send_message fr (log_a DEFAULT_STREAM_ID (en_a en)) text (cv_a v) (cv_log v) = (Inr r, ch, l')"
      "lg_state l' = s" unfolding log_a_def q by blast
  let ?m = "said (log_a DEFAULT_STREAM_ID (en_a en)) text (cv_a v) (cv_log v)"
  have K: "K (lg_state (cv_log v))" using st f by (simp add: stage_def follows_def)
  have "T (fst (so_now (log_a DEFAULT_STREAM_ID (en_a en)) (cv_log v)))" using now_ok(1) [OF K] by (simp add: log_a_def logged_simps)
  moreover obtain sa sb where "sa @ text # oa = al" "sb @ ob = bl" "told T sa (cv_said_a v)" "told T sb (cv_said_b v)"
    using st by (auto simp: stage_def)
  moreover have "K s" using a.send_message_kept [OF K m] .
  ultimately have "stage K T al bl oa ob x' (v\<lparr>cv_a := ch, cv_log := l', cv_said_a := cv_said_a v @ [?m]\<rparr>)"
    unfolding stage_def x' said_def
    by (intro conjI exI [of _ "sa @ [text]"] exI [of _ sb]) (simp_all add: told_more)
  with l' f show "\<exists>v'. chat_act fr fp DEFAULT_STREAM_ID (en_a en) (en_b en) (SayA text) v = Some v' \<and> follows x' v' \<and>
      stage K T al bl oa ob x' v'"
    by (auto simp: follows_def x')
qed

lemma shadow_say_b: "shadow fr fp (stage K T al bl oa (text # ob)) (talk_say_b fr en text) (\<lambda>_. stage K T al bl oa ob)"
proof (rule shadow_one [OF _ own_calls_ok(2)])
  fix x :: "'s Talkers" and v r x'
  assume f: "follows x v" and st: "stage K T al bl oa (text # ob) x v" and c: "talk_say_b fr en text x = Some (Inr r, x')"
  obtain q ch s where m: "send_message fr (en_b en) text (cv_b v) (lg_state (cv_log v)) = (q, ch, s)" by (metis prod_cases3)
  with c f have q: "q = Inr r" and x': "x' = x\<lparr>tk_b := ch, tk_link := s\<rparr>" by (auto simp: talk_say_b_def follows_def)
  from send_message_logged [OF plain_notes_ab(2) m, of DEFAULT_STREAM_ID] obtain l'
    where l': "send_message fr (log_b DEFAULT_STREAM_ID (en_b en)) text (cv_b v) (cv_log v) = (Inr r, ch, l')"
      "lg_state l' = s" unfolding log_b_def q by blast
  let ?m = "said (log_b DEFAULT_STREAM_ID (en_b en)) text (cv_b v) (cv_log v)"
  have K: "K (lg_state (cv_log v))" using st f by (simp add: stage_def follows_def)
  have "T (fst (so_now (log_b DEFAULT_STREAM_ID (en_b en)) (cv_log v)))" using now_ok(2) [OF K] by (simp add: log_b_def logged_simps)
  moreover obtain sa sb where "sa @ oa = al" "sb @ text # ob = bl" "told T sa (cv_said_a v)" "told T sb (cv_said_b v)"
    using st by (auto simp: stage_def)
  moreover have "K s" using b.send_message_kept [OF K m] .
  ultimately have "stage K T al bl oa ob x' (v\<lparr>cv_b := ch, cv_log := l', cv_said_b := cv_said_b v @ [?m]\<rparr>)"
    unfolding stage_def x' said_def
    by (intro conjI exI [of _ sa] exI [of _ "sb @ [text]"]) (simp_all add: told_more)
  with l' f show "\<exists>v'. chat_act fr fp DEFAULT_STREAM_ID (en_a en) (en_b en) (SayB text) v = Some v' \<and> follows x' v' \<and>
      stage K T al bl oa ob x' v'"
    by (auto simp: follows_def x')
qed

lemma shadow_pump_a: "shadow fr fp (stage K T al bl oa ob) (talk_pump_a fp en) (\<lambda>_. stage K T al bl oa ob)"
proof (rule shadow_one [OF _ own_calls_ok(3)])
  fix x :: "'s Talkers" and v r x'
  assume f: "follows x v" and st: "stage K T al bl oa ob x v" and c: "talk_pump_a fp en x = Some (Inr r, x')"
  then obtain ch s where m: "chat_pump fp (en_a en) (cv_a v) (lg_state (cv_log v)) = Some (Inr r, ch, s)"
    and x': "x' = x\<lparr>tk_a := ch, tk_link := s\<rparr>" by (auto simp: talk_pump_a_def follows_def)
  from chat_pump_logged [OF plain_notes_ab(1) m, of DEFAULT_STREAM_ID] obtain l'
    where l': "chat_pump fp (log_a DEFAULT_STREAM_ID (en_a en)) (cv_a v) (cv_log v) = Some (Inr r, ch, l')"
      "lg_state l' = s" unfolding log_a_def by blast
  have "K (lg_state (cv_log v))" using st f by (simp add: stage_def follows_def)
  from a.chat_pump_kept [OF this m] have "K s" .
  with l' f st show "\<exists>v'. chat_act fr fp DEFAULT_STREAM_ID (en_a en) (en_b en) PumpA v = Some v' \<and> follows x' v' \<and>
      stage K T al bl oa ob x' v'"
    by (simp add: follows_def x' stage_def)
qed

lemma shadow_pump_b: "shadow fr fp (stage K T al bl oa ob) (talk_pump_b fp en) (\<lambda>_. stage K T al bl oa ob)"
proof (rule shadow_one [OF _ own_calls_ok(4)])
  fix x :: "'s Talkers" and v r x'
  assume f: "follows x v" and st: "stage K T al bl oa ob x v" and c: "talk_pump_b fp en x = Some (Inr r, x')"
  then obtain ch s where m: "chat_pump fp (en_b en) (cv_b v) (lg_state (cv_log v)) = Some (Inr r, ch, s)"
    and x': "x' = x\<lparr>tk_b := ch, tk_link := s\<rparr>" by (auto simp: talk_pump_b_def follows_def)
  from chat_pump_logged [OF plain_notes_ab(2) m, of DEFAULT_STREAM_ID] obtain l'
    where l': "chat_pump fp (log_b DEFAULT_STREAM_ID (en_b en)) (cv_b v) (cv_log v) = Some (Inr r, ch, l')"
      "lg_state l' = s" unfolding log_b_def by blast
  have "K (lg_state (cv_log v))" using st f by (simp add: stage_def follows_def)
  from b.chat_pump_kept [OF this m] have "K s" .
  with l' f st show "\<exists>v'. chat_act fr fp DEFAULT_STREAM_ID (en_a en) (en_b en) PumpB v = Some v' \<and> follows x' v' \<and>
      stage K T al bl oa ob x' v'"
    by (simp add: follows_def x' stage_def)
qed

lemma shadow_elsewhere:
  assumes "act_ok (Elsewhere f)" and "\<And>s. K s \<Longrightarrow> K (f s)" and "\<And>x r x'. m x = Some (Inr r, x') \<Longrightarrow> x' = x\<lparr>tk_link := f (tk_link x)\<rparr>"
  shows "shadow fr fp (stage K T al bl oa ob) m (\<lambda>_. stage K T al bl oa ob)"
  by (rule shadow_one [OF _ assms(1)]) (use assms(2) in \<open>auto simp: stage_def follows_def dest!: assms(3)\<close>)

lemma shadow_connect: "shadow fr fp (stage K T al bl oa ob) (talk_connect en) (\<lambda>_. stage K T al bl oa ob)"
  by (rule shadow_elsewhere [OF lifecycle_ok(1)]) (auto simp: talk_connect_def chat_connect_def split_beta intro: a.connect_kept)

lemma shadow_close: "shadow fr fp (stage K T al bl oa ob) (talk_close en) (\<lambda>_. stage K T al bl oa ob)"
  by (rule shadow_elsewhere [OF lifecycle_ok(2)]) (auto simp: talk_close_def chat_close_def split_beta intro: a.close_kept)

lemma shadow_tick: "shadow fr fp (stage K T al bl oa ob) (timed_tick allowed en dt) (\<lambda>_. stage K T al bl oa ob)"
proof -
  have "shadow fr fp (stage K T al bl oa ob) (advance_both en dt) (\<lambda>_. stage K T al bl oa ob)"
    by (rule shadow_elsewhere [OF advance_ok])
      (auto simp: advance_both_def script_bind_def script_do_def script_return_def intro: advance_kept)
  then show ?thesis
    unfolding timed_tick_def
    by (intro shadows_bind [where S = "\<lambda>_. stage K T al bl oa ob"] shadows_get shadows_if shadows_return)
qed

lemma shadow_turn:
  "shadow fr fp (stage K T al bl oa ob) (pump_turn (timed_tick allowed en dt) fp en g) (\<lambda>_. stage K T al bl oa ob)"
  unfolding pump_turn_def
  by (intro shadows_bind [OF shadow_tick] shadows_if shadows_return shadows_bind [OF shadow_pump_a]
      shadows_bind [OF shadow_pump_b] shadows_get)

lemma shadow_until:
  assumes "shadow fr fp R turn (\<lambda>_. R)"
  shows "shadow fr fp R (until_round turn rnd left) (\<lambda>_. R)"
proof (induction left arbitrary: rnd)
  case (Suc left)
  show ?case
    unfolding until_round.simps
    by (rule shadows_bind [OF assms]) (auto split: option.split intro!: shadows_return Suc)
qed (simp add: shadows_return)

lemma shadow_say_next:
  "shadow fr fp (stage K T al bl oa ob) (say_next (talk_say_a fr en) oa) (\<lambda>rest. stage K T al bl rest ob)"
  "shadow fr fp (stage K T al bl oa ob) (say_next (talk_say_b fr en) ob) (\<lambda>rest. stage K T al bl oa rest)"
  by (auto simp: say_next_def split: list.split intro!: shadows_return shadows_bind [OF shadow_say_a] shadows_bind [OF shadow_say_b])

text \<open>The exchange: what it says is a part of the messages, and its value \<open>True\<close> counts the arrivals.\<close>

definition arrived :: "nat \<Rightarrow> nat \<Rightarrow> bool \<Rightarrow> 's Talkers \<Rightarrow> bool" where
  "arrived num_a num_b ok x \<longleftrightarrow>
     (ok \<longrightarrow> num_b \<le> length (ch_received (tk_a x)) \<and> num_a \<le> length (ch_received (tk_b x)))"

definition mid_stage :: "pstr list \<Rightarrow> pstr list \<Rightarrow> 's Talkers \<Rightarrow> 's Conversation \<Rightarrow> bool" where
  "mid_stage al bl x v \<longleftrightarrow> (\<exists>oa ob. stage K T al bl oa ob x v)"

lemma mid_stageI: "stage K T al bl oa ob x v \<Longrightarrow> mid_stage al bl x v"
  by (auto simp: mid_stage_def)

lemma shadow_chat:
  "shadow fr fp (stage K T al bl oa ob) (drive_chat (timed_tick allowed en dt) fr fp en na nb left oa ob)
     (\<lambda>ok x v. mid_stage al bl x v \<and> arrived na nb ok x)"
proof (induction left arbitrary: oa ob)
  case 0
  show ?case unfolding drive_chat.simps by (rule shadows_return) (auto simp: mid_stage_def arrived_def)
next
  case (Suc left)
  have last: "shadow fr fp (stage K T al bl ra rb)
      (script_bind (script_get (\<lambda>x. nb \<le> length (chat_received (tk_a x)) \<and> na \<le> length (chat_received (tk_b x))))
        (\<lambda>all_there. if all_there then script_return True
           else drive_chat (timed_tick allowed en dt) fr fp en na nb left ra rb))
      (\<lambda>ok x v. mid_stage al bl x v \<and> arrived na nb ok x)" for ra rb
    by (rule shadows_bind [where S = "\<lambda>c x v. stage K T al bl ra rb x v \<and>
          (c \<longrightarrow> nb \<le> length (chat_received (tk_a x)) \<and> na \<le> length (chat_received (tk_b x)))"], rule shadows_get, simp)
      (auto intro!: shadows_return shadows_weaken [OF Suc] simp: mid_stage_def arrived_def chat_received_def)
  show ?case
    unfolding drive_chat.simps
    by (intro shadows_bind [OF shadow_tick] shadows_if shadows_bind [OF shadow_say_next(1)]
        shadows_bind [OF shadow_say_next(2)] shadows_bind [OF shadow_pump_b] shadows_bind [OF shadow_pump_a] last
        shadows_return) (auto simp: mid_stage_def arrived_def)
qed

text \<open>After the exchange: messages only come in.\<close>

definition complete :: "pstr list \<Rightarrow> pstr list \<Rightarrow> 's Talkers \<Rightarrow> 's Conversation \<Rightarrow> bool" where
  "complete al bl x v \<longleftrightarrow> mid_stage al bl x v \<and> arrived (length al) (length bl) True x"

lemma shadow_complete:
  assumes "\<And>oa ob. shadow fr fp (stage K T al bl oa ob) m (\<lambda>_. stage K T al bl oa ob)"
    and "\<And>x r x'. m x = Some (Inr r, x') \<Longrightarrow>
      length (ch_received (tk_a x)) \<le> length (ch_received (tk_a x')) \<and>
      length (ch_received (tk_b x)) \<le> length (ch_received (tk_b x'))"
  shows "shadow fr fp (complete al bl) m (\<lambda>_. complete al bl)"
  unfolding shadows_def
proof (intro allI impI, elim conjE)
  fix x v r x' assume f: "follows x v" and c: "complete al bl x v" and m: "m x = Some (Inr r, x')"
  then obtain oa ob where "stage K T al bl oa ob x v" by (auto simp: complete_def mid_stage_def)
  from shadowsD [OF assms(1) f this m] obtain acts v'
    where "run_in fr fp en acts v = Some v'" "list_all act_ok acts" "follows x' v'" "stage K T al bl oa ob x' v'" .
  moreover have "arrived (length al) (length bl) True x'"
    using c assms(2) [OF m] by (simp add: complete_def arrived_def)
  ultimately show "\<exists>acts v'. run_in fr fp en acts v = Some v' \<and> list_all act_ok acts \<and> follows x' v' \<and> complete al bl x' v'"
    by (auto simp: complete_def mid_stage_def)
qed

lemma chat_pump_receives: "chat_pump fp api c s = Some (r, c', s') \<Longrightarrow> length (ch_received c) \<le> length (ch_received c')"
proof -
  assume p: "chat_pump fp api c s = Some (r, c', s')"
  then obtain q s1 where "so_pump api s = Some (q, s1)" by (auto simp: chat_pump_def bind_eq_Some_conv)
  with p show ?thesis by (cases q) (auto simp: chat_pump_def Let_def split: sum.splits prod.splits)
qed

lemma shadow_complete_turn:
  "shadow fr fp (complete al bl) (pump_turn (timed_tick allowed en dt) fp en g) (\<lambda>_. complete al bl)"
proof -
  have t: "shadow fr fp (complete al bl) (timed_tick allowed en dt) (\<lambda>_. complete al bl)"
    by (rule shadow_complete [OF shadow_tick])
      (auto simp: timed_tick_def advance_both_def script_bind_def script_do_def script_return_def script_get_def split: if_splits)
  have a: "shadow fr fp (complete al bl) (talk_pump_a fp en) (\<lambda>_. complete al bl)"
    by (rule shadow_complete [OF shadow_pump_a]) (auto simp: talk_pump_a_def dest: chat_pump_receives)
  have b: "shadow fr fp (complete al bl) (talk_pump_b fp en) (\<lambda>_. complete al bl)"
    by (rule shadow_complete [OF shadow_pump_b]) (auto simp: talk_pump_b_def dest: chat_pump_receives)
  show ?thesis
    unfolding pump_turn_def
    by (intro shadows_bind [OF t] shadows_if shadows_return shadows_bind [OF a] shadows_bind [OF b] shadows_get)
qed

lemma shadow_complete_close: "shadow fr fp (complete al bl) (talk_close en) (\<lambda>_. complete al bl)"
  by (rule shadow_complete [OF shadow_close]) (auto simp: talk_close_def split_beta)

text \<open>How a run of the program ends.\<close>

definition ended :: "pstr list \<Rightarrow> pstr list \<Rightarrow> TalkExit \<Rightarrow> 's Talkers \<Rightarrow> 's Conversation \<Rightarrow> bool" where
  "ended al bl e x v \<longleftrightarrow> mid_stage al bl x v \<and>
     (e = Mismatch \<longrightarrow> complete al bl x v \<and> \<not> texts_match al bl x) \<and>
     (\<forall>h c. e = TalkDone h c \<longrightarrow> complete al bl x v \<and> both_closed en x)"

lemma shadow_main:
  "shadow fr fp (stage K T al bl al bl) (talk_main (timed_tick allowed en dt) hc cc clc fr fp en al bl) (ended al bl)"
proof -
  have final: "shadow fr fp (complete al bl)
      (script_bind (talk_close en) (\<lambda>_. script_bind (drive_close (timed_tick allowed en dt) fp en clc) (\<lambda>cl.
         script_get (\<lambda>x. case cl of None \<Rightarrow> NotClosed
           | Some n \<Rightarrow> if both_closed en x then TalkDone h n else NotClosed)))) (ended al bl)" for h
    unfolding drive_close_def
    by (intro shadows_bind [OF shadow_complete_close] shadows_bind [OF shadow_until [OF shadow_complete_turn]] shadows_get)
      (auto simp: ended_def complete_def split: option.splits if_splits)
  have check: "shadow fr fp (complete al bl)
      (script_bind (script_get (texts_match al bl)) (\<lambda>match. if \<not> match then script_return Mismatch else
         script_bind (talk_close en) (\<lambda>_. script_bind (drive_close (timed_tick allowed en dt) fp en clc) (\<lambda>cl.
           script_get (\<lambda>x. case cl of None \<Rightarrow> NotClosed
             | Some n \<Rightarrow> if both_closed en x then TalkDone h n else NotClosed))))) (ended al bl)" for h
    by (rule shadows_bind [where S = "\<lambda>ok x v. complete al bl x v \<and> ok = texts_match al bl x"], rule shadows_get, simp)
      (auto intro!: shadows_return shadows_weaken [OF final] simp: ended_def complete_def)
  show ?thesis
    unfolding talk_main_def drive_handshake_def
    by (rule shadows_bind [OF shadow_connect], rule shadows_bind [OF shadow_until [OF shadow_turn]])
      (auto split: option.split intro!: shadows_return shadows_bind [OF shadow_chat] shadows_weaken [OF check] mid_stageI
        simp: ended_def complete_def arrived_def)
qed

text \<open>The run of a program as a conversation.\<close>

lemma talk_main_conversation:
  assumes "talk_main (timed_tick allowed en dt) hc cc clc fr fp en al bl (new_talkers s) = Some (Inr e, x)" and "K s"
  obtains acts v where "run_in fr fp en acts (new_conversation DEFAULT_STREAM_ID s) = Some v" "list_all act_ok acts"
    "follows x v" "ended al bl e x v"
proof -
  have "stage K T al bl al bl (new_talkers s) (new_conversation DEFAULT_STREAM_ID s)"
    using assms(2) by (simp add: stage_def new_talkers_def new_conversation_def told_def)
  from shadowsD [OF shadow_main follows_new this assms(1)] that show ?thesis .
qed

end

section \<open>From the stream to the program\<close>

lemma told_facts:
  assumes "told T texts ms"
  shows "map cm_text ms = map JStr texts" and "length ms = length texts"
    and "m \<in> set ms \<Longrightarrow> \<exists>i t text. T t \<and> m = chat_message i t text"
proof -
  show "length ms = length texts" using assms by (simp add: told_def list_all2_lengthD)
  show "map cm_text ms = map JStr texts"
    using assms unfolding told_def by (induction rule: list_all2_induct) (auto simp: chat_message_def)
  show "m \<in> set ms \<Longrightarrow> \<exists>i t text. T t \<and> m = chat_message i t text"
    using assms unfolding told_def by (induction rule: list_all2_induct) auto
qed

lemma told_messages_ok: "told T texts ms \<Longrightarrow> (\<And>t. T t \<Longrightarrow> float_ok fr fp t) \<Longrightarrow> list_all (message_ok fr fp) ms"
  by (auto simp: list_all_iff message_ok_def flat_ok_def chat_object_def chat_message_def dest!: told_facts(3))

lemma encoded_length: "encode_message fr m = Inr bs \<Longrightarrow> length bs \<le> 4 + MAX_MESSAGE_BYTES"
proof -
  assume "encode_message fr m = Inr bs"
  then obtain body where "length body \<le> MAX_MESSAGE_BYTES" "bs = be_encode 4 (int (length body)) @ body"
    by (auto simp: encode_message_def rbind_Inr pack_prefix MAX_MESSAGE_BYTES_def
        simp del: dumps.simps be_encode.simps split: if_splits)
  then show ?thesis by (simp del: be_encode.simps)
qed

lemma said_length: "speaks fr sid c ms out \<Longrightarrow> length out \<le> length ms * (4 + MAX_MESSAGE_BYTES)"
proof -
  assume s: "speaks fr sid c ms out"
  have "length (frame_of fr m) \<le> 4 + MAX_MESSAGE_BYTES" for m
    using encoded_length by (auto simp: frame_of_def split: sum.split)
  then have "sum_list (map (\<lambda>m. length (frame_of fr m)) ms) \<le> sum_list (map (\<lambda>_. 4 + MAX_MESSAGE_BYTES) ms)"
    by (intro sum_list_mono) simp
  then show ?thesis using s by (simp add: speaks_def length_concat comp_def sum_list_triv)
qed

text \<open>When as many messages have arrived as were to be said, and they are a prefix of those said, the texts match.\<close>

lemma arrivals_match:
  assumes "told T spoken ms" and "spoken @ rest = texts" and "take (length got) ms = got" and "length texts \<le> length got"
  shows "message_texts got = map JStr texts"
proof -
  have "length got \<le> length ms" using assms(3) by (metis length_take min.cobounded1)
  moreover have "length spoken + length rest = length texts" using assms(2) by auto
  ultimately have "length rest = 0" "length ms = length got" using assms(4) told_facts(2) [OF assms(1)] by linarith+
  with assms told_facts(1) [OF assms(1)] show ?thesis by (simp add: message_texts_def)
qed

end
