(* ===== verification/Talk_Link.thy ===== *)
theory Talk_Link
  imports Demo_Shadow Two_Sessions
begin

text \<open>
  The chat shape over any pair of channels that carries two sessions: what the conversation of a program
  inherits from the streams below it. The programs instantiate it with their links.
\<close>

sublocale duplex_stream \<subseteq> both: kept_pair "stream_inv ab ba t" t "end_a t ops_a" "end_b t ops_b"
  by (rule kept_pair.intro [OF at_a.kept_axioms at_b.kept_axioms])

definition link_ends :: "'w world_ops \<Rightarrow> 'w world_ops \<Rightarrow> (time \<Rightarrow> 'w duplex \<Rightarrow> 'w duplex) \<Rightarrow> 'w duplex ends" where
  "link_ends ops_a ops_b advance =
     \<lparr>en_a = end_a DEFAULT_STREAM_ID ops_a, en_b = end_b DEFAULT_STREAM_ID ops_b, en_advance = advance\<rparr>"

locale talk_link =
  duplex_stream ops_a ops_b ab ba arrives DEFAULT_STREAM_ID
  for ops_a ops_b :: "'w world_ops" and ab ba :: "'w \<Rightarrow> bytes list" and arrives :: "bytes \<Rightarrow> bytes \<Rightarrow> bool" +
  fixes advance :: "time \<Rightarrow> 'w duplex \<Rightarrow> 'w duplex" and dt :: time
    and K :: "'w duplex \<Rightarrow> bool" and T :: "time \<Rightarrow> bool"
  assumes clock_kept_a: "kept K (end_a DEFAULT_STREAM_ID ops_a)" and clock_kept_b: "kept K (end_b DEFAULT_STREAM_ID ops_b)"
    and clock_advance: "K d \<Longrightarrow> K (advance dt d)"
    and link_advance: "stream_inv ab ba DEFAULT_STREAM_ID l \<Longrightarrow>
      stream_inv ab ba DEFAULT_STREAM_ID (l\<lparr>lg_state := advance dt (lg_state l)\<rparr>)"
    and clock_ok_a: "K d \<Longrightarrow> T (fst (so_now (end_a DEFAULT_STREAM_ID ops_a) d))"
    and clock_ok_b: "K d \<Longrightarrow> T (fst (so_now (end_b DEFAULT_STREAM_ID ops_b) d))"

sublocale talk_link \<subseteq> talk: talk_shadow K "link_ends ops_a ops_b advance" both.harmless T dt allowed
  for allowed
proof (intro talk_shadow.intro talk_shadow_axioms.intro)
  show "kept K (en_a (link_ends ops_a ops_b advance))" "kept K (en_b (link_ends ops_a ops_b advance))"
    using clock_kept_a clock_kept_b by (simp_all add: link_ends_def)
  show "both.harmless (Elsewhere (\<lambda>s. snd (so_connect (en_a (link_ends ops_a ops_b advance)) s)))"
    "both.harmless (Elsewhere (\<lambda>s. snd (so_close (en_a (link_ends ops_a ops_b advance)) s)))"
    using at_a.connect_kept at_a.close_kept
    by (auto simp: both.harmless_def link_ends_def log_a_def logged_lift_simps)
  show "both.harmless (Elsewhere (en_advance (link_ends ops_a ops_b advance) dt))"
    using link_advance by (simp add: both.harmless_def link_ends_def)
qed (use clock_advance clock_ok_a clock_ok_b in \<open>simp_all add: both.harmless_def link_ends_def\<close>)

context talk_link
begin

text \<open>
  An orderly run of the program over such a link never finds the messages different, and a run
  that is done has both lists, in order, and both sessions closed.
\<close>

lemma talk_delivers:
  assumes "talk_main (timed_tick allowed (link_ends ops_a ops_b advance) dt) hc cc clc fr fp (link_ends ops_a ops_b advance)
      al bl (new_talkers s) = Some (Inr e, x)"
    and "stream_inv ab ba DEFAULT_STREAM_ID (new_log s)" and "K s"
    and "dx_orderly (tk_link x)" and "\<And>t. T t \<Longrightarrow> float_ok fr fp t"
    and "length al \<le> 1000" and "length bl \<le> 1000"
  shows "e \<noteq> Mismatch" and "e = TalkDone h c \<Longrightarrow> texts_match al bl x \<and> both_closed (link_ends ops_a ops_b advance) x"
proof -
  let ?t = "DEFAULT_STREAM_ID" and ?en = "link_ends ops_a ops_b advance"
  obtain acts v where run: "run_in fr fp ?en acts (new_conversation ?t s) = Some v"
    and acts: "list_all both.harmless acts" and fol: "follows x v" and fin: "talk.ended al bl e x v"
    by (rule talk.talk_main_conversation [OF assms(1,3)])
  obtain oa ob sa sb where st: "sa @ oa = al" "sb @ ob = bl" "told T sa (cv_said_a v)" "told T sb (cv_said_b v)"
    using fin by (auto simp: talk.ended_def talk.mid_stage_def stage_def)
  have msgs: "list_all (message_ok fr fp) (cv_said_a v @ cv_said_b v)"
    using told_messages_ok [OF st(3) assms(5)] told_messages_ok [OF st(4) assms(5)] by simp
  have conv: "conv_ok fr fp ?t v" using chat_run_ok [OF run conv_ok_init] .
  have len: "length (cv_said_a v) \<le> 1000" "length (cv_said_b v) \<le> 1000"
    using told_facts(2) [OF st(3)] told_facts(2) [OF st(4)] st(1,2) assms(6,7) by auto
  have "length (lg_sent_a (cv_log v)) \<le> 1000 * (4 + MAX_MESSAGE_BYTES)" "length (lg_sent_b (cv_log v)) \<le> 1000 * (4 + MAX_MESSAGE_BYTES)"
    using conv said_length le_trans [OF _ mult_le_mono1 [OF len(1)]] le_trans [OF _ mult_le_mono1 [OF len(2)]]
    unfolding conv_ok_def by blast+
  then have short: "int (length (lg_sent_a (cv_log v))) < SEQ_HALF" "int (length (lg_sent_b (cv_log v))) < SEQ_HALF"
    by (simp_all add: SEQ_HALF_def MAX_MESSAGE_BYTES_def)
  from run have run1: "chat_run fr fp ?t (end_a ?t ops_a) (end_b ?t ops_b) acts (new_conversation ?t s) = Some v"
    by (simp add: link_ends_def)
  from both.chat_run_kept [OF _ acts run1] assms(2) have "stream_inv ab ba ?t (cv_log v)" by (simp add: new_conversation_def)
  from stream_inv_ok [OF this _ short] assms(4) fol have stream: "stream_ok (cv_log v)" by (simp add: follows_def)
  from chat_in_order [OF run stream msgs]
  have pre: "take (length (ch_received (tk_b x))) (cv_said_a v) = ch_received (tk_b x)"
    "take (length (ch_received (tk_a x))) (cv_said_b v) = ch_received (tk_a x)" using fol by (simp_all add: follows_def)
  have all: "texts_match al bl x" if "talk.complete al bl x v"
    using that arrivals_match [OF st(3,1) pre(1)] arrivals_match [OF st(4,2) pre(2)]
    by (simp add: talk.complete_def talk.arrived_def texts_match_def chat_received_def)
  show "e \<noteq> Mismatch" using fin all by (auto simp: talk.ended_def)
  show "e = TalkDone h c \<Longrightarrow> texts_match al bl x \<and> both_closed ?en x"
    using fin all by (auto simp: talk.ended_def)
qed

end

end
