(* ===== verification/World_Kept.thy ===== *)
theory World_Kept
  imports Two_Sessions
begin

text \<open>
  A statement on the world (the channel and the clock) that sending, polling and reading the clock
  keep is kept by every call of a session. The clock of a loopback world is the instance: no call
  moves it.
\<close>

locale kept_world =
  fixes ops :: "'w world_ops" and I :: "'w \<Rightarrow> bool"
  assumes w_send_kept: "I w \<Longrightarrow> I (snd (w_send ops f w))"
    and w_recv_kept: "I w \<Longrightarrow> I (snd (w_recv ops t w))"
    and w_now_kept: "I w \<Longrightarrow> I (snd (w_now ops w))"
begin

lemma send_packets_world: "I w \<Longrightarrow> I (snd (send_packets ops pkts w))"
proof (induction pkts arbitrary: w)
  case (Cons p pkts)
  show ?case
  proof (cases "pack p")
    case (Inr raw)
    obtain r w1 where w1: "w_send ops raw w = (r, w1)" by fastforce
    with w_send_kept [OF Cons.prems, of raw] Cons.IH [of w1] Inr show ?thesis by (auto split: sum.split)
  qed (use Cons.prems in simp)
qed simp

lemma emit_world: "I w \<Longrightarrow> I (snd (emit ops out w))"
  using send_packets_world [of w "out_packets out"] by (auto simp: emit_def split: prod.split sum.split)

lemma emit_mux_world: "I w \<Longrightarrow> I (snd (snd (emit_mux ops out s w)))"
  using send_packets_world [of w "mo_packets out"] by (auto simp: emit_mux_def split: prod.split sum.split)

lemma machine_packet_world: "I w \<Longrightarrow> I (snd (snd (machine_packet ops s pkt now w)))"
  using emit_world [of w "fst (sm_on_packet (se_machine s) pkt now)"]
  by (simp add: machine_packet_def case_prod_beta Let_def)

lemma route_packet_world:
  assumes "I w"
  shows "I (snd (snd (route_packet ops s pkt w)))"
proof -
  obtain now w1 where n: "w_now ops w = (now, w1)" by fastforce
  then have w1: "I w1" using w_now_kept [OF assms] by simp
  let ?s1 = "s\<lparr>se_machine := note_data_activity (se_machine s) now\<rparr>"
  obtain r m where m: "mux_on_packet (se_mux ?s1) pkt now = (r, m)" by fastforce
  show ?thesis
    using n m w1 machine_packet_world [OF w1, of s pkt now] emit_mux_world [OF w1, of _ "?s1\<lparr>se_mux := m\<rparr>"]
    by (auto simp: route_packet_def Let_def split: sum.split prod.split) (metis snd_conv)+
qed

lemma drain_world: "drain_frames ops mf k s w = Some y \<Longrightarrow> I w \<longrightarrow> I (snd (snd y))"
proof (induction rule: drain_frames_rule)
  case (raised s w e w1)
  then show ?case using w_recv_kept [of w DRAIN_TIMEOUT] by simp
next
  case (empty s w w1)
  then show ?case using w_recv_kept [of w DRAIN_TIMEOUT] by simp
next
  case (damaged s w f w1 e y)
  then show ?case using w_recv_kept [of w DRAIN_TIMEOUT] by simp
next
  case (bad s w f w1 e)
  then show ?case using w_recv_kept [of w DRAIN_TIMEOUT] by simp
next
  case (refused s w f w1 pkt e s1 w2)
  then show ?case using w_recv_kept [of w DRAIN_TIMEOUT] route_packet_world [of w1 s pkt] by simp
next
  case (routed s w f w1 pkt evs s1 w2 r s2 w3)
  then show ?case using w_recv_kept [of w DRAIN_TIMEOUT] route_packet_world [of w1 s pkt] by simp
qed simp

lemma run_timers_world:
  assumes "I w" and "run_timers ops s w = (r, s', w')"
  shows "I w'"
proof -
  obtain now w1 where n: "w_now ops w = (now, w1)" by fastforce
  then have w1: "I w1" using w_now_kept [OF assms(1)] by simp
  obtain out sm where o: "sm_on_tick (se_machine s) now = (out, sm)" by fastforce
  obtain q w2 where e: "emit ops out w1 = (q, w2)" by fastforce
  then have w2: "I w2" using emit_world [OF w1, of out] by simp
  obtain now2 w3 where n2: "w_now ops w2 = (now2, w3)" by fastforce
  then have w3: "I w3" using w_now_kept [OF w2] by simp
  show ?thesis
    using assms(2) n o e n2 w2 emit_mux_world [OF w3]
    by (auto simp: run_timers_def Let_def split: sum.splits prod.splits) (metis snd_conv)+
qed

lemma pump_world:
  assumes "I w" and "pump ops mf s w = Some (r, s', w')"
  shows "I w'"
proof -
  obtain q s1 w1 where d: "drain_frames ops mf 0 (sync_session_id s) w = Some (q, s1, w1)"
    using assms(2) unfolding pump_def bind_eq_Some_conv by (metis prod_cases3)
  from drain_world [OF d] assms(1) have w1: "I w1" by simp
  show ?thesis
    using assms(2) d w1 run_timers_world [OF w1]
    by (cases q) (auto simp: pump_def split: prod.splits)
qed

lemma connect_world: "I w \<Longrightarrow> I (snd (snd (session_connect ops s w)))"
  using w_now_kept [of w] emit_world by (auto simp: session_connect_def Let_def split_beta)

lemma close_world: "I w \<Longrightarrow> I (snd (snd (session_close ops s w)))"
  using w_now_kept [of w] emit_world by (auto simp: session_close_def Let_def split_beta)

lemma send_on_world: "I w \<Longrightarrow> I (snd (snd (send_on ops sid data s w)))"
  using w_now_kept [of w] emit_mux_world by (auto simp: send_on_def Let_def split: prod.split sum.split)

end

sublocale kept_world \<subseteq> at_a: kept "\<lambda>d. I (dx_world d)" "end_a t ops" for t
proof unfold_locales
  fix d :: "'w duplex" and sid data r d'
  assume I: "I (dx_world d)"
  show "I (dx_world (snd (so_send_on (end_a t ops) sid data d)))"
    using send_on_world [OF I, of sid data "dx_a d"] by (simp add: end_a_def end_defs split_beta)
  show "I (dx_world (snd (so_recv_on (end_a t ops) sid d)))"
    using I by (simp add: end_a_def end_defs split_beta)
  show "I (dx_world d')" if "so_pump (end_a t ops) d = Some (r, d')"
    using that pump_world [OF I] by (auto simp: end_a_def end_defs)
  show "I (dx_world (snd (so_connect (end_a t ops) d)))"
    using connect_world [OF I, of "dx_a d"] by (simp add: end_a_def end_defs split_beta)
  show "I (dx_world (snd (so_close (end_a t ops) d)))"
    using close_world [OF I, of "dx_a d"] by (simp add: end_a_def end_defs split_beta)
  show "I (dx_world (snd (so_now (end_a t ops) d)))"
    using w_now_kept [OF I] by (simp add: end_a_def end_defs split_beta)
qed

sublocale kept_world \<subseteq> at_b: kept "\<lambda>d. I (dx_world d)" "end_b t ops" for t
proof unfold_locales
  fix d :: "'w duplex" and sid data r d'
  assume I: "I (dx_world d)"
  show "I (dx_world (snd (so_send_on (end_b t ops) sid data d)))"
    using send_on_world [OF I, of sid data "dx_b d"] by (simp add: end_b_def end_defs split_beta)
  show "I (dx_world (snd (so_recv_on (end_b t ops) sid d)))"
    using I by (simp add: end_b_def end_defs split_beta)
  show "I (dx_world d')" if "so_pump (end_b t ops) d = Some (r, d')"
    using that pump_world [OF I] by (auto simp: end_b_def end_defs)
  show "I (dx_world (snd (so_connect (end_b t ops) d)))"
    using connect_world [OF I, of "dx_b d"] by (simp add: end_b_def end_defs split_beta)
  show "I (dx_world (snd (so_close (end_b t ops) d)))"
    using close_world [OF I, of "dx_b d"] by (simp add: end_b_def end_defs split_beta)
  show "I (dx_world (snd (so_now (end_b t ops) d)))"
    using w_now_kept [OF I] by (simp add: end_b_def end_defs split_beta)
qed

section \<open>No call moves the clock of a loopback pair\<close>

definition clock_is :: "(ManualClock \<Rightarrow> bool) \<Rightarrow> 'r loop_world \<Rightarrow> bool" where
  "clock_is P w \<longleftrightarrow> P (lw_clock w)"

interpretation clock_a: kept_world "loop_ops_a rops" "clock_is P" for rops :: "'r rng_ops" and P
  by unfold_locales (simp_all add: clock_is_def loop_ops_a_def)

interpretation clock_b: kept_world "loop_ops_b rops" "clock_is P" for rops :: "'r rng_ops" and P
  by unfold_locales (simp_all add: clock_is_def loop_ops_b_def)

end
