(* ===== verification/Demo_Link.thy ===== *)
theory Demo_Link
  imports Script Session_Props Stream_Props World_Kept
begin

text \<open>
  The link the programs under \<open>examples/\<close> make: two sessions of one pair of identities over a loopback
  pair, whose clocks are moved together and are one clock here. A calm pair, on which the generator
  never drops a frame, is the world in which runs are evaluated.
\<close>

text \<open>The sessions of the programs: one pair of identities, the default window, payload and control timers.\<close>

definition program_session :: "time \<Rightarrow> time \<Rightarrow> bool \<Rightarrow> Session" where
  "program_session heartbeat_interval idle_timeout is_initiator =
     Session_init is_initiator (if is_initiator then 1 else 0) (if is_initiator then 1000 else 5000)
       heartbeat_interval idle_timeout DEFAULT_ARQ_WINDOW_SIZE DEFAULT_ARQ_MAX_PAYLOAD None
       DEFAULT_CONTROL_RTO DEFAULT_MAX_CONTROL_RETRIES"

definition program_link :: "time \<Rightarrow> time \<Rightarrow> real \<Rightarrow> 'r \<Rightarrow> 'r loop_world duplex" where
  "program_link heartbeat_interval idle_timeout loss rng =
     duplex_start (program_session heartbeat_interval idle_timeout True) (program_session heartbeat_interval idle_timeout False)
       \<lparr>lw_pair = loopback_pair_init rng loss 0 0 0 0 0, lw_clock = ManualClock_init 0\<rparr>"

definition loop_ends :: "'r rng_ops \<Rightarrow> 'r loop_world duplex ends" where
  "loop_ends rops =
     \<lparr>en_a = end_a DEFAULT_STREAM_ID (loop_ops_a rops), en_b = end_b DEFAULT_STREAM_ID (loop_ops_b rops),
      en_advance = (\<lambda>dt. between (Wait dt))\<rparr>"

lemma loop_pumps_return: "pumps_return (en_a (loop_ends rops))" "pumps_return (en_b (loop_ends rops))"
proof -
  have "so_pump (en_a (loop_ends rops)) d \<noteq> None" "so_pump (en_b (loop_ends rops)) d \<noteq> None" for d
    using backlog_a.pump_some [of rops None "dx_a d" "dx_world d"] backlog_b.pump_some [of rops None "dx_b d" "dx_world d"]
    by (auto simp: loop_ends_def end_a_def end_b_def end_defs)
  then show "pumps_return (en_a (loop_ends rops))" "pumps_return (en_b (loop_ends rops))" by (auto simp: pumps_return_def)
qed

lemma program_link_inv: "loop_inv DEFAULT_STREAM_ID (new_log (program_link hb idle loss rng))"
proof -
  have "usable DEFAULT_ARQ_WINDOW_SIZE DEFAULT_ARQ_MAX_PAYLOAD"
    by (simp add: usable_def DEFAULT_ARQ_WINDOW_SIZE_def DEFAULT_ARQ_MAX_PAYLOAD_def)
  moreover have "flight_ab (loopback_pair_init rng loss 0 0 0 0 0) = []" "flight_ba (loopback_pair_init rng loss 0 0 0 0 0) = []"
    by (simp_all add: flight_ab_def flight_ba_def held_list_def loopback_pair_init_def LoopbackChannel_init_def Let_def)
  ultimately show ?thesis
    unfolding program_link_def program_session_def by (intro start_inv) simp_all
qed

section \<open>A calm link\<close>

text \<open>
  A generator whose draws are never below the loss rate (nor negative) drops nothing: a pair over it
  keeps every frame as it was packed, and each send draws four numbers.
\<close>

definition never_drops :: "'r rng_ops \<Rightarrow> real \<Rightarrow> bool" where
  "never_drops rops loss \<longleftrightarrow> (\<forall>r. 0 \<le> fst (rng_random rops r) \<and> loss \<le> fst (rng_random rops r))"

definition draw :: "'r rng_ops \<Rightarrow> 'r \<Rightarrow> 'r" where
  "draw rops r = snd (rng_random rops r)"

abbreviation draw4 :: "'r rng_ops \<Rightarrow> 'r \<Rightarrow> 'r" where
  "draw4 rops r \<equiv> draw rops (draw rops (draw rops (draw rops r)))"

definition calm_world :: "real \<Rightarrow> bytes list \<Rightarrow> bytes list \<Rightarrow> time \<Rightarrow> 'r \<Rightarrow> 'r loop_world" where
  "calm_world loss x y now r = \<lparr>lw_pair = (loopback_pair_init r loss 0 0 0 0 0)\<lparr>lp_q_ab := x, lp_q_ba := y\<rparr>,
     lw_clock = ManualClock_init now\<rparr>"

lemma never_drops_quiet: "loss \<le> 1 / 2 \<Longrightarrow> never_drops quiet_rng loss"
  by (simp add: never_drops_def quiet_rng_def)

lemma calm_send:
  assumes "never_drops rops loss"
  shows "w_send (loop_ops_a rops) f (calm_world loss x y now r) = (Inr (), calm_world loss (x @ [f]) y now (draw4 rops r))"
    and "w_send (loop_ops_b rops) f (calm_world loss x y now r) = (Inr (), calm_world loss x (y @ [f]) now (draw4 rops r))"
proof -
  have "\<not> fst (rng_random rops s) < 0" "\<not> fst (rng_random rops s) < loss" for s
    using assms by (auto simp: never_drops_def not_less)
  then show "w_send (loop_ops_a rops) f (calm_world loss x y now r) = (Inr (), calm_world loss (x @ [f]) y now (draw4 rops r))"
    "w_send (loop_ops_b rops) f (calm_world loss x y now r) = (Inr (), calm_world loss x (y @ [f]) now (draw4 rops r))"
    by (simp_all add: calm_world_def loop_ops_a_def loop_ops_b_def send_ab_def send_ba_def draw_def
      loopback_send_def survivors_def loopback_pair_init_def LoopbackChannel_init_def Let_def split_beta)
qed

lemma calm_world_ops:
  "w_recv (loop_ops_a rops) d (calm_world loss x [] now r) = (Inr None, calm_world loss x [] now r)"
  "w_recv (loop_ops_a rops) d (calm_world loss x (f # y) now r) = (Inr (Some f), calm_world loss x y now r)"
  "w_recv (loop_ops_b rops) d (calm_world loss [] y now r) = (Inr None, calm_world loss [] y now r)"
  "w_recv (loop_ops_b rops) d (calm_world loss (f # x) y now r) = (Inr (Some f), calm_world loss x y now r)"
  "w_now (loop_ops_a rops) (calm_world loss x y now r) = (now, calm_world loss x y now r)"
  "w_now (loop_ops_b rops) (calm_world loss x y now r) = (now, calm_world loss x y now r)"
  by (simp_all add: calm_world_def loop_ops_a_def loop_ops_b_def recv_a_def recv_b_def
      loopback_recv_def loopback_pair_init_def LoopbackChannel_init_def clock_now_def ManualClock_init_def Let_def)

lemma calm_wait:
  "0 \<le> dt \<Longrightarrow> (calm_world loss x y now r)\<lparr>lw_clock := snd (clock_advance (lw_clock (calm_world loss x y now r)) dt)\<rparr> =
   calm_world loss x y (now + dt) r"
  by (simp add: calm_world_def clock_advance_def ManualClock_init_def)

lemma calm_clock: "clock_t (lw_clock (calm_world loss x y now r)) = now"
  by (simp add: calm_world_def ManualClock_init_def)

lemma calm_link:
  "program_link hb idle loss r =
   duplex_start (program_session hb idle True) (program_session hb idle False) (calm_world loss [] [] 0 r)"
  by (simp add: program_link_def calm_world_def loopback_pair_init_def LoopbackChannel_init_def Let_def)

lemma until_round_num: "until_round turn rnd (numeral k) =
     script_bind turn (\<lambda>v. case v of
         None \<Rightarrow> script_return None
       | Some stop \<Rightarrow> if stop then script_return (Some rnd) else until_round turn (Suc rnd) (pred_numeral k))"
  by (simp add: numeral_eq_Suc)

lemmas demo_calls = until_round_num script_bind_def script_return_def script_get_def script_do_def script_call_def
  loop_ends_def program_session_def calm_wait calm_send never_drops_quiet calm_world_ops calm_clock calm_link call_simps
  DEFAULT_ARQ_WINDOW_SIZE_def DEFAULT_ARQ_MAX_PAYLOAD_def DEFAULT_CONTROL_RTO_def DEFAULT_MAX_CONTROL_RETRIES_def
  session_close_def sm_close_def rto_def on_timeout_def on_sample_def RtoEstimator_init_def clamp_def ALPHA_def BETA_def
  K_RTTVAR_def

end
