(* ===== verification/Chat_Loopback.thy ===== *)
theory Chat_Loopback
  imports Talk_Link Demo_Link
begin

text \<open>
  \<open>examples/chat_loopback.py\<close>: two chat sessions over a loopback pair that loses a fifth of the
  frames. The generator of \<open>random.Random(SEED)\<close> is a parameter, as everywhere.
\<close>

definition chat_LOSS :: real where "chat_LOSS = 2 / 10"
definition chat_SEED :: int where "chat_SEED = 7"
definition chat_ROUND_DT :: time where "chat_ROUND_DT = 6 / 10"
definition chat_HEARTBEAT_INTERVAL :: time where "chat_HEARTBEAT_INTERVAL = 5"
definition chat_IDLE_TIMEOUT :: time where "chat_IDLE_TIMEOUT = 240"
definition chat_MAX_HANDSHAKE_ROUNDS :: nat where "chat_MAX_HANDSHAKE_ROUNDS = 200"
definition chat_MAX_CHAT_ROUNDS :: nat where "chat_MAX_CHAT_ROUNDS = 400"
definition chat_MAX_CLOSE_ROUNDS :: nat where "chat_MAX_CLOSE_ROUNDS = 200"

definition chat_MESSAGES_A :: "pstr list" where
  "chat_MESSAGES_A =
     [code_points ''hello from A'', code_points ''how is the link holding up?'', code_points ''sending a third line'',
      code_points ''A signing off soon'']"

definition chat_MESSAGES_B :: "pstr list" where
  "chat_MESSAGES_B =
     [code_points ''hi A, B here'', code_points ''link is lossy but reliable'', code_points ''got all of yours so far'',
      code_points ''B acknowledges, ready to close'']"

definition chat_tick :: "'r rng_ops \<Rightarrow> (bool, 'r loop_world duplex Talkers) script" where
  "chat_tick rops = advance_both (loop_ends rops) chat_ROUND_DT"

definition chat_loopback_main ::
  "(int \<Rightarrow> 'r) \<Rightarrow> 'r rng_ops \<Rightarrow> (real \<Rightarrow> pstr) \<Rightarrow> (pstr \<Rightarrow> real)
    \<Rightarrow> (TalkExit result \<times> 'r loop_world duplex Talkers) option" where
  "chat_loopback_main seeded rops fr fp =
     talk_main (chat_tick rops) chat_MAX_HANDSHAKE_ROUNDS chat_MAX_CHAT_ROUNDS chat_MAX_CLOSE_ROUNDS fr fp (loop_ends rops)
       chat_MESSAGES_A chat_MESSAGES_B
       (new_talkers (program_link chat_HEARTBEAT_INTERVAL chat_IDLE_TIMEOUT chat_LOSS (seeded chat_SEED)))"

section \<open>Over a loopback pair\<close>

definition on_beat :: "time \<Rightarrow> time \<Rightarrow> bool" where
  "on_beat dt t \<longleftrightarrow> (\<exists>k. t = dt * real k)"

definition clock_on_beat :: "time \<Rightarrow> 'r loop_world duplex \<Rightarrow> bool" where
  "clock_on_beat dt d \<longleftrightarrow> clock_is (\<lambda>c. on_beat dt (clock_t c)) (dx_world d)"

lemma on_beat_next: "on_beat dt t \<Longrightarrow> on_beat dt (t + dt)"
  unfolding on_beat_def by (metis distrib_left mult.right_neutral of_nat_Suc add.commute)

lemma clock_on_beat_kept:
  "kept (clock_on_beat dt) (end_a t (loop_ops_a rops))" "kept (clock_on_beat dt) (end_b t (loop_ops_b rops))"
  using clock_a.at_a.kept_axioms [of "\<lambda>c. on_beat dt (clock_t c)" t rops]
    clock_b.at_b.kept_axioms [of "\<lambda>c. on_beat dt (clock_t c)" t rops]
  by (simp_all add: clock_on_beat_def [abs_def])

lemma loop_ends_link: "loop_ends rops = link_ends (loop_ops_a rops) (loop_ops_b rops) (\<lambda>dt. between (Wait dt))"
  by (simp add: loop_ends_def link_ends_def)

interpretation loop_talk: talk_link "loop_ops_a rops" "loop_ops_b rops" "\<lambda>w. flight_ab (lw_pair w)"
  "\<lambda>w. flight_ba (lw_pair w)" one_byte_off "\<lambda>dt. between (Wait dt)" dt "clock_on_beat dt" "on_beat dt"
  for rops :: "'r rng_ops" and dt
proof (intro talk_link.intro talk_link_axioms.intro)
  show "duplex_stream (loop_ops_a rops) (loop_ops_b rops) (\<lambda>w. flight_ab (lw_pair w)) (\<lambda>w. flight_ba (lw_pair w))
      one_byte_off DEFAULT_STREAM_ID"
    using duplex_loop.duplex_stream_axioms [of rops 0] by (simp add: DEFAULT_STREAM_ID_def)
  show "kept (clock_on_beat dt) (end_a DEFAULT_STREAM_ID (loop_ops_a rops))"
    "kept (clock_on_beat dt) (end_b DEFAULT_STREAM_ID (loop_ops_b rops))"
    using clock_on_beat_kept [of dt DEFAULT_STREAM_ID rops] by simp_all
  show "loop_inv DEFAULT_STREAM_ID l \<Longrightarrow> loop_inv DEFAULT_STREAM_ID (l\<lparr>lg_state := between (Wait dt) (lg_state l)\<rparr>)"
    for l :: "'r loop_world duplex StreamLog"
    by (rule between_inv) (simp_all add: DEFAULT_STREAM_ID_def)
next
  fix s :: "'r loop_world duplex" assume k: "clock_on_beat dt s"
  then show "clock_on_beat dt (between (Wait dt) s)"
    by (simp add: clock_on_beat_def clock_is_def clock_advance_def on_beat_next)
  show "on_beat dt (fst (so_now (end_a DEFAULT_STREAM_ID (loop_ops_a rops)) s))"
    "on_beat dt (fst (so_now (end_b DEFAULT_STREAM_ID (loop_ops_b rops)) s))"
    using k by (simp_all add: clock_on_beat_def clock_is_def end_a_def end_b_def end_defs
        loop_ops_a_def loop_ops_b_def clock_now_def split_beta)
qed

lemma program_link_on_beat: "clock_on_beat dt (program_link hb idle loss rng)"
  by (simp add: clock_on_beat_def clock_is_def on_beat_def program_link_def duplex_start_def ManualClock_init_def exI [of _ 0])

section \<open>A run without losses\<close>

text \<open>A text of a number of tenths that the number parser reads back: \<open>0.\<close> and one digit per tenth.\<close>

definition tally_text :: "real \<Rightarrow> pstr" where
  "tally_text t = [48, 46] @ replicate (Suc (nat \<lfloor>10 * t\<rfloor>)) 49"

definition tally_parse :: "pstr \<Rightarrow> real" where
  "tally_parse s = (real (length s) - 3) / 10"

lemma tally_text_beat:
  obtains u where "tally_text (chat_ROUND_DT * real k) = 48 # 46 # u" "list_all is_digit u" "u \<noteq> []" "length u = Suc (6 * k)"
proof -
  have "10 * (chat_ROUND_DT * real k) = of_nat (6 * k)" by (simp add: chat_ROUND_DT_def)
  then have n: "nat \<lfloor>10 * (chat_ROUND_DT * real k)\<rfloor> = 6 * k" by (simp only: floor_of_nat nat_int)
  have "tally_text (chat_ROUND_DT * real k) = 48 # 46 # replicate (Suc (6 * k)) 49"
    unfolding tally_text_def n by simp
  then show thesis by (rule that) (simp_all add: list_all_iff is_digit_def)
qed

lemma tally_float_ok: "float_ok tally_text tally_parse (chat_ROUND_DT * real k)"
proof -
  obtain u where u: "tally_text (chat_ROUND_DT * real k) = 48 # 46 # u" "list_all is_digit u" "u \<noteq> []" "length u = Suc (6 * k)"
    by (rule tally_text_beat)
  have "parse_number tally_parse (tally_text (chat_ROUND_DT * real k) @ rest) = Inr (JFloat (chat_ROUND_DT * real k), rest)"
    if "number_end rest" for rest
  proof -
    have "takeWhile is_digit (u @ rest) = u" by (rule takeWhile_end [OF u(2) that])
    then have f: "frac_group (46 # u @ rest) = 46 # u" using u(3) by (simp add: frac_group_def Let_def)
    have "tally_parse (48 # 46 # u) = chat_ROUND_DT * real k" using u(4) by (simp add: tally_parse_def chat_ROUND_DT_def)
    with f end_groups [OF that] u(1) show ?thesis by (simp add: parse_number_def starts_with_def int_group_def Let_def)
  qed
  moreover have "list_all utf8_ok u" using u(2) by (auto simp: list_all_iff is_digit_def)
  ultimately show ?thesis using u(1) by (simp add: float_ok_def is_digit_def)
qed

text \<open>A text of a number as \<open>repr\<close> makes them: ASCII, at most 64 characters, and read back.\<close>

definition float_short :: "(real \<Rightarrow> pstr) \<Rightarrow> (pstr \<Rightarrow> real) \<Rightarrow> real \<Rightarrow> bool" where
  "float_short fr fp t \<longleftrightarrow> float_ok fr fp t \<and> list_all (\<lambda>c. c < 128) (fr t) \<and> length (fr t) \<le> 64"

lemma tally_float_short:
  assumes "k \<le> 10"
  shows "float_short tally_text tally_parse (chat_ROUND_DT * real k)"
proof -
  obtain u where u: "tally_text (chat_ROUND_DT * real k) = 48 # 46 # u" "list_all is_digit u" "length u = Suc (6 * k)"
    by (rule tally_text_beat)
  have "list_all (\<lambda>c. c < 128) u" using u(2) by (auto simp: list_all_iff is_digit_def)
  with u assms tally_float_ok [of k] show ?thesis by (simp add: float_short_def)
qed

text \<open>A message of a short plain text, and its frame: one segment, read back as one message.\<close>

definition short_message ::
  "(real \<Rightarrow> pstr) \<Rightarrow> (pstr \<Rightarrow> real) \<Rightarrow> int \<Rightarrow> real \<Rightarrow> pstr \<Rightarrow> bytes \<Rightarrow> bool" where
  "short_message fr fp i t msg f \<longleftrightarrow> encode_message fr (chat_message i t msg) = Inr f \<and> f \<noteq> [] \<and> length f \<le> 200 \<and>
     chat_loop fp f = (Inr [chat_message i t msg], [])"

lemma short_messageI:
  assumes "i \<in> {1..9}" and "list_all (\<lambda>c. 31 < c \<and> c < 127 \<and> c \<noteq> 34 \<and> c \<noteq> 92) msg" and "length msg \<le> 40"
    and t: "float_short fr fp t"
  shows "\<exists>f. short_message fr fp i t msg f"
proof -
  have ok: "message_ok fr fp (chat_message i t msg)"
    using t by (simp add: float_short_def message_ok_def flat_ok_def chat_object_def chat_message_def)
  let ?d = "dumps fr (JDict (chat_object (chat_message i t msg)))"
  have plain: "concat (map escape_char msg) = msg"
    using assms(2) by (induction msg) (auto simp: escape_char_def)
  have "\<not> i < 0" "nat i < 10" using assms(1) by auto
  then have id: "int_text i = [48 + nat i]" "48 + nat i < 128"
    by (simp_all add: int_text_def nat_digits.simps [of "nat i"])
  have "list_all (\<lambda>c. c < 128) msg" using assms(2) by (auto simp: list_all_iff)
  with plain id t assms(3) have d: "list_all (\<lambda>c. c < 128) ?d" "length ?d \<le> 190"
    by (simp_all add: float_short_def chat_object_def chat_message_def code_points_def string_text_def escape_char_def)
  have "be_encode 4 n \<noteq> []" for n by (metis length_be_encode list.size(3) zero_neq_numeral)
  with d obtain f where f: "encode_message fr (chat_message i t msg) = Inr f" "f \<noteq> []" "length f \<le> 200"
    by (simp add: encode_message_def utf8_encode_ascii MAX_MESSAGE_BYTES_def pack_prefix del: dumps.simps be_encode.simps)
  have "chat_loop fp (f @ []) = cons_frame (chat_message i t msg) (chat_loop fp [])"
    using chat_step_encoded [OF ok f(1), of "[]"] chat.loop_step [of fp f] by simp
  then show ?thesis using f by (auto simp: short_message_def chat_loop.simps [of fp "[]"] LENGTH_SIZE_4)
qed

lemma short_message_rules:
  assumes "short_message fr fp i t msg f"
  shows "encode_message fr \<lparr>cm_msg_id = JInt i, cm_timestamp = JFloat t, cm_text = JStr msg\<rparr> = Inr f"
    and "f \<noteq> []" "length f \<le> 200" "length f < 65536" "chat_loop fp f = (Inr [chat_message i t msg], [])"
  using assms by (simp_all add: short_message_def chat_message_def)

lemma chat_frames:
  defines "ok \<equiv> short_message tally_text tally_parse"
  shows "\<exists>f. ok 1 (9 / 5) (code_points ''hello from A'') f"
    "\<exists>f. ok 2 (12 / 5) (code_points ''how is the link holding up?'') f"
    "\<exists>f. ok 3 3 (code_points ''sending a third line'') f"
    "\<exists>f. ok 4 (18 / 5) (code_points ''A signing off soon'') f"
    "\<exists>f. ok 1 (9 / 5) (code_points ''hi A, B here'') f"
    "\<exists>f. ok 2 (12 / 5) (code_points ''link is lossy but reliable'') f"
    "\<exists>f. ok 3 3 (code_points ''got all of yours so far'') f"
    "\<exists>f. ok 4 (18 / 5) (code_points ''B acknowledges, ready to close'') f"
proof -
  note beats = tally_float_short [of 3] tally_float_short [of 4] tally_float_short [of 5] tally_float_short [of 6]
  then have t: "float_short tally_text tally_parse (9 / 5)" "float_short tally_text tally_parse (12 / 5)"
    "float_short tally_text tally_parse 3" "float_short tally_text tally_parse (18 / 5)"
    by (simp_all add: chat_ROUND_DT_def)
  show "\<exists>f. ok 1 (9 / 5) (code_points ''hello from A'') f"
    "\<exists>f. ok 2 (12 / 5) (code_points ''how is the link holding up?'') f"
    "\<exists>f. ok 3 3 (code_points ''sending a third line'') f"
    "\<exists>f. ok 4 (18 / 5) (code_points ''A signing off soon'') f"
    "\<exists>f. ok 1 (9 / 5) (code_points ''hi A, B here'') f"
    "\<exists>f. ok 2 (12 / 5) (code_points ''link is lossy but reliable'') f"
    "\<exists>f. ok 3 3 (code_points ''got all of yours so far'') f"
    "\<exists>f. ok 4 (18 / 5) (code_points ''B acknowledges, ready to close'') f"
    unfolding ok_def by (rule short_messageI; simp add: t code_points_def)+
qed

lemma drive_chat_num:
  "drive_chat tick fr fp en num_a num_b (numeral k) out_a out_b =
     script_bind tick (\<lambda>allowed.
       if \<not> allowed then script_return False
       else
         script_bind (say_next (talk_say_a fr en) out_a) (\<lambda>rest_a.
         script_bind (say_next (talk_say_b fr en) out_b) (\<lambda>rest_b.
         script_bind (talk_pump_b fp en) (\<lambda>_.
         script_bind (talk_pump_a fp en) (\<lambda>_.
         script_bind (script_get (\<lambda>x. num_b \<le> length (chat_received (tk_a x)) \<and> num_a \<le> length (chat_received (tk_b x))))
           (\<lambda>all_there.
              if all_there then script_return True
              else drive_chat tick fr fp en num_a num_b (pred_numeral k) rest_a rest_b))))))"
  by (simp add: numeral_eq_Suc)

lemmas chat_calls = chat_loopback_main_def chat_tick_def chat_SEED_def chat_LOSS_def chat_ROUND_DT_def chat_HEARTBEAT_INTERVAL_def
  chat_IDLE_TIMEOUT_def chat_MAX_HANDSHAKE_ROUNDS_def chat_MAX_CHAT_ROUNDS_def chat_MAX_CLOSE_ROUNDS_def chat_MESSAGES_A_def
  chat_MESSAGES_B_def

lemmas talk_calls = talk_main_def advance_both_def pump_turn_def talk_pump_a_def talk_pump_b_def talk_connect_def
  chat_connect_def both_established_def chat_is_established_def drive_handshake_def chat_pump_def new_talkers_def
  ChatSession_init_def drive_chat_num say_next_def talk_say_a_def talk_say_b_def send_message_def chat_feed_def
  texts_match_def message_texts_def chat_received_def chat_message_def talk_close_def chat_close_def drive_close_def
  both_closed_def chat_is_closed_def

lemma chat_run_evaluated:
  "\<exists>x. chat_loopback_main (\<lambda>_. ()) quiet_rng tally_text tally_parse = Some (Inr (TalkDone 2 2), x) \<and>
     dx_orderly (tk_link x)"
proof -
  let ?ok = "short_message tally_text tally_parse"
  obtain a1 a2 a3 a4 b1 b2 b3 b4 where f:
    "?ok 1 (9 / 5) (code_points ''hello from A'') a1"
    "?ok 2 (12 / 5) (code_points ''how is the link holding up?'') a2"
    "?ok 3 3 (code_points ''sending a third line'') a3"
    "?ok 4 (18 / 5) (code_points ''A signing off soon'') a4"
    "?ok 1 (9 / 5) (code_points ''hi A, B here'') b1"
    "?ok 2 (12 / 5) (code_points ''link is lossy but reliable'') b2"
    "?ok 3 3 (code_points ''got all of yours so far'') b3"
    "?ok 4 (18 / 5) (code_points ''B acknowledges, ready to close'') b4"
    using chat_frames by blast
  note rules = f [THEN short_message_rules(1)] f [THEN short_message_rules(2)] f [THEN short_message_rules(3)]
    f [THEN short_message_rules(4)] f [THEN short_message_rules(5)]
  show ?thesis
    by (simp add: chat_calls talk_calls demo_calls rules cong: weak)
qed

section \<open>Properties\<close>

text \<open>
  \<open>chat_loopback.py\<close> never reports that the received messages differ from what was sent, whatever
  frames the link drops, as long as the run is orderly (\<open>dx_orderly\<close>) and the number texts of its
  times can be read back. When it exits with success, each side's messages are exactly the other's
  list in order, both sessions are closed, and both phases ended within their caps.
\<close>

theorem chat_demo_never_mismatches:
  assumes "chat_loopback_main seeded rops fr fp = Some (Inr e, x)" and "dx_orderly (tk_link x)"
    and "\<And>k :: nat. float_ok fr fp (chat_ROUND_DT * real k)"
  shows "e \<noteq> Mismatch \<and> (exit_code e = 0 \<longrightarrow>
     texts_match chat_MESSAGES_A chat_MESSAGES_B x \<and> both_closed (loop_ends rops) x \<and>
     (\<exists>h c. e = TalkDone h c \<and> h \<in> {1..200} \<and> c \<in> {1..200}))"
proof -
  have short: "length chat_MESSAGES_A \<le> 1000" "length chat_MESSAGES_B \<le> 1000"
    by (simp_all add: chat_MESSAGES_A_def chat_MESSAGES_B_def)
  let ?en = "link_ends (loop_ops_a rops) (loop_ops_b rops) (\<lambda>dt. between (Wait dt))"
  let ?s = "program_link chat_HEARTBEAT_INTERVAL chat_IDLE_TIMEOUT chat_LOSS (seeded chat_SEED)"
  have run: "talk_main (timed_tick (\<lambda>_. True) ?en chat_ROUND_DT) 200 400 200 fr fp ?en chat_MESSAGES_A chat_MESSAGES_B
      (new_talkers ?s) = Some (Inr e, x)"
    using assms(1) by (simp add: chat_loopback_main_def chat_tick_def timed_tick_always loop_ends_link
        chat_MAX_HANDSHAKE_ROUNDS_def chat_MAX_CHAT_ROUNDS_def chat_MAX_CLOSE_ROUNDS_def)
  have "\<And>t. on_beat chat_ROUND_DT t \<Longrightarrow> float_ok fr fp t" using assms(3) by (auto simp: on_beat_def)
  note d = loop_talk.talk_delivers [OF run program_link_inv program_link_on_beat assms(2) this short]
  show ?thesis
    using d talk_main_rounds [of _ 200 400 200 fr fp ?en chat_MESSAGES_A] run
    by (cases e) (fastforce simp: exit_code_def loop_ends_link)+
qed

theorem chat_demo_never_mismatches_witness:
  "\<exists>x. chat_loopback_main (\<lambda>_. ()) quiet_rng tally_text tally_parse = Some (Inr (TalkDone 2 2), x) \<and>
     texts_match chat_MESSAGES_A chat_MESSAGES_B x \<and> both_closed (loop_ends quiet_rng) x"
proof -
  obtain x where x: "chat_loopback_main (\<lambda>_. ()) quiet_rng tally_text tally_parse = Some (Inr (TalkDone 2 2), x)"
    "dx_orderly (tk_link x)" using chat_run_evaluated by blast
  from chat_demo_never_mismatches [OF x tally_float_ok] x(1) show ?thesis by (auto simp: exit_code_def)
qed

lemma chat_demo_returns: "chat_loopback_main seeded rops fr fp \<noteq> None"
  using talk_main_returns [OF loop_pumps_return talk_calls_return(5)]
  unfolding chat_loopback_main_def chat_tick_def script_returns_def by blast

end
