(* ===== verification/Image_Link.thy ===== *)
theory Image_Link
  imports Image_Loopback Demo_Link
begin

text \<open>
  Two sessions over an image loopback pair: the other end of the pair as a world, the pair as the
  channels below a stream when the decoder gives what a symbol carries or nothing, and a pair on which
  every frame is read back, where runs are evaluated.
\<close>

definition image_ops_b ::
  "qr_maker \<Rightarrow> (image \<Rightarrow> bytes option) \<Rightarrow> (image \<Rightarrow> image) option \<Rightarrow> 'r rng_ops \<Rightarrow> 'r image_world world_ops" where
  "image_ops_b segno decode degrade rops =
     \<lparr>w_send = (\<lambda>f w. let (r, p) = image_send_ba segno degrade rops (iw_pair w) f in (r, w\<lparr>iw_pair := p\<rparr>)),
      w_recv = (\<lambda>t w. let (r, p) = image_recv_b decode (iw_pair w) in (Inr r, w\<lparr>iw_pair := p\<rparr>)),
      w_now = (\<lambda>w. (clock_now (iw_clock w), w))\<rparr>"

lemma image_queues:
  "ip_q_ba (snd (image_send_ab segno degrade ops p f)) = ip_q_ba p"
  "ip_q_ab (snd (image_send_ba segno degrade ops p f)) = ip_q_ab p"
  "ip_q_ab (snd (image_recv_a decode p)) = ip_q_ab p"
  "ip_q_ba (snd (image_recv_b decode p)) = ip_q_ba p"
  by (simp_all add: image_send_ab_def image_send_ba_def image_recv_a_def image_recv_b_def split_beta Let_def)

interpretation image_ba: frame_channel "\<lambda>w f. snd (image_send_ba segno degrade ops w f)" "image_recv_a decode"
  "\<lambda>w. readings decode (ip_q_ba w)"
  "\<lambda>f g. \<exists>ch. image_carried segno decode degrade ch f g"
  for segno decode degrade and ops :: "'r rng_ops"
proof (unfold_locales, goal_cases)
  case (1 g w f)
  obtain n h where "readings decode (fst (snd (image_send segno ops degrade (ip_b w) f (ip_rng w)))) = replicate n h"
    "n = 0 \<or> image_carried segno decode degrade (ip_b w) f h"
    using image_send_emits [of decode segno ops degrade "ip_b w" f "ip_rng w"] by blast
  with 1 show ?case by (auto simp: image_send_ba_def split_beta Let_def)
next
  case (2 w)
  show ?case by (auto simp: image_recv_a_def image_recv_def split_beta Let_def split: list.split)
next
  case (3 w g)
  then show ?case by (auto simp: image_recv_a_def image_recv_def split_beta Let_def split: list.splits if_splits)
qed

interpretation image_backlog_b: finite_world "image_ops_b segno decode degrade rops" "\<lambda>w. length (ip_q_ab (iw_pair w))"
  for segno decode degrade and rops :: "'r rng_ops"
  by unfold_locales
    (auto simp: image_ops_b_def image_recv_b_def image_recv_def image_send_ba_def split_beta Let_def
      split: if_splits list.splits)

text \<open>No call moves the clock.\<close>

definition image_clock_is :: "(ManualClock \<Rightarrow> bool) \<Rightarrow> 'r image_world \<Rightarrow> bool" where
  "image_clock_is P w \<longleftrightarrow> P (iw_clock w)"

interpretation image_clock_a: kept_world "image_ops_a segno decode degrade rops" "image_clock_is P"
  for segno decode degrade and rops :: "'r rng_ops" and P
  by unfold_locales (simp_all add: image_clock_is_def image_ops_a_def split_beta)

interpretation image_clock_b: kept_world "image_ops_b segno decode degrade rops" "image_clock_is P"
  for segno decode degrade and rops :: "'r rng_ops" and P
  by unfold_locales (simp_all add: image_clock_is_def image_ops_b_def split_beta)

section \<open>The channels below a stream\<close>

text \<open>A decoder that gives, of a symbol on the link, the bytes that were encoded or nothing.\<close>

definition reads_truly :: "qr_maker \<Rightarrow> (image \<Rightarrow> bytes option) \<Rightarrow> (image \<Rightarrow> image) option \<Rightarrow> bool" where
  "reads_truly segno decode degrade \<longleftrightarrow> (\<forall>ch f g. image_carried segno decode degrade ch f g \<longrightarrow> g = f)"

abbreviation seen_ab :: "(image \<Rightarrow> bytes option) \<Rightarrow> 'r image_world \<Rightarrow> bytes list" where
  "seen_ab decode w \<equiv> readings decode (ip_q_ab (iw_pair w))"

abbreviation seen_ba :: "(image \<Rightarrow> bytes option) \<Rightarrow> 'r image_world \<Rightarrow> bytes list" where
  "seen_ba decode w \<equiv> readings decode (ip_q_ba (iw_pair w))"

lemma image_duplex:
  assumes "reads_truly segno decode degrade" and "t \<noteq> 0"
  shows "duplex_stream (image_ops_a segno decode degrade rops) (image_ops_b segno decode degrade rops)
    (seen_ab decode) (seen_ba decode) (\<lambda>f g. \<exists>ch. image_carried segno decode degrade ch f g) t"
proof -
  have faithful: "q = p" if "pack p = Inr f" "\<exists>ch. image_carried segno decode degrade ch f g" "unpack g = Inr q" for p f g q
    using that assms(1) 
  proof -
    have "g = f" using that(2) assms(1) by (auto simp: reads_truly_def)
    with that(1,3) unpack_pack show ?thesis by fastforce
  qed
  have sends: "set (readings decode (ip_q_ab (snd (image_send_ab segno degrade rops p f))))
      \<subseteq> set (readings decode (ip_q_ab p)) \<union> {g. \<exists>ch. image_carried segno decode degrade ch f g}"
    "set (readings decode (ip_q_ba (snd (image_send_ba segno degrade rops p f))))
      \<subseteq> set (readings decode (ip_q_ba p)) \<union> {g. \<exists>ch. image_carried segno decode degrade ch f g}" for p f
    using image_ab.send_flight [of _ decode segno degrade rops p f]
      image_ba.send_flight [of _ decode segno degrade rops p f] by blast+
  show ?thesis
    by (intro duplex_stream.intro duplex_stream_axioms.intro carrier.intro faithful assms(2))
      (simp_all add: image_ops_a_def image_ops_b_def split_beta image_queues sends image_ab.recv_flight
        image_ba.recv_flight image_ab.recv_some image_ba.recv_some)
qed

section \<open>A pair on which every frame is read back\<close>

text \<open>The pair a program makes, at the default border and error level and without a degrade function.\<close>

definition image_link :: "time \<Rightarrow> time \<Rightarrow> real \<Rightarrow> int \<Rightarrow> 'r \<Rightarrow> 'r image_world duplex" where
  "image_link heartbeat_interval idle_timeout loss scale rng =
     duplex_start (program_session heartbeat_interval idle_timeout True) (program_session heartbeat_interval idle_timeout False)
       \<lparr>iw_pair = image_pair_init rng loss 0 scale 4 ''m'', iw_clock = ManualClock_init 0\<rparr>"

definition image_wait :: "time \<Rightarrow> 'r image_world duplex \<Rightarrow> 'r image_world duplex" where
  "image_wait dt d = d\<lparr>dx_world := (dx_world d)\<lparr>iw_clock := snd (clock_advance (iw_clock (dx_world d)) dt)\<rparr>\<rparr>"

lemma image_link_inv: "stream_inv (seen_ab decode) (seen_ba decode) DEFAULT_STREAM_ID (new_log (image_link hb idle loss scale rng))"
proof -
  have "usable DEFAULT_ARQ_WINDOW_SIZE DEFAULT_ARQ_MAX_PAYLOAD"
    by (simp add: usable_def DEFAULT_ARQ_WINDOW_SIZE_def DEFAULT_ARQ_MAX_PAYLOAD_def)
  then show ?thesis
    unfolding image_link_def program_session_def
    by (intro start_stream) (simp_all add: image_pair_init_def Let_def)
qed

text \<open>A frame the code's encoder makes a symbol of that the decoder reads back.\<close>

definition readable :: "qr_maker \<Rightarrow> (image \<Rightarrow> bytes option) \<Rightarrow> int \<Rightarrow> bytes \<Rightarrow> bool" where
  "readable segno decode scale f \<longleftrightarrow>
     (case qr_encode_frame segno f scale 4 ''m'' of Inl e \<Rightarrow> False | Inr img \<Rightarrow> decode img = Some f)"

definition symbol :: "qr_maker \<Rightarrow> int \<Rightarrow> bytes \<Rightarrow> image" where
  "symbol segno scale f = projr (qr_encode_frame segno f scale 4 ''m'')"

lemma readable_symbol:
  assumes "readable segno decode scale f"
  shows "qr_encode_frame segno f scale 4 ''m'' = Inr (symbol segno scale f)" "decode (symbol segno scale f) = Some f"
  using assms by (auto simp: readable_def symbol_def split: sum.splits)

definition calm_images ::
  "qr_maker \<Rightarrow> int \<Rightarrow> bytes list \<Rightarrow> bytes list \<Rightarrow> time \<Rightarrow> 'r \<Rightarrow> 'r image_world" where
  "calm_images segno scale x y now r =
     \<lparr>iw_pair = (image_pair_init r 0 0 scale 4 ''m'')\<lparr>ip_q_ab := map (symbol segno scale) x, ip_q_ba := map (symbol segno scale) y\<rparr>,
      iw_clock = ManualClock_init now\<rparr>"

lemma calm_images_send:
  assumes "never_drops rops 0" and "readable segno decode scale f"
  shows "w_send (image_ops_a segno decode None rops) f (calm_images segno scale x y now r) =
      (Inr (), calm_images segno scale (x @ [f]) y now (draw rops (draw rops r)))"
    and "w_send (image_ops_b segno decode None rops) f (calm_images segno scale x y now r) =
      (Inr (), calm_images segno scale x (y @ [f]) now (draw rops (draw rops r)))"
proof -
  have "\<not> fst (rng_random rops s) < 0" for s using assms(1) by (auto simp: never_drops_def not_less)
  with readable_symbol [OF assms(2)]
  show "w_send (image_ops_a segno decode None rops) f (calm_images segno scale x y now r) =
      (Inr (), calm_images segno scale (x @ [f]) y now (draw rops (draw rops r)))"
    "w_send (image_ops_b segno decode None rops) f (calm_images segno scale x y now r) =
      (Inr (), calm_images segno scale x (y @ [f]) now (draw rops (draw rops r)))"
    by (simp_all add: calm_images_def image_ops_a_def image_ops_b_def image_send_ab_def image_send_ba_def image_send_def
        draw_def degraded_def image_pair_init_def ImageLoopbackChannel_init_def Let_def split_beta)
qed

lemma calm_images_recv:
  assumes "readable segno decode scale f"
  shows "w_recv (image_ops_a segno decode None rops) d (calm_images segno scale x (f # y) now r) =
      (Inr (Some f), calm_images segno scale x y now r)"
    and "w_recv (image_ops_b segno decode None rops) d (calm_images segno scale (f # x) y now r) =
      (Inr (Some f), calm_images segno scale x y now r)"
  using readable_symbol(2) [OF assms]
  by (simp_all add: calm_images_def image_ops_a_def image_ops_b_def image_recv_a_def image_recv_b_def image_recv_def
      image_pair_init_def ImageLoopbackChannel_init_def Let_def)

lemma calm_images_ops:
  "w_recv (image_ops_a segno decode None rops) d (calm_images segno scale x [] now r) =
    (Inr None, calm_images segno scale x [] now r)"
  "w_recv (image_ops_b segno decode None rops) d (calm_images segno scale [] y now r) =
    (Inr None, calm_images segno scale [] y now r)"
  "w_now (image_ops_a segno decode None rops) (calm_images segno scale x y now r) = (now, calm_images segno scale x y now r)"
  "w_now (image_ops_b segno decode None rops) (calm_images segno scale x y now r) = (now, calm_images segno scale x y now r)"
  by (simp_all add: calm_images_def image_ops_a_def image_ops_b_def image_recv_a_def image_recv_b_def image_recv_def
      image_pair_init_def ImageLoopbackChannel_init_def clock_now_def ManualClock_init_def Let_def)

lemma calm_images_wait:
  "0 \<le> dt \<Longrightarrow> (calm_images segno scale x y now r)\<lparr>iw_clock := snd (clock_advance (iw_clock (calm_images segno scale x y now r)) dt)\<rparr> =
   calm_images segno scale x y (now + dt) r"
  by (simp add: calm_images_def clock_advance_def ManualClock_init_def)

lemma calm_images_link:
  "image_link hb idle 0 scale r =
   duplex_start (program_session hb idle True) (program_session hb idle False) (calm_images segno scale [] [] 0 r)"
  by (simp add: image_link_def calm_images_def image_pair_init_def ImageLoopbackChannel_init_def Let_def)

text \<open>The frame of a packet is its header and its payload.\<close>

lemma length_framed: "packet_ok p \<Longrightarrow> length (framed p) = 22 + length (p_payload p)"
proof -
  have "length (header_prefix p @ be_encode 4 (packet_crc p)) = 22" by simp
  then show "packet_ok p \<Longrightarrow> length (framed p) = 22 + length (p_payload p)"
    by (simp add: framed_def pack_eq del: be_encode.simps)
qed

end
