(* ===== verification/Qr_Loopback.thy ===== *)
theory Qr_Loopback
  imports Image_Link Chat_Loopback
begin

text \<open>
  \<open>examples/qr_loopback.py\<close>: the chat of \<open>chat_loopback.py\<close> (the same three drives, with other
  constants) over an image loopback pair, after a sample frame has been made a symbol. \<open>segno.make\<close>, the
  decoder and the generator are parameters.
\<close>

definition qr_LOSS :: real where "qr_LOSS = 0"
definition qr_SEED :: int where "qr_SEED = 5"
definition qr_SCALE :: int where "qr_SCALE = 6"
definition qr_ROUND_DT :: time where "qr_ROUND_DT = 6 / 10"
definition qr_HEARTBEAT_INTERVAL :: time where "qr_HEARTBEAT_INTERVAL = 5"
definition qr_IDLE_TIMEOUT :: time where "qr_IDLE_TIMEOUT = 120"
definition qr_MAX_HANDSHAKE_ROUNDS :: nat where "qr_MAX_HANDSHAKE_ROUNDS = 100"
definition qr_MAX_CHAT_ROUNDS :: nat where "qr_MAX_CHAT_ROUNDS = 100"
definition qr_MAX_CLOSE_ROUNDS :: nat where "qr_MAX_CLOSE_ROUNDS = 100"

definition qr_MESSAGES_A :: "pstr list" where
  "qr_MESSAGES_A = [code_points ''hi over QR'', code_points ''frame two'']"

definition qr_MESSAGES_B :: "pstr list" where
  "qr_MESSAGES_B = [code_points ''got your QR'', code_points ''B done'']"

definition qr_ends ::
  "qr_maker \<Rightarrow> (image \<Rightarrow> bytes option) \<Rightarrow> 'r rng_ops \<Rightarrow> 'r image_world duplex ends" where
  "qr_ends segno decode rops =
     link_ends (image_ops_a segno decode None rops) (image_ops_b segno decode None rops) image_wait"

text \<open>\<open>_show_qr_proof\<close>: the sample's symbol, whose module count is printed; making it may raise.\<close>

definition qr_sample :: bytes where
  "qr_sample = map of_char ''PhotonTCP/QR sample frame''"

definition show_qr_proof :: "qr_maker \<Rightarrow> int result" where
  "show_qr_proof segno =
     rbind (qr_encode_frame segno qr_sample qr_SCALE 4 ''m'') (\<lambda>img. Inr (int (length img) div qr_SCALE - 2 * 4))"

definition qr_loopback_main ::
  "qr_maker \<Rightarrow> (image \<Rightarrow> bytes option) \<Rightarrow> (int \<Rightarrow> 'r) \<Rightarrow> 'r rng_ops \<Rightarrow> (real \<Rightarrow> pstr) \<Rightarrow> (pstr \<Rightarrow> real)
    \<Rightarrow> (TalkExit result \<times> 'r image_world duplex Talkers) option" where
  "qr_loopback_main segno decode seeded rops fr fp =
     (let en = qr_ends segno decode rops;
          start = new_talkers (image_link qr_HEARTBEAT_INTERVAL qr_IDLE_TIMEOUT qr_LOSS qr_SCALE (seeded qr_SEED))
      in case show_qr_proof segno of
           Inl e \<Rightarrow> Some (Inl e, start)
         | Inr modules \<Rightarrow>
             talk_main (advance_both en qr_ROUND_DT) qr_MAX_HANDSHAKE_ROUNDS qr_MAX_CHAT_ROUNDS qr_MAX_CLOSE_ROUNDS fr fp en
               qr_MESSAGES_A qr_MESSAGES_B start)"

text \<open>The module count it prints is the maker's.\<close>

lemma qr_proof_modules:
  assumes "segno ''m'' (b64encode qr_sample) = Some rows"
  shows "show_qr_proof segno = Inr (int (length rows))"
proof -
  have "length (render 6 4 rows) = 6 * (length rows + 2 * 4)" using render_shape [of 6 rows 4] by (simp add: shape_def)
  moreover have "qr_encode_frame segno qr_sample qr_SCALE 4 ''m'' = Inr (render 6 4 rows)"
    using assms by (simp add: encode_render qr_SCALE_def)
  ultimately show ?thesis by (simp add: show_qr_proof_def qr_SCALE_def)
qed

section \<open>Over an image loopback pair\<close>

definition image_on_beat :: "time \<Rightarrow> 'r image_world duplex \<Rightarrow> bool" where
  "image_on_beat dt d \<longleftrightarrow> image_clock_is (\<lambda>c. on_beat dt (clock_t c)) (dx_world d)"

lemma image_talk:
  fixes rops :: "'r rng_ops"
  assumes "reads_truly segno decode None"
  shows "talk_link (image_ops_a segno decode None rops) (image_ops_b segno decode None rops) (seen_ab decode) (seen_ba decode)
    (\<lambda>f g. \<exists>ch. image_carried segno decode None ch f g) image_wait dt (image_on_beat dt) (on_beat dt)"
proof (intro talk_link.intro talk_link_axioms.intro)
  show "duplex_stream (image_ops_a segno decode None rops) (image_ops_b segno decode None rops) (seen_ab decode)
      (seen_ba decode) (\<lambda>f g. \<exists>ch. image_carried segno decode None ch f g) DEFAULT_STREAM_ID"
    by (rule image_duplex [OF assms]) (simp add: DEFAULT_STREAM_ID_def)
  show "kept (image_on_beat dt) (end_a DEFAULT_STREAM_ID (image_ops_a segno decode None rops))"
    "kept (image_on_beat dt) (end_b DEFAULT_STREAM_ID (image_ops_b segno decode None rops))"
    unfolding image_on_beat_def [abs_def] by (rule image_clock_a.at_a.kept_axioms image_clock_b.at_b.kept_axioms)+
next
  fix s :: "'r image_world duplex" assume k: "image_on_beat dt s"
  then show "image_on_beat dt (image_wait dt s)"
    by (simp add: image_on_beat_def image_clock_is_def image_wait_def clock_advance_def on_beat_next)
  show "on_beat dt (fst (so_now (end_a DEFAULT_STREAM_ID (image_ops_a segno decode None rops)) s))"
    "on_beat dt (fst (so_now (end_b DEFAULT_STREAM_ID (image_ops_b segno decode None rops)) s))"
    using k by (simp_all add: image_on_beat_def image_clock_is_def end_a_def end_b_def end_defs
        image_ops_a_def image_ops_b_def clock_now_def split_beta)
qed (simp add: stream_inv_def image_wait_def)

lemma qr_demo_returns: "qr_loopback_main segno decode seeded rops fr fp \<noteq> None"
proof -
  have "so_pump (en_a (qr_ends segno decode rops)) d \<noteq> None" "so_pump (en_b (qr_ends segno decode rops)) d \<noteq> None" for d
    using image_backlog.pump_some [of segno decode None rops None "dx_a d" "dx_world d"]
      image_backlog_b.pump_some [of segno decode None rops None "dx_b d" "dx_world d"]
    by (auto simp: qr_ends_def link_ends_def end_a_def end_b_def end_defs)
  then have "pumps_return (en_a (qr_ends segno decode rops))" "pumps_return (en_b (qr_ends segno decode rops))"
    by (auto simp: pumps_return_def)
  from talk_main_returns [OF this talk_calls_return(5)] show ?thesis
    by (auto simp: qr_loopback_main_def script_returns_def Let_def split: sum.split)
qed

section \<open>A run over symbols that are read back\<close>

lemma readable_framed:
  assumes "\<And>f. length f \<le> 300 \<Longrightarrow> readable segno decode scale f" and "packet_ok p" and "length (p_payload p) \<le> 200"
  shows "readable segno decode scale (framed p)"
  using assms by (simp add: length_framed)

lemmas qr_calls = qr_ends_def link_ends_def image_wait_def calm_images_send calm_images_recv calm_images_ops calm_images_wait
  qr_SEED_def qr_LOSS_def qr_ROUND_DT_def qr_HEARTBEAT_INTERVAL_def qr_IDLE_TIMEOUT_def
  qr_MAX_HANDSHAKE_ROUNDS_def qr_MAX_CHAT_ROUNDS_def qr_MAX_CLOSE_ROUNDS_def qr_MESSAGES_A_def qr_MESSAGES_B_def

lemma qr_run_evaluated:
  assumes reads: "\<And>f. length f \<le> 300 \<Longrightarrow> readable segno decode qr_SCALE f" and calm: "never_drops rops 0"
    and floats: "\<And>k :: nat. k \<le> 10 \<Longrightarrow> float_short fr fp (qr_ROUND_DT * real k)"
  shows "\<exists>x. qr_loopback_main segno decode seeded rops fr fp = Some (Inr (TalkDone 2 2), x) \<and>
    texts_match qr_MESSAGES_A qr_MESSAGES_B x \<and> both_closed (qr_ends segno decode rops) x"
proof -
  have t: "float_short fr fp (9 / 5)" "float_short fr fp (12 / 5)"
    using floats [of 3] floats [of 4] by (simp_all add: qr_ROUND_DT_def)
  have "\<exists>f. short_message fr fp 1 (9 / 5) (code_points ''hi over QR'') f"
    "\<exists>f. short_message fr fp 2 (12 / 5) (code_points ''frame two'') f"
    "\<exists>f. short_message fr fp 1 (9 / 5) (code_points ''got your QR'') f"
    "\<exists>f. short_message fr fp 2 (12 / 5) (code_points ''B done'') f"
    by (rule short_messageI; simp add: t code_points_def)+
  then obtain a1 a2 b1 b2 where f: "short_message fr fp 1 (9 / 5) (code_points ''hi over QR'') a1"
    "short_message fr fp 2 (12 / 5) (code_points ''frame two'') a2"
    "short_message fr fp 1 (9 / 5) (code_points ''got your QR'') b1"
    "short_message fr fp 2 (12 / 5) (code_points ''B done'') b2" by blast
  note rules = f [THEN short_message_rules(1)] f [THEN short_message_rules(2)] f [THEN short_message_rules(3)]
    f [THEN short_message_rules(4)] f [THEN short_message_rules(5)]
  have rd: "packet_ok p \<Longrightarrow> length (p_payload p) \<le> 200 \<Longrightarrow> readable segno decode qr_SCALE (framed p)" for p
    using readable_framed [OF reads] .
  have "length qr_sample \<le> 300" by (simp add: qr_sample_def)
  then have proof_made: "\<exists>m. show_qr_proof segno = Inr m"
    using readable_symbol(1) [OF reads] by (simp add: show_qr_proof_def)
  show ?thesis
    using proof_made
    by (elim exE) (simp add: qr_loopback_main_def qr_calls talk_calls demo_calls calm_images_link [of _ _ _ _ segno] rules calm rd cong: weak)
qed

lemma bars_readable:
  assumes "1 \<le> scale"
  shows "readable bars_segno (bars_read (nat scale) 4) scale f"
proof -
  obtain img where "qr_encode_frame bars_segno f scale 4 ''m'' = Inr img"
    using bars_made [of scale 4 f "''m''"] assms by auto
  with bars_read_back [OF this] show ?thesis by (simp add: readable_def)
qed

section \<open>Properties\<close>

text \<open>
  \<open>qr_loopback.py\<close> succeeds: when the QR maker has a symbol for every frame of at most 300 bytes that
  the decoder reads back, the generator draws no negative number and the texts of the times are short
  and read back, the program ends with success after two rounds of handshake and two of close,
  each side having the other's messages in order and both sessions closed.
\<close>

theorem qr_demo_succeeds:
  assumes "\<And>f. length f \<le> 300 \<Longrightarrow> readable segno decode qr_SCALE f" and "\<And>r. 0 \<le> fst (rng_random rops r)"
    and "\<And>k :: nat. k \<le> 10 \<Longrightarrow> float_short fr fp (qr_ROUND_DT * real k)"
  shows "\<exists>x. qr_loopback_main segno decode seeded rops fr fp = Some (Inr (TalkDone 2 2), x) \<and>
    texts_match qr_MESSAGES_A qr_MESSAGES_B x \<and> both_closed (qr_ends segno decode rops) x"
proof -
  have "never_drops rops 0" using assms(2) by (simp add: never_drops_def)
  from qr_run_evaluated [OF assms(1) this assms(3)] show ?thesis .
qed

theorem qr_demo_succeeds_witness:
  "\<exists>x. qr_loopback_main bars_segno (bars_read 6 4) (\<lambda>_. ()) quiet_rng tally_text tally_parse = Some (Inr (TalkDone 2 2), x) \<and>
    texts_match qr_MESSAGES_A qr_MESSAGES_B x \<and> both_closed (qr_ends bars_segno (bars_read 6 4) quiet_rng) x"
proof (rule qr_demo_succeeds)
  show "readable bars_segno (bars_read 6 4) qr_SCALE f" for f
    using bars_readable [of qr_SCALE f] by (simp add: qr_SCALE_def)
  show "0 \<le> fst (rng_random quiet_rng r)" for r by (simp add: quiet_rng_def)
  show "float_short tally_text tally_parse (qr_ROUND_DT * real k)" if "k \<le> 10" for k
    using tally_float_short [OF that] by (simp add: qr_ROUND_DT_def chat_ROUND_DT_def)
qed

text \<open>
  With a decoder that may also read nothing: an orderly run never finds the messages different, and
  one that is done has both lists, in order, and both sessions closed.
\<close>

lemma qr_demo_never_mismatches:
  assumes "reads_truly segno decode None"
    and "qr_loopback_main segno decode seeded rops fr fp = Some (Inr e, x)" and "dx_orderly (tk_link x)"
    and "\<And>k :: nat. float_ok fr fp (qr_ROUND_DT * real k)"
  shows "e \<noteq> Mismatch" and "e = TalkDone h c \<Longrightarrow>
    texts_match qr_MESSAGES_A qr_MESSAGES_B x \<and> both_closed (qr_ends segno decode rops) x"
proof -
  let ?en = "link_ends (image_ops_a segno decode None rops) (image_ops_b segno decode None rops) image_wait"
  have short: "length qr_MESSAGES_A \<le> 1000" "length qr_MESSAGES_B \<le> 1000"
    by (simp_all add: qr_MESSAGES_A_def qr_MESSAGES_B_def)
  have run: "talk_main (timed_tick (\<lambda>_. True) ?en qr_ROUND_DT) 100 100 100 fr fp ?en qr_MESSAGES_A qr_MESSAGES_B
      (new_talkers (image_link qr_HEARTBEAT_INTERVAL qr_IDLE_TIMEOUT qr_LOSS qr_SCALE (seeded qr_SEED))) = Some (Inr e, x)"
    using assms(2) by (simp add: qr_loopback_main_def timed_tick_always qr_ends_def qr_MAX_HANDSHAKE_ROUNDS_def
        qr_MAX_CHAT_ROUNDS_def qr_MAX_CLOSE_ROUNDS_def Let_def split: sum.splits)
  have beat: "image_on_beat qr_ROUND_DT (image_link hb idle loss scale rng)" for hb idle loss scale and rng :: 'a
    by (simp add: image_on_beat_def image_clock_is_def on_beat_def image_link_def duplex_start_def ManualClock_init_def exI [of _ 0])
  have "\<And>t. on_beat qr_ROUND_DT t \<Longrightarrow> float_ok fr fp t" using assms(4) by (auto simp: on_beat_def)
  note d = talk_link.talk_delivers [OF image_talk [OF assms(1)] run image_link_inv beat assms(3) this short]
  from d show "e \<noteq> Mismatch" and "e = TalkDone h c \<Longrightarrow>
      texts_match qr_MESSAGES_A qr_MESSAGES_B x \<and> both_closed (qr_ends segno decode rops) x"
    by (simp_all add: qr_ends_def)
qed

end
