(* ===== verification/Session_Demos.thy ===== *)
theory Session_Demos
  imports Demo_Link
begin

text \<open>
  \<open>examples/reliable_loopback.py\<close>: a byte string sent over a loopback pair that loses three frames in
  ten, and \<open>examples/session_loopback.py\<close>: a session opened, kept through two heartbeats and closed
  over a lossless pair. The generators of \<open>random.Random(seed)\<close> are parameters.
\<close>

section \<open>reliable_loopback.py\<close>

definition reliable_LOSS :: real where "reliable_LOSS = 3 / 10"
definition reliable_SEED :: int where "reliable_SEED = 23"
definition reliable_ROUND_DT :: time where "reliable_ROUND_DT = 6 / 10"
definition reliable_HEARTBEAT_INTERVAL :: time where "reliable_HEARTBEAT_INTERVAL = 5"
definition reliable_IDLE_TIMEOUT :: time where "reliable_IDLE_TIMEOUT = 120"
definition reliable_MAX_HANDSHAKE_ROUNDS :: nat where "reliable_MAX_HANDSHAKE_ROUNDS = 200"
definition reliable_MAX_TRANSFER_ROUNDS :: nat where "reliable_MAX_TRANSFER_ROUNDS = 400"
definition reliable_MAX_CLOSE_ROUNDS :: nat where "reliable_MAX_CLOSE_ROUNDS = 200"

definition reliable_PAYLOAD :: bytes where
  "reliable_PAYLOAD = concat (replicate 20 (map of_char ''PhotonTCP over a lossy optical link! ''))"

text \<open>\<open>receiver.recv()\<close> always returns.\<close>

definition script_take :: "'s session_ops \<Rightarrow> (bytes list, 's) script" where
  "script_take api s = (let (chunks, s1) = so_recv_on api DEFAULT_STREAM_ID s in Some (Inr chunks, s1))"

fun reliable_transfer ::
  "(unit, 's) script \<Rightarrow> 's ends \<Rightarrow> nat \<Rightarrow> nat \<Rightarrow> nat \<Rightarrow> bytes \<Rightarrow> (bytes \<times> nat option, 's) script" where
  "reliable_transfer tick en wanted rnd 0 received = script_return (received, None)"
| "reliable_transfer tick en wanted rnd (Suc left) received =
     script_bind tick (\<lambda>_.
     script_bind (so_pump (en_a en)) (\<lambda>_.
     script_bind (so_pump (en_b en)) (\<lambda>_.
     script_bind (script_take (en_b en)) (\<lambda>chunks.
       if wanted \<le> length (received @ concat chunks) then script_return (received @ concat chunks, Some rnd)
       else reliable_transfer tick en wanted (Suc rnd) left (received @ concat chunks)))))"

datatype ReliableExit = RelNoHandshake | RelIncomplete nat | RelMismatch | RelNotClosed | RelDone nat nat nat

text \<open>The graceful close, the transfer with its check, and the whole.\<close>

definition reliable_closing :: "(unit, 's) script \<Rightarrow> 's ends \<Rightarrow> nat \<Rightarrow> nat \<Rightarrow> nat \<Rightarrow> (ReliableExit, 's) script" where
  "reliable_closing tick en close_cap hs_rounds tx_rounds =
     script_bind (script_call (so_close (en_a en))) (\<lambda>_.
     script_bind (session_finish tick en close_cap) (\<lambda>cl.
     script_get (\<lambda>s. case cl of
       None \<Rightarrow> RelNotClosed
     | Some close_rounds \<Rightarrow>
         if sessions_closed en s then RelDone hs_rounds tx_rounds close_rounds else RelNotClosed)))"

definition reliable_sending ::
  "(unit, 's) script \<Rightarrow> 's ends \<Rightarrow> nat \<Rightarrow> nat \<Rightarrow> bytes \<Rightarrow> nat \<Rightarrow> (ReliableExit, 's) script" where
  "reliable_sending tick en transfer_cap close_cap payload hs_rounds =
     script_bind (script_call (so_send_on (en_a en) DEFAULT_STREAM_ID payload)) (\<lambda>_.
     script_bind (reliable_transfer tick en (length payload) 1 transfer_cap []) (\<lambda>(received, tx). case tx of
       None \<Rightarrow> script_return (RelIncomplete (length received))
     | Some tx_rounds \<Rightarrow>
         if received \<noteq> payload then script_return RelMismatch
         else reliable_closing tick en close_cap hs_rounds tx_rounds))"

definition reliable_main ::
  "(unit, 's) script \<Rightarrow> 's ends \<Rightarrow> nat \<Rightarrow> nat \<Rightarrow> nat \<Rightarrow> bytes \<Rightarrow> (ReliableExit, 's) script" where
  "reliable_main tick en handshake_cap transfer_cap close_cap payload =
     script_bind (script_call (so_connect (en_a en))) (\<lambda>_.
     script_bind (session_handshake tick en handshake_cap) (\<lambda>hs. case hs of
       None \<Rightarrow> script_return RelNoHandshake
     | Some hs_rounds \<Rightarrow> reliable_sending tick en transfer_cap close_cap payload hs_rounds))"

definition reliable_loopback_main ::
  "(int \<Rightarrow> 'r) \<Rightarrow> 'r rng_ops \<Rightarrow> (ReliableExit result \<times> 'r loop_world duplex) option" where
  "reliable_loopback_main seeded rops =
     reliable_main (advance_clocks (loop_ends rops) reliable_ROUND_DT) (loop_ends rops)
       reliable_MAX_HANDSHAKE_ROUNDS reliable_MAX_TRANSFER_ROUNDS reliable_MAX_CLOSE_ROUNDS reliable_PAYLOAD
       (program_link reliable_HEARTBEAT_INTERVAL reliable_IDLE_TIMEOUT reliable_LOSS (seeded reliable_SEED))"

section \<open>The bytes on the link\<close>

text \<open>
  The ghost of a session program is the log of its default stream. \<open>carried sent got\<close>: end A has sent
  \<open>sent\<close>, end B nothing, B's application has taken \<open>got\<close>, and nothing has raised.
\<close>

definition carried :: "bytes \<Rightarrow> bytes \<Rightarrow> 'r loop_world duplex \<Rightarrow> 'r loop_world duplex StreamLog \<Rightarrow> bool" where
  "carried sent got d l \<longleftrightarrow> lg_state l = d \<and> loop_inv DEFAULT_STREAM_ID l \<and> dx_orderly d \<and>
     lg_sent_a l = sent \<and> lg_sent_b l = [] \<and> concat (lg_got_b l) = got"

lemma default_stream: "DEFAULT_STREAM_ID = 1 + int 0"
  by (simp add: DEFAULT_STREAM_ID_def)

lemma default_kept:
  "kept (loop_inv DEFAULT_STREAM_ID) (log_a DEFAULT_STREAM_ID (end_a DEFAULT_STREAM_ID (loop_ops_a rops)))"
  "kept (loop_inv DEFAULT_STREAM_ID) (log_b DEFAULT_STREAM_ID (end_b DEFAULT_STREAM_ID (loop_ops_b rops)))"
  using duplex_loop.at_a.kept_axioms [of 0 rops] duplex_loop.at_b.kept_axioms [of 0 rops]
  unfolding default_stream by simp_all

lemma carried_pump:
  fixes api :: "'r loop_world duplex session_ops"
  assumes "kept (loop_inv DEFAULT_STREAM_ID) (logged ns ng sid api)"
    and "\<And>d r d'. so_pump api d = Some (Inr r, d') \<Longrightarrow> dx_orderly d' = dx_orderly d"
  shows "ghosted (carried sent got) (so_pump api) (\<lambda>_. carried sent got)"
  unfolding ghosted_def
proof (intro allI impI, elim conjE)
  fix d d' r and l :: "'r loop_world duplex StreamLog"
  assume c: "carried sent got d l" and p: "so_pump api d = Some (Inr r, d')"
  then have "so_pump (logged ns ng sid api) l = Some (Inr r, l\<lparr>lg_state := d'\<rparr>)"
    by (simp add: logged_simps carried_def)
  from kept.pump_kept [OF assms(1) _ this] assms(2) [OF p] c show "\<exists>l'. carried sent got d' l'"
    by (intro exI [of _ "l\<lparr>lg_state := d'\<rparr>"]) (auto simp: carried_def)
qed

lemma carried_pumps:
  "ghosted (carried sent got) (so_pump (en_a (loop_ends rops))) (\<lambda>_. carried sent got)"
  "ghosted (carried sent got) (so_pump (en_b (loop_ends rops))) (\<lambda>_. carried sent got)"
  using default_kept [of rops] unfolding log_a_def log_b_def
  by (auto intro!: carried_pump simp: loop_ends_def, auto simp: end_a_def end_b_def end_defs)

text \<open>Calls that leave the log alone.\<close>

lemma carried_aside:
  fixes f :: "'r loop_world duplex \<Rightarrow> 'a result \<times> 'r loop_world duplex"
  assumes "\<And>d l. loop_inv DEFAULT_STREAM_ID l \<Longrightarrow> loop_inv DEFAULT_STREAM_ID (l\<lparr>lg_state := snd (f (lg_state l))\<rparr>)"
    and "\<And>d. dx_orderly (snd (f d)) = dx_orderly d"
  shows "ghosted (carried sent got) (script_call f) (\<lambda>_. carried sent got)"
  unfolding ghosted_def
proof (intro allI impI, elim conjE)
  fix d d' r and l :: "'r loop_world duplex StreamLog"
  assume c: "carried sent got d l" and p: "script_call f d = Some (Inr r, d')"
  have "d' = snd (f d)" using p by (auto simp: script_call_def split_beta Let_def)
  with c assms(1) [of l] assms(2) [of d] show "\<exists>l'. carried sent got d' l'"
    by (intro exI [of _ "l\<lparr>lg_state := d'\<rparr>"]) (simp add: carried_def)
qed

lemma carried_lifecycle:
  "ghosted (carried sent got) (script_call (so_connect (en_a (loop_ends rops)))) (\<lambda>_. carried sent got)"
  "ghosted (carried sent got) (script_call (so_close (en_a (loop_ends rops)))) (\<lambda>_. carried sent got)"
  "ghosted (carried sent got) (advance_clocks (loop_ends rops) dt) (\<lambda>_. carried sent got)"
proof -
  show "ghosted (carried sent got) (script_call (so_connect (en_a (loop_ends rops)))) (\<lambda>_. carried sent got)"
    using kept.connect_kept [OF default_kept(1) [of rops]]
    by (intro carried_aside) (simp_all add: log_a_def logged_lift_simps loop_ends_def, simp add: end_a_def end_defs split_beta)
  show "ghosted (carried sent got) (script_call (so_close (en_a (loop_ends rops)))) (\<lambda>_. carried sent got)"
    using kept.close_kept [OF default_kept(1) [of rops]]
    by (intro carried_aside) (simp_all add: log_a_def logged_lift_simps loop_ends_def, simp add: end_a_def end_defs split_beta)
  have "ghosted (carried sent got) (script_call (\<lambda>d. (Inr (), between (Wait dt) d))) (\<lambda>_. carried sent got)"
    using between_inv [of DEFAULT_STREAM_ID _ "Wait dt"] by (intro carried_aside) (simp_all add: DEFAULT_STREAM_ID_def)
  then show "ghosted (carried sent got) (advance_clocks (loop_ends rops) dt) (\<lambda>_. carried sent got)"
    by (simp add: advance_clocks_def script_do_def [abs_def] script_call_def [abs_def] loop_ends_def)
qed

text \<open>A side that has sent nothing has nothing queued, so its first send finds the stream flushed.\<close>

lemma silent_step:
  assumes "peer_step q p p'" and "pr_sent p = [] \<longrightarrow> ep_pending (pr_ep p) = []"
  shows "pr_sent p' = [] \<longrightarrow> ep_pending (pr_ep p') = []"
  using assms(1)
proof (cases rule: peer_step_pending)
  case (send data now out ep')
  with assms(2) show ?thesis by (auto simp: arq_send_def)
next
  case (other cs)
  with assms(2) show ?thesis by auto
qed

lemma silent_reach:
  "link_reach ia ib s \<Longrightarrow> (pr_sent (fst s) = [] \<longrightarrow> ep_pending (pr_ep (fst s)) = []) \<and>
     (pr_sent (snd s) = [] \<longrightarrow> ep_pending (pr_ep (snd s)) = [])"
proof (induction rule: link_reach.induct)
  case start
  then show ?case by (auto simp: fresh_peer_def ArqEndpoint_init_def split: if_splits)
next
  case (step s t)
  from step.hyps(2) step.IH show ?case by (cases rule: link_step.cases) (auto dest: silent_step)
qed

lemma carried_flushed: "carried [] got d l \<Longrightarrow> flushed (view (se_mux (dx_a d)) DEFAULT_STREAM_ID)"
proof -
  assume c: "carried [] got d l"
  then obtain p q where "link_reach 0 0 (p, q)" "hosts DEFAULT_STREAM_ID (dx_a d) p (lg_got_a l)" "pr_sent p = []"
    by (auto simp: carried_def stream_inv_def linked_def tied_def)
  with silent_reach show ?thesis by (fastforce simp: hosts_def flushed_def)
qed

lemma carried_send:
  fixes rops :: "'r rng_ops"
  shows "ghosted (carried [] got) (script_call (so_send_on (en_a (loop_ends rops)) DEFAULT_STREAM_ID data)) (\<lambda>_. carried data got)"
  unfolding ghosted_def
proof (intro allI impI, elim conjE)
  fix d d' r and l :: "'r loop_world duplex StreamLog"
  let ?api = "end_a DEFAULT_STREAM_ID (loop_ops_a rops)"
  assume c: "carried [] got d l"
    and s: "script_call (so_send_on (en_a (loop_ends rops)) DEFAULT_STREAM_ID data) d = Some (Inr r, d')"
  from s have s: "so_send_on ?api DEFAULT_STREAM_ID data d = (Inr r, d')"
    by (auto simp: script_call_def loop_ends_def split: prod.splits)
  let ?l = "l\<lparr>lg_state := d', lg_sent_a := lg_sent_a l @ data\<rparr>"
  have "so_send_on (log_a DEFAULT_STREAM_ID ?api) DEFAULT_STREAM_ID data l = (Inr r, ?l)"
    using s c by (simp add: log_a_def logged_simps carried_def)
  with kept.send_kept [OF default_kept(1), of l rops DEFAULT_STREAM_ID data] c have "loop_inv DEFAULT_STREAM_ID ?l"
    by (simp add: carried_def)
  moreover have "dx_orderly d'"
    using s c carried_flushed [OF c] by (auto simp: carried_def end_a_def end_defs sent_orderly_def split: prod.splits)
  ultimately show "\<exists>l'. carried data got d' l'"
    using c by (intro exI [of _ ?l]) (simp add: carried_def)
qed

lemma carried_take:
  fixes rops :: "'r rng_ops"
  shows "ghosted (carried sent got) (script_take (en_b (loop_ends rops))) (\<lambda>chunks. carried sent (got @ concat chunks))"
  unfolding ghosted_def
proof (intro allI impI, elim conjE)
  fix d d' chunks and l :: "'r loop_world duplex StreamLog"
  let ?api = "end_b DEFAULT_STREAM_ID (loop_ops_b rops)"
  assume c: "carried sent got d l" and s: "script_take (en_b (loop_ends rops)) d = Some (Inr chunks, d')"
  from s have s: "so_recv_on ?api DEFAULT_STREAM_ID d = (chunks, d')"
    by (auto simp: script_take_def loop_ends_def split: prod.splits)
  let ?l = "l\<lparr>lg_state := d', lg_got_b := lg_got_b l @ chunks\<rparr>"
  have "so_recv_on (log_b DEFAULT_STREAM_ID ?api) DEFAULT_STREAM_ID l = (chunks, ?l)"
    using s c by (simp add: log_b_def logged_simps carried_def)
  with kept.recv_kept [OF default_kept(2), of l rops DEFAULT_STREAM_ID] c have "loop_inv DEFAULT_STREAM_ID ?l"
    by (simp add: carried_def)
  moreover have "dx_orderly d'"
    using s c by (auto simp: carried_def end_b_def end_defs split: prod.splits)
  ultimately show "\<exists>l'. carried sent (got @ concat chunks) d' l'"
    using c by (intro exI [of _ ?l]) (simp add: carried_def)
qed

text \<open>What the receiver has is a beginning of what was sent.\<close>

lemma carried_prefix: "carried sent got d l \<Longrightarrow> int (length sent) < SEQ_HALF \<Longrightarrow> take (length got) sent = got"
  using stream_inv_ok [of _ _ DEFAULT_STREAM_ID l] by (auto simp: carried_def stream_ok_def SEQ_HALF_def)

lemma carried_transfer:
  "length got < wanted \<Longrightarrow>
   ghosted (carried sent got) (reliable_transfer (advance_clocks (loop_ends rops) dt) (loop_ends rops) wanted rnd left got)
     (\<lambda>(received, tx) d l. carried sent received d l \<and>
        (case tx of None \<Rightarrow> length received < wanted
         | Some n \<Rightarrow> wanted \<le> length received \<and> rnd \<le> n \<and> n < rnd + left))"
proof (induction left arbitrary: rnd got)
  case (Suc left)
  show ?case
    unfolding reliable_transfer.simps
    by (intro ghosted_bind [OF carried_lifecycle(3)] ghosted_bind [OF carried_pumps(1)] ghosted_bind [OF carried_pumps(2)]
        ghosted_bind [OF carried_take] ghosted_if ghosted_return ghosted_weaken [OF Suc.IH])
      (auto split: option.splits)
qed (simp add: ghosted_return)

definition reliable_ok :: "'s ends \<Rightarrow> nat \<Rightarrow> nat \<Rightarrow> nat \<Rightarrow> bytes \<Rightarrow> ReliableExit \<Rightarrow> 's \<Rightarrow> bool" where
  "reliable_ok en hc tc cc payload e s \<longleftrightarrow> (case e of
       RelIncomplete n \<Rightarrow> n < length payload
     | RelMismatch \<Rightarrow> False
     | RelDone h t c \<Rightarrow> h \<in> {1..hc} \<and> t \<in> {1..tc} \<and> c \<in> {1..cc} \<and> sessions_closed en s
     | _ \<Rightarrow> True)"

abbreviation reliable_post ::
  "'r rng_ops \<Rightarrow> nat \<Rightarrow> nat \<Rightarrow> nat \<Rightarrow> bytes \<Rightarrow> ReliableExit \<Rightarrow> 'r loop_world duplex \<Rightarrow> 'r loop_world duplex StreamLog \<Rightarrow> bool" where
  "reliable_post rops hc tc cc payload e d l \<equiv> reliable_ok (loop_ends rops) hc tc cc payload e d"

lemma reliable_closing_ok:
  assumes "h \<in> {1..hc}" and "n \<in> {1..tc}"
  shows "ghosted (carried sent got) (reliable_closing (advance_clocks (loop_ends rops) dt) (loop_ends rops) cc h n)
    (reliable_post rops hc tc cc payload)"
  unfolding reliable_closing_def using assms
  by (intro ghosted_bind [OF carried_lifecycle(2)] ghosted_get
      ghosted_bind [OF ghosted_phases(2) [OF carried_lifecycle(3) carried_pumps]])
    (auto simp: reliable_ok_def split: option.splits)

lemma reliable_sending_ok:
  assumes "int (length payload) < SEQ_HALF" and "payload \<noteq> []" and "h \<in> {1..hc}"
  shows "ghosted (carried [] []) (reliable_sending (advance_clocks (loop_ends rops) dt) (loop_ends rops) tc cc payload h)
    (reliable_post rops hc tc cc payload)"
  unfolding reliable_sending_def
proof (rule ghosted_bind [OF carried_send], rule ghosted_bind [OF carried_transfer], use assms(2) in simp, unfold split_paired_all prod.case)
  fix got tx
  let ?R = "\<lambda>d l. carried payload got d l \<and> (case tx of None \<Rightarrow> length got < length payload
      | Some n \<Rightarrow> length payload \<le> length got \<and> 1 \<le> n \<and> n < 1 + tc)"
  have eq: "got = payload" if "?R d l" "tx = Some n" for d n and l :: "'a loop_world duplex StreamLog"
    using that carried_prefix [of payload got d l] assms(1) by simp
  show "ghosted ?R (case tx of None \<Rightarrow> script_return (RelIncomplete (length got))
      | Some n \<Rightarrow> if got \<noteq> payload then script_return RelMismatch
          else reliable_closing (advance_clocks (loop_ends rops) dt) (loop_ends rops) cc h n)
      (reliable_post rops hc tc cc payload)"
  proof (rule ghosted_option, goal_cases)
    case 1
    then show ?case by (auto intro!: ghosted_return simp: reliable_ok_def)
  next
    case (2 n)
    show ?case
    proof (cases "got = payload \<and> n \<in> {1..tc}")
      case True
      with assms(3) show ?thesis by (auto intro: ghosted_weaken [OF reliable_closing_ok])
    next
      case False
      with 2 eq show ?thesis by (auto simp: ghosted_def)
    qed
  qed
qed

lemma reliable_main_ok:
  assumes "int (length payload) < SEQ_HALF" and "payload \<noteq> []"
  shows "ghosted (carried [] []) (reliable_main (advance_clocks (loop_ends rops) dt) (loop_ends rops) hc tc cc payload)
     (reliable_post rops hc tc cc payload)"
  unfolding reliable_main_def
proof (rule ghosted_bind [OF carried_lifecycle(1)],
    rule ghosted_bind [OF ghosted_phases(1) [OF carried_lifecycle(3) carried_pumps]], rule ghosted_option, goal_cases)
  case 1
  then show ?case by (auto intro!: ghosted_return simp: reliable_ok_def)
next
  case (2 evs hs h)
  show ?case
  proof (cases "h \<in> {1..hc}")
    case True
    then show ?thesis by (auto intro: ghosted_weaken [OF reliable_sending_ok [OF assms]])
  qed (use 2 in \<open>auto simp: ghosted_def\<close>)
qed

section \<open>session_loopback.py\<close>

definition session_HEARTBEAT_INTERVAL :: time where "session_HEARTBEAT_INTERVAL = 1"
definition session_IDLE_TIMEOUT :: time where "session_IDLE_TIMEOUT = 3"
definition session_MAX_HANDSHAKE_ROUNDS :: nat where "session_MAX_HANDSHAKE_ROUNDS = 20"
definition session_MAX_CLOSE_ROUNDS :: nat where "session_MAX_CLOSE_ROUNDS = 20"

datatype SessionExit = SesNoHandshake | SesDropped | SesNotClosed | SesDone

text \<open>\<open>for beat in range(1, 3)\<close>: past the interval, one heartbeat each way.\<close>

fun session_beats :: "'s ends \<Rightarrow> nat \<Rightarrow> (bool, 's) script" where
  "session_beats en 0 = script_return True"
| "session_beats en (Suc left) =
     script_bind (advance_clocks en (session_HEARTBEAT_INTERVAL + 1 / 100)) (\<lambda>_.
     script_bind (so_pump (en_a en)) (\<lambda>_.
     script_bind (so_pump (en_b en)) (\<lambda>_.
     script_bind (so_pump (en_a en)) (\<lambda>_.
     script_bind (script_get (sessions_established en)) (\<lambda>alive.
       if \<not> alive then script_return False else session_beats en left)))))"

definition session_main :: "'s ends \<Rightarrow> (SessionExit, 's) script" where
  "session_main en =
     script_bind (script_call (so_connect (en_a en))) (\<lambda>_.
     script_bind (session_handshake (script_return ()) en session_MAX_HANDSHAKE_ROUNDS) (\<lambda>hs.
       if hs = None then script_return SesNoHandshake
       else
         script_bind (session_beats en 2) (\<lambda>alive.
         if \<not> alive then script_return SesDropped
         else
           script_bind (script_call (so_close (en_a en))) (\<lambda>_.
           script_bind (session_finish (script_return ()) en session_MAX_CLOSE_ROUNDS) (\<lambda>cl.
           script_get (\<lambda>s. if cl \<noteq> None \<and> sessions_closed en s then SesDone else SesNotClosed))))))"

definition session_loopback_main ::
  "(int \<Rightarrow> 'r) \<Rightarrow> 'r rng_ops \<Rightarrow> (SessionExit result \<times> 'r loop_world duplex) option" where
  "session_loopback_main seeded rops =
     session_main (loop_ends rops) (program_link session_HEARTBEAT_INTERVAL session_IDLE_TIMEOUT 0 (seeded 0))"

section \<open>Evaluated runs\<close>

lemmas session_demo_calls = session_handshake_def session_finish_def session_turn_def advance_clocks_def
  sessions_established_def sessions_closed_def demo_calls

lemma session_run_evaluated:
  assumes "never_drops rops 0"
  shows "\<exists>d. session_loopback_main seeded rops = Some (Inr SesDone, d) \<and> sessions_closed (loop_ends rops) d \<and>
    clock_t (lw_clock (dx_world d)) = 2 * (session_HEARTBEAT_INTERVAL + 1 / 100)"
  using assms
  by (simp add: session_loopback_main_def session_main_def session_MAX_HANDSHAKE_ROUNDS_def session_MAX_CLOSE_ROUNDS_def
      numeral_2_eq_2 session_HEARTBEAT_INTERVAL_def session_IDLE_TIMEOUT_def session_demo_calls cong: weak)

lemma payload_slices:
  obtains p1 p2 p3 p4 where "py_slices 200 reliable_PAYLOAD = [p1, p2, p3, p4]" "p1 @ p2 @ p3 @ p4 = reliable_PAYLOAD"
    "length p1 = 200" "length p2 = 200" "length p3 = 200" "length p4 = 140"
proof
  have n: "length reliable_PAYLOAD = 740" by (simp add: reliable_PAYLOAD_def length_concat sum_list_replicate)
  let ?p = "\<lambda>k. take 200 (drop (k * 200) reliable_PAYLOAD)"
  show "py_slices 200 reliable_PAYLOAD = [?p 0, ?p 1, ?p 2, ?p 3]"
    by (simp add: py_slices_def n upt_rec)
  from concat_py_slices [of 200 reliable_PAYLOAD] this show "?p 0 @ ?p 1 @ ?p 2 @ ?p 3 = reliable_PAYLOAD" by simp
  show "length (?p 0) = 200" "length (?p 1) = 200" "length (?p 2) = 200" "length (?p 3) = 140" by (simp_all add: n)
qed

lemma reliable_transfer_num:
  "reliable_transfer tick en wanted rnd (numeral k) received =
     script_bind tick (\<lambda>_.
     script_bind (so_pump (en_a en)) (\<lambda>_.
     script_bind (so_pump (en_b en)) (\<lambda>_.
     script_bind (script_take (en_b en)) (\<lambda>chunks.
       if wanted \<le> length (received @ concat chunks) then script_return (received @ concat chunks, Some rnd)
       else reliable_transfer tick en wanted (Suc rnd) (pred_numeral k) (received @ concat chunks)))))"
  by (simp add: numeral_eq_Suc)

lemma reliable_run_evaluated:
  "\<exists>d. reliable_loopback_main (\<lambda>_. ()) quiet_rng = Some (Inr (RelDone 2 1 2), d)"
proof -
  obtain p1 p2 p3 p4 where p: "py_slices 200 reliable_PAYLOAD = [p1, p2, p3, p4]" "p1 @ p2 @ p3 @ p4 = reliable_PAYLOAD"
    "length p1 = 200" "length p2 = 200" "length p3 = 200" "length p4 = 140"
    by (rule payload_slices)
  have n: "length reliable_PAYLOAD = 740" using p(3-6) by (simp add: p(2) [symmetric])
  then have ne: "reliable_PAYLOAD \<noteq> []" by auto
  show ?thesis
    by (simp add: reliable_loopback_main_def reliable_main_def reliable_sending_def reliable_closing_def script_take_def
      reliable_MAX_HANDSHAKE_ROUNDS_def reliable_MAX_TRANSFER_ROUNDS_def reliable_MAX_CLOSE_ROUNDS_def reliable_transfer_num
      reliable_HEARTBEAT_INTERVAL_def reliable_IDLE_TIMEOUT_def reliable_LOSS_def reliable_SEED_def reliable_ROUND_DT_def
      session_demo_calls p n ne cong: weak)
qed

section \<open>Properties\<close>

text \<open>
  \<open>reliable_loopback.py\<close> never reports reassembled bytes that differ from the payload, whatever frames
  the link drops: a run that ends without an exception delivers the payload exactly or has received
  fewer bytes when the rounds run out. With success both sessions are closed and every phase ended
  within its cap. Nothing is assumed of the run: the program sends once, on a stream that has
  nothing queued, and an exception ends it.
\<close>

theorem reliable_demo_delivers:
  assumes "reliable_loopback_main seeded rops = Some (Inr e, d)"
  shows "e \<noteq> RelMismatch \<and> (\<forall>n. e = RelIncomplete n \<longrightarrow> n < length reliable_PAYLOAD) \<and>
    (\<forall>h t c. e = RelDone h t c \<longrightarrow>
       h \<in> {1..200} \<and> t \<in> {1..400} \<and> c \<in> {1..200} \<and> sessions_closed (loop_ends rops) d)"
proof -
  have n: "length reliable_PAYLOAD = 740" by (simp add: reliable_PAYLOAD_def length_concat sum_list_replicate)
  then have p: "int (length reliable_PAYLOAD) < SEQ_HALF" "reliable_PAYLOAD \<noteq> []" by (auto simp: SEQ_HALF_def)
  let ?s = "program_link reliable_HEARTBEAT_INTERVAL reliable_IDLE_TIMEOUT reliable_LOSS (seeded reliable_SEED)"
  have "carried [] [] ?s (new_log ?s)"
    using program_link_inv by (simp add: carried_def) (simp add: new_log_def program_link_def duplex_start_def)
  from ghostedD [OF reliable_main_ok [OF p] this assms [unfolded reliable_loopback_main_def]] show ?thesis
    by (auto simp: reliable_ok_def reliable_MAX_HANDSHAKE_ROUNDS_def reliable_MAX_TRANSFER_ROUNDS_def
        reliable_MAX_CLOSE_ROUNDS_def)
qed

theorem reliable_demo_delivers_witness:
  "\<exists>d. reliable_loopback_main (\<lambda>_. ()) quiet_rng = Some (Inr (RelDone 2 1 2), d) \<and>
     sessions_closed (loop_ends quiet_rng) d"
proof -
  obtain d where d: "reliable_loopback_main (\<lambda>_. ()) quiet_rng = Some (Inr (RelDone 2 1 2), d)"
    using reliable_run_evaluated by blast
  with reliable_demo_delivers [OF d] show ?thesis by auto
qed

text \<open>
  \<open>session_loopback.py\<close> succeeds over its lossless pair, for every generator whose draws are not
  negative. Its two heartbeats take 2.02 seconds, less than the idle timeout of 3 seconds, so the
  sessions would have lived as long without them.
\<close>

theorem session_demo_succeeds:
  assumes "\<And>r. 0 \<le> fst (rng_random rops r)"
  shows "\<exists>d. session_loopback_main seeded rops = Some (Inr SesDone, d) \<and> sessions_closed (loop_ends rops) d \<and>
    clock_t (lw_clock (dx_world d)) < session_IDLE_TIMEOUT"
proof -
  have "never_drops rops 0" using assms by (simp add: never_drops_def)
  from session_run_evaluated [OF this] obtain d where "session_loopback_main seeded rops = Some (Inr SesDone, d)"
    "sessions_closed (loop_ends rops) d" "clock_t (lw_clock (dx_world d)) = 2 * (session_HEARTBEAT_INTERVAL + 1 / 100)"
    by blast
  then show ?thesis by (auto simp: session_IDLE_TIMEOUT_def session_HEARTBEAT_INTERVAL_def)
qed

theorem session_demo_succeeds_witness:
  "\<exists>d. session_loopback_main (\<lambda>_. ()) quiet_rng = Some (Inr SesDone, d) \<and> sessions_closed (loop_ends quiet_rng) d"
  using session_demo_succeeds [of quiet_rng "\<lambda>_. ()"] by (auto simp: quiet_rng_def)

lemma session_demos_return:
  "reliable_loopback_main seeded rops \<noteq> None" "session_loopback_main seeded rops \<noteq> None"
proof -
  note calls = session_calls_return [OF loop_pumps_return [of rops]]
  have take: "script_returns (script_take (en_b (loop_ends rops)))"
    by (simp add: script_returns_def script_take_def split_beta Let_def)
  have tick: "script_returns (advance_clocks (loop_ends rops) dt)" for dt by (simp add: advance_clocks_def)
  have transfer: "script_returns (reliable_transfer (advance_clocks (loop_ends rops) dt) (loop_ends rops) wanted rnd left received)"
    for dt wanted rnd left received
    by (induction left arbitrary: rnd received) (auto intro!: script_returns_intros tick calls(1,2) [OF tick] take)
  have "script_returns (reliable_main (advance_clocks (loop_ends rops) dt) (loop_ends rops) hc tc cc payload)"
    for dt hc tc cc payload
    unfolding reliable_main_def reliable_sending_def reliable_closing_def
    by (intro script_returns_intros calls(4-6) [OF tick] transfer, unfold split_paired_all prod.case)
      (intro script_returns_intros calls(4-6) [OF tick])
  then show "reliable_loopback_main seeded rops \<noteq> None" by (auto simp: reliable_loopback_main_def script_returns_def)
  have beats: "script_returns (session_beats (loop_ends rops) left)" for left
    by (induction left) (auto intro!: script_returns_intros tick calls(1,2) [OF tick])
  have "script_returns (session_main (loop_ends rops))"
    unfolding session_main_def
    by (intro script_returns_intros calls(4-6) [OF script_returns_basic(1)] beats)
  then show "session_loopback_main seeded rops \<noteq> None" by (auto simp: session_loopback_main_def script_returns_def)
qed

end
