(* ===== verification/Echo_Demo.thy ===== *)
theory Echo_Demo
  imports Demo_Link Utf8
begin

text \<open>
  \<open>examples/echo_loopback.py\<close>: texts sent as single packets from one end of a noiseless loopback pair
  and read back at the other. The generator of the pair is a parameter; what is printed is left out.
\<close>

definition echo_MESSAGES :: "pstr list" where
  "echo_MESSAGES =
     [code_points ''Hello, PhotonTCP over light!'',
      [46160, 32, 48264, 51704, 32, 47700, 49884, 51648, 51077, 45768, 45796, 32] @ code_points ''(UTF-8 '' @ [54620, 44544]
        @ code_points '').'',
      code_points ''Photons carry packets at c.'',
      []]"

definition echo_SESSION_ID :: int where "echo_SESSION_ID = 4660"
definition echo_STREAM_ID :: int where "echo_STREAM_ID = 0"

definition echo_packet :: "bytes \<Rightarrow> int \<Rightarrow> Packet" where
  "echo_packet payload seq =
     \<lparr>ptype = DATA, p_session_id = echo_SESSION_ID, p_stream_id = echo_STREAM_ID, p_seq = seq, p_ack = 0,
      p_window = 0, p_flags = Flags_NONE, p_version = PROTOCOL_VERSION, p_payload = payload\<rparr>"

text \<open>Out: text to packet to frame.\<close>

definition echo_send :: "'w world_ops \<Rightarrow> pstr \<Rightarrow> int \<Rightarrow> 'w \<Rightarrow> unit result \<times> 'w" where
  "echo_send ch_send msg seq w =
     (case utf8_encode msg of
        Inl e \<Rightarrow> (Inl e, w)
      | Inr payload \<Rightarrow>
          (case pack (echo_packet payload seq) of
             Inl e \<Rightarrow> (Inl e, w)
           | Inr raw \<Rightarrow> w_send ch_send raw w))"

text \<open>And back: \<open>None\<close> when the time runs out.\<close>

definition echo_recv :: "'w world_ops \<Rightarrow> time \<Rightarrow> 'w \<Rightarrow> pstr option result \<times> 'w" where
  "echo_recv ch_recv timeout w =
     (case w_recv ch_recv timeout w of
        (Inl e, w1) \<Rightarrow> (Inl e, w1)
      | (Inr None, w1) \<Rightarrow> (Inr None, w1)
      | (Inr (Some raw), w1) \<Rightarrow>
          (case unpack raw of
             Inl e \<Rightarrow> (Inl e, w1)
           | Inr received \<Rightarrow> (map_sum id Some (utf8_decode (p_payload received)), w1)))"

definition echo_once :: "'w world_ops \<Rightarrow> 'w world_ops \<Rightarrow> pstr \<Rightarrow> int \<Rightarrow> 'w \<Rightarrow> bool result \<times> 'w" where
  "echo_once ch_send ch_recv msg seq w =
     (case echo_send ch_send msg seq w of
        (Inl e, w1) \<Rightarrow> (Inl e, w1)
      | (Inr _, w1) \<Rightarrow>
          (let (r, w2) = echo_recv ch_recv 1 w1 in (map_sum id (\<lambda>decoded. decoded = Some msg) r, w2)))"

fun echo_all :: "'w world_ops \<Rightarrow> 'w world_ops \<Rightarrow> int \<Rightarrow> bool \<Rightarrow> pstr list \<Rightarrow> 'w \<Rightarrow> bool result \<times> 'w" where
  "echo_all ch_a ch_b seq all_ok [] w = (Inr all_ok, w)"
| "echo_all ch_a ch_b seq all_ok (msg # rest) w =
     (case echo_once ch_a ch_b msg seq w of
        (Inl e, w1) \<Rightarrow> (Inl e, w1)
      | (Inr ok, w1) \<Rightarrow> echo_all ch_a ch_b (seq + 1) (all_ok \<and> ok) rest w1)"

definition close_pair :: "'r loop_world \<Rightarrow> 'r loop_world" where
  "close_pair w =
     w\<lparr>lw_pair := (lw_pair w)\<lparr>lp_a := loopback_close (lp_a (lw_pair w)), lp_b := loopback_close (lp_b (lw_pair w))\<rparr>\<rparr>"

text \<open>The exit code; the pair has no noise (all parameters of \<open>pair()\<close> are 0).\<close>

definition echo_main :: "'r rng_ops \<Rightarrow> pstr list \<Rightarrow> 'r \<Rightarrow> int result \<times> 'r loop_world" where
  "echo_main rops texts rng =
     (case echo_all (loop_ops_a rops) (loop_ops_b rops) 1 True texts
             \<lparr>lw_pair = loopback_pair_init rng 0 0 0 0 0 0, lw_clock = ManualClock_init 0\<rparr> of
        (Inl e, w) \<Rightarrow> (Inl e, w)
      | (Inr all_ok, w) \<Rightarrow> (Inr (if all_ok then 0 else 1), close_pair w))"

section \<open>Properties\<close>

definition sendable :: "pstr \<Rightarrow> bool" where
  "sendable msg \<longleftrightarrow> list_all utf8_ok msg \<and> length (concat (map utf8_char msg)) < 65536"

lemma echo_once_calm:
  assumes "never_drops rops 0" and "sendable msg" and "0 \<le> seq" and "seq < 4294967296"
  shows "echo_once (loop_ops_a rops) (loop_ops_b rops) msg seq (calm_world 0 [] [] now r) =
    (Inr True, calm_world 0 [] [] now (draw4 rops r))"
proof -
  obtain payload where e: "utf8_encode msg = Inr payload" and n: "length payload < 65536"
    using assms(2) by (auto simp: utf8_encode_def sendable_def)
  have "packet_ok (echo_packet payload seq)"
    using assms(3,4) n
    by (simp add: packet_ok_def echo_packet_def fits_def echo_SESSION_ID_def echo_STREAM_ID_def Flags_NONE_def PROTOCOL_VERSION_def)
  with framed have "pack (echo_packet payload seq) = Inr (framed (echo_packet payload seq))"
    "unpack (framed (echo_packet payload seq)) = Inr (echo_packet payload seq)" by blast+
  with e utf8_decode_encode [OF e] show ?thesis
    by (simp add: echo_once_def echo_send_def echo_recv_def calm_send [OF assms(1)] calm_world_ops)
      (simp add: echo_packet_def)
qed

lemma echo_all_calm:
  assumes "never_drops rops 0"
  shows "list_all sendable texts \<Longrightarrow> 0 \<le> seq \<Longrightarrow> seq + int (length texts) \<le> 4294967296 \<Longrightarrow>
    \<exists>r'. echo_all (loop_ops_a rops) (loop_ops_b rops) seq True texts (calm_world 0 [] [] now r) =
      (Inr True, calm_world 0 [] [] now r')"
proof (induction texts arbitrary: seq r)
  case (Cons msg texts)
  with echo_once_calm [OF assms, of msg seq now r] Cons.IH [of "seq + 1" "draw4 rops r"] show ?case by simp
qed auto

text \<open>
  \<open>echo_loopback.py\<close> exits with 0, for every generator whose draws are not negative and every list
  of texts UTF-8 can encode within a payload: each is read back as it was sent, no frame is left
  and both ends are closed.
\<close>

theorem echo_demo_matches:
  assumes "\<And>r. 0 \<le> fst (rng_random rops r)" and "list_all sendable texts" and "length texts < 4294967295"
  shows "\<exists>w. echo_main rops texts rng = (Inr 0, w) \<and> lp_q_ab (lw_pair w) = [] \<and> lp_q_ba (lw_pair w) = [] \<and>
    lb_closed (lp_a (lw_pair w)) \<and> lb_closed (lp_b (lw_pair w))"
proof -
  have nd: "never_drops rops 0" using assms(1) by (simp add: never_drops_def)
  have w: "\<lparr>lw_pair = loopback_pair_init rng 0 0 0 0 0 0, lw_clock = ManualClock_init 0\<rparr> = calm_world 0 [] [] 0 rng"
    by (simp add: calm_world_def loopback_pair_init_def LoopbackChannel_init_def Let_def)
  from echo_all_calm [OF nd assms(2), of 1 0 rng] assms(3) obtain r'
    where "echo_all (loop_ops_a rops) (loop_ops_b rops) 1 True texts (calm_world 0 [] [] 0 rng) =
      (Inr True, calm_world 0 [] [] 0 r')" by auto
  then show ?thesis
    by (simp add: echo_main_def w close_pair_def loopback_close_def) (simp add: calm_world_def)
qed

theorem echo_demo_matches_witness:
  "\<exists>w. echo_main quiet_rng echo_MESSAGES () = (Inr 0, w) \<and> lp_q_ab (lw_pair w) = []"
proof -
  have "list_all sendable echo_MESSAGES"
    by (simp add: echo_MESSAGES_def sendable_def code_points_def utf8_ok_def utf8_char_def)
  with echo_demo_matches [of quiet_rng echo_MESSAGES "()"] show ?thesis
    by (auto simp: quiet_rng_def echo_MESSAGES_def)
qed

end
