(* ===== verification/Spec2Isabelle.thy ===== *)
theory Spec2Isabelle
  imports Arq_Props Machine_Props Session_Props Chat_Props File_Claims Sha256_Vector
    Qr_Props Optical_Pair Image_Loopback Peer_Props Chat_Sessions File_Sessions
    Cv2_Devices Kivy_Props Mobile_Props Chat_Loopback Qr_Loopback Session_Demos Echo_Demo
begin

text \<open>
  PhotonTCP: a reliable transport over an optical channel (\<open>photontcp/\<close>, Python). A packet is
  serialized with a checksum; a Selective Repeat endpoint per stream makes delivery reliable; a
  multiplexer holds the endpoints; a state machine opens, watches and closes the session; the
  session driver moves packets between these and a channel; chat and file transfer run on streams.
  A channel is an in-memory pair (of bytes or of QR images) or a display and a camera.

  The development follows that order. Each source file has a theory that models it, definition by
  definition, and the theories of its properties stand beside it.

  \<^descr> Vocabulary. \<open>Prelude\<close> (exceptions as values, dictionaries as insertion-ordered association
  lists, bytes, times as reals) and \<open>Py_Struct\<close> (big-endian fields). A method that can raise and
  mutates its object returns the result beside the new state, so the state a raise leaves behind
  can be stated. \<open>None\<close> is kept for calls that do not return.

  \<^descr> Packets. \<open>Crc\<close> (\<open>packet/crc.py\<close>), \<open>Packet\<close> (\<open>packet/types.py\<close>, \<open>packet/header.py\<close>): pack and
  unpack are inverse, every error is characterised, every one-byte change is rejected.

  \<^descr> Reliability. \<open>Serial\<close>, \<open>Rto\<close>, \<open>Arq\<close> (\<open>reliability/\<close>). \<open>Arq_Inv\<close>, \<open>Arq_Sender\<close> and \<open>Arq_Receiver\<close>
  hold the invariants of one endpoint, \<open>Arq_Link\<close> those of two endpoints over a channel that loses,
  repeats and reorders, \<open>Arq_Props\<close> what follows for the delivered bytes, and a run in which newer
  bytes overtake older ones.

  \<^descr> Streams and sessions. \<open>Mux\<close> (\<open>stream/mux.py\<close>): a product of independent endpoints. \<open>Machine\<close>
  (\<open>session/states.py\<close>, \<open>session/state_machine.py\<close>) with \<open>Machine_Props\<close>: until a machine is
  reopened after a completed close, every step is the one move that an abstract, labelled lifecycle has
  for its trigger (a call, a packet, silence, retransmissions used up); agreement of the two ends, the
  retry and idle timers, and what goes wrong with a reopened machine. \<open>Session\<close> (\<open>session/session.py\<close>,
  \<open>session/clock.py\<close>) with \<open>Session_Props\<close>, over a world with three operations: send, receive, now.
  The drain loop may run forever, so it is a partial function; the locale \<open>finite_world\<close> says when
  it returns and \<open>queue_world\<close> what damaged frames do.

  \<^descr> Channels. \<open>Channel\<close> states the interface as locales: \<open>frame_channel\<close> (no frame out of nowhere)
  and \<open>packet_channel\<close>. \<open>Loopback\<close>, \<open>Image_Loopback\<close> (\<open>channel/\<close>) and \<open>Optical\<close> (\<open>optical/channel.py\<close>,
  with \<open>Devices\<close> for \<open>optical/devices.py\<close>) are interpretations. \<open>Optical_Props\<close> and \<open>Optical_Pair\<close> show
  exactly-once delivery in order for the in-memory pair, when the decoder reads every frame the channel
  can encode.

  \<^descr> QR codec. \<open>Base64\<close>, \<open>Qr_Encode\<close>, \<open>Qr_Decode\<close>, \<open>Qr_Props\<close> (\<open>qr/\<close>): the pixels of a frame, the
  cascade of image variants, the alternate detector and the registry of backends. A maker that draws
  bars and the reader of its images (\<open>bars_segno\<close>, \<open>bars_read\<close>) read each other on every frame; the
  witnesses of the optical pair and of the QR program run over them.

  \<^descr> Applications. \<open>Utf8\<close>, \<open>Json\<close> and \<open>Json_Props\<close>, \<open>Sha256\<close> and \<open>Sha256_Vector\<close> are the parts of the
  standard library the formats rest on. \<open>Framing\<close> is the locale of a reassembler, interpreted by
  \<open>Chat_Codec\<close> (\<open>app/codec.py\<close>) and \<open>File_Codec\<close> (\<open>app/file_codec.py\<close>). \<open>Session_Api\<close> is the locale of
  what an application calls on a session, interpreted on \<open>Session\<close>. \<open>Chat\<close> (\<open>app/chat.py\<close>) and
  \<open>File_Transfer\<close> (\<open>app/file.py\<close>) run over it; \<open>Chat_Props\<close>, and \<open>File_Run\<close>, \<open>File_Inv\<close>, \<open>File_Props\<close>,
  \<open>File_Ideal\<close>, \<open>File_Claims\<close>, show what they promise when the streams deliver in order. \<open>Peer\<close>
  (\<open>optical/peer.py\<close>) drives one side of a whole conversation; \<open>Peer_Props\<close> shows that it returns and
  what its result says.

  \<^descr> Composition. \<open>Streams\<close> puts one stream of a multiplexer next to an endpoint of \<open>Arq_Link\<close>.
  \<open>Duplex\<close> (locale \<open>carrier\<close>) shows that every call of a session, a whole pump with all frames it
  drains included, is a series of link steps on each stream. \<open>Two_Sessions\<close> joins two sessions by
  a loopback pair and shows that the calls of both ends keep the link invariant (\<open>stream_inv\<close>) as
  long as the run is orderly: no pump and no send of an established session has raised, and every
  send found its stream flushed. \<open>Stream_Props\<close> states what the applications see of it, and
  evaluates a whole conversation, handshake, data, retransmission queue and reading, symbolically.
  \<open>Chat_Sessions\<close> and \<open>File_Sessions\<close> put chat and file transfer on top: their calls are calls of
  the session on one stream, so the assumption of \<open>Chat_Props\<close> and \<open>File_Claims\<close> that streams are
  in order is a theorem there, over a channel that loses, repeats, corrupts and holds back frames.

  \<^descr> Devices and the phone app. \<open>Cv2_Devices\<close> (\<open>optical/cv2_devices.py\<close>): the window and the webcam
  as devices of an optical channel, over the calls of OpenCV; a webcam whose driver buffers frames,
  and may block while it waits for one, stays at the newest one. \<open>Ndarray\<close> holds the few array operations of numpy that \<open>Kivy_Frames\<close>
  (\<open>mobile/kivy_devices.py\<close>, the pixels) needs. \<open>Kivy_Devices\<close> has the two adapters of that file,
  with each critical section as one step and the steps of all threads in any order; \<open>Kivy_Props\<close>
  shows that no frame is stranded and no capture is taken twice. \<open>Cancellable\<close> and \<open>Mobile_App\<close>
  (\<open>mobile/app.py\<close>): the Stop switch around the channel, the settings, the status lines, the
  handlers of the buttons, the permission flow and the worker. \<open>Mobile_Props\<close> runs the app as a whole.

  \<^descr> The programs (\<open>examples/\<close>). \<open>Script\<close> holds their shape: calls that may raise or not return, loops with
  a cap, the handshake and the close of two sessions in one process, and rules for a ghost state beside a
  run. \<open>Demo_Link\<close> makes their link and a calm one on which runs are evaluated. \<open>Demo_Drive\<close> and
  \<open>Chat_Loopback\<close> (\<open>chat_loopback.py\<close>): a run of the program is a conversation of \<open>Chat\<close> (\<open>Demo_Shadow\<close>,
  over any pair of channels that carries two sessions, \<open>Talk_Link\<close>), so
  the ERROR line for differing messages is unreachable. \<open>Qr_Loopback\<close> (\<open>qr_loopback.py\<close>) runs the same shape over
  images (\<open>Image_Link\<close>) and succeeds with every maker and decoder that read each other. \<open>Session_Demos\<close> (\<open>reliable_loopback.py\<close>,
  \<open>session_loopback.py\<close>) and \<open>Echo_Demo\<close> (\<open>echo_loopback.py\<close>) follow the same plan; \<open>World_Kept\<close> shows that
  no call moves the clock.

  Bounds and fuel. The JSON parser has fuel, twice the length of the text and two more, and
  \<open>parse_fuel\<close> shows that it never runs out. The rounds of \<open>run_peer\<close> and of \<open>run_until\<close> are the
  caps of the code. All other loops are structural or have a measure; only the drain loop of the
  session and what calls it may be \<open>None\<close>. The ARQ link is followed while a sender has put fewer
  than half of the sequence space on the wire (\<open>small\<close>), the limit of serial-number arithmetic.

  Parameters. The random generator of the loopback channels, the text of a float and its
  parsing, \<open>segno.make\<close>, OpenCV, the clocks and the camera are arguments of the definitions that
  use them. Where a property needs something of them it says so and a witness shows an instance.

  Not modelled: IEEE rounding, the recursion limit of the interpreter, log messages and most
  exception texts, the introspection of a decoder backend's signature, real time in the blocking
  calls of queues. The capture thread of the optical channel is a step that comes in any order
  between the calls. Of \<open>mobile/app.py\<close> the layout of the widgets, the subclass of the camera4kivy
  preview and the probe for Android are left out: their outcomes are arguments. What the
  programs under \<open>examples/\<close> print is left out, and those of them that are benchmarks, camera checks or
  build checks are not modelled.
\<close>

end
